(* ===== verification/Lrucache.thy ===== *)
theory Lrucache
  imports Prelude
begin

text \<open>
  The generation-guarded LRU cache of \<open>framework/lrucache/lrucache.go\<close>. List elements are
  pointers in the code (\<open>Get\<close> compares them), so they are addresses here: \<open>elem_at\<close> is the heap
  of \<open>*list.Element\<close> values, \<open>lc_items\<close> and \<open>lc_order\<close> hold addresses. Every section of code
  that runs under \<open>c.mu\<close> is one function; \<open>Get\<close>, \<open>EvictWhere\<close> and \<open>Fill\<close>, which
  release the mutex, are split at those points and the step relation below interleaves the pieces.
  The receiver is a constructed cache: on a nil one every method returns at its first line. The
  loader is caller code: a fill takes what it returned.
\<close>

section \<open>State\<close>

record 'v lru_entry =
  le_key :: string
  le_indexKey :: string
  le_value :: 'v
  le_version :: "64 word"

record 'v lru_cache =
  lc_capacity :: int
  lc_items :: "(string, nat) gomap"
  lc_order :: "nat list"
  elem_at :: "nat \<Rightarrow> 'v lru_entry option"
  next_elem :: nat
  lc_byIndex :: "(string, string) gomap"
  lc_generation :: "64 word"
  lc_validator :: "('v \<Rightarrow> bool) option"

section \<open>Operations\<close>

text \<open>\<open>New\<close> panics on a non-positive capacity.\<close>

definition lru_New :: "int \<Rightarrow> ('v \<Rightarrow> bool) option \<Rightarrow> 'v lru_cache option" where
  "lru_New capacity valid =
     (if capacity \<le> 0 then None
      else Some \<lparr>lc_capacity = capacity, lc_items = [], lc_order = [], elem_at = (\<lambda>_. None),
        next_elem = 0, lc_byIndex = [], lc_generation = 0, lc_validator = valid\<rparr>)"

definition move_to_front :: "nat \<Rightarrow> nat list \<Rightarrow> nat list" where
  "move_to_front e xs = (if e \<in> set xs then e # remove1 e xs else xs)"

definition drop_index :: "string \<Rightarrow> string \<Rightarrow> (string, string) gomap \<Rightarrow> (string, string) gomap" where
  "drop_index indexKey key m =
     (if indexKey \<noteq> [] \<and> gm_get m indexKey = Some key then gm_del indexKey m else m)"

definition removeLocked :: "'v lru_cache \<Rightarrow> nat \<Rightarrow> 'v lru_cache" where
  "removeLocked c e =
     (case elem_at c e of
        None \<Rightarrow> c
      | Some ent \<Rightarrow>
          c\<lparr>lc_order := remove1 e (lc_order c), lc_items := gm_del (le_key ent) (lc_items c),
            lc_byIndex := drop_index (le_indexKey ent) (le_key ent) (lc_byIndex c)\<rparr>)"

definition bump :: "'v lru_cache \<Rightarrow> 'v lru_cache" where
  "bump c = c\<lparr>lc_generation := lc_generation c + 1\<rparr>"

definition remove_key :: "'v lru_cache \<Rightarrow> string \<Rightarrow> 'v lru_cache" where
  "remove_key c key = (case gm_get (lc_items c) key of Some e \<Rightarrow> removeLocked c e | None \<Rightarrow> c)"

definition evictIndexOwnerLocked :: "'v lru_cache \<Rightarrow> string \<Rightarrow> string \<Rightarrow> 'v lru_cache" where
  "evictIndexOwnerLocked c indexKey newKey =
     (case gm_get (lc_byIndex c) indexKey of
        None \<Rightarrow> c
      | Some owner \<Rightarrow>
          if owner = newKey then c
          else (case gm_get (lc_items c) owner of
                  None \<Rightarrow> c
                | Some ownerElem \<Rightarrow> removeLocked (bump c) ownerElem))"

definition bind_index :: "'v lru_cache \<Rightarrow> string \<Rightarrow> string \<Rightarrow> 'v lru_cache" where
  "bind_index c indexKey key =
     (if indexKey \<noteq> [] then c\<lparr>lc_byIndex := gm_set indexKey key (lc_byIndex c)\<rparr> else c)"

definition evict_owner :: "'v lru_cache \<Rightarrow> string \<Rightarrow> string \<Rightarrow> 'v lru_cache" where
  "evict_owner c indexKey key = (if indexKey \<noteq> [] then evictIndexOwnerLocked c indexKey key else c)"

text \<open>The two branches of \<open>setIfGeneration\<close>: an entry updated in place, and a new one.\<close>

definition set_existing :: "'v lru_cache \<Rightarrow> nat \<Rightarrow> 'v lru_entry \<Rightarrow> string \<Rightarrow> string \<Rightarrow> 'v \<Rightarrow> 'v lru_cache" where
  "set_existing c e ent key indexKey v =
     (let c1 = (if le_indexKey ent \<noteq> indexKey
                then c\<lparr>lc_byIndex := drop_index (le_indexKey ent) key (lc_byIndex c)\<rparr> else c);
          c2 = c1\<lparr>elem_at := (elem_at c1)(e \<mapsto>
                 ent\<lparr>le_value := v, le_indexKey := indexKey, le_version := le_version ent + 1\<rparr>)\<rparr>;
          c3 = bind_index (evict_owner c2 indexKey key) indexKey key
      in c3\<lparr>lc_order := move_to_front e (lc_order c3)\<rparr>)"

definition push_entry :: "'v lru_cache \<Rightarrow> string \<Rightarrow> string \<Rightarrow> 'v \<Rightarrow> 'v lru_cache" where
  "push_entry c key indexKey v =
     (let e = next_elem c
      in c\<lparr>elem_at := (elem_at c)(e \<mapsto>
             \<lparr>le_key = key, le_indexKey = indexKey, le_value = v, le_version = 0\<rparr>),
           next_elem := Suc e, lc_order := e # lc_order c, lc_items := gm_set key e (lc_items c)\<rparr>)"

definition evict_tail :: "'v lru_cache \<Rightarrow> 'v lru_cache" where
  "evict_tail c =
     (if int (length (lc_order c)) \<ge> lc_capacity c \<and> lc_order c \<noteq> []
      then removeLocked c (last (lc_order c)) else c)"

definition set_fresh :: "'v lru_cache \<Rightarrow> string \<Rightarrow> string \<Rightarrow> 'v \<Rightarrow> 'v lru_cache" where
  "set_fresh c key indexKey v =
     bind_index (push_entry (evict_tail (evict_owner c indexKey key)) key indexKey v) indexKey key"

definition setIfGeneration :: "'v lru_cache \<Rightarrow> string \<Rightarrow> string \<Rightarrow> 'v \<Rightarrow> 64 word \<Rightarrow> 'v lru_cache" where
  "setIfGeneration c key indexKey v gen =
     (if lc_generation c \<noteq> gen then c
      else (case gm_get (lc_items c) key of
              Some e \<Rightarrow>
                (case elem_at c e of
                   Some ent \<Rightarrow> set_existing c e ent key indexKey v
                 | None \<Rightarrow> c)
            | None \<Rightarrow> set_fresh c key indexKey v))"

definition lru_Evict :: "'v lru_cache \<Rightarrow> string \<Rightarrow> 'v lru_cache" where
  "lru_Evict c key = remove_key (bump c) key"

definition lru_EvictByIndex :: "'v lru_cache \<Rightarrow> string \<Rightarrow> 'v lru_cache" where
  "lru_EvictByIndex c indexKey =
     (if indexKey = [] then c
      else (case gm_get (lc_byIndex (bump c)) indexKey of
              Some key \<Rightarrow> remove_key (bump c) key
            | None \<Rightarrow> bump c))"

text \<open>\<open>EvictWhere\<close>: the snapshot of the keys under the first lock, the removal under the second.\<close>

definition lru_keys :: "'v lru_cache \<Rightarrow> string list" where
  "lru_keys c = map (\<lambda>e. case elem_at c e of Some ent \<Rightarrow> le_key ent | None \<Rightarrow> []) (lc_order c)"

definition evict_where_begin :: "'v lru_cache \<Rightarrow> 'v lru_cache \<times> string list" where
  "evict_where_begin c = (bump c, lru_keys (bump c))"

definition evict_where_end :: "'v lru_cache \<Rightarrow> string list \<Rightarrow> 'v lru_cache" where
  "evict_where_end c toRemove = foldl remove_key c toRemove"

definition lru_EvictWhere :: "'v lru_cache \<Rightarrow> (string \<Rightarrow> bool) \<Rightarrow> 'v lru_cache" where
  "lru_EvictWhere c pred =
     (let (c', ks) = evict_where_begin c in evict_where_end c' (filter pred ks))"

definition lru_Flush :: "'v lru_cache \<Rightarrow> 'v lru_cache" where
  "lru_Flush c = (bump c)\<lparr>lc_items := [], lc_byIndex := [], lc_order := []\<rparr>"

definition lru_Len :: "'v lru_cache \<Rightarrow> nat" where
  "lru_Len c = length (lc_order c)"

text \<open>\<open>Get\<close>: what the first locked section reads, and what the second does with the verdict.\<close>

definition lru_get_read :: "'v lru_cache \<Rightarrow> string \<Rightarrow> (nat \<times> 'v \<times> 64 word) option" where
  "lru_get_read c key =
     (case gm_get (lc_items c) key of
        None \<Rightarrow> None
      | Some e \<Rightarrow> map_option (\<lambda>ent. (e, le_value ent, le_version ent)) (elem_at c e))"

definition lru_valid :: "'v lru_cache \<Rightarrow> 'v \<Rightarrow> bool" where
  "lru_valid c v = (case lc_validator c of None \<Rightarrow> True | Some valid \<Rightarrow> valid v)"

definition lru_get_finish :: "'v lru_cache \<Rightarrow> string \<Rightarrow> nat \<times> 'v \<times> 64 word \<Rightarrow> 'v lru_cache \<times> 'v option" where
  "lru_get_finish c key = (\<lambda>(e, v, version).
     if \<not> lru_valid c v then
       (if gm_get (lc_items c) key = Some e \<and> map_option le_version (elem_at c e) = Some version
        then removeLocked c e else c, None)
     else
       (if gm_get (lc_items c) key = Some e then c\<lparr>lc_order := move_to_front e (lc_order c)\<rparr> else c,
        Some v))"

definition lru_Get :: "'v lru_cache \<Rightarrow> string \<Rightarrow> 'v lru_cache \<times> 'v option" where
  "lru_Get c key =
     (case lru_get_read c key of None \<Rightarrow> (c, None) | Some r \<Rightarrow> lru_get_finish c key r)"

section \<open>Composite keys\<close>

fun EncodeKey :: "string list \<Rightarrow> string" where
  "EncodeKey [] = []"
| "EncodeKey (p # ps) = itoa (int (length p)) @ CHR '':'' # p @ EncodeKey ps"

text \<open>One part: the text up to the first colon has to be the canonical numeral of a length that
  fits in the rest.\<close>

definition decode_part :: "string \<Rightarrow> (string \<times> string) option" where
  "decode_part rest =
     (case str_index rest '':'' of
        None \<Rightarrow> None
      | Some i \<Rightarrow>
          (case atoi (take i rest) of
             None \<Rightarrow> None
           | Some len \<Rightarrow>
               if len < 0 \<or> itoa len \<noteq> take i rest then None
               else (let rest' = drop (i + 1) rest
                     in if len > int (length rest') then None
                        else Some (take (nat len) rest', drop (nat len) rest'))))"

fun decode_parts :: "nat \<Rightarrow> string \<Rightarrow> string list \<Rightarrow> string list option" where
  "decode_parts 0 rest parts = (if rest \<noteq> [] then None else Some parts)"
| "decode_parts (Suc n) rest parts =
     (case decode_part rest of
        None \<Rightarrow> None
      | Some (p, rest') \<Rightarrow> decode_parts n rest' (parts @ [p]))"

definition DecodeKey :: "string \<Rightarrow> int \<Rightarrow> string list option" where
  "DecodeKey key n = (if n < 0 then None else decode_parts (nat n) key [])"


section \<open>Invariant\<close>

abbreviation ent_of :: "'v lru_cache \<Rightarrow> nat \<Rightarrow> 'v lru_entry" where
  "ent_of c e \<equiv> the (elem_at c e)"

abbreviation key_of :: "'v lru_cache \<Rightarrow> nat \<Rightarrow> string" where
  "key_of c e \<equiv> le_key (ent_of c e)"

abbreviation idx_of :: "'v lru_cache \<Rightarrow> nat \<Rightarrow> string" where
  "idx_of c e \<equiv> le_indexKey (ent_of c e)"

text \<open>The key map is the inverse of the list's keys, the index is the inverse of the list's index
  keys, and the list is bounded by the capacity.\<close>

definition lru_inv :: "'v lru_cache \<Rightarrow> bool" where
  "lru_inv c \<longleftrightarrow>
     int (length (lc_order c)) \<le> lc_capacity c \<and> 0 < lc_capacity c \<and>
     distinct (lc_order c) \<and> (\<forall>e \<in> set (lc_order c). e < next_elem c \<and> elem_at c e \<noteq> None) \<and>
     (\<forall>k e. gm_get (lc_items c) k = Some e \<longleftrightarrow> e \<in> set (lc_order c) \<and> key_of c e = k) \<and>
     (\<forall>i k. gm_get (lc_byIndex c) i = Some k \<longleftrightarrow>
        i \<noteq> [] \<and> (\<exists>e \<in> set (lc_order c). idx_of c e = i \<and> key_of c e = k))"

lemma lru_invD:
  assumes "lru_inv c"
  shows "int (length (lc_order c)) \<le> lc_capacity c" and "0 < lc_capacity c"
    and "distinct (lc_order c)"
    and "\<And>e. e \<in> set (lc_order c) \<Longrightarrow> e < next_elem c"
    and "\<And>e. e \<in> set (lc_order c) \<Longrightarrow> elem_at c e = Some (ent_of c e)"
    and "\<And>k e. gm_get (lc_items c) k = Some e \<longleftrightarrow> e \<in> set (lc_order c) \<and> key_of c e = k"
    and "\<And>i k. gm_get (lc_byIndex c) i = Some k \<longleftrightarrow>
        i \<noteq> [] \<and> (\<exists>e \<in> set (lc_order c). idx_of c e = i \<and> key_of c e = k)"
  using assms by (auto simp: lru_inv_def)

lemma lru_invI:
  assumes "int (length (lc_order c)) \<le> lc_capacity c" and "0 < lc_capacity c"
    and "distinct (lc_order c)"
    and "\<And>e. e \<in> set (lc_order c) \<Longrightarrow> e < next_elem c \<and> elem_at c e \<noteq> None"
    and "\<And>k e. gm_get (lc_items c) k = Some e \<longleftrightarrow> e \<in> set (lc_order c) \<and> key_of c e = k"
    and "\<And>i k. gm_get (lc_byIndex c) i = Some k \<longleftrightarrow>
        i \<noteq> [] \<and> (\<exists>e \<in> set (lc_order c). idx_of c e = i \<and> key_of c e = k)"
  shows "lru_inv c"
  using assms by (simp add: lru_inv_def)

lemma lru_key_inj:
  "lru_inv c \<Longrightarrow> e \<in> set (lc_order c) \<Longrightarrow> e' \<in> set (lc_order c) \<Longrightarrow> key_of c e = key_of c e' \<Longrightarrow> e = e'"
  using lru_invD(6) [of c "key_of c e" e] lru_invD(6) [of c "key_of c e'" e'] by simp

lemma lru_idx_inj:
  assumes "lru_inv c" and "e \<in> set (lc_order c)" and "e' \<in> set (lc_order c)"
    and "idx_of c e = idx_of c e'" and "idx_of c e \<noteq> []"
  shows "e = e'"
proof -
  have "gm_get (lc_byIndex c) (idx_of c e) = Some (key_of c e)"
    and "gm_get (lc_byIndex c) (idx_of c e) = Some (key_of c e')"
    using assms lru_invD(7) [OF assms(1)] by metis+
  then show ?thesis using lru_key_inj [OF assms(1-3)] by simp
qed

lemma lru_inv_New: "lru_New cap valid = Some c \<Longrightarrow> lru_inv c"
  by (auto simp: lru_New_def lru_inv_def split: if_splits)

lemma lru_inv_bump [simp]: "lru_inv (bump c) = lru_inv c"
  by (simp add: lru_inv_def bump_def)

lemma bump_simps [simp]:
  "lc_order (bump c) = lc_order c" "lc_items (bump c) = lc_items c" "elem_at (bump c) = elem_at c"
  "lc_byIndex (bump c) = lc_byIndex c" "lc_generation (bump c) = lc_generation c + 1"
  "lc_capacity (bump c) = lc_capacity c" "next_elem (bump c) = next_elem c"
  by (simp_all add: bump_def)

lemma set_move_to_front [simp]: "set (move_to_front e xs) = set xs"
  by (auto simp: move_to_front_def dest: set_remove1_subset [THEN subsetD])
    (metis in_set_remove1)

lemma length_move_to_front [simp]: "length (move_to_front e xs) = length xs"
  by (auto simp: move_to_front_def length_remove1 dest: length_pos_if_in_set)

lemma distinct_move_to_front [simp]: "distinct xs \<Longrightarrow> distinct (move_to_front e xs)"
  by (simp add: move_to_front_def)

lemma lru_inv_move [inv_intros]:
  "lru_inv c \<Longrightarrow> lru_inv (c\<lparr>lc_order := move_to_front e (lc_order c)\<rparr>)"
  by (simp add: lru_inv_def)

lemma removeLocked_simps [simp]:
  "lc_capacity (removeLocked c e) = lc_capacity c" "next_elem (removeLocked c e) = next_elem c"
  "elem_at (removeLocked c e) = elem_at c" "lc_generation (removeLocked c e) = lc_generation c"
  by (simp_all add: removeLocked_def split: option.splits)

lemma removeLocked_order:
  "lru_inv c \<Longrightarrow> e \<in> set (lc_order c) \<Longrightarrow> lc_order (removeLocked c e) = remove1 e (lc_order c)"
  using lru_invD(5) [of c e] by (auto simp: removeLocked_def split: option.splits)

lemma lru_inv_removeLocked [inv_intros]:
  assumes inv: "lru_inv c" and e: "e \<in> set (lc_order c)"
  shows "lru_inv (removeLocked c e)"
proof -
  let ?c = "removeLocked c e"
  note D = lru_invD [OF inv]
  have s: "set (lc_order ?c) = set (lc_order c) - {e}"
    using D(3) by (simp add: removeLocked_order [OF inv e] set_remove1_eq)
  have items: "lc_items ?c = gm_del (key_of c e) (lc_items c)"
    and idx: "lc_byIndex ?c = drop_index (idx_of c e) (key_of c e) (lc_byIndex c)"
    using D(5) [OF e] by (auto simp: removeLocked_def split: option.splits)
  have "gm_get (lc_items ?c) k = Some x \<longleftrightarrow> x \<in> set (lc_order ?c) \<and> key_of ?c x = k" for k x
    using D(6) [of k x] lru_key_inj [OF inv e, of x] by (auto simp: items s)
  moreover have "gm_get (lc_byIndex ?c) i = Some k \<longleftrightarrow>
      i \<noteq> [] \<and> (\<exists>x \<in> set (lc_order ?c). idx_of ?c x = i \<and> key_of ?c x = k)" for i k
  proof (cases "i = idx_of c e")
    case True
    then have "gm_get (lc_byIndex ?c) i = None"
      using D(7) [of i "key_of c e"] D(7) [of i] e by (cases "gm_get (lc_byIndex c) i") (auto simp: idx drop_index_def)
    moreover have "\<not> (\<exists>x \<in> set (lc_order ?c). idx_of ?c x = i)" if "i \<noteq> []"
      using lru_idx_inj [OF inv e] that True by (metis DiffE insertI1 removeLocked_simps(3) s)
    ultimately show ?thesis by auto
  next
    case False
    then show ?thesis using D(7) [of i k] by (auto simp: idx drop_index_def s)
  qed
  moreover have "int (length (lc_order ?c)) \<le> lc_capacity c"
    using D(1) length_remove1 [of e "lc_order c"] by (simp add: removeLocked_order [OF inv e] split: if_splits)
  moreover have "x < next_elem c \<and> elem_at c x \<noteq> None" if "x \<in> set (lc_order ?c)" for x
    using that D(4) [of x] D(5) [of x] by (simp add: s) blast
  moreover have "distinct (lc_order ?c)" using D(3) by (simp add: removeLocked_order [OF inv e])
  ultimately show ?thesis using D(2) by (intro lru_invI) simp_all
qed

lemma lru_inv_remove_key [inv_intros]: "lru_inv c \<Longrightarrow> lru_inv (remove_key c k)"
  by (auto simp: remove_key_def lru_invD(6) intro: inv_intros split: option.splits)

lemma lru_inv_evict_owner [inv_intros]: "lru_inv c \<Longrightarrow> lru_inv (evict_owner c i k)"
  by (auto simp: evict_owner_def evictIndexOwnerLocked_def lru_invD(6) intro!: inv_intros
      split: option.splits)

subsection \<open>The two branches of an install\<close>

lemma evict_owner_simps [simp]:
  "lc_capacity (evict_owner c i k) = lc_capacity c" "next_elem (evict_owner c i k) = next_elem c"
  "elem_at (evict_owner c i k) = elem_at c"
  by (auto simp: evict_owner_def evictIndexOwnerLocked_def split: option.splits)

lemma evict_owner_order:
  assumes "lru_inv c"
  shows "lc_order (evict_owner c i k) =
    filter (\<lambda>x. i = [] \<or> idx_of c x \<noteq> i \<or> key_of c x = k) (lc_order c)"
proof (cases "i \<noteq> [] \<and> (\<exists>x \<in> set (lc_order c). idx_of c x = i \<and> key_of c x \<noteq> k)")
  case True
  then obtain x where x: "i \<noteq> []" "x \<in> set (lc_order c)" "idx_of c x = i" "key_of c x \<noteq> k" by blast
  then have "gm_get (lc_byIndex c) i = Some (key_of c x)" "gm_get (lc_items c) (key_of c x) = Some x"
    using lru_invD(6,7) [OF assms] by metis+
  with x have "lc_order (evict_owner c i k) = remove1 x (lc_order c)"
    using removeLocked_order [of "bump c" x] assms by (simp add: evict_owner_def evictIndexOwnerLocked_def)
  also have "\<dots> = filter (\<lambda>y. y \<noteq> x) (lc_order c)"
    using lru_invD(3) [OF assms] by (simp add: distinct_remove1_removeAll removeAll_filter_not_eq) metis
  also have "\<dots> = filter (\<lambda>y. i = [] \<or> idx_of c y \<noteq> i \<or> key_of c y = k) (lc_order c)"
  proof (rule filter_cong [OF refl])
    fix y assume "y \<in> set (lc_order c)"
    then show "y \<noteq> x \<longleftrightarrow> i = [] \<or> idx_of c y \<noteq> i \<or> key_of c y = k"
      using x lru_idx_inj [OF assms x(2), of y] by metis
  qed
  finally show ?thesis .
next
  case False
  have "evict_owner c i k = c"
  proof (cases "i = []")
    case False
    then have "gm_get (lc_byIndex c) i = Some k' \<Longrightarrow> k' = k" for k'
      using lru_invD(7) [OF assms, of i k'] \<open>\<not> (i \<noteq> [] \<and> _)\<close> by metis
    then show ?thesis by (simp add: evict_owner_def evictIndexOwnerLocked_def split: option.splits)
  qed (simp add: evict_owner_def)
  moreover have "filter (\<lambda>x. i = [] \<or> idx_of c x \<noteq> i \<or> key_of c x = k) (lc_order c) = lc_order c"
    using False by (intro filter_True) blast
  ultimately show ?thesis by simp
qed

lemma evict_owner_sole:
  assumes "lru_inv c" and "i \<noteq> []" and "gm_get (lc_byIndex (evict_owner c i k)) i = Some k'"
  shows "k' = k"
proof -
  have "lru_inv (evict_owner c i k)" using assms(1) by (rule inv_intros)
  from lru_invD(7) [OF this] assms(2,3) show ?thesis
    by (auto simp: evict_owner_order [OF assms(1)])
qed

text \<open>An update in place is the eviction of another owner of the index key, then a change of the
  entry alone.\<close>

definition rewrite_entry ::
  "'v lru_cache \<Rightarrow> nat \<Rightarrow> 'v lru_entry \<Rightarrow> string \<Rightarrow> string \<Rightarrow> 'v \<Rightarrow> 'v lru_cache" where
  "rewrite_entry c e ent key indexKey v =
     bind_index (c\<lparr>lc_byIndex := (if le_indexKey ent \<noteq> indexKey
                   then drop_index (le_indexKey ent) key (lc_byIndex c) else lc_byIndex c),
        elem_at := (elem_at c)(e \<mapsto>
          ent\<lparr>le_value := v, le_indexKey := indexKey, le_version := le_version ent + 1\<rparr>)\<rparr>) indexKey key"

lemma drop_index_twist:
  "i \<noteq> j \<Longrightarrow> drop_index i k (drop_index j k' m) = drop_index j k' (drop_index i k m)"
  by (simp add: drop_index_def delete_twist)

lemma drop_index_other: "j \<noteq> i \<Longrightarrow> gm_get (drop_index j k m) i = gm_get m i"
  by (simp add: drop_index_def)

lemma set_existing_eq:
  assumes inv: "lru_inv c" and e: "gm_get (lc_items c) k = Some e" and ent: "elem_at c e = Some ent"
  shows "set_existing c e ent k i v = (let c1 = rewrite_entry (evict_owner c i k) e ent k i v
    in c1\<lparr>lc_order := move_to_front e (lc_order c1)\<rparr>)"
proof -
  have key: "le_key ent = k" using lru_invD(6) [OF inv, of k e] e ent by simp
  have owner: "elem_at c x = Some ent' \<Longrightarrow> x \<noteq> e \<and> le_indexKey ent' = i \<and> le_key ent' = k'"
    if i: "i \<noteq> []" and b: "gm_get (lc_byIndex c) i = Some k'" and n: "k' \<noteq> k"
      and x: "gm_get (lc_items c) k' = Some x" for x k' ent'
  proof -
    obtain y where y: "y \<in> set (lc_order c)" "idx_of c y = i" "key_of c y = k'"
      using lru_invD(7) [OF inv, of i k'] i b by blast
    then have "y = x" using x lru_invD(6) [OF inv, of k' y] by simp
    then show "elem_at c x = Some ent' \<Longrightarrow> x \<noteq> e \<and> le_indexKey ent' = i \<and> le_key ent' = k'"
      using y n ent key by auto
  qed
  show ?thesis
  proof (cases "i \<noteq> [] \<and> (\<exists>k' x. gm_get (lc_byIndex c) i = Some k' \<and> k' \<noteq> k \<and> gm_get (lc_items c) k' = Some x)")
    case True
    then obtain k' x where o: "i \<noteq> []" "gm_get (lc_byIndex c) i = Some k'" "k' \<noteq> k"
      "gm_get (lc_items c) k' = Some x" by blast
    obtain ent' where ent': "elem_at c x = Some ent'"
      using o(4) lru_invD(5,6) [OF inv] by metis
    note w = owner [OF o ent']
    show ?thesis using o w ent'
      by (cases "le_indexKey ent = i") (simp_all add: drop_index_other set_existing_def rewrite_entry_def evict_owner_def evictIndexOwnerLocked_def
          removeLocked_def bind_index_def bump_def Let_def drop_index_twist)
  next
    case False
    then have noop: "evict_owner c' i k = c'"
      if "gm_get (lc_byIndex c') i = gm_get (lc_byIndex c) i" and "lc_items c' = lc_items c" for c' :: "'a lru_cache"
      using that by (auto simp: evict_owner_def evictIndexOwnerLocked_def split: option.splits)
    show ?thesis
      by (cases "le_indexKey ent = i")
         (simp_all add: set_existing_def rewrite_entry_def Let_def noop drop_index_other)
  qed
qed

lemma rewrite_entry_simps [simp]:
  "lc_capacity (rewrite_entry c e ent k i v) = lc_capacity c"
  "next_elem (rewrite_entry c e ent k i v) = next_elem c"
  "lc_order (rewrite_entry c e ent k i v) = lc_order c"
  "lc_items (rewrite_entry c e ent k i v) = lc_items c"
  "lc_generation (rewrite_entry c e ent k i v) = lc_generation c"
  "elem_at (rewrite_entry c e ent k i v) = (elem_at c)(e \<mapsto>
     ent\<lparr>le_value := v, le_indexKey := i, le_version := le_version ent + 1\<rparr>)"
  by (simp_all add: rewrite_entry_def bind_index_def)

lemma rewrite_entry_index:
  "gm_get (lc_byIndex (rewrite_entry c e ent k i v)) j =
     (if j = i \<and> i \<noteq> [] then Some k
      else if j = le_indexKey ent \<and> j \<noteq> i \<and> j \<noteq> [] \<and> gm_get (lc_byIndex c) j = Some k then None
      else gm_get (lc_byIndex c) j)"
  by (auto simp: rewrite_entry_def bind_index_def drop_index_def)

lemma lru_inv_rewrite:
  assumes inv: "lru_inv c" and e: "gm_get (lc_items c) k = Some e" and ent: "elem_at c e = Some ent"
    and sole: "\<And>k'. i \<noteq> [] \<Longrightarrow> gm_get (lc_byIndex c) i = Some k' \<Longrightarrow> k' = k"
  shows "lru_inv (rewrite_entry c e ent k i v)"
proof -
  let ?c = "rewrite_entry c e ent k i v"
  note D = lru_invD [OF inv]
  have eo: "e \<in> set (lc_order c)" and key: "le_key ent = k" using D(6) [of k e] e ent by simp_all
  have keys: "key_of ?c x = key_of c x" for x using ent by simp
  have idxs: "idx_of ?c x = (if x = e then i else idx_of c x)" for x by simp
  have only: "x = e" if "x \<in> set (lc_order c)" and "key_of c x = k" for x
    using that lru_key_inj [OF inv eo, of x] ent key by simp
  have "gm_get (lc_byIndex ?c) j = Some k' \<longleftrightarrow>
      j \<noteq> [] \<and> (\<exists>x \<in> set (lc_order ?c). idx_of ?c x = j \<and> key_of ?c x = k')" for j k'
  proof (cases "j = i \<or> j = [] \<or> j = le_indexKey ent")
    case True
    consider "j = []" | "j = i" "i \<noteq> []" | "j = le_indexKey ent" "j \<noteq> i" "j \<noteq> []" using True by auto
    then show ?thesis
    proof cases
      case 1
      then show ?thesis using D(7) [of j k'] by (auto simp: rewrite_entry_index)
    next
      case 2
      have "key_of c x = k" if "x \<in> set (lc_order c)" "x = e \<or> idx_of c x = i" for x
        using that 2 sole D(7) [of i "key_of c x"] ent key by auto
      then show ?thesis using 2 eo ent key
        by (simp add: rewrite_entry_index idxs keys) (metis option.sel)
    next
      case 3
      have "idx_of c e = j \<and> key_of c e = k" using 3 ent key by simp
      then have "gm_get (lc_byIndex c) j = Some k" using D(7) [of j k] 3 eo by blast
      then have "gm_get (lc_byIndex ?c) j = None" using 3 by (simp add: rewrite_entry_index)
      moreover have "idx_of ?c x \<noteq> j" if "x \<in> set (lc_order c)" for x
        using lru_idx_inj [OF inv eo that] 3 ent by (auto simp: idxs)
      ultimately show ?thesis by simp
    qed
  next
    case False
    then have "idx_of ?c x = j \<longleftrightarrow> idx_of c x = j" for x using ent by (auto simp: idxs)
    then have "(\<exists>x \<in> set (lc_order ?c). idx_of ?c x = j \<and> key_of ?c x = k') =
        (\<exists>x \<in> set (lc_order c). idx_of c x = j \<and> key_of c x = k')"
      by (simp only: keys rewrite_entry_simps(3))
    then show ?thesis using False D(7) [of j k']
      by (simp add: rewrite_entry_index del: rewrite_entry_simps)
  qed
  moreover have "gm_get (lc_items ?c) k' = Some x \<longleftrightarrow> x \<in> set (lc_order ?c) \<and> key_of ?c x = k'" for k' x
    using D(6) [of k' x] ent by simp
  moreover have "x < next_elem ?c \<and> elem_at ?c x \<noteq> None" if "x \<in> set (lc_order ?c)" for x
    using that D(4) [of x] D(5) [of x] by simp blast
  ultimately show ?thesis using D(1-3) by (intro lru_invI) simp_all
qed

lemma lru_inv_set_existing:
  assumes inv: "lru_inv c" and e: "gm_get (lc_items c) k = Some e" and ent: "elem_at c e = Some ent"
  shows "lru_inv (set_existing c e ent k i v)"
proof -
  let ?c = "evict_owner c i k"
  have i: "lru_inv ?c" using inv by (rule inv_intros)
  have "gm_get (lc_items ?c) k = Some e"
    using lru_invD(6) [OF i, of k e] lru_invD(6) [OF inv, of k e] e by (simp add: evict_owner_order [OF inv])
  then have "lru_inv (rewrite_entry ?c e ent k i v)"
    using i ent evict_owner_sole [OF inv] by (intro lru_inv_rewrite) simp_all
  then show ?thesis unfolding set_existing_eq [OF assms] Let_def by (rule lru_inv_move)
qed

lemma lru_inv_push:
  assumes inv: "lru_inv c" and new: "gm_get (lc_items c) k = None"
    and room: "int (length (lc_order c)) < lc_capacity c"
    and free: "i \<noteq> [] \<Longrightarrow> gm_get (lc_byIndex c) i = None"
  shows "lru_inv (bind_index (push_entry c k i v) i k)"
proof -
  let ?c = "bind_index (push_entry c k i v) i k" and ?e = "next_elem c"
  note D = lru_invD [OF inv]
  have o: "lc_order ?c = ?e # lc_order c" and it: "lc_items ?c = gm_set k ?e (lc_items c)"
    and el: "elem_at ?c = (elem_at c)(?e \<mapsto> \<lparr>le_key = k, le_indexKey = i, le_value = v, le_version = 0\<rparr>)"
    and nx: "next_elem ?c = Suc ?e" and cap: "lc_capacity ?c = lc_capacity c"
    by (simp_all add: bind_index_def push_entry_def Let_def)
  have ix: "gm_get (lc_byIndex ?c) j = (if j = i \<and> i \<noteq> [] then Some k else gm_get (lc_byIndex c) j)" for j
    by (simp add: bind_index_def push_entry_def Let_def)
  have fresh: "?e \<notin> set (lc_order c)" using D(4) by blast
  have nokey: "key_of c x \<noteq> k" if "x \<in> set (lc_order c)" for x
    using D(6) [of k x] new that by auto
  have noidx: "idx_of c x \<noteq> i" if "x \<in> set (lc_order c)" "i \<noteq> []" for x
    using D(7) [of i "key_of c x"] free that by auto
  have old: "x \<noteq> ?e" if "x \<in> set (lc_order c)" for x using that fresh by blast
  have "gm_get (lc_items ?c) k' = Some x \<longleftrightarrow> x \<in> set (lc_order ?c) \<and> key_of ?c x = k'" for k' x
    using D(6) [of k' x] nokey [of x] fresh by (auto simp: o it el)
  moreover have "gm_get (lc_byIndex ?c) j = Some k' \<longleftrightarrow>
      j \<noteq> [] \<and> (\<exists>x \<in> set (lc_order ?c). idx_of ?c x = j \<and> key_of ?c x = k')" for j k'
    using D(7) [of j k'] noidx by (auto simp: o el ix old)
  moreover have "x < next_elem ?c \<and> elem_at ?c x \<noteq> None" if "x \<in> set (lc_order ?c)" for x
    using that D(4) [of x] D(5) [of x] by (auto simp: o nx el)
  ultimately show ?thesis using D(2,3) room fresh by (intro lru_invI) (simp_all add: o cap)
qed

lemma evict_tail_order:
  assumes "lru_inv c"
  shows "lc_order (evict_tail c) = take (nat (lc_capacity c - 1)) (lc_order c)"
proof -
  note D = lru_invD [OF assms]
  show ?thesis
  proof (cases "int (length (lc_order c)) \<ge> lc_capacity c")
    case True
    then have n: "lc_order c \<noteq> []" and l: "int (length (lc_order c)) = lc_capacity c" using D(1,2) by auto
    then have "lc_order (evict_tail c) = remove1 (last (lc_order c)) (lc_order c)"
      by (simp add: evict_tail_def removeLocked_order [OF assms])
    also have "\<dots> = butlast (lc_order c)"
      using D(3) n by (cases "lc_order c" rule: rev_cases) (simp_all add: remove1_append)
    also have "\<dots> = take (nat (lc_capacity c - 1)) (lc_order c)"
      using n by (simp add: butlast_conv_take l [symmetric] nat_diff_distrib Suc_le_eq)
    finally show ?thesis .
  qed (simp add: evict_tail_def)
qed

lemma lru_inv_evict_tail [inv_intros]: "lru_inv c \<Longrightarrow> lru_inv (evict_tail c)"
  by (simp add: evict_tail_def inv_intros)

lemma evict_tail_simps [simp]:
  "lc_capacity (evict_tail c) = lc_capacity c" "elem_at (evict_tail c) = elem_at c"
  "next_elem (evict_tail c) = next_elem c" "lc_generation (evict_tail c) = lc_generation c"
  by (simp_all add: evict_tail_def)

lemma lru_inv_set_fresh:
  assumes inv: "lru_inv c" and new: "gm_get (lc_items c) k = None"
  shows "lru_inv (set_fresh c k i v)"
  unfolding set_fresh_def
proof (rule lru_inv_push)
  let ?o = "evict_owner c i k"
  have io: "lru_inv ?o" using inv by (rule inv_intros)
  then show it: "lru_inv (evict_tail ?o)" by (rule inv_intros)
  have k: "key_of c x \<noteq> k" if "x \<in> set (lc_order c)" for x
    using lru_invD(6) [OF inv, of k x] new that by auto
  have sub: "set (lc_order (evict_tail ?o)) \<subseteq> {x \<in> set (lc_order c). i = [] \<or> idx_of c x \<noteq> i}"
  proof
    fix x assume "x \<in> set (lc_order (evict_tail ?o))"
    then have "x \<in> set (lc_order ?o)" unfolding evict_tail_order [OF io] by (rule in_set_takeD)
    then have "x \<in> set (lc_order c)" "i = [] \<or> idx_of c x \<noteq> i \<or> key_of c x = k"
      unfolding evict_owner_order [OF inv] by simp_all
    then show "x \<in> {x \<in> set (lc_order c). i = [] \<or> idx_of c x \<noteq> i}" using k [of x] by blast
  qed
  show "gm_get (lc_items (evict_tail ?o)) k = None"
  proof (rule ccontr)
    assume "gm_get (lc_items (evict_tail ?o)) k \<noteq> None"
    then obtain x where "gm_get (lc_items (evict_tail ?o)) k = Some x" by blast
    then have "x \<in> set (lc_order (evict_tail ?o))" "key_of c x = k"
      unfolding lru_invD(6) [OF it] by simp_all
    then show False using sub k [of x] by blast
  qed
  show "gm_get (lc_byIndex (evict_tail ?o)) i = None" if "i \<noteq> []"
  proof (rule ccontr)
    assume "gm_get (lc_byIndex (evict_tail ?o)) i \<noteq> None"
    then obtain k' where "gm_get (lc_byIndex (evict_tail ?o)) i = Some k'" by blast
    then obtain x where "x \<in> set (lc_order (evict_tail ?o))" "idx_of c x = i"
      unfolding lru_invD(7) [OF it] by auto
    then show False using sub that by blast
  qed
  show "int (length (lc_order (evict_tail ?o))) < lc_capacity (evict_tail ?o)"
    using lru_invD(2) [OF io] unfolding evict_tail_order [OF io] evict_tail_simps by simp
qed

lemma lru_inv_setIfGeneration [inv_intros]:
  "lru_inv c \<Longrightarrow> lru_inv (setIfGeneration c k i v g)"
  by (auto simp: setIfGeneration_def intro: lru_inv_set_existing lru_inv_set_fresh split: option.splits)

lemma lru_inv_Evict [inv_intros]: "lru_inv c \<Longrightarrow> lru_inv (lru_Evict c k)"
  by (simp add: lru_Evict_def inv_intros)

lemma lru_inv_EvictByIndex [inv_intros]: "lru_inv c \<Longrightarrow> lru_inv (lru_EvictByIndex c i)"
  by (simp add: lru_EvictByIndex_def inv_intros split: option.splits)

lemma lru_inv_evict_where_end [inv_intros]: "lru_inv c \<Longrightarrow> lru_inv (evict_where_end c ks)"
  unfolding evict_where_end_def by (induction ks arbitrary: c) (simp_all add: inv_intros)

lemma lru_inv_EvictWhere [inv_intros]: "lru_inv c \<Longrightarrow> lru_inv (lru_EvictWhere c p)"
  by (simp add: lru_EvictWhere_def evict_where_begin_def inv_intros)

lemma lru_inv_Flush [inv_intros]: "lru_inv c \<Longrightarrow> lru_inv (lru_Flush c)"
  by (simp add: lru_Flush_def lru_inv_def)

lemma lru_inv_get_finish [inv_intros]: "lru_inv c \<Longrightarrow> lru_inv (fst (lru_get_finish c k r))"
  by (auto simp: lru_get_finish_def lru_invD(6) intro!: inv_intros split: prod.splits)

lemma lru_inv_Get [inv_intros]: "lru_inv c \<Longrightarrow> lru_inv (fst (lru_Get c k))"
  by (auto simp: lru_Get_def intro: inv_intros split: option.splits)


section \<open>The abstract cache\<close>

text \<open>A cache is a list of rows (key, index key, value), the most recently used first, and a
  generation. No pointers, no maps.\<close>

type_synonym 'v lru_row = "string \<times> string \<times> 'v"

definition lru_abs :: "'v lru_cache \<Rightarrow> 'v lru_row list" where
  "lru_abs c = map (\<lambda>e. (key_of c e, idx_of c e, le_value (ent_of c e))) (lc_order c)"

definition recency_remove :: "string \<Rightarrow> 'v lru_row list \<Rightarrow> 'v lru_row list" where
  "recency_remove k l = filter (\<lambda>(k', _). k' \<noteq> k) l"

definition recency_lookup :: "'v lru_row list \<Rightarrow> string \<Rightarrow> (string \<times> 'v) option" where
  "recency_lookup l k = map_of l k"

definition recency_put :: "int \<Rightarrow> string \<Rightarrow> string \<Rightarrow> 'v \<Rightarrow> 'v lru_row list \<Rightarrow> 'v lru_row list" where
  "recency_put cap k i v l =
     (k, i, v) # take (nat (cap - 1)) (filter (\<lambda>(k', i', _). k' \<noteq> k \<and> (i = [] \<or> i' \<noteq> i)) l)"

definition recency_get :: "('v \<Rightarrow> bool) \<Rightarrow> string \<Rightarrow> 'v lru_row list \<Rightarrow> 'v lru_row list \<times> 'v option" where
  "recency_get valid k l =
     (case recency_lookup l k of
        None \<Rightarrow> (l, None)
      | Some (i, v) \<Rightarrow>
          if valid v then ((k, i, v) # recency_remove k l, Some v) else (recency_remove k l, None))"

lemma lru_abs_bump [simp]: "lru_abs (bump c) = lru_abs c"
  by (simp add: lru_abs_def)

lemma remove1_filter: "distinct xs \<Longrightarrow> remove1 x xs = filter (\<lambda>y. y \<noteq> x) xs"
  by (simp add: distinct_remove1_removeAll removeAll_filter_not_eq) metis

lemma lru_filter_key:
  assumes "lru_inv c" and "e \<in> set (lc_order c)"
  shows "filter (\<lambda>x. x \<noteq> e) (lc_order c) = filter (\<lambda>x. key_of c x \<noteq> key_of c e) (lc_order c)"
  by (intro filter_cong) (auto dest: lru_key_inj [OF assms(1) _ assms(2)])

lemma lru_abs_removeLocked:
  assumes "lru_inv c" and "e \<in> set (lc_order c)"
  shows "lru_abs (removeLocked c e) = recency_remove (key_of c e) (lru_abs c)"
  using lru_invD(3) [OF assms(1)]
  by (simp add: lru_abs_def recency_remove_def removeLocked_order [OF assms] remove1_filter
      lru_filter_key [OF assms] filter_map comp_def)

lemma lru_abs_lookup:
  assumes "lru_inv c"
  shows "recency_lookup (lru_abs c) k =
    (case gm_get (lc_items c) k of None \<Rightarrow> None | Some e \<Rightarrow> Some (idx_of c e, le_value (ent_of c e)))"
proof -
  have d: "distinct (map fst (lru_abs c))"
    using lru_invD(3) [OF assms] lru_key_inj [OF assms]
    by (simp add: lru_abs_def comp_def distinct_map inj_on_def)
  show ?thesis
  proof (cases "gm_get (lc_items c) k")
    case None
    then have "\<forall>e \<in> set (lc_order c). key_of c e \<noteq> k" using lru_invD(6) [OF assms, of k] by simp
    then have "recency_lookup (lru_abs c) k = None"
      by (auto simp: recency_lookup_def map_of_eq_None_iff lru_abs_def)
    with None show ?thesis by simp
  next
    case (Some e)
    then have "e \<in> set (lc_order c)" "key_of c e = k" using lru_invD(6) [OF assms] by simp_all
    then have "(k, idx_of c e, le_value (ent_of c e)) \<in> set (lru_abs c)" by (auto simp: lru_abs_def)
    with d have "recency_lookup (lru_abs c) k = Some (idx_of c e, le_value (ent_of c e))"
      by (simp add: recency_lookup_def)
    with Some show ?thesis by simp
  qed
qed

lemma recency_remove_absent: "recency_lookup l k = None \<Longrightarrow> recency_remove k l = l"
  unfolding recency_remove_def recency_lookup_def map_of_eq_None_iff
  by (intro filter_True) force

lemma lru_abs_remove_key:
  assumes "lru_inv c"
  shows "lru_abs (remove_key c k) = recency_remove k (lru_abs c)"
proof (cases "gm_get (lc_items c) k")
  case None
  then show ?thesis using lru_abs_lookup [OF assms, of k] by (simp add: remove_key_def recency_remove_absent)
next
  case (Some e)
  then have "e \<in> set (lc_order c)" "key_of c e = k" using lru_invD(6) [OF assms] by simp_all
  with Some show ?thesis using lru_abs_removeLocked [OF assms] by (simp add: remove_key_def)
qed

lemma lru_abs_set_existing:
  assumes inv: "lru_inv c" and e: "gm_get (lc_items c) k = Some e" and ent: "elem_at c e = Some ent"
  shows "lru_abs (set_existing c e ent k i v) = recency_put (lc_capacity c) k i v (lru_abs c)"
proof -
  let ?P = "\<lambda>x. i = [] \<or> idx_of c x \<noteq> i \<or> key_of c x = k"
  let ?f = "\<lambda>x. (key_of c x, idx_of c x, le_value (ent_of c x))"
  have eo: "e \<in> set (lc_order c)" and key: "key_of c e = k" using lru_invD(6) [OF inv] e by simp_all
  have "lc_order (set_existing c e ent k i v) = move_to_front e (filter ?P (lc_order c))"
    by (simp add: set_existing_eq [OF assms] Let_def evict_owner_order [OF inv])
  also have "\<dots> = e # filter (\<lambda>x. x \<noteq> e) (filter ?P (lc_order c))"
    using eo key lru_invD(3) [OF inv] by (simp add: move_to_front_def remove1_filter del: filter_filter)
  also have "filter (\<lambda>x. x \<noteq> e) (filter ?P (lc_order c)) =
      filter (\<lambda>x. key_of c x \<noteq> k \<and> (i = [] \<or> idx_of c x \<noteq> i)) (lc_order c)"
    unfolding filter_filter key [symmetric]
    by (intro filter_cong) (auto dest: lru_key_inj [OF inv _ eo])
  finally have ord: "lc_order (set_existing c e ent k i v) = e # filter (\<lambda>x. key_of c x \<noteq> k \<and> (i = [] \<or> idx_of c x \<noteq> i)) (lc_order c)"
    (is "_ = e # ?r") .
  have el: "elem_at (set_existing c e ent k i v) = (elem_at c)(e \<mapsto>
      ent\<lparr>le_value := v, le_indexKey := i, le_version := le_version ent + 1\<rparr>)"
    by (simp add: set_existing_eq [OF assms] Let_def)
  have "length ?r < length (lc_order c)" using eo key by (intro length_filter_less) auto
  then have fits: "take (nat (lc_capacity c - 1)) (map ?f ?r) = map ?f ?r"
    using lru_invD(1) [OF inv] by (intro take_all) simp
  have "lru_abs (set_existing c e ent k i v) = (k, i, v) # map ?f ?r"
    using key ent by (auto simp: lru_abs_def ord el)
  also have "map ?f ?r = filter (\<lambda>(k', i', _). k' \<noteq> k \<and> (i = [] \<or> i' \<noteq> i)) (lru_abs c)"
    by (simp add: lru_abs_def filter_map comp_def)
  finally show ?thesis using fits by (simp add: recency_put_def lru_abs_def filter_map comp_def)
qed

lemma lru_abs_set_fresh:
  assumes inv: "lru_inv c" and new: "gm_get (lc_items c) k = None"
  shows "lru_abs (set_fresh c k i v) = recency_put (lc_capacity c) k i v (lru_abs c)"
proof -
  let ?P = "\<lambda>x. i = [] \<or> idx_of c x \<noteq> i \<or> key_of c x = k"
  let ?Q = "\<lambda>x. key_of c x \<noteq> k \<and> (i = [] \<or> idx_of c x \<noteq> i)"
  let ?c = "evict_tail (evict_owner c i k)" and ?e = "next_elem c"
  have io: "lru_inv (evict_owner c i k)" using inv by (rule inv_intros)
  have "filter ?P (lc_order c) = filter ?Q (lc_order c)"
    using lru_invD(6) [OF inv, of k] new by (intro filter_cong) auto
  then have o: "lc_order ?c = take (nat (lc_capacity c - 1)) (filter ?Q (lc_order c))"
    unfolding evict_tail_order [OF io] evict_owner_order [OF inv] by simp
  have old: "x \<noteq> ?e" if "x \<in> set (lc_order ?c)" for x
    using that lru_invD(4) [OF inv, of x] unfolding o by (auto dest: in_set_takeD)
  have "lru_abs (set_fresh c k i v) =
      (k, i, v) # map (\<lambda>x. (key_of c x, idx_of c x, le_value (ent_of c x))) (lc_order ?c)"
    using old by (simp add: set_fresh_def bind_index_def push_entry_def Let_def lru_abs_def)
  then show ?thesis
    by (simp add: o recency_put_def lru_abs_def filter_map comp_def take_map)
qed

lemma lru_abs_setIfGeneration:
  assumes "lru_inv c"
  shows "lru_abs (setIfGeneration c k i v g) =
    (if lc_generation c = g then recency_put (lc_capacity c) k i v (lru_abs c) else lru_abs c)"
proof (cases "gm_get (lc_items c) k")
  case None
  then show ?thesis using lru_abs_set_fresh [OF assms] by (simp add: setIfGeneration_def)
next
  case (Some e)
  then obtain ent where "elem_at c e = Some ent" using lru_invD(5,6) [OF assms] by blast
  with Some show ?thesis using lru_abs_set_existing [OF assms Some]
    by (simp add: setIfGeneration_def)
qed

lemma lru_abs_get:
  assumes "lru_inv c"
  shows "lru_abs (fst (lru_Get c k)) = fst (recency_get (lru_valid c) k (lru_abs c))"
    and "snd (lru_Get c k) = snd (recency_get (lru_valid c) k (lru_abs c))"
proof -
  have "lru_abs (fst (lru_Get c k)) = fst (recency_get (lru_valid c) k (lru_abs c)) \<and>
    snd (lru_Get c k) = snd (recency_get (lru_valid c) k (lru_abs c))"
  proof (cases "gm_get (lc_items c) k")
    case None
    then show ?thesis using lru_abs_lookup [OF assms, of k]
      by (simp add: lru_Get_def lru_get_read_def recency_get_def)
  next
    case (Some e)
    then have e: "e \<in> set (lc_order c)" "key_of c e = k" using lru_invD(6) [OF assms] by simp_all
    obtain ent where ent: "elem_at c e = Some ent" using lru_invD(5) [OF assms e(1)] by blast
    have look: "recency_lookup (lru_abs c) k = Some (le_indexKey ent, le_value ent)"
      using lru_abs_lookup [OF assms, of k] Some ent by simp
    have front: "lru_abs (c\<lparr>lc_order := move_to_front e (lc_order c)\<rparr>) =
        (k, le_indexKey ent, le_value ent) # recency_remove k (lru_abs c)"
      using lru_invD(3) [OF assms] e ent lru_filter_key [OF assms e(1)]
      by (simp add: lru_abs_def recency_remove_def move_to_front_def remove1_filter filter_map comp_def)
    show ?thesis using Some e ent look front lru_abs_removeLocked [OF assms e(1)]
      by (simp add: lru_Get_def lru_get_read_def lru_get_finish_def recency_get_def)
  qed
  then show "lru_abs (fst (lru_Get c k)) = fst (recency_get (lru_valid c) k (lru_abs c))"
    and "snd (lru_Get c k) = snd (recency_get (lru_valid c) k (lru_abs c))" by simp_all
qed

lemma lru_abs_EvictByIndex:
  assumes "lru_inv c"
  shows "lru_abs (lru_EvictByIndex c i) = filter (\<lambda>(_, i', _). i = [] \<or> i' \<noteq> i) (lru_abs c)"
proof (cases "i = []")
  case False
  note D = lru_invD [OF assms]
  show ?thesis
  proof (cases "gm_get (lc_byIndex c) i")
    case None
    then have "\<forall>x \<in> set (lc_order c). idx_of c x \<noteq> i" using D(7) [of i] False by (metis option.simps(3))
    then have "filter (\<lambda>(_, i', _). i' \<noteq> i) (lru_abs c) = lru_abs c"
      by (intro filter_True) (auto simp: lru_abs_def)
    with None False show ?thesis by (simp add: lru_EvictByIndex_def)
  next
    case (Some k)
    then obtain e where e: "e \<in> set (lc_order c)" "idx_of c e = i" "key_of c e = k" using D(7) by blast
    have "filter (\<lambda>x. key_of c x \<noteq> k) (lc_order c) = filter (\<lambda>x. idx_of c x \<noteq> i) (lc_order c)"
    proof (rule filter_cong [OF refl])
      fix x assume x: "x \<in> set (lc_order c)"
      then show "key_of c x \<noteq> k \<longleftrightarrow> idx_of c x \<noteq> i"
        using e False lru_idx_inj [OF assms x e(1)] lru_key_inj [OF assms x e(1)] by metis
    qed
    with Some False show ?thesis using lru_abs_remove_key [of "bump c" k] assms
      by (simp add: lru_EvictByIndex_def recency_remove_def lru_abs_def filter_map comp_def)
  qed
qed (simp add: lru_EvictByIndex_def)

lemma lru_abs_evict_where_end:
  "lru_inv c \<Longrightarrow> lru_abs (evict_where_end c ks) = filter (\<lambda>(k, _). k \<notin> set ks) (lru_abs c)"
proof (induction ks arbitrary: c)
  case (Cons k ks)
  then have "lru_abs (evict_where_end (remove_key c k) ks) =
      filter (\<lambda>(k, _). k \<notin> set ks) (recency_remove k (lru_abs c))"
    by (simp add: inv_intros lru_abs_remove_key)
  moreover have "filter (\<lambda>(k, _). k \<notin> set ks) (recency_remove k (lru_abs c)) =
      filter (\<lambda>(x, _). x \<notin> set (k # ks)) (lru_abs c)"
    unfolding recency_remove_def filter_filter by (rule filter_cong) auto
  ultimately show ?case by (simp add: evict_where_end_def)
qed (simp add: evict_where_end_def)

lemma lru_abs_EvictWhere:
  assumes "lru_inv c"
  shows "lru_abs (lru_EvictWhere c p) = filter (\<lambda>(k, _). \<not> p k) (lru_abs c)"
proof -
  have "set (lru_keys (bump c)) = fst ` set (lru_abs c)"
    using lru_invD(5) [OF assms] by (force simp: lru_keys_def lru_abs_def split: option.splits)
  then show ?thesis using assms
    by (auto simp: lru_EvictWhere_def evict_where_begin_def lru_abs_evict_where_end image_iff intro!: filter_cong)
qed


section \<open>Fills\<close>

text \<open>
  The concurrent system: a cache, the in-flight map and the calls it points to (each with the program
  counter of its leader), and the rows the loaders read. A writer changes a row and then evicts it;
  \<open>pending\<close> holds the keys whose eviction has not run yet. \<open>evictions\<close> and
  \<open>f_epoch\<close> count generation steps without wrap-around; no operation reads them.
\<close>

datatype 'v outcome = Loaded 'v string | LoadError string | LoadPanic

datatype 'v fill_pc =
    FRegistered
  | FGeneration "64 word"
  | FLoaded "64 word" "'v outcome"
  | FInstalled "'v outcome"
  | FUnregistered "'v outcome"
  | FClosed

record 'v inflight_call =
  f_key :: string
  f_pc :: "'v fill_pc"
  f_done :: bool
  f_result :: "'v outcome option"
  f_epoch :: nat

record 'v lru_sys =
  sys_cache :: "'v lru_cache"
  sys_inflight :: "(string, nat) gomap"
  sys_calls :: "'v inflight_call list"
  sys_db :: "string \<Rightarrow> 'v"
  pending :: "string multiset"
  evictions :: nat

definition put_cache :: "'v lru_sys \<Rightarrow> 'v lru_cache \<Rightarrow> 'v lru_sys" where
  "put_cache s c = s\<lparr>sys_cache := c, evictions := evictions s +
     (if lc_generation c \<noteq> lc_generation (sys_cache s) then 1 else 0)\<rparr>"

definition put_call :: "'v lru_sys \<Rightarrow> nat \<Rightarrow> 'v inflight_call \<Rightarrow> 'v lru_sys" where
  "put_call s j cl = s\<lparr>sys_calls := (sys_calls s)[j := cl]\<rparr>"

text \<open>The critical section at the top of \<open>Fill\<close>: the caller joins the call in flight
  (\<open>Inl\<close>) or becomes the leader of a new one (\<open>Inr\<close>).\<close>

definition fill_begin :: "'v lru_sys \<Rightarrow> string \<Rightarrow> 'v lru_sys \<times> (nat + nat)" where
  "fill_begin s key =
     (case gm_get (sys_inflight s) key of
        Some j \<Rightarrow> (s, Inl j)
      | None \<Rightarrow>
          (let j = length (sys_calls s)
           in (s\<lparr>sys_calls := sys_calls s @ [\<lparr>f_key = key, f_pc = FRegistered, f_done = False,
                   f_result = None, f_epoch = 0\<rparr>],
                 sys_inflight := gm_set key j (sys_inflight s)\<rparr>, Inr j)))"

definition fill_generation :: "'v lru_sys \<Rightarrow> nat \<Rightarrow> 'v lru_sys" where
  "fill_generation s j = put_call s j ((sys_calls s ! j)\<lparr>
     f_pc := FGeneration (lc_generation (sys_cache s)), f_epoch := evictions s\<rparr>)"

text \<open>A panic skips the assignment of the result; the deferred function sets the error later.\<close>

definition fill_load :: "'v lru_sys \<Rightarrow> nat \<Rightarrow> 64 word \<Rightarrow> 'v outcome \<Rightarrow> 'v lru_sys" where
  "fill_load s j gen r = put_call s j ((sys_calls s ! j)\<lparr>f_pc := FLoaded gen r,
     f_result := (if r = LoadPanic then None else Some r)\<rparr>)"

definition fill_install :: "'v lru_sys \<Rightarrow> nat \<Rightarrow> 64 word \<Rightarrow> 'v outcome \<Rightarrow> 'v lru_sys" where
  "fill_install s j gen r =
     (let s' = put_call s j ((sys_calls s ! j)\<lparr>f_pc := FInstalled r\<rparr>)
      in case r of
           Loaded v indexKey \<Rightarrow>
             put_cache s' (setIfGeneration (sys_cache s) (f_key (sys_calls s ! j)) indexKey v gen)
         | _ \<Rightarrow> s')"

definition fill_unregister :: "'v lru_sys \<Rightarrow> nat \<Rightarrow> 'v outcome \<Rightarrow> 'v lru_sys" where
  "fill_unregister s j r = (put_call s j ((sys_calls s ! j)\<lparr>f_pc := FUnregistered r\<rparr>))
     \<lparr>sys_inflight := gm_del (f_key (sys_calls s ! j)) (sys_inflight s)\<rparr>"

definition fill_close :: "'v lru_sys \<Rightarrow> nat \<Rightarrow> 'v outcome \<Rightarrow> 'v lru_sys" where
  "fill_close s j r = put_call s j ((sys_calls s ! j)\<lparr>f_pc := FClosed, f_done := True,
     f_result := (if r = LoadPanic then Some (LoadError ''lrucache: loader panicked'')
                  else f_result (sys_calls s ! j))\<rparr>)"

text \<open>What a follower's \<open>select\<close> gives: nothing while the call is open.\<close>

definition fill_wait :: "'v lru_sys \<Rightarrow> nat \<Rightarrow> 'v outcome option" where
  "fill_wait s j = (if f_done (sys_calls s ! j) then f_result (sys_calls s ! j) else None)"

text \<open>One step of the system. \<open>ix\<close> gives the index key a loader returns for a cache key. A load
  reads the row; a write is settled by an eviction of its key, or of its index key.\<close>

inductive lru_step :: "(string \<Rightarrow> string) \<Rightarrow> 'v lru_sys \<Rightarrow> 'v lru_sys \<Rightarrow> bool" for ix where
  ls_begin: "lru_step ix s (fst (fill_begin s key))"
| ls_generation: "j < length (sys_calls s) \<Longrightarrow> f_pc (sys_calls s ! j) = FRegistered \<Longrightarrow>
     lru_step ix s (fill_generation s j)"
| ls_load: "j < length (sys_calls s) \<Longrightarrow> f_pc (sys_calls s ! j) = FGeneration g \<Longrightarrow>
     (case r of Loaded v i \<Rightarrow> v = sys_db s (f_key (sys_calls s ! j)) \<and> i = ix (f_key (sys_calls s ! j)) | _ \<Rightarrow> True) \<Longrightarrow>
     lru_step ix s (fill_load s j g r)"
| ls_install: "j < length (sys_calls s) \<Longrightarrow> f_pc (sys_calls s ! j) = FLoaded g r \<Longrightarrow>
     lru_step ix s (fill_install s j g r)"
| ls_unregister: "j < length (sys_calls s) \<Longrightarrow> f_pc (sys_calls s ! j) = FInstalled r \<Longrightarrow>
     lru_step ix s (fill_unregister s j r)"
| ls_close: "j < length (sys_calls s) \<Longrightarrow> f_pc (sys_calls s ! j) = FUnregistered r \<Longrightarrow>
     lru_step ix s (fill_close s j r)"
| ls_write: "lru_step ix s (s\<lparr>sys_db := (sys_db s)(key := v), pending := pending s + {#key#}\<rparr>)"
| ls_settle: "key \<in># pending s \<Longrightarrow>
     lru_step ix s ((put_cache s (lru_Evict (sys_cache s) key))\<lparr>pending := pending s - {#key#}\<rparr>)"
| ls_settle_index: "key \<in># pending s \<Longrightarrow> ix key \<noteq> [] \<Longrightarrow>
     lru_step ix s ((put_cache s (lru_EvictByIndex (sys_cache s) (ix key)))\<lparr>pending := pending s - {#key#}\<rparr>)"
| ls_evict: "lru_step ix s (put_cache s (lru_Evict (sys_cache s) key))"
| ls_evict_index: "lru_step ix s (put_cache s (lru_EvictByIndex (sys_cache s) i))"
| ls_where_begin: "lru_step ix s (put_cache s (fst (evict_where_begin (sys_cache s))))"
| ls_where_end: "lru_step ix s (put_cache s (evict_where_end (sys_cache s) ks))"
| ls_flush: "lru_step ix s (put_cache s (lru_Flush (sys_cache s)))"
| ls_get: "lru_step ix s (put_cache s (fst (lru_get_finish (sys_cache s) key r)))"

definition lru_start :: "'v lru_cache \<Rightarrow> (string \<Rightarrow> 'v) \<Rightarrow> 'v lru_sys" where
  "lru_start c d = \<lparr>sys_cache = c, sys_inflight = [], sys_calls = [], sys_db = d, pending = {#},
     evictions = 0\<rparr>"

inductive lru_reach :: "(string \<Rightarrow> string) \<Rightarrow> 'v lru_sys \<Rightarrow> 'v lru_sys \<Rightarrow> bool" for ix s0 where
  lr_start: "lru_reach ix s0 s0"
| lr_step: "lru_reach ix s0 s \<Longrightarrow> lru_step ix s s' \<Longrightarrow> lru_reach ix s0 s'"

subsection \<open>Generations\<close>

lemma gen_evict_owner:
  "lc_generation (evict_owner c i k) = lc_generation c \<or>
   lc_generation (evict_owner c i k) = lc_generation c + 1"
  by (auto simp: evict_owner_def evictIndexOwnerLocked_def split: option.splits)

lemma gen_remove_key [simp]: "lc_generation (remove_key c k) = lc_generation c"
  by (simp add: remove_key_def split: option.splits)

lemma gen_evict_where_end [simp]: "lc_generation (evict_where_end c ks) = lc_generation c"
  unfolding evict_where_end_def by (induction ks arbitrary: c) simp_all

lemma gen_get_finish [simp]: "lc_generation (fst (lru_get_finish c k r)) = lc_generation c"
  by (simp add: lru_get_finish_def split: prod.splits)

lemma gen_setIfGeneration:
  assumes "lru_inv c"
  shows "lc_generation (setIfGeneration c k i v g) = lc_generation c \<or>
    lc_generation (setIfGeneration c k i v g) = lc_generation c + 1"
proof (cases "gm_get (lc_items c) k")
  case None
  then show ?thesis using gen_evict_owner [of c i k]
    by (auto simp: setIfGeneration_def set_fresh_def bind_index_def push_entry_def Let_def)
next
  case (Some e)
  then obtain ent where ent: "elem_at c e = Some ent" using lru_invD(5,6) [OF assms] by blast
  show ?thesis using Some ent gen_evict_owner [of c i k]
    by (auto simp: setIfGeneration_def set_existing_eq [OF assms Some ent] Let_def)
qed

lemma gen_evictions:
  "lc_generation (lru_Evict c k) = lc_generation c + 1"
  "i \<noteq> [] \<Longrightarrow> lc_generation (lru_EvictByIndex c i) = lc_generation c + 1"
  "lc_generation (lru_EvictByIndex c i) = lc_generation c \<or> lc_generation (lru_EvictByIndex c i) = lc_generation c + 1"
  "lc_generation (fst (evict_where_begin c)) = lc_generation c + 1"
  "lc_generation (lru_Flush c) = lc_generation c + 1"
  by (auto simp: lru_Evict_def lru_EvictByIndex_def evict_where_begin_def lru_Flush_def split: option.splits)

subsection \<open>Coherence\<close>

text \<open>A cached row, and a row a fill may still install, is the current one unless its key has a write
  whose eviction is outstanding.\<close>

definition row_ok :: "(string \<Rightarrow> string) \<Rightarrow> 'v lru_sys \<Rightarrow> 'v lru_row \<Rightarrow> bool" where
  "row_ok ix s = (\<lambda>(k, i, v). i = ix k \<and> (k \<in># pending s \<or> v = sys_db s k))"

definition call_coherent :: "(string \<Rightarrow> string) \<Rightarrow> 'v lru_sys \<Rightarrow> 'v inflight_call \<Rightarrow> bool" where
  "call_coherent ix s cl =
     (case f_pc cl of
        FGeneration g \<Rightarrow> g = of_nat (f_epoch cl) \<and> f_epoch cl \<le> evictions s
      | FLoaded g r \<Rightarrow> g = of_nat (f_epoch cl) \<and> f_epoch cl \<le> evictions s \<and>
          (case r of Loaded v i \<Rightarrow> f_epoch cl = evictions s \<longrightarrow> row_ok ix s (f_key cl, i, v) | _ \<Rightarrow> True)
      | _ \<Rightarrow> True)"

definition coherent :: "(string \<Rightarrow> string) \<Rightarrow> 'v lru_sys \<Rightarrow> bool" where
  "coherent ix s \<longleftrightarrow> lru_inv (sys_cache s) \<and> lc_generation (sys_cache s) = of_nat (evictions s) \<and>
     (\<forall>row \<in> set (lru_abs (sys_cache s)). row_ok ix s row) \<and>
     (\<forall>cl \<in> set (sys_calls s). call_coherent ix s cl)"

lemma coherentD:
  assumes "coherent ix s"
  shows "lru_inv (sys_cache s)" and "lc_generation (sys_cache s) = of_nat (evictions s)"
    and "\<And>row. row \<in> set (lru_abs (sys_cache s)) \<Longrightarrow> row_ok ix s row"
    and "\<And>cl. cl \<in> set (sys_calls s) \<Longrightarrow> call_coherent ix s cl"
  using assms by (simp_all add: coherent_def)

lemma row_ok_cong: "sys_db s' = sys_db s \<Longrightarrow> pending s' = pending s \<Longrightarrow> row_ok ix s' = row_ok ix s"
  by (simp add: row_ok_def)

lemma call_coherent_mono:
  assumes "call_coherent ix s cl" and "evictions s \<le> evictions s'"
    and "evictions s' = evictions s \<Longrightarrow> row_ok ix s' = row_ok ix s"
  shows "call_coherent ix s' cl"
  using assms by (auto simp: call_coherent_def split: fill_pc.splits outcome.splits)

text \<open>Only an install can add a row.\<close>

lemma coherent_cache:
  assumes coh: "coherent ix s" and inv: "lru_inv c"
    and gen: "lc_generation c = lc_generation (sys_cache s) \<or> lc_generation c = lc_generation (sys_cache s) + 1"
    and rows: "\<And>row. row \<in> set (lru_abs c) \<Longrightarrow> row_ok ix s row"
  shows "coherent ix (put_cache s c)"
proof -
  let ?s = "put_cache s c"
  have e: "evictions s \<le> evictions ?s" and r: "row_ok ix ?s = row_ok ix s"
    by (simp_all add: put_cache_def row_ok_def)
  have "lc_generation c = of_nat (evictions ?s)"
    using gen coherentD(2) [OF coh] by (auto simp: put_cache_def)
  moreover have "call_coherent ix ?s cl" if "cl \<in> set (sys_calls s)" for cl
    using coherentD(4) [OF coh that] e r by (rule call_coherent_mono)
  ultimately show ?thesis using inv rows r by (simp add: coherent_def) (simp add: put_cache_def)
qed

lemma coherent_settle:
  assumes coh: "coherent ix s" and inv: "lru_inv c"
    and gen: "lc_generation c = lc_generation (sys_cache s) + 1"
    and rows: "\<And>row. row \<in> set (lru_abs c) \<Longrightarrow> row \<in> set (lru_abs (sys_cache s)) \<and> fst row \<noteq> key"
  shows "coherent ix ((put_cache s c)\<lparr>pending := pending s - {#key#}\<rparr>)"
proof -
  let ?s = "(put_cache s c)\<lparr>pending := pending s - {#key#}\<rparr>"
  have e: "evictions ?s = Suc (evictions s)" using gen by (simp add: put_cache_def)
  have "call_coherent ix ?s cl" if "cl \<in> set (sys_calls s)" for cl
    using coherentD(4) [OF coh that] by (rule call_coherent_mono) (simp_all add: e)
  moreover have "row_ok ix ?s row" if "row \<in> set (lru_abs c)" for row
    using coherentD(3) [OF coh, of row] rows [OF that]
    by (cases row) (auto simp: row_ok_def put_cache_def in_diff_count)
  ultimately show ?thesis using inv gen coherentD(2) [OF coh] e
    by (simp add: coherent_def) (simp add: put_cache_def)
qed

lemma coherent_call:
  assumes "coherent ix s" and "call_coherent ix s cl"
  shows "coherent ix (put_call s j cl)"
proof -
  let ?s = "put_call s j cl"
  have r: "row_ok ix ?s = row_ok ix s" and e: "evictions ?s = evictions s"
    by (simp_all add: put_call_def row_ok_def)
  have "call_coherent ix ?s c' = call_coherent ix s c'" for c'
    by (simp add: call_coherent_def r e cong: fill_pc.case_cong outcome.case_cong)
  with assms show ?thesis
    by (auto simp: coherent_def r) (auto simp: put_call_def dest!: set_update_subset_insert [THEN subsetD])
qed

lemma coherent_same:
  assumes "coherent ix s" and "sys_cache s' = sys_cache s" and "evictions s' = evictions s"
    and "sys_db s' = sys_db s" and "pending s' = pending s"
    and "\<And>cl. cl \<in> set (sys_calls s') \<Longrightarrow> cl \<in> set (sys_calls s) \<or> call_coherent ix s cl"
  shows "coherent ix s'"
proof -
  have "row_ok ix s' = row_ok ix s" using assms(4,5) by (rule row_ok_cong)
  moreover from this have "call_coherent ix s' cl" if "call_coherent ix s cl" for cl
    using that assms(3) by (intro call_coherent_mono [OF that]) simp_all
  ultimately show ?thesis using assms by (auto simp: coherent_def)
qed

lemma of_nat_64_inj: "a < 2 ^ 64 \<Longrightarrow> b < 2 ^ 64 \<Longrightarrow> (of_nat a :: 64 word) = of_nat b \<Longrightarrow> a = b"
  by (simp add: word_of_nat_eq_iff take_bit_nat_eq_self)

lemma coherent_install:
  assumes coh: "coherent ix s" and j: "j < length (sys_calls s)"
    and pc: "f_pc (sys_calls s ! j) = FLoaded g r" and small: "evictions s < 2 ^ 64"
  shows "coherent ix (fill_install s j g r)"
proof -
  let ?cl = "sys_calls s ! j"
  let ?s = "put_call s j (?cl\<lparr>f_pc := FInstalled r\<rparr>)"
  have cc: "call_coherent ix s ?cl" using coherentD(4) [OF coh] j by simp
  have coh': "coherent ix ?s"
    using coh by (rule coherent_call) (simp add: call_coherent_def)
  show ?thesis
  proof (cases r)
    case (Loaded v i)
    let ?c = "setIfGeneration (sys_cache s) (f_key ?cl) i v g"
    have "row_ok ix ?s row" if "row \<in> set (lru_abs ?c)" for row
    proof -
      have new: "row_ok ix s (f_key ?cl, i, v)" if "lc_generation (sys_cache s) = g"
      proof -
        have "f_epoch ?cl \<le> evictions s" "of_nat (evictions s) = (of_nat (f_epoch ?cl) :: 64 word)"
          using cc pc that coherentD(2) [OF coh] by (simp_all add: call_coherent_def)
        then have "f_epoch ?cl = evictions s"
          using small of_nat_64_inj [of "evictions s" "f_epoch ?cl"] by simp
        then show ?thesis using cc pc Loaded by (simp add: call_coherent_def)
      qed
      have "row \<in> set (lru_abs (sys_cache s)) \<or> lc_generation (sys_cache s) = g \<and> row = (f_key ?cl, i, v)"
        using that unfolding lru_abs_setIfGeneration [OF coherentD(1) [OF coh]]
        by (auto simp: recency_put_def split: if_splits dest!: in_set_takeD)
      then have "row_ok ix s row" using new coherentD(3) [OF coh] by blast
      then show ?thesis by (simp add: row_ok_def put_call_def)
    qed
    then have "coherent ix (put_cache ?s ?c)"
      using coh' coherentD(1) [OF coh] gen_setIfGeneration [OF coherentD(1) [OF coh], of "f_key ?cl" i v g]
      by (intro coherent_cache) (simp_all add: inv_intros put_call_def)
    with Loaded show ?thesis by (simp add: fill_install_def)
  qed (use coh' in \<open>simp_all add: fill_install_def\<close>)
qed

lemma lru_rows_get_finish:
  assumes "lru_inv c"
  shows "set (lru_abs (fst (lru_get_finish c k r))) \<subseteq> set (lru_abs c)"
proof -
  have "set (lc_order (fst (lru_get_finish c k r))) \<subseteq> set (lc_order c)"
    "elem_at (fst (lru_get_finish c k r)) = elem_at c"
    using removeLocked_order [OF assms] lru_invD(6) [OF assms]
    by (auto simp: lru_get_finish_def split: prod.splits if_splits
        dest: set_remove1_subset [THEN subsetD])
  then show ?thesis by (auto simp: lru_abs_def)
qed

lemma evictions_mono: "lru_step ix s s' \<Longrightarrow> evictions s \<le> evictions s'"
  by (cases rule: lru_step.cases)
     (auto simp: fill_begin_def fill_generation_def fill_load_def fill_install_def fill_unregister_def
       fill_close_def put_call_def put_cache_def Let_def split: option.splits outcome.splits)

lemma coherent_step:
  assumes "lru_step ix s s'" and coh: "coherent ix s" and small: "evictions s' < 2 ^ 64"
  shows "coherent ix s'"
proof -
  note D = coherentD [OF coh]
  have sub: "coherent ix (put_cache s c)"
    if "lru_inv c" "set (lru_abs c) \<subseteq> set (lru_abs (sys_cache s))"
      "lc_generation c = lc_generation (sys_cache s) \<or> lc_generation c = lc_generation (sys_cache s) + 1" for c
    using coh that D(3) by (intro coherent_cache) blast+
  from assms(1) show ?thesis
  proof cases
    case (ls_begin key)
    then show ?thesis
      by (intro coherent_same [OF coh])
         (auto simp: fill_begin_def Let_def call_coherent_def split: option.splits)
  next
    case (ls_generation j)
    then show ?thesis using D(2)
      by (simp add: fill_generation_def) (rule coherent_call [OF coh], simp add: call_coherent_def)
  next
    case (ls_load j g r)
    have "call_coherent ix s (sys_calls s ! j)" using D(4) ls_load by simp
    then show ?thesis unfolding ls_load(1) fill_load_def using ls_load(3,4)
      by (intro coherent_call [OF coh]) (auto simp: call_coherent_def row_ok_def split: outcome.splits)
  next
    case (ls_install j g r)
    then show ?thesis using coherent_install [OF coh] evictions_mono [OF assms(1)] small by simp
  next
    case (ls_unregister j r)
    have "coherent ix (put_call s j ((sys_calls s ! j)\<lparr>f_pc := FUnregistered r\<rparr>))"
      by (rule coherent_call [OF coh]) (simp add: call_coherent_def)
    then show ?thesis unfolding ls_unregister fill_unregister_def by (rule coherent_same) simp_all
  next
    case (ls_close j r)
    show ?thesis unfolding ls_close(1) fill_close_def
      by (rule coherent_call [OF coh]) (simp add: call_coherent_def)
  next
    case (ls_write key v)
    then have "row_ok ix s' row" if "row_ok ix s row" for row
      using that by (cases row) (auto simp: row_ok_def)
    moreover from this ls_write have "call_coherent ix s' cl" if "call_coherent ix s cl" for cl
      using that by (auto simp: call_coherent_def split: fill_pc.splits outcome.splits)
    ultimately show ?thesis using D ls_write by (simp add: coherent_def)
  next
    case (ls_settle key)
    show ?thesis unfolding ls_settle(1) using D(1)
      by (intro coherent_settle [OF coh])
         (auto simp: inv_intros gen_evictions lru_Evict_def lru_abs_remove_key recency_remove_def)
  next
    case (ls_settle_index key)
    show ?thesis unfolding ls_settle_index(1) using D(1) ls_settle_index(3) D(3)
      by (intro coherent_settle [OF coh])
         (auto simp: inv_intros gen_evictions lru_abs_EvictByIndex row_ok_def)
  next
    case (ls_evict key)
    show ?thesis unfolding ls_evict using D(1)
      by (intro sub) (auto simp: inv_intros gen_evictions lru_Evict_def lru_abs_remove_key recency_remove_def)
  next
    case (ls_evict_index i)
    show ?thesis unfolding ls_evict_index using D(1) gen_evictions(3)
      by (intro sub) (auto simp: inv_intros lru_abs_EvictByIndex)
  next
    case ls_where_begin
    show ?thesis unfolding ls_where_begin using D(1)
      by (intro sub) (simp_all add: evict_where_begin_def)
  next
    case (ls_where_end ks)
    show ?thesis unfolding ls_where_end using D(1)
      by (intro sub) (auto simp: inv_intros lru_abs_evict_where_end)
  next
    case ls_flush
    show ?thesis unfolding ls_flush using D(1)
      by (intro sub) (simp_all add: inv_intros gen_evictions, simp add: lru_abs_def lru_Flush_def)
  next
    case (ls_get key r)
    show ?thesis unfolding ls_get using D(1) lru_rows_get_finish [OF D(1)]
      by (intro sub) (simp_all add: inv_intros)
  qed
qed

lemma coherent_reach:
  assumes "lru_reach ix s0 s" and "coherent ix s0" and "evictions s < 2 ^ 64"
  shows "coherent ix s"
  using assms
proof (induction rule: lru_reach.induct)
  case (lr_step s s')
  then show ?case using evictions_mono [OF lr_step.hyps(2)] coherent_step by fastforce
qed

subsection \<open>Single flight\<close>

definition flying :: "'v inflight_call \<Rightarrow> bool" where
  "flying cl = (case f_pc cl of FUnregistered _ \<Rightarrow> False | FClosed \<Rightarrow> False | _ \<Rightarrow> True)"

text \<open>The result a leader leaves for its followers, by program counter.\<close>

definition result_ok :: "'v inflight_call \<Rightarrow> bool" where
  "result_ok cl =
     (case f_pc cl of
        FLoaded _ r \<Rightarrow> \<not> f_done cl \<and> (r \<noteq> LoadPanic \<longrightarrow> f_result cl = Some r)
      | FInstalled r \<Rightarrow> \<not> f_done cl \<and> (r \<noteq> LoadPanic \<longrightarrow> f_result cl = Some r)
      | FUnregistered r \<Rightarrow> \<not> f_done cl \<and> (r \<noteq> LoadPanic \<longrightarrow> f_result cl = Some r)
      | FClosed \<Rightarrow> f_done cl \<and> f_result cl \<noteq> None \<and> f_result cl \<noteq> Some LoadPanic
      | _ \<Rightarrow> \<not> f_done cl)"

definition single_flight :: "'v lru_sys \<Rightarrow> bool" where
  "single_flight s \<longleftrightarrow>
     (\<forall>k j. gm_get (sys_inflight s) k = Some j \<longleftrightarrow>
        j < length (sys_calls s) \<and> f_key (sys_calls s ! j) = k \<and> flying (sys_calls s ! j)) \<and>
     (\<forall>j < length (sys_calls s). result_ok (sys_calls s ! j))"

lemma single_flightD:
  assumes "single_flight s"
  shows "\<And>k j. gm_get (sys_inflight s) k = Some j \<longleftrightarrow>
      j < length (sys_calls s) \<and> f_key (sys_calls s ! j) = k \<and> flying (sys_calls s ! j)"
    and "\<And>j. j < length (sys_calls s) \<Longrightarrow> result_ok (sys_calls s ! j)"
  using assms by (simp_all add: single_flight_def)

lemma single_flight_call:
  assumes "single_flight s" and "f_key cl = f_key (sys_calls s ! j)"
    and "flying cl = flying (sys_calls s ! j)" and "result_ok cl"
  shows "single_flight (put_call s j cl)"
proof (cases "j < length (sys_calls s)")
  case True
  have k: "f_key ((sys_calls s)[j := cl] ! i) = f_key (sys_calls s ! i)"
    and f: "flying ((sys_calls s)[j := cl] ! i) = flying (sys_calls s ! i)" for i
    using assms(2,3) True by (cases "i = j", simp_all)+
  have "result_ok ((sys_calls s)[j := cl] ! i)" if "i < length (sys_calls s)" for i
    using single_flightD(2) [OF assms(1) that] assms(4) True by (cases "i = j") simp_all
  with single_flightD(1) [OF assms(1)] show ?thesis
    by (simp add: single_flight_def put_call_def k f)
next
  case False
  then have "put_call s j cl = s" by (simp add: put_call_def list_update_beyond)
  then show ?thesis using assms(1) by simp
qed

lemma single_flight_cache:
  "single_flight (put_cache s c) = single_flight s"
  "single_flight (s\<lparr>pending := p\<rparr>) = single_flight s"
  "single_flight (s\<lparr>sys_db := d\<rparr>) = single_flight s"
  by (simp_all add: single_flight_def put_cache_def)

lemma single_flight_begin:
  assumes "single_flight s"
  shows "single_flight (fst (fill_begin s key))"
proof (cases "gm_get (sys_inflight s) key")
  case None
  then have "\<not> flying (sys_calls s ! j) \<or> f_key (sys_calls s ! j) \<noteq> key" if "j < length (sys_calls s)" for j
    using single_flightD(1) [OF assms, of key j] that by auto
  with None assms show ?thesis
    by (auto simp: fill_begin_def Let_def single_flight_def nth_append less_Suc_eq flying_def result_ok_def)
qed (simp add: fill_begin_def assms)

lemma single_flight_unregister:
  assumes "single_flight s" and "j < length (sys_calls s)" and "f_pc (sys_calls s ! j) = FInstalled r"
  shows "single_flight (fill_unregister s j r)"
proof -
  have f: "flying (sys_calls s ! j)" using assms(3) by (simp add: flying_def)
  have only: "i = j" if "i < length (sys_calls s)" "flying (sys_calls s ! i)"
      "f_key (sys_calls s ! i) = f_key (sys_calls s ! j)" for i
    using single_flightD(1) [OF assms(1), of "f_key (sys_calls s ! j)" i]
      single_flightD(1) [OF assms(1), of "f_key (sys_calls s ! j)" j] that assms(2) f by simp
  have res: "result_ok (sys_calls s ! j)" using single_flightD(2) [OF assms(1)] assms(2) .
  show ?thesis
    using assms res only unfolding single_flight_def fill_unregister_def put_call_def
    by (auto simp: nth_list_update result_ok_def flying_def)
qed

lemma single_flight_step: "lru_step ix s s' \<Longrightarrow> single_flight s \<Longrightarrow> single_flight s'"
proof (induction rule: lru_step.induct)
  case (ls_begin s key)
  then show ?case by (rule single_flight_begin)
next
  case (ls_generation j s)
  then show ?case using single_flightD(2) [of s j] unfolding fill_generation_def
    by (intro single_flight_call) (simp_all add: flying_def result_ok_def)
next
  case (ls_load j s g r)
  then show ?case using single_flightD(2) [of s j] unfolding fill_load_def
    by (intro single_flight_call) (auto simp: flying_def result_ok_def)
next
  case (ls_install j s g r)
  then have "single_flight (put_call s j ((sys_calls s ! j)\<lparr>f_pc := FInstalled r\<rparr>))"
    using single_flightD(2) [of s j] by (intro single_flight_call) (simp_all add: flying_def result_ok_def)
  then show ?case by (cases r) (simp_all add: fill_install_def Let_def single_flight_cache)
next
  case (ls_unregister j s r)
  then show ?case by (intro single_flight_unregister)
next
  case (ls_close j s r)
  then show ?case using single_flightD(2) [of s j] unfolding fill_close_def
    by (intro single_flight_call) (auto simp: flying_def result_ok_def)
qed (simp_all add: single_flight_cache put_cache_def [symmetric])

lemma single_flight_reach:
  "lru_reach ix s0 s \<Longrightarrow> single_flight s0 \<Longrightarrow> single_flight s"
  by (induction rule: lru_reach.induct) (auto intro: single_flight_step)

section \<open>Composite keys read back\<close>

lemma str_index_char:
  "c \<notin> set xs \<Longrightarrow> str_index (xs @ c # ys) [c] = Some (length xs)"
  by (induction xs) (auto simp: str_prefix_def)

lemma decode_part_encode:
  assumes "int (length p) < 2 ^ 63"
  shows "decode_part (itoa (int (length p)) @ CHR '':'' # p @ rest) = Some (p, rest)"
proof -
  let ?n = "nat_digits (length p)"
  have n: "itoa (int (length p)) = ?n" by (simp add: itoa_def)
  have "CHR '':'' \<notin> set ?n" by (rule nat_digits_no_char) (simp add: is_digit_def)
  then have "str_index (?n @ CHR '':'' # p @ rest) '':'' = Some (length ?n)" by (rule str_index_char)
  with atoi_itoa_nat [OF assms] show ?thesis by (simp add: decode_part_def n Let_def)
qed

lemma decode_parts_encode:
  "\<forall>p \<in> set ps. int (length p) < 2 ^ 63 \<Longrightarrow>
   decode_parts (length ps) (EncodeKey ps) acc = Some (acc @ ps)"
  by (induction ps arbitrary: acc) (simp_all add: decode_part_encode)


section \<open>Operation sequences\<close>

datatype 'v lru_op =
    OSet string string 'v "64 word"
  | OGet string
  | OEvict string
  | OEvictByIndex string
  | OEvictWhere "string \<Rightarrow> bool"
  | OFlush

fun lru_exec :: "'v lru_cache \<Rightarrow> 'v lru_op \<Rightarrow> 'v lru_cache \<times> 'v option" where
  "lru_exec c (OSet k i v g) = (setIfGeneration c k i v g, None)"
| "lru_exec c (OGet k) = lru_Get c k"
| "lru_exec c (OEvict k) = (lru_Evict c k, None)"
| "lru_exec c (OEvictByIndex i) = (lru_EvictByIndex c i, None)"
| "lru_exec c (OEvictWhere p) = (lru_EvictWhere c p, None)"
| "lru_exec c OFlush = (lru_Flush c, None)"

text \<open>The abstract cache's step: \<open>ok\<close> says whether the install's generation is current.\<close>

fun recency_exec ::
  "int \<Rightarrow> ('v \<Rightarrow> bool) \<Rightarrow> (64 word \<Rightarrow> bool) \<Rightarrow> 'v lru_row list \<Rightarrow> 'v lru_op \<Rightarrow> 'v lru_row list \<times> 'v option" where
  "recency_exec cap valid ok l (OSet k i v g) = (if ok g then recency_put cap k i v l else l, None)"
| "recency_exec cap valid ok l (OGet k) = recency_get valid k l"
| "recency_exec cap valid ok l (OEvict k) = (recency_remove k l, None)"
| "recency_exec cap valid ok l (OEvictByIndex i) = (filter (\<lambda>(_, i', _). i = [] \<or> i' \<noteq> i) l, None)"
| "recency_exec cap valid ok l (OEvictWhere p) = (filter (\<lambda>(k, _). \<not> p k) l, None)"
| "recency_exec cap valid ok l OFlush = ([], None)"

inductive lru_trace :: "'v lru_cache \<Rightarrow> 'v lru_cache \<Rightarrow> bool" for c0 where
  lt_start: "lru_trace c0 c0"
| lt_op: "lru_trace c0 c \<Longrightarrow> lru_trace c0 (fst (lru_exec c op))"

lemma lru_inv_exec [inv_intros]: "lru_inv c \<Longrightarrow> lru_inv (fst (lru_exec c op))"
  by (cases op) (simp_all add: inv_intros)

lemma lru_inv_trace: "lru_trace c0 c \<Longrightarrow> lru_inv c0 \<Longrightarrow> lru_inv c"
  by (induction rule: lru_trace.induct) (simp_all add: inv_intros)

section \<open>Properties\<close>

text \<open>C6: the cache never serves a stale row. In every reachable state of the concurrent system, with
  fills, evictions, flushes and reads interleaved in any way, a cached value is the current row of its
  key unless a write to that key has not been followed by its eviction yet: a fill racing an eviction
  never re-installs what the eviction removed. The bound on the evictions is where the 64-bit
  generation would wrap around.\<close>

theorem lru_coherent:
  assumes "lru_New cap valid = Some c" and "lru_reach ix (lru_start c d) s"
    and "evictions s < 2 ^ 64"
    and "recency_lookup (lru_abs (sys_cache s)) k = Some (i, v)" and "k \<notin># pending s"
  shows "v = sys_db s k"
proof -
  have c: "lc_generation c = 0" "lc_order c = []" using assms(1) by (auto simp: lru_New_def split: if_splits)
  have "coherent ix (lru_start c d)"
    using lru_inv_New [OF assms(1)] c by (simp add: coherent_def lru_start_def lru_abs_def)
  from coherentD(3) [OF coherent_reach [OF assms(2) this assms(3)]] assms(4,5) show ?thesis
    by (auto simp: recency_lookup_def row_ok_def dest: map_of_SomeD)
qed

abbreviation lru_empty :: "nat lru_cache" where
  "lru_empty \<equiv> \<lparr>lc_capacity = 2, lc_items = [], lc_order = [], elem_at = (\<lambda>_. None),
     next_elem = 0, lc_byIndex = [], lc_generation = 0, lc_validator = None\<rparr>"

lemma lru_New_empty: "lru_New 2 None = Some lru_empty"
  by (simp add: lru_New_def)

lemmas lru_eval = fill_begin_def fill_generation_def fill_load_def fill_install_def put_call_def
  put_cache_def lru_start_def setIfGeneration_def set_fresh_def evict_owner_def
  evictIndexOwnerLocked_def evict_tail_def push_entry_def bind_index_def Let_def

theorem lru_coherent_witness:
  "\<exists>s. lru_reach (\<lambda>_. []) (lru_start lru_empty (\<lambda>_. 7)) s \<and>
     recency_lookup (lru_abs (sys_cache s)) ''k'' = Some ([], sys_db s ''k'')"
proof -
  let ?s0 = "lru_start lru_empty (\<lambda>_. 7)"
  let ?s1 = "fst (fill_begin ?s0 ''k'')"
  let ?s2 = "fill_generation ?s1 0"
  let ?s3 = "fill_load ?s2 0 0 (Loaded 7 [])"
  let ?s4 = "fill_install ?s3 0 0 (Loaded 7 [])"
  have "lru_reach (\<lambda>_. []) ?s0 ?s1" by (rule lr_step [OF lr_start ls_begin])
  then have "lru_reach (\<lambda>_. []) ?s0 ?s2" by (rule lr_step) (rule ls_generation, simp_all add: lru_eval)
  then have "lru_reach (\<lambda>_. []) ?s0 ?s3" by (rule lr_step) (rule ls_load, simp_all add: lru_eval)
  then have r: "lru_reach (\<lambda>_. []) ?s0 ?s4" by (rule lr_step) (rule ls_install, simp_all add: lru_eval)
  have l: "recency_lookup (lru_abs (sys_cache ?s4)) ''k'' = Some ([], 7)"
    by (simp add: lru_eval recency_lookup_def lru_abs_def)
  have "7 = sys_db ?s4 ''k''"
    by (rule lru_coherent [OF lru_New_empty r _ l]) (simp_all add: lru_eval)
  with r l show ?thesis by auto
qed



text \<open>Every operation of the pointer structure is the operation of the abstract recency list, on
  every cache its operations can produce, with the same answer: an install puts the row in front,
  drops the previous row of the key and of the index key and then the least recently used one when
  the cache is full.\<close>

lemma lru_refines_recency_list:
  assumes "lru_New cap valid = Some c0" and "lru_trace c0 c"
  shows "lru_abs (fst (lru_exec c op)) =
      fst (recency_exec (lc_capacity c) (lru_valid c) (\<lambda>g. lc_generation c = g) (lru_abs c) op) \<and>
    snd (lru_exec c op) =
      snd (recency_exec (lc_capacity c) (lru_valid c) (\<lambda>g. lc_generation c = g) (lru_abs c) op)"
proof -
  have "lru_inv c" using assms lru_inv_trace lru_inv_New by blast
  then show ?thesis
    by (cases op) (simp_all add: lru_abs_setIfGeneration lru_abs_get lru_Evict_def lru_abs_remove_key
        lru_abs_EvictByIndex lru_abs_EvictWhere, simp add: lru_Flush_def lru_abs_def)
qed

text \<open>The bound and the index. On every cache the operations can produce, the number of entries
  is at most the capacity, the key map and the list agree, and an entry with an index key is exactly
  what \<open>EvictByIndex\<close> of that key removes.\<close>

lemma lru_bounded_and_indexed:
  assumes "lru_New cap valid = Some c0" and "lru_trace c0 c"
  shows "int (lru_Len c) \<le> lc_capacity c \<and>
    (\<forall>k e. gm_get (lc_items c) k = Some e \<longleftrightarrow> e \<in> set (lc_order c) \<and> key_of c e = k) \<and>
    (i \<noteq> [] \<longrightarrow> lru_abs (lru_EvictByIndex c i) = filter (\<lambda>(_, i', _). i' \<noteq> i) (lru_abs c) \<and>
      lru_Len c \<le> Suc (lru_Len (lru_EvictByIndex c i)))"
proof -
  have inv: "lru_inv c" using assms lru_inv_trace lru_inv_New by blast
  have "lru_Len c \<le> Suc (lru_Len (remove_key (bump c) k))" for k
    using inv removeLocked_order [of "bump c"] lru_invD(6) [of "bump c"]
    by (auto simp: remove_key_def lru_Len_def length_remove1 split: option.splits)
  then have "lru_Len c \<le> Suc (lru_Len (lru_EvictByIndex c i))"
    by (simp add: lru_EvictByIndex_def split: option.splits) (simp add: lru_Len_def)
  with lru_abs_EvictByIndex [OF inv, of i] show ?thesis
    using lru_invD(1,6) [OF inv] by (auto simp: lru_Len_def)
qed



end
