(* ===== verification/Schemas.thy ===== *)
theory Schemas
  imports Prelude
begin

text \<open>
  The data model of \<open>core/schemas\<close>: keys with their allow and deny lists, errors and their
  rendering, requests, cooldown policies, and the request context. Go's string types
  (\<open>ModelProvider\<close>, \<open>RequestType\<close>) are strings, pointers are options. A context is a record
  with one field per key the modelled code reads or writes, \<open>None\<close> for an absent key; the clock it
  stamps log entries with is part of it, as a function of the number of readings so far.
\<close>

section \<open>Providers and keys\<close>

type_synonym provider = string

abbreviation P_OpenAI :: provider where "P_OpenAI \<equiv> ''openai''"
abbreviation P_Azure :: provider where "P_Azure \<equiv> ''azure''"
abbreviation P_Anthropic :: provider where "P_Anthropic \<equiv> ''anthropic''"
abbreviation P_Bedrock :: provider where "P_Bedrock \<equiv> ''bedrock''"
abbreviation P_BedrockMantle :: provider where "P_BedrockMantle \<equiv> ''bedrock_mantle''"
abbreviation P_Vertex :: provider where "P_Vertex \<equiv> ''vertex''"
abbreviation P_Ollama :: provider where "P_Ollama \<equiv> ''ollama''"
abbreviation P_Opencode :: provider where "P_Opencode \<equiv> ''opencode''"
abbreviation P_SGL :: provider where "P_SGL \<equiv> ''sgl''"
abbreviation P_Gemini :: provider where "P_Gemini \<equiv> ''gemini''"
abbreviation P_VLLM :: provider where "P_VLLM \<equiv> ''vllm''"
abbreviation P_Sensenova :: provider where "P_Sensenova \<equiv> ''sensenova''"

definition KeylessProviders :: "provider list" where
  "KeylessProviders = [P_Opencode]"

definition IsKeylessProvider :: "provider \<Rightarrow> bool" where
  "IsKeylessProvider p \<longleftrightarrow> p \<in> set KeylessProviders"

subsection \<open>Allow and deny lists\<close>

type_synonym whitelist = "string list"
type_synonym blacklist = "string list"

definition wl_Contains :: "whitelist \<Rightarrow> string \<Rightarrow> bool" where
  "wl_Contains wl v \<longleftrightarrow> list_ex (\<lambda>s. equal_fold s v) wl"

definition wl_IsUnrestricted :: "whitelist \<Rightarrow> bool" where
  "wl_IsUnrestricted wl \<longleftrightarrow> wl = [''*'']"

definition wl_IsAllowed :: "whitelist \<Rightarrow> string \<Rightarrow> bool" where
  "wl_IsAllowed wl v \<longleftrightarrow> wl_IsUnrestricted wl \<or> wl_Contains wl v"

definition wl_IsEmpty :: "whitelist \<Rightarrow> bool" where
  "wl_IsEmpty wl \<longleftrightarrow> wl = []"

definition wl_IsRestricted :: "whitelist \<Rightarrow> bool" where
  "wl_IsRestricted wl \<longleftrightarrow> \<not> wl_IsUnrestricted wl"

datatype list_error = WildcardMixed | DuplicateValue string

text \<open>The loop over the entries: the first whose lower-case form was seen before is reported.\<close>

fun find_duplicate :: "string list \<Rightarrow> string list \<Rightarrow> string option" where
  "find_duplicate seen [] = None"
| "find_duplicate seen (v # vs) =
     (if to_lower v \<in> set seen then Some v else find_duplicate (to_lower v # seen) vs)"

definition wl_Validate :: "whitelist \<Rightarrow> list_error option" where
  "wl_Validate wl =
     (if wl_Contains wl ''*'' \<and> length wl > 1 then Some WildcardMixed
      else map_option DuplicateValue (find_duplicate [] wl))"

definition bl_Contains :: "blacklist \<Rightarrow> string \<Rightarrow> bool" where
  "bl_Contains bl v \<longleftrightarrow> list_ex (\<lambda>s. equal_fold s v) bl"

definition bl_IsBlockAll :: "blacklist \<Rightarrow> bool" where
  "bl_IsBlockAll bl \<longleftrightarrow> bl = [''*'']"

definition bl_IsBlocked :: "blacklist \<Rightarrow> string \<Rightarrow> bool" where
  "bl_IsBlocked bl v \<longleftrightarrow> bl_IsBlockAll bl \<or> bl_Contains bl v"

definition bl_IsEmpty :: "blacklist \<Rightarrow> bool" where
  "bl_IsEmpty bl \<longleftrightarrow> bl = []"

definition bl_Validate :: "blacklist \<Rightarrow> list_error option" where
  "bl_Validate bl =
     (if bl_Contains bl ''*'' \<and> length bl > 1 then Some WildcardMixed
      else map_option DuplicateValue (find_duplicate [] bl))"

lemma find_duplicate_None:
  "find_duplicate seen vs = None \<longleftrightarrow>
     distinct (map to_lower vs) \<and> set (map to_lower vs) \<inter> set seen = {}"
  by (induction vs arbitrary: seen) auto

subsection \<open>Keys\<close>

text \<open>A finite \<open>float64\<close> as mantissa and binary exponent.\<close>

type_synonym float64 = "int \<times> int"

text \<open>The conversion to \<open>int\<close> truncates towards zero.\<close>

definition float_trunc :: "float64 \<Rightarrow> int" where
  "float_trunc f = (let (m, e) = f in if e \<ge> 0 then m * 2 ^ nat e else go_div m (2 ^ nat (- e)))"

text \<open>What a key makes of a model name: the identifier sent upstream, the canonical name and the family if
  they are configured, and which provider-specific overrides are attached.\<close>

record alias_config =
  ac_ModelID :: string
  ac_ModelName :: "string option"
  ac_ModelFamily :: "string option"
  ac_Azure :: bool
  ac_Vertex :: bool
  ac_Bedrock :: bool
  ac_Replicate :: bool

record vllm_config =
  vllm_URL :: string
  vllm_ModelName :: string

record key =
  key_ID :: string
  key_Name :: string
  key_Value :: string
  key_Models :: whitelist
  key_BlacklistedModels :: blacklist
  key_Weight :: float64
  key_Enabled :: "bool option"
  key_UseForBatchAPI :: "bool option"
  key_AzureEndpoint :: "string option"
  key_Vertex :: bool
  key_Bedrock :: bool
  key_BedrockMantle :: bool
  key_VLLM :: "vllm_config option"
  key_OllamaURL :: "string option"
  key_SGLURL :: "string option"
  key_Aliases :: "(string, alias_config) gomap"

text \<open>Go's zero value of the struct.\<close>

definition zero_key :: key where
  "zero_key = \<lparr>key_ID = [], key_Name = [], key_Value = [], key_Models = [],
     key_BlacklistedModels = [], key_Weight = (0, 0), key_Enabled = None, key_UseForBatchAPI = None,
     key_AzureEndpoint = None, key_Vertex = False, key_Bedrock = False, key_BedrockMantle = False,
     key_VLLM = None, key_OllamaURL = None, key_SGLURL = None, key_Aliases = []\<rparr>"

section \<open>Errors\<close>

record error_field =
  ef_Type :: "string option"
  ef_Code :: "string option"
  ef_Message :: string
  ef_Error :: "string option"

record resolved_key_alias =
  rk_ModelID :: string
  rk_ModelName :: "string option"
  rk_ModelFamily :: "string option"

record routing_info =
  ri_Provider :: provider
  ri_Model :: string
  ri_Key :: string
  ri_ResolvedAlias :: "resolved_key_alias option"
  ri_IsFallback :: bool
  ri_PrimaryProvider :: "provider option"
  ri_PrimaryModel :: "string option"

definition zero_routing_info :: routing_info where
  "zero_routing_info = \<lparr>ri_Provider = [], ri_Model = [], ri_Key = [], ri_ResolvedAlias = None,
     ri_IsFallback = False, ri_PrimaryProvider = None, ri_PrimaryModel = None\<rparr>"

record bifrost_error =
  be_Type :: "string option"
  be_IsBifrostError :: bool
  be_StatusCode :: "int option"
  be_Error :: "error_field option"
  be_AllowFallbacks :: "bool option"
  be_RoutingInfo :: routing_info
  be_Provider :: provider
  be_OriginalModelRequested :: string
  be_ResolvedModelUsed :: string
  be_RequestType :: string
  be_RetryAfterSeconds :: int
  be_RawRequest :: "string option"
  be_RawResponse :: "string option"

definition zero_error :: bifrost_error where
  "zero_error = \<lparr>be_Type = None, be_IsBifrostError = False, be_StatusCode = None, be_Error = None,
     be_AllowFallbacks = None, be_RoutingInfo = zero_routing_info, be_Provider = [],
     be_OriginalModelRequested = [], be_ResolvedModelUsed = [], be_RequestType = [],
     be_RetryAfterSeconds = 0, be_RawRequest = None, be_RawResponse = None\<rparr>"

abbreviation RequestCancelled :: string where "RequestCancelled \<equiv> ''request_cancelled''"
abbreviation RequestTimedOut :: string where "RequestTimedOut \<equiv> ''request_timed_out''"
abbreviation RequestDropped :: string where "RequestDropped \<equiv> ''request_dropped''"

definition err_message :: "bifrost_error \<Rightarrow> string" where
  "err_message e = (case be_Error e of None \<Rightarrow> [] | Some f \<Rightarrow> ef_Message f)"

definition err_type :: "bifrost_error \<Rightarrow> string option" where
  "err_type e = Option.bind (be_Error e) ef_Type"

definition err_code :: "bifrost_error \<Rightarrow> string option" where
  "err_code e = Option.bind (be_Error e) ef_Code"

definition status_text :: "int \<Rightarrow> string" where
  "status_text c =
     (if c = 401 then ''unauthorized''
      else if c = 403 then ''forbidden''
      else if c = 404 then ''endpoint not found''
      else if c = 405 then ''method not allowed''
      else if c = 429 then ''rate limit exceeded''
      else if c = 500 then ''internal server error''
      else if c = 502 then ''bad gateway''
      else if c = 503 then ''service unavailable''
      else if c = 504 then ''gateway timeout''
      else ''HTTP '' @ itoa c @ '' error'')"

definition GetErrorString :: "bifrost_error \<Rightarrow> string" where
  "GetErrorString e =
     (if err_message e \<noteq> [] then err_message e
      else (case be_StatusCode e of
              Some c \<Rightarrow> status_text c
            | None \<Rightarrow> (case be_Type e of Some t \<Rightarrow> t | None \<Rightarrow> ''unknown error'')))"

definition PopulateExtraFields ::
  "bifrost_error \<Rightarrow> string \<Rightarrow> provider \<Rightarrow> string \<Rightarrow> string \<Rightarrow> bifrost_error" where
  "PopulateExtraFields e requestType prov original resolved =
     e\<lparr>be_RequestType := requestType, be_Provider := prov, be_OriginalModelRequested := original,
       be_ResolvedModelUsed := (if resolved \<noteq> [] then resolved else original)\<rparr>"

definition syncDeprecatedFromRoutingInfo :: "routing_info \<Rightarrow> bifrost_error \<Rightarrow> bifrost_error" where
  "syncDeprecatedFromRoutingInfo info e =
     e\<lparr>be_Provider := (if ri_Provider info \<noteq> [] then ri_Provider info else be_Provider e),
       be_OriginalModelRequested :=
         (case ri_PrimaryModel info of
            Some m \<Rightarrow> if ri_IsFallback info \<and> m \<noteq> [] then m
                      else if ri_Model info \<noteq> [] then ri_Model info else be_OriginalModelRequested e
          | None \<Rightarrow> if ri_Model info \<noteq> [] then ri_Model info else be_OriginalModelRequested e),
       be_ResolvedModelUsed :=
         (case ri_ResolvedAlias info of
            Some a \<Rightarrow> if rk_ModelID a \<noteq> [] then rk_ModelID a
                      else if ri_Model info \<noteq> [] then ri_Model info else be_ResolvedModelUsed e
          | None \<Rightarrow> if ri_Model info \<noteq> [] then ri_Model info else be_ResolvedModelUsed e)\<rparr>"

definition err_SetFallbackRoutingInfo :: "bifrost_error \<Rightarrow> provider \<Rightarrow> string \<Rightarrow> bifrost_error" where
  "err_SetFallbackRoutingInfo e primaryProvider primaryModel =
     (let ri = (be_RoutingInfo e)\<lparr>ri_IsFallback := True,
            ri_PrimaryProvider := (if primaryProvider \<noteq> [] then Some primaryProvider
                                   else ri_PrimaryProvider (be_RoutingInfo e)),
            ri_PrimaryModel := (if primaryModel \<noteq> [] then Some primaryModel
                                else ri_PrimaryModel (be_RoutingInfo e))\<rparr>
      in syncDeprecatedFromRoutingInfo ri (e\<lparr>be_RoutingInfo := ri\<rparr>))"

definition NoEligibleKeysMessage :: "provider \<Rightarrow> int \<Rightarrow> string" where
  "NoEligibleKeysMessage prov retryAfterSeconds =
     ''provider '' @ prov @ '': no eligible keys (all in cooldown)'' @
     (if retryAfterSeconds > 0 then ''; retry after '' @ itoa retryAfterSeconds @ ''s'' else [])"

section \<open>Cooldown policies\<close>

datatype cooldown_scope = ScopeKey | ScopeModel | ScopeOther string

record policy_match =
  pm_StatusCode :: "int option"
  pm_MessageContains :: "string list"
  pm_Type :: "string list"
  pm_Code :: "string list"

record policy_rule =
  pr_Enabled :: "bool option"
  pr_Scope :: cooldown_scope
  pr_Match :: "policy_match list"
  pr_MatchMode :: string
  pr_TTLSeconds :: int

record cooldown_policy =
  cp_RateLimit :: "policy_rule option"
  cp_Quota :: "policy_rule option"

section \<open>The request context\<close>

record attempt_record =
  ar_Attempt :: int
  ar_KeyID :: string
  ar_KeyName :: string
  ar_FailReason :: "string option"
  ar_TriggeredRotation :: bool

datatype log_level = LevelInfo | LevelWarn | LevelError

record routing_log =
  rl_Engine :: string
  rl_Level :: log_level
  rl_Message :: string
  rl_Timestamp :: int

record resolved_alias =
  ra_Key :: string
  ra_Config :: alias_config

record bctx =
  cx_RequestID :: "string option"
  cx_FallbackRequestID :: "string option"
  cx_FallbackIndex :: "int option"
  cx_NumberOfRetries :: "int option"
  cx_AttemptTrail :: "attempt_record list option"
  cx_SelectedKeyID :: "string option"
  cx_SelectedKeyName :: "string option"
  cx_APIKeyID :: "string option"
  cx_APIKeyName :: "string option"
  cx_DirectKey :: "key option"
  cx_SkipKeySelection :: "bool option"
  cx_SessionID :: "string option"
  cx_SessionTTL :: "int option"
  cx_RetryAfterSeconds :: "int option"
  cx_CooldownPolicy :: "cooldown_policy option"
  cx_ProviderKeys :: "(provider, key list) gomap option"
  cx_RoutingEnginesUsed :: "string list option"
  cx_RoutingEngineLogs :: "routing_log list option"
  cx_GovernanceIncludeOnlyKeys :: "string list option"
  cx_ChangeRequestType :: "string option"
  cx_StreamEndIndicator :: "bool option"
  cx_ConnectionClosed :: "bool option"
  cx_SupportsAssistantPrefill :: "bool option"
  cx_SilentLog :: "bool option"
  cx_LargePayloadMode :: "bool option"
  cx_UseRawRequestBody :: "bool option"
  cx_SkipPluginPipeline :: "bool option"
  cx_StreamStartTime :: "int option"
  cx_RoutingPinnedAPIKeyID :: "string option"
  cx_IntegrationType :: "string option"
  cx_SendBackRawRequest :: "bool option"
  cx_SendBackRawResponse :: "bool option"
  cx_StoreRawRequestResponse :: "bool option"
  cx_AllowPerRequestRawOverride :: "bool option"
  cx_AllowPerRequestStorageOverride :: "bool option"
  cx_PassthroughOverridesPresent :: "bool option"
  cx_CaptureRawRequest :: "bool option"
  cx_CaptureRawResponse :: "bool option"
  cx_DropRawRequestFromClient :: "bool option"
  cx_DropRawResponseFromClient :: "bool option"
  cx_ShouldStoreRawInLogs :: "bool option"
  cx_IsCustomProvider :: "bool option"
  cx_BaseProviderType :: "provider option"
  cx_ResolvedAlias :: "resolved_alias option"
  cx_Tracer :: bool
  cx_RoutingInfo :: "routing_info option"
  cx_clock :: "nat \<Rightarrow> int"
  cx_reads :: nat

definition empty_ctx :: bctx where
  "empty_ctx = \<lparr>cx_RequestID = None, cx_FallbackRequestID = None, cx_FallbackIndex = None,
     cx_NumberOfRetries = None, cx_AttemptTrail = None, cx_SelectedKeyID = None, cx_SelectedKeyName = None,
     cx_APIKeyID = None, cx_APIKeyName = None, cx_DirectKey = None, cx_SkipKeySelection = None,
     cx_SessionID = None, cx_SessionTTL = None, cx_RetryAfterSeconds = None, cx_CooldownPolicy = None,
     cx_ProviderKeys = None, cx_RoutingEnginesUsed = None, cx_RoutingEngineLogs = None,
     cx_GovernanceIncludeOnlyKeys = None, cx_ChangeRequestType = None, cx_StreamEndIndicator = None,
     cx_ConnectionClosed = None, cx_SupportsAssistantPrefill = None, cx_SilentLog = None,
     cx_LargePayloadMode = None, cx_UseRawRequestBody = None,
     cx_SkipPluginPipeline = None, cx_StreamStartTime = None, cx_RoutingPinnedAPIKeyID = None, cx_IntegrationType = None,
     cx_SendBackRawRequest = None, cx_SendBackRawResponse = None, cx_StoreRawRequestResponse = None, cx_AllowPerRequestRawOverride = None,
     cx_AllowPerRequestStorageOverride = None, cx_PassthroughOverridesPresent = None, cx_CaptureRawRequest = None, cx_CaptureRawResponse = None,
     cx_DropRawRequestFromClient = None, cx_DropRawResponseFromClient = None, cx_ShouldStoreRawInLogs = None, cx_IsCustomProvider = None,
     cx_BaseProviderType = None, cx_ResolvedAlias = None,
     cx_Tracer = False, cx_RoutingInfo = None,
     cx_clock = (\<lambda>_. 0), cx_reads = 0\<rparr>"

text \<open>\<open>AppendToContextList\<close>: a list in the context has set semantics.\<close>

definition append_ctx_list :: "'a list option \<Rightarrow> 'a \<Rightarrow> 'a list option" where
  "append_ctx_list l v = Some (append_new (case l of None \<Rightarrow> [] | Some xs \<Rightarrow> xs) v)"

definition AppendRoutingEngineLog :: "bctx \<Rightarrow> string \<Rightarrow> log_level \<Rightarrow> string \<Rightarrow> bctx" where
  "AppendRoutingEngineLog ctx engine level message =
     ctx\<lparr>cx_RoutingEngineLogs := append_ctx_list (cx_RoutingEngineLogs ctx)
            \<lparr>rl_Engine = engine, rl_Level = level, rl_Message = message,
              rl_Timestamp = cx_clock ctx (cx_reads ctx)\<rparr>,
          cx_reads := Suc (cx_reads ctx)\<rparr>"

abbreviation RoutingEngineCore :: string where "RoutingEngineCore \<equiv> ''core''"

definition use_core_engine :: "bctx \<Rightarrow> bctx" where
  "use_core_engine ctx =
     ctx\<lparr>cx_RoutingEnginesUsed := append_ctx_list (cx_RoutingEnginesUsed ctx) RoutingEngineCore\<rparr>"

text \<open>What the audit trail never touches.\<close>

lemma routing_log_frame [simp]:
  "cx_AttemptTrail (AppendRoutingEngineLog ctx e l m) = cx_AttemptTrail ctx"
  "cx_SelectedKeyID (AppendRoutingEngineLog ctx e l m) = cx_SelectedKeyID ctx"
  "cx_SelectedKeyName (AppendRoutingEngineLog ctx e l m) = cx_SelectedKeyName ctx"
  "cx_RetryAfterSeconds (AppendRoutingEngineLog ctx e l m) = cx_RetryAfterSeconds ctx"
  "cx_CooldownPolicy (AppendRoutingEngineLog ctx e l m) = cx_CooldownPolicy ctx"
  "cx_FallbackIndex (AppendRoutingEngineLog ctx e l m) = cx_FallbackIndex ctx"
  "cx_Tracer (AppendRoutingEngineLog ctx e l m) = cx_Tracer ctx"
  "cx_LargePayloadMode (AppendRoutingEngineLog ctx e l m) = cx_LargePayloadMode ctx"
  "cx_UseRawRequestBody (AppendRoutingEngineLog ctx e l m) = cx_UseRawRequestBody ctx"
  by (simp_all add: AppendRoutingEngineLog_def)

lemma use_core_engine_frame [simp]:
  "cx_AttemptTrail (use_core_engine ctx) = cx_AttemptTrail ctx"
  "cx_SelectedKeyID (use_core_engine ctx) = cx_SelectedKeyID ctx"
  "cx_SelectedKeyName (use_core_engine ctx) = cx_SelectedKeyName ctx"
  "cx_RetryAfterSeconds (use_core_engine ctx) = cx_RetryAfterSeconds ctx"
  "cx_CooldownPolicy (use_core_engine ctx) = cx_CooldownPolicy ctx"
  "cx_FallbackIndex (use_core_engine ctx) = cx_FallbackIndex ctx"
  "cx_Tracer (use_core_engine ctx) = cx_Tracer ctx"
  "cx_LargePayloadMode (use_core_engine ctx) = cx_LargePayloadMode ctx"
  "cx_UseRawRequestBody (use_core_engine ctx) = cx_UseRawRequestBody ctx"
  by (simp_all add: use_core_engine_def)

end
