(* ===== verification/CooldownPolicy.thy ===== *)
theory CooldownPolicy
  imports Schemas
begin

text \<open>
  The cooldown policies of \<open>core/schemas/provider.go\<close>: how a rule matches an error, the built-in
  policy of each provider, which policy governs an attempt, and the defaults
  \<open>CheckAndSetDefaults\<close> gives a provider configuration.
\<close>

section \<open>Matching\<close>

definition scope_OrDefault :: "cooldown_scope \<Rightarrow> cooldown_scope" where
  "scope_OrDefault s = (if s = ScopeModel then ScopeModel else ScopeKey)"

definition ScopeOrDefault :: "policy_rule option \<Rightarrow> cooldown_scope" where
  "ScopeOrDefault r = (case r of None \<Rightarrow> ScopeKey | Some r \<Rightarrow> scope_OrDefault (pr_Scope r))"

definition match_message :: "string list \<Rightarrow> bifrost_error \<Rightarrow> bool" where
  "match_message subs e =
     (let msg = to_lower (GetErrorString e) in list_ex (\<lambda>sub. str_contains msg (to_lower sub)) subs)"

definition match_exact :: "string list \<Rightarrow> string option \<Rightarrow> bool" where
  "match_exact wants v =
     (case v of None \<Rightarrow> False | Some t \<Rightarrow> list_ex (\<lambda>want. to_lower want = to_lower t) wants)"

definition pm_Matches :: "policy_match \<Rightarrow> bifrost_error \<Rightarrow> bool" where
  "pm_Matches m e =
     (if pm_StatusCode m = None \<and> pm_MessageContains m = [] \<and> pm_Type m = [] \<and> pm_Code m = []
      then False
      else if pm_StatusCode m \<noteq> None \<and> be_StatusCode e \<noteq> pm_StatusCode m then False
      else if pm_MessageContains m \<noteq> [] \<and> \<not> match_message (pm_MessageContains m) e then False
      else if pm_Type m \<noteq> [] \<and> \<not> match_exact (pm_Type m) (err_type e) then False
      else if pm_Code m \<noteq> [] \<and> \<not> match_exact (pm_Code m) (err_code e) then False
      else True)"

definition MatchModeOrDefault :: "policy_rule \<Rightarrow> string" where
  "MatchModeOrDefault r = (if pr_MatchMode r = [] then ''any'' else pr_MatchMode r)"

definition MatchesRule :: "policy_rule option \<Rightarrow> bifrost_error \<Rightarrow> bool" where
  "MatchesRule rule e =
     (case rule of
        None \<Rightarrow> False
      | Some r \<Rightarrow>
          if pr_Match r = [] then False
          else if pr_Enabled r = Some False then False
          else if MatchModeOrDefault r = ''all'' then list_all (\<lambda>m. pm_Matches m e) (pr_Match r)
          else list_ex (\<lambda>m. pm_Matches m e) (pr_Match r))"

section \<open>The built-in policies\<close>

definition on_message :: "string list \<Rightarrow> policy_match" where
  "on_message subs = \<lparr>pm_StatusCode = None, pm_MessageContains = subs, pm_Type = [], pm_Code = []\<rparr>"

definition on_type :: "string list \<Rightarrow> policy_match" where
  "on_type ts = \<lparr>pm_StatusCode = None, pm_MessageContains = [], pm_Type = ts, pm_Code = []\<rparr>"

definition on_code :: "string list \<Rightarrow> policy_match" where
  "on_code cs = \<lparr>pm_StatusCode = None, pm_MessageContains = [], pm_Type = [], pm_Code = cs\<rparr>"

definition any_rule :: "int \<Rightarrow> policy_match list \<Rightarrow> policy_rule option" where
  "any_rule ttl ms = Some \<lparr>pr_Enabled = None, pr_Scope = ScopeOther [], pr_Match = ms,
     pr_MatchMode = ''any'', pr_TTLSeconds = ttl\<rparr>"

abbreviation (input) DefaultCooldownTTLSeconds :: int where "DefaultCooldownTTLSeconds \<equiv> 300"
abbreviation (input) SensenovaRateLimitTTLSeconds :: int where "SensenovaRateLimitTTLSeconds \<equiv> 30"
abbreviation (input) SensenovaQuotaTTLSeconds :: int where "SensenovaQuotaTTLSeconds \<equiv> 600"
abbreviation (input) AnthropicRateLimitTTLSeconds :: int where "AnthropicRateLimitTTLSeconds \<equiv> 60"
abbreviation (input) GeminiRateLimitTTLSeconds :: int where "GeminiRateLimitTTLSeconds \<equiv> 60"
abbreviation (input) GeminiQuotaTTLSeconds :: int where "GeminiQuotaTTLSeconds \<equiv> 600"
abbreviation (input) OpenAIRateLimitTTLSeconds :: int where "OpenAIRateLimitTTLSeconds \<equiv> 60"
abbreviation (input) OpenAIQuotaTTLSeconds :: int where "OpenAIQuotaTTLSeconds \<equiv> 600"
abbreviation (input) BedrockRateLimitTTLSeconds :: int where "BedrockRateLimitTTLSeconds \<equiv> 60"

definition DefaultCooldownPolicy :: "provider \<Rightarrow> cooldown_policy" where
  "DefaultCooldownPolicy p =
     (if p = P_Sensenova then
        \<lparr>cp_RateLimit = any_rule SensenovaRateLimitTTLSeconds
           [on_message [''http error 429'', ''rate_limit_error''], on_type [''rate_limit_error'']],
         cp_Quota = any_rule SensenovaQuotaTTLSeconds
           [on_message [''workspace allocated quota'', ''insufficient_quota'', ''quota exceeded'', ''quota_exceeded''],
            on_code [''insufficient_quota'']]\<rparr>
      else if p = P_Anthropic then
        \<lparr>cp_RateLimit = any_rule AnthropicRateLimitTTLSeconds
           [on_type [''rate_limit_error''],
            on_message [''rate limit'', ''too many requests'', ''tokens per minute'', ''requests per minute'']],
         cp_Quota = None\<rparr>
      else if p = P_Gemini \<or> p = P_Vertex then
        \<lparr>cp_RateLimit = any_rule GeminiRateLimitTTLSeconds
           [on_message [''rate limit'', ''throttled'', ''throttling''], on_type [''rate_limit_error'']],
         cp_Quota = any_rule GeminiQuotaTTLSeconds
           [on_message [''quota exceeded'', ''quota_exceeded'', ''resource_exhausted''],
            on_type [''resource_exhausted'']]\<rparr>
      else if p = P_OpenAI then
        \<lparr>cp_RateLimit = any_rule OpenAIRateLimitTTLSeconds
           [on_type [''rate_limit_error''], on_message [''rate limit reached'', ''rate limit exceeded'']],
         cp_Quota = any_rule OpenAIQuotaTTLSeconds
           [on_type [''insufficient_quota''], on_code [''insufficient_quota''],
            on_message [''insufficient_quota'', ''quota exceeded'']]\<rparr>
      else if p = P_Bedrock then
        \<lparr>cp_RateLimit = any_rule BedrockRateLimitTTLSeconds
           [on_message [''throttling'', ''throttled'', ''rate limit''], on_type [''throttlingexception'']],
         cp_Quota = None\<rparr>
      else
        \<lparr>cp_RateLimit = any_rule DefaultCooldownTTLSeconds
           [on_message [''rate limit'', ''rate_limit'', ''ratelimit'', ''too many requests'', ''throttled'',
              ''throttling'', ''rate exceeded'', ''limit exceeded''],
            on_type [''rate_limit_error'']],
         cp_Quota = any_rule DefaultCooldownTTLSeconds
           [on_message [''insufficient_quota'', ''quota exceeded'', ''quota_exceeded'', ''billing'', ''usage limit''],
            on_code [''insufficient_quota'']]\<rparr>)"

definition ResolveCooldownPolicy :: "provider \<Rightarrow> cooldown_policy option \<Rightarrow> cooldown_policy" where
  "ResolveCooldownPolicy p configured =
     (case configured of Some c \<Rightarrow> c | None \<Rightarrow> DefaultCooldownPolicy p)"

section \<open>Provider configuration defaults\<close>

record network_config =
  nc_DefaultRequestTimeoutInSeconds :: int
  nc_MaxRetries :: int
  nc_RetryBackoffInitial :: int
  nc_RetryBackoffMax :: int
  nc_StreamIdleTimeoutInSeconds :: int
  nc_KeepAliveTimeoutInSeconds :: int
  nc_MaxConnsPerHost :: int
  nc_HTTP2PingIntervalInSeconds :: int
  nc_ExtraHeaders :: "(string, string) gomap"
  nc_BetaHeaderOverrides :: "(string, bool) gomap"

record provider_config =
  pc_Network :: network_config
  pc_Concurrency :: int
  pc_BufferSize :: int
  pc_CooldownPolicy :: "cooldown_policy option"
  pc_SendBackRawRequest :: bool
  pc_SendBackRawResponse :: bool
  pc_StoreRawRequestResponse :: bool
  pc_Custom :: "(bool \<times> provider) option"

abbreviation (input) DefaultMaxRetries :: int where "DefaultMaxRetries \<equiv> 0"
abbreviation (input) DefaultRetryBackoffInitial :: int where "DefaultRetryBackoffInitial \<equiv> 500000000"
abbreviation (input) DefaultRetryBackoffMax :: int where "DefaultRetryBackoffMax \<equiv> 5000000000"
abbreviation (input) DefaultRequestTimeoutInSeconds :: int where "DefaultRequestTimeoutInSeconds \<equiv> 300"
abbreviation (input) DefaultBufferSize :: int where "DefaultBufferSize \<equiv> 5000"
abbreviation (input) DefaultConcurrency :: int where "DefaultConcurrency \<equiv> 1000"
abbreviation (input) DefaultStreamIdleTimeoutInSeconds :: int where "DefaultStreamIdleTimeoutInSeconds \<equiv> 120"
abbreviation (input) DefaultKeepAliveTimeoutInSeconds :: int where "DefaultKeepAliveTimeoutInSeconds \<equiv> 30"
abbreviation (input) DefaultMaxConnsPerHost :: int where "DefaultMaxConnsPerHost \<equiv> 5000"
abbreviation (input) MaxConnsPerHostUpperBound :: int where "MaxConnsPerHostUpperBound \<equiv> 10000"
abbreviation (input) HTTP2PingIntervalUpperBoundSeconds :: int where "HTTP2PingIntervalUpperBoundSeconds \<equiv> 3600"

definition default_mode :: "policy_rule \<Rightarrow> policy_rule" where
  "default_mode r = (if pr_MatchMode r = [] then r\<lparr>pr_MatchMode := ''any''\<rparr> else r)"

definition if_zero :: "int \<Rightarrow> int \<Rightarrow> int" where
  "if_zero d x = (if x = 0 then d else x)"

definition if_nonpos :: "int \<Rightarrow> int \<Rightarrow> int" where
  "if_nonpos d x = (if x \<le> 0 then d else x)"

definition cap_conns :: "int \<Rightarrow> int" where
  "cap_conns x = (if x \<le> 0 then DefaultMaxConnsPerHost
     else if x > MaxConnsPerHostUpperBound then MaxConnsPerHostUpperBound else x)"

definition cap_ping :: "int \<Rightarrow> int" where
  "cap_ping x = (if x > HTTP2PingIntervalUpperBoundSeconds then HTTP2PingIntervalUpperBoundSeconds else x)"

definition network_defaults :: "network_config \<Rightarrow> network_config" where
  "network_defaults n = n\<lparr>
     nc_DefaultRequestTimeoutInSeconds :=
       if_nonpos DefaultRequestTimeoutInSeconds (nc_DefaultRequestTimeoutInSeconds n),
     nc_MaxRetries := if_zero DefaultMaxRetries (nc_MaxRetries n),
     nc_RetryBackoffInitial := if_zero DefaultRetryBackoffInitial (nc_RetryBackoffInitial n),
     nc_RetryBackoffMax := if_zero DefaultRetryBackoffMax (nc_RetryBackoffMax n),
     nc_StreamIdleTimeoutInSeconds :=
       if_nonpos DefaultStreamIdleTimeoutInSeconds (nc_StreamIdleTimeoutInSeconds n),
     nc_KeepAliveTimeoutInSeconds :=
       if_nonpos DefaultKeepAliveTimeoutInSeconds (nc_KeepAliveTimeoutInSeconds n),
     nc_MaxConnsPerHost := cap_conns (nc_MaxConnsPerHost n),
     nc_HTTP2PingIntervalInSeconds := cap_ping (nc_HTTP2PingIntervalInSeconds n)\<rparr>"

definition policy_defaults :: "cooldown_policy \<Rightarrow> cooldown_policy" where
  "policy_defaults p = p\<lparr>cp_RateLimit := map_option default_mode (cp_RateLimit p),
     cp_Quota := map_option default_mode (cp_Quota p)\<rparr>"

definition CheckAndSetDefaults :: "provider_config \<Rightarrow> provider_config" where
  "CheckAndSetDefaults c = c\<lparr>
     pc_Concurrency := if_zero DefaultConcurrency (pc_Concurrency c),
     pc_BufferSize := if_zero DefaultBufferSize (pc_BufferSize c),
     pc_Network := network_defaults (pc_Network c),
     pc_CooldownPolicy := map_option policy_defaults (pc_CooldownPolicy c)\<rparr>"

section \<open>Lemmas\<close>

lemma match_exact_iff:
  "match_exact wants v \<longleftrightarrow> (\<exists>t. v = Some t \<and> (\<exists>want \<in> set wants. equal_fold want t))"
  by (simp add: match_exact_def list_ex_iff equal_fold_def split: option.splits)

lemma match_message_iff:
  "match_message subs e \<longleftrightarrow> (\<exists>sub \<in> set subs. str_contains (to_lower (GetErrorString e)) (to_lower sub))"
  by (simp add: match_message_def list_ex_iff)

lemma pm_Matches_spec:
  "pm_Matches m e \<longleftrightarrow>
     (pm_StatusCode m \<noteq> None \<or> pm_MessageContains m \<noteq> [] \<or> pm_Type m \<noteq> [] \<or> pm_Code m \<noteq> []) \<and>
     (\<forall>c. pm_StatusCode m = Some c \<longrightarrow> be_StatusCode e = Some c) \<and>
     (pm_MessageContains m \<noteq> [] \<longrightarrow>
        (\<exists>sub \<in> set (pm_MessageContains m). str_contains (to_lower (GetErrorString e)) (to_lower sub))) \<and>
     (pm_Type m \<noteq> [] \<longrightarrow> (\<exists>t. err_type e = Some t \<and> (\<exists>want \<in> set (pm_Type m). equal_fold want t))) \<and>
     (pm_Code m \<noteq> [] \<longrightarrow> (\<exists>t. err_code e = Some t \<and> (\<exists>want \<in> set (pm_Code m). equal_fold want t)))"
  unfolding pm_Matches_def match_exact_iff match_message_iff
  by (cases "pm_StatusCode m") (simp_all, blast)

lemma defaults_idem [simp]:
  "if_zero d (if_zero d x) = if_zero d x" "if_nonpos d (if_nonpos d x) = if_nonpos d x"
  "cap_conns (cap_conns x) = cap_conns x" "cap_ping (cap_ping x) = cap_ping x"
  "default_mode (default_mode r) = default_mode r"
  by (simp_all add: if_zero_def if_nonpos_def cap_conns_def cap_ping_def default_mode_def)

lemma network_defaults_idem [simp]: "network_defaults (network_defaults n) = network_defaults n"
  by (simp add: network_defaults_def)

lemma policy_defaults_idem [simp]: "policy_defaults (policy_defaults p) = policy_defaults p"
  by (simp add: policy_defaults_def option.map_comp comp_def)

lemma CheckAndSetDefaults_idem: "CheckAndSetDefaults (CheckAndSetDefaults c) = CheckAndSetDefaults c"
  by (simp add: CheckAndSetDefaults_def option.map_comp comp_def)

lemma MatchesRule_default_mode: "MatchesRule (map_option default_mode r) e = MatchesRule r e"
  by (auto simp: MatchesRule_def MatchModeOrDefault_def default_mode_def split: option.splits)

text \<open>An error that carries nothing but a status code.\<close>

definition bare_error :: "int \<Rightarrow> bifrost_error" where
  "bare_error c = zero_error\<lparr>be_StatusCode := Some c\<rparr>"

lemma bare_error_simps [simp]:
  "err_type (bare_error c) = None" "err_code (bare_error c) = None"
  "GetErrorString (bare_error c) = status_text c"
  by (simp_all add: bare_error_def zero_error_def err_type_def err_code_def GetErrorString_def err_message_def)

lemma builtin_bare_429:
  "\<forall>p \<in> {P_Sensenova, P_Anthropic, P_Gemini, P_Vertex, P_OpenAI, P_Bedrock, []}.
     \<not> MatchesRule (cp_Quota (DefaultCooldownPolicy p)) (bare_error 429) \<and>
     MatchesRule (cp_RateLimit (DefaultCooldownPolicy p)) (bare_error 429) = (p \<noteq> P_Sensenova)"
  by code_simp

section \<open>Properties\<close>

text \<open>A predicate fires exactly when it constrains something and every constraint it has holds:
  the status code is equal, one of the substrings occurs in the rendered message in any case, and the
  type and the code are among the listed ones in any case. A predicate with no constraint never
  fires, so no error is marked by accident.\<close>

lemma policy_match_exact:
  "pm_Matches m e \<longleftrightarrow>
     (pm_StatusCode m \<noteq> None \<or> pm_MessageContains m \<noteq> [] \<or> pm_Type m \<noteq> [] \<or> pm_Code m \<noteq> []) \<and>
     (pm_StatusCode m = None \<or> be_StatusCode e = pm_StatusCode m) \<and>
     (pm_MessageContains m = [] \<or>
        (\<exists>sub a b. sub \<in> set (pm_MessageContains m) \<and> to_lower (GetErrorString e) = a @ to_lower sub @ b)) \<and>
     (pm_Type m = [] \<or> (\<exists>t want. err_type e = Some t \<and> want \<in> set (pm_Type m) \<and> equal_fold want t)) \<and>
     (pm_Code m = [] \<or> (\<exists>t want. err_code e = Some t \<and> want \<in> set (pm_Code m) \<and> equal_fold want t))"
  unfolding pm_Matches_spec str_contains_iff by (cases "pm_StatusCode m") (simp_all, blast+)

text \<open>No built-in policy takes a bare 429 for quota exhaustion, so a transient rate limit never
  gets the long quota cooldown; and apart from Sensenova's, which asks for the text of the error,
  every built-in policy takes it for a rate limit.\<close>

lemma default_policy_bare_429:
  "\<not> MatchesRule (cp_Quota (DefaultCooldownPolicy p)) (bare_error 429) \<and>
   MatchesRule (cp_RateLimit (DefaultCooldownPolicy p)) (bare_error 429) = (p \<noteq> P_Sensenova)"
proof (cases "p \<in> {P_Sensenova, P_Anthropic, P_Gemini, P_Vertex, P_OpenAI, P_Bedrock}")
  case True
  then show ?thesis using builtin_bare_429 by auto
next
  case False
  then have "DefaultCooldownPolicy p = DefaultCooldownPolicy []" by (simp add: DefaultCooldownPolicy_def)
  with False show ?thesis using builtin_bare_429 by simp
qed

text \<open>Filling in the defaults is stable, leaves no limit of a provider's network configuration
  outside its range, and does not change what the configured rules match.\<close>

lemma config_defaults_sound:
  "CheckAndSetDefaults (CheckAndSetDefaults c) = CheckAndSetDefaults c \<and>
   pc_Concurrency (CheckAndSetDefaults c) \<noteq> 0 \<and> pc_BufferSize (CheckAndSetDefaults c) \<noteq> 0 \<and>
   0 < nc_DefaultRequestTimeoutInSeconds (pc_Network (CheckAndSetDefaults c)) \<and>
   0 < nc_StreamIdleTimeoutInSeconds (pc_Network (CheckAndSetDefaults c)) \<and>
   0 < nc_KeepAliveTimeoutInSeconds (pc_Network (CheckAndSetDefaults c)) \<and>
   0 < nc_MaxConnsPerHost (pc_Network (CheckAndSetDefaults c)) \<and>
   nc_MaxConnsPerHost (pc_Network (CheckAndSetDefaults c)) \<le> MaxConnsPerHostUpperBound \<and>
   nc_HTTP2PingIntervalInSeconds (pc_Network (CheckAndSetDefaults c)) * second_ns < 2 ^ 63 \<and>
   (map_option (\<lambda>p. MatchesRule (cp_Quota p) e) (pc_CooldownPolicy (CheckAndSetDefaults c)) =
      map_option (\<lambda>p. MatchesRule (cp_Quota p) e) (pc_CooldownPolicy c)) \<and>
   (map_option (\<lambda>p. MatchesRule (cp_RateLimit p) e) (pc_CooldownPolicy (CheckAndSetDefaults c)) =
      map_option (\<lambda>p. MatchesRule (cp_RateLimit p) e) (pc_CooldownPolicy c))"
  using CheckAndSetDefaults_idem [of c]
  by (simp add: CheckAndSetDefaults_def network_defaults_def policy_defaults_def if_zero_def if_nonpos_def
      cap_conns_def cap_ping_def second_ns_def option.map_comp comp_def MatchesRule_default_mode)

end
