(* ===== verification/Requests.thy ===== *)
theory Requests
  imports Schemas
begin

text \<open>
  The request envelope of \<open>core/schemas/bifrost.go\<close>. A \<open>BifrostRequest\<close> is a request type and
  some fifty pointers to request structs of which one is set; here it is a map from the field names
  to the structs that are set, and the accessors, which are switches over the pointers in the code,
  walk the same cases in the same order. Of a request struct the fields that routing, retries and
  fallbacks read are kept.
\<close>

section \<open>Requests\<close>

record fallback =
  fb_Provider :: provider
  fb_Model :: string

record reasoning =
  rs_Summary :: "string list"
  rs_EncryptedContent :: "string option"

record content =
  ct_Blocks :: "string list"
  ct_Str :: "string option"

record responses_message =
  rm_ID :: string
  rm_Reasoning :: "reasoning option"
  rm_Content :: "content option"

record subreq =
  sq_Provider :: provider
  sq_Model :: "string option"
  sq_Fallbacks :: "fallback list"
  sq_Input :: "responses_message list"
  sq_RawRequestBody :: string
  sq_KeyID :: "string option"

record brequest =
  br_RequestType :: string
  br_subs :: "(string, subreq) gomap"

text \<open>What a case of \<open>GetRequestFields\<close> returns beside the provider: nothing, the model and the
  fallbacks, the model alone, or the model behind a pointer that may be nil.\<close>

datatype field_kind = NoModel | ModelAndFallbacks | ModelOnly | OptModel

definition request_fields :: "(string \<times> field_kind) list" where
  "request_fields =
    [(''ListModelsRequest'', NoModel), (''TextCompletionRequest'', ModelAndFallbacks),
     (''ChatRequest'', ModelAndFallbacks), (''ResponsesRequest'', ModelAndFallbacks),
     (''ResponsesRetrieveRequest'', NoModel), (''ResponsesDeleteRequest'', NoModel),
     (''ResponsesCancelRequest'', NoModel), (''ResponsesInputItemsRequest'', NoModel),
     (''CountTokensRequest'', ModelAndFallbacks), (''CompactionRequest'', ModelAndFallbacks),
     (''EmbeddingRequest'', ModelAndFallbacks), (''RerankRequest'', ModelAndFallbacks),
     (''OCRRequest'', ModelAndFallbacks), (''SpeechRequest'', ModelAndFallbacks),
     (''TranscriptionRequest'', ModelAndFallbacks), (''ImageGenerationRequest'', ModelAndFallbacks),
     (''ImageEditRequest'', ModelAndFallbacks), (''ImageVariationRequest'', ModelAndFallbacks),
     (''VideoGenerationRequest'', ModelAndFallbacks), (''VideoRetrieveRequest'', NoModel),
     (''VideoDownloadRequest'', NoModel), (''VideoListRequest'', NoModel),
     (''VideoDeleteRequest'', NoModel), (''VideoRemixRequest'', NoModel),
     (''FileUploadRequest'', OptModel), (''FileListRequest'', OptModel),
     (''FileRetrieveRequest'', OptModel), (''FileDeleteRequest'', OptModel),
     (''FileContentRequest'', OptModel), (''CachedContentCreateRequest'', ModelOnly),
     (''CachedContentListRequest'', OptModel), (''CachedContentRetrieveRequest'', OptModel),
     (''CachedContentUpdateRequest'', OptModel), (''CachedContentDeleteRequest'', OptModel),
     (''BatchCreateRequest'', OptModel), (''BatchListRequest'', OptModel),
     (''BatchRetrieveRequest'', OptModel), (''BatchCancelRequest'', OptModel),
     (''BatchResultsRequest'', OptModel), (''BatchDeleteRequest'', OptModel),
     (''ContainerCreateRequest'', NoModel), (''ContainerListRequest'', NoModel),
     (''ContainerRetrieveRequest'', NoModel), (''ContainerDeleteRequest'', NoModel),
     (''ContainerFileCreateRequest'', NoModel), (''ContainerFileListRequest'', NoModel),
     (''ContainerFileRetrieveRequest'', NoModel), (''ContainerFileContentRequest'', NoModel),
     (''ContainerFileDeleteRequest'', NoModel), (''PassthroughRequest'', ModelOnly)]"

definition model_of :: "subreq \<Rightarrow> string" where
  "model_of q = (case sq_Model q of Some m \<Rightarrow> m | None \<Rightarrow> [])"

fun get_fields :: "(string, subreq) gomap \<Rightarrow> (string \<times> field_kind) list \<Rightarrow> provider \<times> string \<times> fallback list" where
  "get_fields subs [] = ([], [], [])"
| "get_fields subs ((f, kind) # fs) =
     (case gm_get subs f of
        None \<Rightarrow> get_fields subs fs
      | Some q \<Rightarrow>
          (case kind of
             NoModel \<Rightarrow> (sq_Provider q, [], [])
           | ModelAndFallbacks \<Rightarrow> (sq_Provider q, model_of q, sq_Fallbacks q)
           | ModelOnly \<Rightarrow> (sq_Provider q, model_of q, [])
           | OptModel \<Rightarrow> (sq_Provider q, model_of q, [])))"

definition GetRequestFields :: "brequest \<Rightarrow> provider \<times> string \<times> fallback list" where
  "GetRequestFields r = get_fields (br_subs r) request_fields"

abbreviation req_provider :: "brequest \<Rightarrow> provider" where
  "req_provider r \<equiv> fst (GetRequestFields r)"

abbreviation req_model :: "brequest \<Rightarrow> string" where
  "req_model r \<equiv> fst (snd (GetRequestFields r))"

abbreviation req_fallbacks :: "brequest \<Rightarrow> fallback list" where
  "req_fallbacks r \<equiv> snd (snd (GetRequestFields r))"

text \<open>A setter changes the struct of the first case of its switch that is set.\<close>

fun update_first :: "string list \<Rightarrow> (string \<Rightarrow> subreq \<Rightarrow> subreq) \<Rightarrow> (string, subreq) gomap \<Rightarrow> (string, subreq) gomap" where
  "update_first [] f subs = subs"
| "update_first (n # ns) f subs =
     (case gm_get subs n of Some q \<Rightarrow> gm_set n (f n q) subs | None \<Rightarrow> update_first ns f subs)"

definition provider_setters :: "string list" where
  "provider_setters =
    [''ListModelsRequest'', ''TextCompletionRequest'', ''ChatRequest'', ''ResponsesRequest'',
     ''ResponsesRetrieveRequest'', ''ResponsesDeleteRequest'', ''ResponsesCancelRequest'',
     ''ResponsesInputItemsRequest'', ''CountTokensRequest'', ''CompactionRequest'', ''EmbeddingRequest'',
     ''RerankRequest'', ''OCRRequest'', ''SpeechRequest'', ''TranscriptionRequest'',
     ''ImageGenerationRequest'', ''ImageEditRequest'', ''ImageVariationRequest'',
     ''VideoGenerationRequest'', ''VideoRetrieveRequest'', ''VideoDownloadRequest'', ''VideoListRequest'',
     ''VideoDeleteRequest'', ''VideoRemixRequest'', ''CachedContentCreateRequest'',
     ''CachedContentListRequest'', ''CachedContentRetrieveRequest'', ''CachedContentUpdateRequest'',
     ''CachedContentDeleteRequest'']"

definition SetProvider :: "brequest \<Rightarrow> provider \<Rightarrow> brequest" where
  "SetProvider r p = r\<lparr>br_subs := update_first provider_setters (\<lambda>_ q. q\<lparr>sq_Provider := p\<rparr>) (br_subs r)\<rparr>"

definition model_setters :: "string list" where
  "model_setters =
    [''TextCompletionRequest'', ''ChatRequest'', ''ResponsesRequest'', ''CountTokensRequest'',
     ''CompactionRequest'', ''EmbeddingRequest'', ''RerankRequest'', ''OCRRequest'', ''SpeechRequest'',
     ''TranscriptionRequest'', ''ImageGenerationRequest'', ''ImageEditRequest'', ''ImageVariationRequest'',
     ''VideoGenerationRequest'', ''BatchCreateRequest'', ''CachedContentCreateRequest'',
     ''CachedContentListRequest'', ''CachedContentRetrieveRequest'', ''CachedContentUpdateRequest'',
     ''CachedContentDeleteRequest'']"

text \<open>A model behind a pointer is replaced only when there is one.\<close>

definition opt_model_setters :: "string list" where
  "opt_model_setters =
    [''BatchCreateRequest'', ''CachedContentListRequest'', ''CachedContentRetrieveRequest'',
     ''CachedContentUpdateRequest'', ''CachedContentDeleteRequest'']"

definition SetModel :: "brequest \<Rightarrow> string \<Rightarrow> brequest" where
  "SetModel r m = r\<lparr>br_subs := update_first model_setters
     (\<lambda>n q. if n \<in> set opt_model_setters \<and> sq_Model q = None then q else q\<lparr>sq_Model := Some m\<rparr>) (br_subs r)\<rparr>"

definition fallback_setters :: "string list" where
  "fallback_setters =
    [''TextCompletionRequest'', ''ChatRequest'', ''ResponsesRequest'', ''CountTokensRequest'',
     ''CompactionRequest'', ''EmbeddingRequest'', ''RerankRequest'', ''OCRRequest'', ''SpeechRequest'',
     ''TranscriptionRequest'', ''ImageGenerationRequest'', ''ImageEditRequest'', ''ImageVariationRequest'',
     ''VideoGenerationRequest'']"

definition SetFallbacks :: "brequest \<Rightarrow> fallback list \<Rightarrow> brequest" where
  "SetFallbacks r fbs = r\<lparr>br_subs := update_first fallback_setters (\<lambda>_ q. q\<lparr>sq_Fallbacks := fbs\<rparr>) (br_subs r)\<rparr>"

section \<open>Model strings\<close>

text \<open>\<open>ParseModelString\<close>; the set of registered providers is an argument.\<close>

definition ParseModelString :: "(string \<Rightarrow> bool) \<Rightarrow> string \<Rightarrow> provider \<Rightarrow> provider \<times> string" where
  "ParseModelString known model defaultProvider =
     (case str_index model ''/'' of
        Some i \<Rightarrow> if known (take i model) then (take i model, drop (i + 1) model)
                  else (defaultProvider, model)
      | None \<Rightarrow> (defaultProvider, model))"

section \<open>Request types\<close>

definition isModelRequired :: "string \<Rightarrow> bool" where
  "isModelRequired t \<longleftrightarrow> t \<in> set
    [''text_completion'', ''text_completion_stream'', ''chat_completion'', ''chat_completion_stream'',
     ''responses'', ''responses_stream'', ''speech'', ''speech_stream'', ''transcription'',
     ''transcription_stream'', ''embedding'', ''image_generation'', ''image_generation_stream'',
     ''video_generation'']"

definition IsStreamRequestType :: "string \<Rightarrow> bool" where
  "IsStreamRequestType t \<longleftrightarrow> t \<in> set
    [''text_completion_stream'', ''chat_completion_stream'', ''responses_stream'',
     ''responses_retrieve_stream'', ''speech_stream'', ''transcription_stream'',
     ''image_generation_stream'', ''image_edit_stream'', ''passthrough_stream'',
     ''websocket_responses'', ''realtime'']"

definition isBatchRequestType :: "string \<Rightarrow> bool" where
  "isBatchRequestType t \<longleftrightarrow> t \<in> set
    [''batch_create'', ''batch_list'', ''batch_retrieve'', ''batch_cancel'', ''batch_delete'', ''batch_results'']"

definition isFileRequestType :: "string \<Rightarrow> bool" where
  "isFileRequestType t \<longleftrightarrow> t \<in> set
    [''file_upload'', ''file_list'', ''file_retrieve'', ''file_delete'', ''file_content'']"

definition isCachedContentRequestType :: "string \<Rightarrow> bool" where
  "isCachedContentRequestType t \<longleftrightarrow> t \<in> set
    [''cached_content_create'', ''cached_content_list'', ''cached_content_retrieve'',
     ''cached_content_update'', ''cached_content_delete'']"

definition isContainerRequestType :: "string \<Rightarrow> bool" where
  "isContainerRequestType t \<longleftrightarrow> t \<in> set
    [''container_create'', ''container_list'', ''container_retrieve'', ''container_delete'',
     ''container_file_create'', ''container_file_list'', ''container_file_retrieve'',
     ''container_file_content'', ''container_file_delete'']"

definition isModellessVideoRequestType :: "string \<Rightarrow> bool" where
  "isModellessVideoRequestType t \<longleftrightarrow> t \<in> set
    [''video_retrieve'', ''video_download'', ''video_list'', ''video_delete'', ''video_remix'']"

definition isPassthroughRequestType :: "string \<Rightarrow> bool" where
  "isPassthroughRequestType t \<longleftrightarrow> t = ''passthrough'' \<or> t = ''passthrough_stream''"

definition isResponsesLifecycleRequestType :: "string \<Rightarrow> bool" where
  "isResponsesLifecycleRequestType t \<longleftrightarrow> t \<in> set
    [''responses_retrieve'', ''responses_retrieve_stream'', ''responses_delete'', ''responses_cancel'',
     ''responses_input_items'']"

end
