(* ===== verification/Cooldown.thy ===== *)
theory Cooldown
  imports CooldownPolicy Requests
begin

text \<open>
  The provider-cooldown plugin (\<open>plugins/providercooldown\<close>): the state that remembers which
  keys are cooling down, its counters, the key-pool filter and the per-key failure marker it installs
  in core, and the plugin's hooks. Times are nanoseconds since the epoch, durations wrap around at 64
  bits where the code multiplies seconds, and counters are \<open>uint64\<close>. A method reads the clock
  once here (\<open>now\<close>); the lazy prune of a lookup, which runs under a lock of its own with a reading
  of its own, is a separate function.
\<close>

section \<open>State\<close>

datatype cooldown_kind = KindRateLimit | KindQuota | KindUnclassified

definition kindIndex :: "cooldown_kind \<Rightarrow> nat" where
  "kindIndex k = (case k of KindRateLimit \<Rightarrow> 0 | KindQuota \<Rightarrow> 1 | KindUnclassified \<Rightarrow> 2)"

abbreviation (input) kindIndexCount :: nat where "kindIndexCount \<equiv> 3"

definition DefaultCooldownTTL :: int where
  "DefaultCooldownTTL = 5 * 60 * second_ns"

record cooldown_record =
  cr_expiresAt :: int
  cr_kind :: cooldown_kind

record kind_counters =
  kc_MarkCount :: "64 word"
  kc_SuppressedCount :: "64 word"

record provider_counters =
  pk_RateLimit :: kind_counters
  pk_Quota :: kind_counters

definition zero_counters :: provider_counters where
  "zero_counters = \<lparr>pk_RateLimit = \<lparr>kc_MarkCount = 0, kc_SuppressedCount = 0\<rparr>,
     pk_Quota = \<lparr>kc_MarkCount = 0, kc_SuppressedCount = 0\<rparr>\<rparr>"

record cooldown_state =
  cs_cooldowns :: "(string, cooldown_record) gomap"
  cs_ttl :: int
  cs_ttlOverrides :: "(provider, int) gomap"
  cs_markCount :: "64 word"
  cs_suppressedCount :: "64 word"
  cs_markByKind :: "64 word list"
  cs_suppressedByKind :: "64 word list"
  cs_perProvider :: "(provider, provider_counters) gomap"
  cs_perProviderModel :: "(string, provider_counters) gomap"
  cs_perProviderScopeKey :: "(provider, provider_counters) gomap"
  cs_perProviderScopeModel :: "(provider, provider_counters) gomap"

definition NewCooldownState :: "int \<Rightarrow> cooldown_state" where
  "NewCooldownState ttl = \<lparr>cs_cooldowns = [],
     cs_ttl = (if ttl \<le> 0 then DefaultCooldownTTL else ttl), cs_ttlOverrides = [],
     cs_markCount = 0, cs_suppressedCount = 0, cs_markByKind = replicate kindIndexCount 0,
     cs_suppressedByKind = replicate kindIndexCount 0, cs_perProvider = [], cs_perProviderModel = [],
     cs_perProviderScopeKey = [], cs_perProviderScopeModel = []\<rparr>"

definition SetTTLOverride :: "cooldown_state \<Rightarrow> provider \<Rightarrow> int \<Rightarrow> cooldown_state" where
  "SetTTLOverride s p ttl =
     (if ttl \<le> 0 then s else s\<lparr>cs_ttlOverrides := gm_set p ttl (cs_ttlOverrides s)\<rparr>)"

section \<open>Storage keys\<close>

definition cd_key :: "provider \<Rightarrow> string \<Rightarrow> string" where
  "cd_key p keyID = p @ ''::'' @ keyID @ ''::''"

definition keyModel :: "provider \<Rightarrow> string \<Rightarrow> string \<Rightarrow> string" where
  "keyModel p keyID model =
     (if IsKeylessProvider p then p @ ''::'' @ model else p @ ''::'' @ keyID @ ''::'' @ model)"

definition markKey :: "provider \<Rightarrow> string \<Rightarrow> string \<Rightarrow> cooldown_scope \<Rightarrow> string" where
  "markKey p keyID model scope =
     (if scope_OrDefault scope = ScopeModel then keyModel p keyID model else cd_key p keyID)"

definition parseCooldownKey :: "string \<Rightarrow> string \<times> string \<times> string" where
  "parseCooldownKey k =
     (case str_last_index k ''::'' of
        None \<Rightarrow> ([], [], [])
      | Some i \<Rightarrow>
          (let head = take i k; model = drop (i + 2) k
           in case str_index head ''::'' of
                None \<Rightarrow> (head, [], model)
              | Some first \<Rightarrow> (take first head, drop (first + 2) head, model)))"

section \<open>Lookup\<close>

definition effectiveTTL :: "cooldown_state \<Rightarrow> provider \<Rightarrow> int" where
  "effectiveTTL s p = (case gm_get (cs_ttlOverrides s) p of Some t \<Rightarrow> t | None \<Rightarrow> cs_ttl s)"

definition cd_expired :: "cooldown_record \<Rightarrow> int \<Rightarrow> bool" where
  "cd_expired r now \<longleftrightarrow> \<not> now < cr_expiresAt r"

text \<open>The guard all entry points share: no key to speak of, or a model mark without a model.\<close>

definition cd_guard :: "provider \<Rightarrow> string \<Rightarrow> string \<Rightarrow> cooldown_scope \<Rightarrow> bool" where
  "cd_guard p keyID model scope \<longleftrightarrow>
     \<not> (keyID = [] \<and> \<not> IsKeylessProvider p) \<and> \<not> (scope_OrDefault scope = ScopeModel \<and> model = [])"

definition cd_prune :: "cooldown_state \<Rightarrow> string \<Rightarrow> int \<Rightarrow> cooldown_state" where
  "cd_prune s k now =
     (case gm_get (cs_cooldowns s) k of
        Some cur \<Rightarrow> if cd_expired cur now then s\<lparr>cs_cooldowns := gm_del k (cs_cooldowns s)\<rparr> else s
      | None \<Rightarrow> s)"

definition lookupCooldown ::
  "cooldown_state \<Rightarrow> provider \<Rightarrow> string \<Rightarrow> string \<Rightarrow> cooldown_scope \<Rightarrow> int \<Rightarrow>
   cooldown_state \<times> (int \<times> cooldown_kind) option" where
  "lookupCooldown s p keyID model scope now =
     (if \<not> cd_guard p keyID model scope then (s, None)
      else (let k = markKey p keyID model scope
            in case gm_get (cs_cooldowns s) k of
                 None \<Rightarrow> (s, None)
               | Some r \<Rightarrow> if cd_expired r now then (cd_prune s k now, None)
                           else (s, Some (cr_expiresAt r, cr_kind r))))"

definition IsCoolingDown :: "cooldown_state \<Rightarrow> provider \<Rightarrow> string \<Rightarrow> int \<Rightarrow> cooldown_state \<times> bool" where
  "IsCoolingDown s p keyID now =
     (let (s', r) = lookupCooldown s p keyID [] ScopeKey now in (s', r \<noteq> None))"

definition IsCoolingDownForModel ::
  "cooldown_state \<Rightarrow> provider \<Rightarrow> string \<Rightarrow> string \<Rightarrow> int \<Rightarrow> cooldown_state \<times> bool" where
  "IsCoolingDownForModel s p keyID model now =
     (let (s', r) = lookupCooldown s p keyID model ScopeModel now in (s', r \<noteq> None))"

definition lookupSuppressed ::
  "cooldown_state \<Rightarrow> provider \<Rightarrow> string \<Rightarrow> string \<Rightarrow> int \<Rightarrow>
   cooldown_state \<times> (int \<times> cooldown_kind \<times> cooldown_scope) option" where
  "lookupSuppressed s p keyID model now =
     (let (s1, r1) = lookupCooldown s p keyID [] ScopeKey now
      in case r1 of
           Some (t, k) \<Rightarrow> (s1, Some (t, k, ScopeKey))
         | None \<Rightarrow>
             if model = [] then (s1, None)
             else (let (s2, r2) = lookupCooldown s1 p keyID model ScopeModel now
                   in (s2, map_option (\<lambda>(t, k). (t, k, ScopeModel)) r2)))"

text \<open>The loop of \<open>ShortestRemainingCooldown\<close>; \<open>None\<close> is \<open>found = false\<close>.\<close>

fun shortest_loop ::
  "cooldown_state \<Rightarrow> provider \<Rightarrow> string \<Rightarrow> int \<Rightarrow> int option \<Rightarrow> key list \<Rightarrow> cooldown_state \<times> int option" where
  "shortest_loop s p model now acc [] = (s, acc)"
| "shortest_loop s p model now acc (k # ks) =
     (case lookupSuppressed s p (key_ID k) model now of
        (s', None) \<Rightarrow> shortest_loop s' p model now acc ks
      | (s', Some (expiresAt, _)) \<Rightarrow>
          (let remaining = max 0 (time_sub expiresAt now)
           in shortest_loop s' p model now
                (case acc of None \<Rightarrow> Some remaining
                 | Some sh \<Rightarrow> if remaining < sh then Some remaining else Some sh) ks))"

definition ShortestRemainingCooldown ::
  "cooldown_state \<Rightarrow> provider \<Rightarrow> string \<Rightarrow> key list \<Rightarrow> int \<Rightarrow> cooldown_state \<times> int" where
  "ShortestRemainingCooldown s p model keys now =
     (let (s', r) = shortest_loop s p model now None keys
      in (s', case r of None \<Rightarrow> 0 | Some d \<Rightarrow> d))"

definition retryAfterSecondsHint :: "int \<Rightarrow> int" where
  "retryAfterSecondsHint remaining =
     (if remaining \<le> 0 then 0
      else (let secs = go_div remaining second_ns;
                secs = (if go_mod remaining second_ns \<noteq> 0 then secs + 1 else secs)
            in if secs < 1 then 1 else secs))"

section \<open>Marking\<close>

definition add_mark :: "cooldown_kind \<Rightarrow> provider_counters \<Rightarrow> provider_counters" where
  "add_mark k pc =
     (case k of
        KindRateLimit \<Rightarrow> pc\<lparr>pk_RateLimit := (pk_RateLimit pc)\<lparr>kc_MarkCount := kc_MarkCount (pk_RateLimit pc) + 1\<rparr>\<rparr>
      | KindQuota \<Rightarrow> pc\<lparr>pk_Quota := (pk_Quota pc)\<lparr>kc_MarkCount := kc_MarkCount (pk_Quota pc) + 1\<rparr>\<rparr>
      | KindUnclassified \<Rightarrow> pc)"

definition add_suppressed :: "cooldown_kind \<Rightarrow> provider_counters \<Rightarrow> provider_counters" where
  "add_suppressed k pc =
     (case k of
        KindRateLimit \<Rightarrow> pc\<lparr>pk_RateLimit := (pk_RateLimit pc)\<lparr>kc_SuppressedCount := kc_SuppressedCount (pk_RateLimit pc) + 1\<rparr>\<rparr>
      | KindQuota \<Rightarrow> pc\<lparr>pk_Quota := (pk_Quota pc)\<lparr>kc_SuppressedCount := kc_SuppressedCount (pk_Quota pc) + 1\<rparr>\<rparr>
      | KindUnclassified \<Rightarrow> pc)"

text \<open>The counter structs are created on demand.\<close>

definition on_counters ::
  "(provider_counters \<Rightarrow> provider_counters) \<Rightarrow> 'k \<Rightarrow> ('k, provider_counters) gomap \<Rightarrow> ('k, provider_counters) gomap" where
  "on_counters f k m = gm_set k (f (gm_get_or zero_counters m k)) m"

definition bump_nth :: "nat \<Rightarrow> 64 word list \<Rightarrow> 64 word list" where
  "bump_nth i xs = xs[i := xs ! i + 1]"

text \<open>The attribution of a classified event: the provider's total, and the bucket of its scope
  together with the model's for a model-granularity event.\<close>

definition attribute ::
  "(provider_counters \<Rightarrow> provider_counters) \<Rightarrow> provider \<Rightarrow> string \<Rightarrow> bool \<Rightarrow> cooldown_state \<Rightarrow> cooldown_state" where
  "attribute f p model byModel s =
     (let s1 = s\<lparr>cs_perProvider := on_counters f p (cs_perProvider s)\<rparr>
      in if byModel
         then s1\<lparr>cs_perProviderModel := on_counters f (p @ ''::'' @ model) (cs_perProviderModel s1),
                 cs_perProviderScopeModel := on_counters f p (cs_perProviderScopeModel s1)\<rparr>
         else s1\<lparr>cs_perProviderScopeKey := on_counters f p (cs_perProviderScopeKey s1)\<rparr>)"

definition MarkWithTTL ::
  "cooldown_state \<Rightarrow> provider \<Rightarrow> string \<Rightarrow> string \<Rightarrow> int \<Rightarrow> cooldown_kind \<Rightarrow> cooldown_scope \<Rightarrow> int \<Rightarrow> cooldown_state" where
  "MarkWithTTL s p keyID model ttl kind scope now =
     (if \<not> cd_guard p keyID model scope then s
      else
        (let effective = (if ttl \<le> 0 then effectiveTTL s p else ttl);
             s1 = s\<lparr>cs_cooldowns := gm_set (markKey p keyID model scope)
                       \<lparr>cr_expiresAt = now + effective, cr_kind = kind\<rparr> (cs_cooldowns s),
                    cs_markByKind := bump_nth (kindIndex kind) (cs_markByKind s)\<rparr>;
             s2 = (if kind = KindUnclassified then s1
                   else attribute (add_mark kind) p model
                          (scope_OrDefault scope = ScopeModel \<and> model \<noteq> []) s1)
         in s2\<lparr>cs_markCount := cs_markCount s2 + 1\<rparr>))"

definition cd_Mark :: "cooldown_state \<Rightarrow> provider \<Rightarrow> string \<Rightarrow> int \<Rightarrow> cooldown_state" where
  "cd_Mark s p keyID now = MarkWithTTL s p keyID [] 0 KindUnclassified ScopeKey now"

section \<open>Observation and maintenance\<close>

definition cd_Size :: "cooldown_state \<Rightarrow> nat" where
  "cd_Size s = length (cs_cooldowns s)"

record cooldown_entry =
  ce_Provider :: provider
  ce_KeyID :: string
  ce_Model :: string
  ce_ExpiresAt :: int
  ce_Remaining :: int
  ce_Kind :: cooldown_kind

definition snapshot_entry :: "int \<Rightarrow> string \<times> cooldown_record \<Rightarrow> cooldown_entry option" where
  "snapshot_entry now kr =
     (let (k, r) = kr
      in if cd_expired r now then None
         else (let (prov, keyID, model) = parseCooldownKey k
               in if prov = [] then None
                  else Some \<lparr>ce_Provider = prov, ce_KeyID = keyID, ce_Model = model,
                    ce_ExpiresAt = cr_expiresAt r, ce_Remaining = time_sub (cr_expiresAt r) now,
                    ce_Kind = cr_kind r\<rparr>))"

definition cd_Snapshot :: "cooldown_state \<Rightarrow> int \<Rightarrow> cooldown_entry list" where
  "cd_Snapshot s now = List.map_filter (snapshot_entry now) (cs_cooldowns s)"

definition ClearKey :: "cooldown_state \<Rightarrow> provider \<Rightarrow> string \<Rightarrow> string \<Rightarrow> cooldown_state \<times> bool" where
  "ClearKey s p keyID model =
     (if keyID = [] then (s, False)
      else (let k = (if model \<noteq> [] then keyModel p keyID model else cd_key p keyID)
            in if gm_get (cs_cooldowns s) k = None then (s, False)
               else (s\<lparr>cs_cooldowns := gm_del k (cs_cooldowns s)\<rparr>, True)))"

record cooldown_stats =
  st_MarkCount :: "64 word"
  st_SuppressedCount :: "64 word"
  st_CurrentActiveCount :: nat
  st_ByKind :: provider_counters
  st_PerProvider :: "(provider, provider_counters) gomap"
  st_PerProviderModel :: "(string, provider_counters) gomap"
  st_PerProviderScopeKey :: "(provider, provider_counters) gomap"
  st_PerProviderScopeModel :: "(provider, provider_counters) gomap"

definition cd_Stats :: "cooldown_state \<Rightarrow> cooldown_stats" where
  "cd_Stats s = \<lparr>st_MarkCount = cs_markCount s, st_SuppressedCount = cs_suppressedCount s,
     st_CurrentActiveCount = length (cs_cooldowns s),
     st_ByKind = \<lparr>
       pk_RateLimit = \<lparr>kc_MarkCount = cs_markByKind s ! kindIndex KindRateLimit,
         kc_SuppressedCount = cs_suppressedByKind s ! kindIndex KindRateLimit\<rparr>,
       pk_Quota = \<lparr>kc_MarkCount = cs_markByKind s ! kindIndex KindQuota,
         kc_SuppressedCount = cs_suppressedByKind s ! kindIndex KindQuota\<rparr>\<rparr>,
     st_PerProvider = cs_perProvider s, st_PerProviderModel = cs_perProviderModel s,
     st_PerProviderScopeKey = cs_perProviderScopeKey s,
     st_PerProviderScopeModel = cs_perProviderScopeModel s\<rparr>"

text \<open>One tick of the GC goroutine, with the count it logs.\<close>

definition gc_tick :: "cooldown_state \<Rightarrow> int \<Rightarrow> cooldown_state \<times> nat" where
  "gc_tick s now =
     (let live = gm_filter (\<lambda>k r. \<not> cd_expired r now) (cs_cooldowns s)
      in (s\<lparr>cs_cooldowns := live\<rparr>, length (cs_cooldowns s) - length live))"

section \<open>The filter and the marker\<close>

definition count_suppression ::
  "cooldown_state \<Rightarrow> provider \<Rightarrow> string \<Rightarrow> cooldown_kind \<Rightarrow> cooldown_scope \<Rightarrow> cooldown_state" where
  "count_suppression s p model kind scope =
     (let s1 = s\<lparr>cs_suppressedCount := cs_suppressedCount s + 1\<rparr>
      in if kind = KindUnclassified then s1
         else attribute (add_suppressed kind) p model (scope = ScopeModel \<and> model \<noteq> [])
                (s1\<lparr>cs_suppressedByKind := bump_nth (kindIndex kind) (cs_suppressedByKind s1)\<rparr>))"

fun filter_loop ::
  "cooldown_state \<Rightarrow> provider \<Rightarrow> string \<Rightarrow> int \<Rightarrow> key list \<Rightarrow> cooldown_state \<times> key list" where
  "filter_loop s p model now [] = (s, [])"
| "filter_loop s p model now (k # ks) =
     (case lookupSuppressed s p (key_ID k) model now of
        (s', None) \<Rightarrow> (let (s'', out) = filter_loop s' p model now ks in (s'', k # out))
      | (s', Some (_, kind, scope)) \<Rightarrow>
          filter_loop (count_suppression s' p model kind scope) p model now ks)"

definition AsFilter ::
  "cooldown_state \<Rightarrow> bctx option \<Rightarrow> provider \<Rightarrow> string \<Rightarrow> key list \<Rightarrow> int \<Rightarrow>
   cooldown_state \<times> bctx option \<times> key list" where
  "AsFilter s ctx p model keys now =
     (if keys = [] then (s, ctx, keys)
      else
        (let (s1, out) = filter_loop s p model now keys
         in case ctx of
              None \<Rightarrow> (s1, None, out)
            | Some cx \<Rightarrow>
                if out = [] then
                  (let (s2, rem) = ShortestRemainingCooldown s1 p model keys now
                   in (s2, Some (if rem > 0
                         then cx\<lparr>cx_RetryAfterSeconds := Some (retryAfterSecondsHint rem)\<rparr> else cx), out))
                else (s1, Some cx, out)))"

definition rule_ttl :: "policy_rule option \<Rightarrow> int" where
  "rule_ttl r = (case r of None \<Rightarrow> 0 | Some r \<Rightarrow> wrap64 (pr_TTLSeconds r * second_ns))"

definition classifyForMarker ::
  "bctx option \<Rightarrow> provider \<Rightarrow> string \<Rightarrow> bifrost_error option \<Rightarrow> (int \<times> cooldown_kind \<times> cooldown_scope) option" where
  "classifyForMarker ctx p keyID err =
     (case err of
        None \<Rightarrow> None
      | Some e \<Rightarrow>
          if keyID = [] \<and> \<not> IsKeylessProvider p then None
          else (let policy = (case Option.bind ctx cx_CooldownPolicy of
                                Some v \<Rightarrow> v | None \<Rightarrow> DefaultCooldownPolicy p)
                in if MatchesRule (cp_Quota policy) e
                   then Some (rule_ttl (cp_Quota policy), KindQuota, ScopeOrDefault (cp_Quota policy))
                   else if MatchesRule (cp_RateLimit policy) e
                   then Some (rule_ttl (cp_RateLimit policy), KindRateLimit, ScopeOrDefault (cp_RateLimit policy))
                   else None))"

definition AsMarker ::
  "cooldown_state \<Rightarrow> bctx option \<Rightarrow> provider \<Rightarrow> string \<Rightarrow> string \<Rightarrow> bifrost_error option \<Rightarrow> int \<Rightarrow> cooldown_state" where
  "AsMarker s ctx p keyID model err now =
     (if err = None \<or> (keyID = [] \<and> \<not> IsKeylessProvider p) then s
      else (case classifyForMarker ctx p keyID err of
              None \<Rightarrow> s
            | Some (ttl, kind, scope) \<Rightarrow> MarkWithTTL s p keyID model ttl kind scope now))"

section \<open>Configuration\<close>

text \<open>A decoded JSON value, by the dynamic type the parser switches on.\<close>

datatype cfgval =
    CvFloat float64
  | CvInt int
  | CvStr string
  | CvArr "cfgval list"
  | CvObj "(string \<times> cfgval) list"
  | CvOther

datatype cfg_error = CfgDefaultTTL | CfgOverridesType | CfgOverride string | CfgPatternsType | CfgPattern nat
  | CfgNotMap

record cd_config =
  cf_DefaultTTLSeconds :: int
  cf_TTLOverrides :: "(string, int) gomap"
  cf_QuotaPatterns :: "string list"

definition toInt :: "cfgval \<Rightarrow> int option" where
  "toInt v = (case v of CvFloat f \<Rightarrow> Some (float_trunc f) | CvInt n \<Rightarrow> Some n | _ \<Rightarrow> None)"

fun parse_overrides :: "(string \<times> cfgval) list \<Rightarrow> (string, int) gomap \<Rightarrow> cfg_error + (string, int) gomap" where
  "parse_overrides [] acc = Inr acc"
| "parse_overrides ((k, v) # kvs) acc =
     (case toInt v of None \<Rightarrow> Inl (CfgOverride k) | Some n \<Rightarrow> parse_overrides kvs (gm_set k n acc))"

fun parse_patterns :: "nat \<Rightarrow> cfgval list \<Rightarrow> string list \<Rightarrow> cfg_error + string list" where
  "parse_patterns i [] acc = Inr acc"
| "parse_patterns i (v # vs) acc =
     (case v of
        CvStr s \<Rightarrow>
          (let s' = trim_space (to_lower s)
           in parse_patterns (Suc i) vs (if s' \<noteq> [] then acc @ [s'] else acc))
      | _ \<Rightarrow> Inl (CfgPattern i))"

definition ParseConfig :: "(string, cfgval) gomap option \<Rightarrow> cfg_error + cd_config" where
  "ParseConfig raw =
     (case raw of
        None \<Rightarrow> Inr \<lparr>cf_DefaultTTLSeconds = 0, cf_TTLOverrides = [], cf_QuotaPatterns = []\<rparr>
      | Some m \<Rightarrow>
          (case (case gm_get m ''default_ttl_seconds'' of
                   None \<Rightarrow> Inr 0
                 | Some v \<Rightarrow> (case toInt v of None \<Rightarrow> Inl CfgDefaultTTL | Some n \<Rightarrow> Inr n)) of
             Inl e \<Rightarrow> Inl e
           | Inr ttl \<Rightarrow>
               (case (case gm_get m ''ttl_overrides'' of
                        None \<Rightarrow> Inr []
                      | Some (CvObj kvs) \<Rightarrow> parse_overrides kvs []
                      | Some _ \<Rightarrow> Inl CfgOverridesType) of
                  Inl e \<Rightarrow> Inl e
                | Inr ovs \<Rightarrow>
                    (case (case gm_get m ''quota_patterns'' of
                             None \<Rightarrow> Inr []
                           | Some (CvArr vs) \<Rightarrow> parse_patterns 0 vs []
                           | Some _ \<Rightarrow> Inl CfgPatternsType) of
                       Inl e \<Rightarrow> Inl e
                     | Inr ps \<Rightarrow> Inr \<lparr>cf_DefaultTTLSeconds = ttl, cf_TTLOverrides = ovs,
                         cf_QuotaPatterns = ps\<rparr>))))"

definition AsState :: "cd_config \<Rightarrow> cooldown_state" where
  "AsState c =
     (let ttl = (if cf_DefaultTTLSeconds c > 0 then wrap64 (cf_DefaultTTLSeconds c * second_ns)
                 else DefaultCooldownTTL)
      in fold (\<lambda>(prov, secs) s. if secs \<le> 0 then s else SetTTLOverride s prov (wrap64 (secs * second_ns)))
           (cf_TTLOverrides c) (NewCooldownState ttl))"

section \<open>The plugin\<close>

record cooldown_plugin =
  pl_State :: "cooldown_state option"
  pl_quotaPatterns :: "string list"
  pl_gcRunning :: bool

definition NewPluginWithTTL :: "int \<Rightarrow> cooldown_plugin" where
  "NewPluginWithTTL ttl =
     \<lparr>pl_State = Some (NewCooldownState ttl), pl_quotaPatterns = [], pl_gcRunning = True\<rparr>"

definition NewPlugin :: cooldown_plugin where
  "NewPlugin = NewPluginWithTTL DefaultCooldownTTL"

text \<open>\<open>Init\<close>: nil is an empty configuration, anything but an object an error. A failure leaves the
  plugin as it was.\<close>

definition pl_Init :: "cooldown_plugin \<Rightarrow> cfgval option \<Rightarrow> cooldown_plugin \<times> cfg_error option" where
  "pl_Init p raw =
     (let apply_cfg = (\<lambda>m. case ParseConfig m of
            Inl e \<Rightarrow> (p, Some e)
          | Inr c \<Rightarrow> (p\<lparr>pl_State := Some (AsState c), pl_quotaPatterns := cf_QuotaPatterns c,
              pl_gcRunning := True\<rparr>, None))
      in case raw of
           None \<Rightarrow> apply_cfg None
         | Some (CvObj m) \<Rightarrow> apply_cfg (Some m)
         | Some _ \<Rightarrow> (p, Some CfgNotMap))"

definition stopGC :: "cooldown_plugin \<Rightarrow> cooldown_plugin" where
  "stopGC p = p\<lparr>pl_gcRunning := False\<rparr>"

definition pl_Cleanup :: "cooldown_plugin \<Rightarrow> cooldown_plugin" where
  "pl_Cleanup p = stopGC p"

definition quotaExhaustedSubstrings :: "string list" where
  "quotaExhaustedSubstrings =
     [''insufficient_quota'', ''quota exceeded'', ''quota_exceeded'', ''billing'', ''usage limit'']"

definition statusCodeAllowsQuota :: "bifrost_error \<Rightarrow> bool" where
  "statusCodeAllowsQuota e =
     (case be_StatusCode e of
        None \<Rightarrow> True
      | Some c \<Rightarrow> if c = 402 then False else if c = 429 then True else 400 \<le> c \<and> c < 500)"

definition matchesAnyErrorField :: "bifrost_error \<Rightarrow> string list \<Rightarrow> bool" where
  "matchesAnyErrorField e patterns =
     (list_ex (\<lambda>sub. str_contains (to_lower (GetErrorString e)) sub) patterns \<or>
      (case err_code e of None \<Rightarrow> False
       | Some c \<Rightarrow> list_ex (\<lambda>sub. str_contains (to_lower c) sub) patterns) \<or>
      (case err_type e of None \<Rightarrow> False
       | Some t \<Rightarrow> list_ex (\<lambda>sub. str_contains (to_lower t) sub) patterns))"

definition IsQuotaExhausted :: "bifrost_error option \<Rightarrow> bool" where
  "IsQuotaExhausted err =
     (case err of None \<Rightarrow> False
      | Some e \<Rightarrow> statusCodeAllowsQuota e \<and> matchesAnyErrorField e quotaExhaustedSubstrings)"

definition pl_isQuotaExhausted :: "cooldown_plugin \<Rightarrow> bifrost_error option \<Rightarrow> bool" where
  "pl_isQuotaExhausted p err =
     (case err of
        None \<Rightarrow> False
      | Some e \<Rightarrow>
          if IsQuotaExhausted err then True
          else if pl_quotaPatterns p = [] then False
          else if \<not> statusCodeAllowsQuota e then False
          else matchesAnyErrorField e (pl_quotaPatterns p))"

text \<open>The backward scan of the attempt trail.\<close>

fun last_key :: "provider \<Rightarrow> attempt_record list \<Rightarrow> string" where
  "last_key p [] = []"
| "last_key p (r # rs) = (if ar_KeyID r = [] \<and> \<not> IsKeylessProvider p then last_key p rs else ar_KeyID r)"

definition lastAttemptProviderAndKey ::
  "bctx option \<Rightarrow> bifrost_error option \<Rightarrow> provider \<times> string \<times> string" where
  "lastAttemptProviderAndKey ctx err =
     (let (prov, model) = (case err of
            None \<Rightarrow> ([], [])
          | Some e \<Rightarrow>
              (if ri_Provider (be_RoutingInfo e) \<noteq> [] then ri_Provider (be_RoutingInfo e) else be_Provider e,
               if ri_Model (be_RoutingInfo e) \<noteq> [] then ri_Model (be_RoutingInfo e)
               else be_OriginalModelRequested e))
      in case Option.bind ctx cx_AttemptTrail of
           None \<Rightarrow> (prov, [], model)
         | Some trail \<Rightarrow> (prov, last_key prov (rev trail), model))"

definition pl_classify ::
  "cooldown_plugin \<Rightarrow> bctx option \<Rightarrow> bifrost_error option \<Rightarrow>
   (int \<times> string \<times> string \<times> cooldown_kind \<times> cooldown_scope) option" where
  "pl_classify p ctx err =
     (if pl_State p = None \<or> err = None then None
      else (let (prov, keyID, model) = lastAttemptProviderAndKey ctx err
            in if keyID = [] \<and> \<not> IsKeylessProvider prov then None
               else map_option (\<lambda>(ttl, kind, scope). (ttl, keyID, model, kind, scope))
                      (classifyForMarker ctx prov keyID err)))"

text \<open>The response and the error are returned unchanged; the state changes.\<close>

definition pl_PostLLMHook ::
  "cooldown_plugin \<Rightarrow> bctx option \<Rightarrow> bifrost_error option \<Rightarrow> int \<Rightarrow> cooldown_plugin" where
  "pl_PostLLMHook p ctx err now =
     (case pl_State p of
        None \<Rightarrow> p
      | Some s \<Rightarrow>
          if err = None then p
          else
            (let (prov, lastID, _) = lastAttemptProviderAndKey ctx err
             in case pl_classify p ctx err of
                  None \<Rightarrow>
                    if pl_isQuotaExhausted p err then
                      (if lastID = [] \<and> \<not> IsKeylessProvider prov then p
                       else p\<lparr>pl_State := Some (cd_Mark s prov lastID now)\<rparr>)
                    else p
                | Some (ttl, keyID, model, kind, scope) \<Rightarrow>
                    p\<lparr>pl_State := Some (MarkWithTTL s prov keyID model ttl kind scope now)\<rparr>))"

definition no_eligible_keys_error :: "provider \<Rightarrow> int \<Rightarrow> bifrost_error" where
  "no_eligible_keys_error prov retryAfter = zero_error\<lparr>be_StatusCode := Some 429,
     be_Type := Some ''no_eligible_keys'',
     be_Error := Some \<lparr>ef_Type = Some ''no_eligible_keys'', ef_Code = None,
       ef_Message = NoEligibleKeysMessage prov retryAfter, ef_Error = None\<rparr>,
     be_RetryAfterSeconds := retryAfter\<rparr>"

text \<open>\<open>PreProviderHook\<close>: the error of the silent short-circuit, if the whole pool is cooling down.\<close>

definition pl_PreProviderHook ::
  "cooldown_plugin \<Rightarrow> bctx \<Rightarrow> brequest option \<Rightarrow> int \<Rightarrow> cooldown_plugin \<times> bctx \<times> bifrost_error option" where
  "pl_PreProviderHook p ctx req now =
     (case (pl_State p, req) of
        (Some s, Some r) \<Rightarrow>
          (let prov = req_provider r; model = req_model r
           in if prov = [] \<or> model = [] then (p, ctx, None)
              else
                (let stamped = (case Option.bind (cx_ProviderKeys ctx) (\<lambda>m. gm_get m prov) of
                       None \<Rightarrow> [] | Some ks \<Rightarrow> ks);
                     pool = (if stamped = [] then (if IsKeylessProvider prov then [zero_key] else []) else stamped)
                 in if pool = [] then (p, ctx, None)
                    else
                      (let (s1, ctx1, available) = AsFilter s (Some ctx) prov model pool now;
                           cx1 = (case ctx1 of Some c \<Rightarrow> c | None \<Rightarrow> ctx)
                       in if available \<noteq> [] then (p\<lparr>pl_State := Some s1\<rparr>, cx1, None)
                          else
                            (let (s2, rem) = ShortestRemainingCooldown s1 prov model pool now;
                                 retryAfter = (if rem > 0 then retryAfterSecondsHint rem else 0);
                                 cx2 = (if rem > 0 then cx1\<lparr>cx_RetryAfterSeconds := Some retryAfter\<rparr> else cx1)
                             in (p\<lparr>pl_State := Some s2\<rparr>, cx2, Some (no_eligible_keys_error prov retryAfter))))))
      | _ \<Rightarrow> (p, ctx, None))"


section \<open>What is cooling down\<close>

text \<open>The abstract state at a moment: the records that have not expired. Lookups, the filter and the
  GC may only drop expired ones.\<close>

definition live_rec :: "cooldown_state \<Rightarrow> int \<Rightarrow> string \<Rightarrow> cooldown_record option" where
  "live_rec s now k =
     (case gm_get (cs_cooldowns s) k of
        Some r \<Rightarrow> if cd_expired r now then None else Some r
      | None \<Rightarrow> None)"

definition suppressed :: "cooldown_state \<Rightarrow> provider \<Rightarrow> string \<Rightarrow> string \<Rightarrow> int \<Rightarrow> bool" where
  "suppressed s p keyID model now \<longleftrightarrow>
     (keyID \<noteq> [] \<or> IsKeylessProvider p) \<and>
     (live_rec s now (cd_key p keyID) \<noteq> None \<or> model \<noteq> [] \<and> live_rec s now (keyModel p keyID model) \<noteq> None)"

definition keeps_live :: "int \<Rightarrow> cooldown_state \<Rightarrow> cooldown_state \<Rightarrow> bool" where
  "keeps_live now s s' \<longleftrightarrow> (\<forall>t \<ge> now. live_rec s' t = live_rec s t)"

lemma keeps_live_refl [simp]: "keeps_live now s s"
  by (simp add: keeps_live_def)

lemma keeps_live_trans: "keeps_live now s s' \<Longrightarrow> keeps_live now s' s'' \<Longrightarrow> keeps_live now s s''"
  by (simp add: keeps_live_def)

lemma keeps_liveD: "keeps_live now s s' \<Longrightarrow> now \<le> t \<Longrightarrow> live_rec s' t = live_rec s t"
  by (simp add: keeps_live_def)

lemma keeps_live_suppressed:
  "keeps_live now s s' \<Longrightarrow> now \<le> t \<Longrightarrow> suppressed s' p keyID model t = suppressed s p keyID model t"
  by (simp add: suppressed_def keeps_liveD)

lemma cd_expired_mono: "cd_expired r t \<Longrightarrow> t \<le> t' \<Longrightarrow> cd_expired r t'"
  by (simp add: cd_expired_def)

lemma keeps_live_prune: "keeps_live now s (cd_prune s k now)"
  unfolding keeps_live_def
proof (intro allI impI ext)
  fix t k' assume "now \<le> t"
  then show "live_rec (cd_prune s k now) t k' = live_rec s t k'"
    by (auto simp: cd_prune_def live_rec_def dest: cd_expired_mono split: option.splits)
qed

lemma keeps_live_lookup: "keeps_live now s (fst (lookupCooldown s p keyID model scope now))"
  by (simp add: lookupCooldown_def Let_def keeps_live_prune split: option.splits)

lemma lookupCooldown_result:
  "snd (lookupCooldown s p keyID model scope now) =
     (if cd_guard p keyID model scope
      then map_option (\<lambda>r. (cr_expiresAt r, cr_kind r)) (live_rec s now (markKey p keyID model scope))
      else None)"
  by (simp add: lookupCooldown_def live_rec_def Let_def split: option.splits)

lemma keeps_live_suppressed_lookup: "keeps_live now s (fst (lookupSuppressed s p keyID model now))"
proof -
  obtain s1 r1 where 1: "lookupCooldown s p keyID [] ScopeKey now = (s1, r1)" by fastforce
  obtain s2 r2 where 2: "lookupCooldown s1 p keyID model ScopeModel now = (s2, r2)" by fastforce
  have "keeps_live now s s1" "keeps_live now s1 s2"
    using keeps_live_lookup [of now s p keyID "[]" ScopeKey] keeps_live_lookup [of now s1 p keyID model ScopeModel]
    by (simp_all add: 1 2)
  then show ?thesis
    by (auto simp: lookupSuppressed_def 1 2 intro: keeps_live_trans split: option.splits)
qed

text \<open>The answer of the combined lookup: the key-granularity record wins.\<close>

lemma lookupSuppressed_result:
  "snd (lookupSuppressed s p keyID model now) =
     (if keyID = [] \<and> \<not> IsKeylessProvider p then None
      else (case live_rec s now (cd_key p keyID) of
              Some r \<Rightarrow> Some (cr_expiresAt r, cr_kind r, ScopeKey)
            | None \<Rightarrow>
                if model = [] then None
                else map_option (\<lambda>r. (cr_expiresAt r, cr_kind r, ScopeModel))
                       (live_rec s now (keyModel p keyID model))))"
proof -
  obtain s1 r1 where 1: "lookupCooldown s p keyID [] ScopeKey now = (s1, r1)" by fastforce
  have r1: "r1 = snd (lookupCooldown s p keyID [] ScopeKey now)" by (simp add: 1)
  have k1: "live_rec s1 now = live_rec s now"
    using keeps_liveD [OF keeps_live_lookup [of now s p keyID "[]" ScopeKey], of now] by (simp add: 1)
  obtain s2 r2 where 2: "lookupCooldown s1 p keyID model ScopeModel now = (s2, r2)" by fastforce
  have r2: "r2 = snd (lookupCooldown s1 p keyID model ScopeModel now)" by (simp add: 2)
  show ?thesis
    unfolding lookupSuppressed_def 1 Let_def prod.case 2
    by (auto simp: r1 r2 lookupCooldown_result cd_guard_def scope_OrDefault_def markKey_def k1
        option.map_comp comp_def split: option.splits)
qed

lemma lookupSuppressed_iff:
  "snd (lookupSuppressed s p keyID model now) \<noteq> None \<longleftrightarrow> suppressed s p keyID model now"
  by (auto simp: lookupSuppressed_result suppressed_def split: option.splits)

lemma live_rec_count [simp]: "live_rec (count_suppression s p model kind scope) = live_rec s"
  by (intro ext) (simp add: live_rec_def count_suppression_def attribute_def Let_def)

lemma filter_loop_spec:
  "keeps_live now s (fst (filter_loop s p model now ks)) \<and>
   snd (filter_loop s p model now ks) = filter (\<lambda>k. \<not> suppressed s p (key_ID k) model now) ks"
proof (induction ks arbitrary: s)
  case (Cons k ks)
  obtain s1 r1 where 1: "lookupSuppressed s p (key_ID k) model now = (s1, r1)" by fastforce
  have k1: "keeps_live now s s1" using keeps_live_suppressed_lookup [of now s p "key_ID k" model] by (simp add: 1)
  have r1: "(r1 \<noteq> None) = suppressed s p (key_ID k) model now"
    using lookupSuppressed_iff [of s p "key_ID k" model now] by (simp add: 1)
  have same: "suppressed s1 p id model now = suppressed s p id model now" for id
    using keeps_live_suppressed [OF k1] by simp
  show ?case
  proof (cases r1)
    case None
    with Cons [of s1] k1 r1 same show ?thesis
      by (auto simp: 1 split: prod.splits intro: keeps_live_trans)
  next
    case (Some x)
    obtain e kind scope where x: "x = (e, kind, scope)" by (cases x)
    let ?s = "count_suppression s1 p model kind scope"
    have "keeps_live now s1 ?s" by (simp add: keeps_live_def)
    moreover have "suppressed ?s p id model now = suppressed s1 p id model now" for id
      by (simp add: suppressed_def)
    ultimately show ?thesis using Cons [of ?s] k1 r1 same Some x
      by (auto simp: 1 intro: keeps_live_trans)
  qed
qed simp

lemma keeps_live_shortest: "keeps_live now s (fst (shortest_loop s p model now acc ks))"
proof (induction ks arbitrary: s acc)
  case (Cons k ks)
  obtain s1 r1 where 1: "lookupSuppressed s p (key_ID k) model now = (s1, r1)" by fastforce
  have "keeps_live now s s1" using keeps_live_suppressed_lookup [of now s p "key_ID k" model] by (simp add: 1)
  with Cons show ?case by (auto simp: 1 Let_def intro: keeps_live_trans split: option.splits prod.splits)
qed simp

lemma AsFilter_spec:
  assumes "AsFilter s ctx p model keys now = (s', ctx', out)"
  shows "out = filter (\<lambda>k. \<not> suppressed s p (key_ID k) model now) keys" and "keeps_live now s s'"
proof -
  obtain s1 o1 where 1: "filter_loop s p model now keys = (s1, o1)" by fastforce
  have f: "keeps_live now s s1" "o1 = filter (\<lambda>k. \<not> suppressed s p (key_ID k) model now) keys"
    using filter_loop_spec [of now s p model keys] by (simp_all add: 1)
  have g: "keeps_live now s1 (fst (ShortestRemainingCooldown s1 p model keys now))"
    using keeps_live_shortest [of now s1 p model None keys]
    by (simp add: ShortestRemainingCooldown_def case_prod_unfold Let_def)
  show "out = filter (\<lambda>k. \<not> suppressed s p (key_ID k) model now) keys"
    using assms f by (auto simp: AsFilter_def 1 Let_def split: if_splits option.splits prod.splits)
  show "keeps_live now s s'"
    using assms f(1) keeps_live_trans [OF f(1) g]
    by (auto simp: AsFilter_def 1 Let_def split: if_splits option.splits prod.splits)
qed

subsection \<open>Marks\<close>

lemma live_rec_mark:
  assumes "cd_guard p keyID model scope" and "0 < ttl"
  shows "live_rec (MarkWithTTL s p keyID model ttl kind scope now) t =
    (live_rec s t)(markKey p keyID model scope :=
      if t < now + ttl then Some \<lparr>cr_expiresAt = now + ttl, cr_kind = kind\<rparr> else None)"
  using assms
  by (intro ext) (auto simp: MarkWithTTL_def live_rec_def attribute_def Let_def cd_expired_def)

lemma take_sep: "CHR '':'' \<notin> set a \<Longrightarrow> str_index (a @ CHR '':'' # CHR '':'' # b) ''::'' = Some (length a)"
  by (induction a) (auto simp: str_prefix_def take_Cons split: nat.splits)

lemma last_index_none: "\<not> str_contains s ''::'' \<Longrightarrow> str_last_index s ''::'' = None"
  by (induction s) (auto simp: split: option.splits)

lemma last_index_append:
  "str_last_index s sub = Some i \<Longrightarrow> str_last_index (a @ s) sub = Some (length a + i)"
  by (induction a) auto

text \<open>A model may contain single colons, but neither the separator nor a leading colon.\<close>

definition model_ok :: "string \<Rightarrow> bool" where
  "model_ok m \<longleftrightarrow> \<not> str_contains m ''::'' \<and> (m = [] \<or> hd m \<noteq> CHR '':'')"

lemma last_sep:
  assumes "model_ok m"
  shows "str_last_index (a @ CHR '':'' # CHR '':'' # m) ''::'' = Some (length a)"
proof -
  have "str_last_index m ''::'' = None" using assms by (simp add: model_ok_def last_index_none)
  moreover have "\<not> str_prefix ''::'' (CHR '':'' # m)"
    using assms by (cases m) (auto simp: model_ok_def str_prefix_def)
  ultimately have "str_last_index (CHR '':'' # CHR '':'' # m) ''::'' = Some 0"
    by (simp add: str_prefix_def)
  from last_index_append [OF this, of a] show ?thesis by simp
qed

lemma parse_markKey:
  assumes "CHR '':'' \<notin> set p" and "CHR '':'' \<notin> set keyID" and "model_ok model"
    and "cd_guard p keyID model scope" and "IsKeylessProvider p \<Longrightarrow> keyID = []"
  shows "parseCooldownKey (markKey p keyID model scope) =
    (p, keyID, if scope_OrDefault scope = ScopeModel then model else [])"
proof -
  have ok: "model_ok []" by (simp add: model_ok_def)
  have noindex: "str_index x ''::'' = None" if "CHR '':'' \<notin> set x" for x
    using that by (induction x) (auto simp: str_prefix_def)
  have "parseCooldownKey (p @ ''::'' @ keyID @ ''::'' @ m) = (p, keyID, m)" if "model_ok m" for m
    using last_sep [OF that, of "p @ ''::'' @ keyID"] take_sep [OF assms(1), of keyID]
    by (simp add: parseCooldownKey_def Let_def eval_nat_numeral)
  moreover have "parseCooldownKey (p @ ''::'' @ m) = (p, [], m)" if "model_ok m" for m
    using last_sep [OF that, of p] noindex [OF assms(1)] by (simp add: parseCooldownKey_def Let_def)
  ultimately show ?thesis
    using assms(3,5) ok by (auto simp: markKey_def keyModel_def cd_key_def)
qed

section \<open>The counters add up\<close>

definition add_counters :: "provider_counters \<Rightarrow> provider_counters \<Rightarrow> provider_counters" where
  "add_counters a b = \<lparr>
     pk_RateLimit = \<lparr>kc_MarkCount = kc_MarkCount (pk_RateLimit a) + kc_MarkCount (pk_RateLimit b),
       kc_SuppressedCount = kc_SuppressedCount (pk_RateLimit a) + kc_SuppressedCount (pk_RateLimit b)\<rparr>,
     pk_Quota = \<lparr>kc_MarkCount = kc_MarkCount (pk_Quota a) + kc_MarkCount (pk_Quota b),
       kc_SuppressedCount = kc_SuppressedCount (pk_Quota a) + kc_SuppressedCount (pk_Quota b)\<rparr>\<rparr>"

definition kind_counter :: "bool \<Rightarrow> cooldown_kind \<Rightarrow> provider_counters \<Rightarrow> 64 word" where
  "kind_counter marks kind pc =
     (let c = (case kind of KindRateLimit \<Rightarrow> pk_RateLimit pc | _ \<Rightarrow> pk_Quota pc)
      in if marks then kc_MarkCount c else kc_SuppressedCount c)"

definition total :: "(provider_counters \<Rightarrow> 64 word) \<Rightarrow> ('k, provider_counters) gomap \<Rightarrow> 64 word" where
  "total f m = sum_list (map (f \<circ> snd) m)"

definition counters_ok :: "cooldown_state \<Rightarrow> bool" where
  "counters_ok s \<longleftrightarrow>
     length (cs_markByKind s) = kindIndexCount \<and> length (cs_suppressedByKind s) = kindIndexCount \<and>
     cs_markCount s = sum_list (cs_markByKind s) \<and>
     (\<forall>p. gm_get_or zero_counters (cs_perProvider s) p =
        add_counters (gm_get_or zero_counters (cs_perProviderScopeKey s) p)
          (gm_get_or zero_counters (cs_perProviderScopeModel s) p)) \<and>
     (\<forall>k \<in> {KindRateLimit, KindQuota}.
        cs_markByKind s ! kindIndex k = total (kind_counter True k) (cs_perProvider s) \<and>
        cs_suppressedByKind s ! kindIndex k = total (kind_counter False k) (cs_perProvider s))"

lemma total_update:
  "total f (gm_set k v m) = total f m - (case gm_get m k of None \<Rightarrow> 0 | Some w \<Rightarrow> f w) + f v"
  by (induction m) (auto simp: total_def)

lemma total_on_counters:
  assumes "f zero_counters = 0"
  shows "total f (on_counters g k m) = total f m + (f (g (gm_get_or zero_counters m k)) - f (gm_get_or zero_counters m k))"
  using assms by (simp add: on_counters_def total_update gm_get_or_def split: option.splits)

lemma kind_counter_zero [simp]: "kind_counter b k zero_counters = 0"
  by (simp add: kind_counter_def zero_counters_def Let_def split: cooldown_kind.splits)

lemma kind_counter_add:
  "kind_counter True k (add_mark k' pc) = kind_counter True k pc + (if k = k' \<and> k' \<noteq> KindUnclassified then 1 else 0)"
  "kind_counter False k (add_mark k' pc) = kind_counter False k pc"
  "kind_counter False k (add_suppressed k' pc) = kind_counter False k pc + (if k = k' \<and> k' \<noteq> KindUnclassified then 1 else 0)"
  "kind_counter True k (add_suppressed k' pc) = kind_counter True k pc"
  if "k \<noteq> KindUnclassified"
  using that by (cases k; cases k'; simp add: kind_counter_def add_mark_def add_suppressed_def)+

lemma add_counters_bump:
  "add_counters (add_mark k a) b = add_mark k (add_counters a b)"
  "add_counters a (add_mark k b) = add_mark k (add_counters a b)"
  "add_counters (add_suppressed k a) b = add_suppressed k (add_counters a b)"
  "add_counters a (add_suppressed k b) = add_suppressed k (add_counters a b)"
  by (cases k; simp add: add_counters_def add_mark_def add_suppressed_def)+

lemma on_counters_get:
  "gm_get_or zero_counters (on_counters f k m) k' =
     (if k' = k then f (gm_get_or zero_counters m k) else gm_get_or zero_counters m k')"
  by (simp add: on_counters_def)

lemma sum_bump_nth:
  assumes "i < length xs"
  shows "sum_list (bump_nth i xs) = sum_list xs + (1 :: 64 word)"
  using assms
proof (induction xs arbitrary: i)
  case (Cons x xs)
  then show ?case by (cases i) (auto simp: bump_nth_def)
qed simp

lemma bump_nth_simps [simp]:
  "length (bump_nth i xs) = length xs"
  "j < length xs \<Longrightarrow> bump_nth i xs ! j = (if i = j then xs ! j + 1 else xs ! j)"
  by (simp_all add: bump_nth_def nth_list_update)

lemma kindIndex_less [simp]: "kindIndex k < 3"
  by (cases k) (simp_all add: kindIndex_def)

lemma kindIndex_inj [simp]: "kindIndex k = kindIndex k' \<longleftrightarrow> k = k'"
  by (cases k; cases k') (simp_all add: kindIndex_def)

text \<open>An attribution by a function that distributes over the split by scope.\<close>

lemma attribute_split:
  assumes "\<And>a b. add_counters (f a) b = f (add_counters a b)" "\<And>a b. add_counters a (f b) = f (add_counters a b)"
    and "\<forall>p. gm_get_or zero_counters (cs_perProvider s) p =
        add_counters (gm_get_or zero_counters (cs_perProviderScopeKey s) p)
          (gm_get_or zero_counters (cs_perProviderScopeModel s) p)"
  shows "gm_get_or zero_counters (cs_perProvider (attribute f p model b s)) q =
        add_counters (gm_get_or zero_counters (cs_perProviderScopeKey (attribute f p model b s)) q)
          (gm_get_or zero_counters (cs_perProviderScopeModel (attribute f p model b s)) q)"
  using assms by (auto simp: attribute_def Let_def on_counters_get)

lemma attribute_simps [simp]:
  "cs_perProvider (attribute f p model b s) = on_counters f p (cs_perProvider s)"
  "cs_markByKind (attribute f p model b s) = cs_markByKind s"
  "cs_suppressedByKind (attribute f p model b s) = cs_suppressedByKind s"
  "cs_markCount (attribute f p model b s) = cs_markCount s"
  "cs_cooldowns (attribute f p model b s) = cs_cooldowns s"
  by (simp_all add: attribute_def Let_def)

lemma counters_ok_cooldowns: "counters_ok (s\<lparr>cs_cooldowns := m\<rparr>) = counters_ok s"
  by (simp add: counters_ok_def)

lemma counters_ok_mark:
  assumes ok: "counters_ok s"
  shows "counters_ok (MarkWithTTL s p keyID model ttl kind scope now)"
proof (cases "cd_guard p keyID model scope")
  case True
  define b where "b = (scope_OrDefault scope = ScopeModel \<and> model \<noteq> [])"
  define s1 where "s1 = s\<lparr>cs_cooldowns := gm_set (markKey p keyID model scope)
      \<lparr>cr_expiresAt = now + (if ttl \<le> 0 then effectiveTTL s p else ttl), cr_kind = kind\<rparr> (cs_cooldowns s),
      cs_markByKind := bump_nth (kindIndex kind) (cs_markByKind s)\<rparr>"
  define s2 where "s2 = (if kind = KindUnclassified then s1 else attribute (add_mark kind) p model b s1)"
  have eq: "MarkWithTTL s p keyID model ttl kind scope now = s2\<lparr>cs_markCount := cs_markCount s2 + 1\<rparr>"
    using True by (simp add: MarkWithTTL_def Let_def s1_def s2_def b_def)
  have split: "gm_get_or zero_counters (cs_perProvider s2) q =
      add_counters (gm_get_or zero_counters (cs_perProviderScopeKey s2) q)
        (gm_get_or zero_counters (cs_perProviderScopeModel s2) q)" for q
    using ok attribute_split [of "add_mark kind" s1 p model b q, OF add_counters_bump(1,2)]
    by (simp add: counters_ok_def s2_def) (simp add: s1_def)
  have tot: "total (kind_counter c k) (cs_perProvider s2) =
      total (kind_counter c k) (cs_perProvider s) + (if c \<and> k = kind then 1 else 0)"
    if "k \<noteq> KindUnclassified" for c k
    using that by (cases c) (auto simp: s2_def s1_def total_on_counters kind_counter_add)
  show ?thesis unfolding eq using ok split tot
    by (auto simp: counters_ok_def sum_bump_nth) (auto simp: s2_def s1_def sum_bump_nth)
qed (simp add: MarkWithTTL_def ok)

lemma counters_ok_count:
  assumes ok: "counters_ok s"
  shows "counters_ok (count_suppression s p model kind scope)"
proof (cases "kind = KindUnclassified")
  case True
  then show ?thesis using ok by (simp add: count_suppression_def counters_ok_def)
next
  case False
  define b where "b = (scope = ScopeModel \<and> model \<noteq> [])"
  define s1 where "s1 = s\<lparr>cs_suppressedCount := cs_suppressedCount s + 1,
      cs_suppressedByKind := bump_nth (kindIndex kind) (cs_suppressedByKind s)\<rparr>"
  have eq: "count_suppression s p model kind scope = attribute (add_suppressed kind) p model b s1"
    using False by (simp add: count_suppression_def Let_def s1_def b_def)
  have split: "gm_get_or zero_counters (cs_perProvider (attribute (add_suppressed kind) p model b s1)) q =
      add_counters (gm_get_or zero_counters (cs_perProviderScopeKey (attribute (add_suppressed kind) p model b s1)) q)
        (gm_get_or zero_counters (cs_perProviderScopeModel (attribute (add_suppressed kind) p model b s1)) q)" for q
    using ok attribute_split [of "add_suppressed kind" s1 p model b q, OF add_counters_bump(3,4)]
    by (simp add: counters_ok_def s1_def)
  have tot: "total (kind_counter c k) (on_counters (add_suppressed kind) p (cs_perProvider s1)) =
      total (kind_counter c k) (cs_perProvider s) + (if \<not> c \<and> k = kind then 1 else 0)"
    if "k \<noteq> KindUnclassified" for c k
    using that False by (cases c) (auto simp: s1_def total_on_counters kind_counter_add)
  show ?thesis unfolding eq counters_ok_def using ok split tot
    by (simp add: counters_ok_def) (simp add: s1_def)
qed

lemma lookupCooldown_cooldowns:
  "\<exists>m. fst (lookupCooldown s p keyID model scope now) = s\<lparr>cs_cooldowns := m\<rparr>"
proof -
  have same: "s = s\<lparr>cs_cooldowns := cs_cooldowns s\<rparr>" by simp
  then show ?thesis
    unfolding lookupCooldown_def cd_prune_def Let_def by (auto split: option.splits) (metis same)+
qed

lemma counters_ok_lookup:
  "counters_ok (fst (lookupCooldown s p keyID model scope now)) = counters_ok s"
  using lookupCooldown_cooldowns [of s p keyID model scope now] by (auto simp: counters_ok_cooldowns)

lemma counters_ok_lookupSuppressed:
  "counters_ok (fst (lookupSuppressed s p keyID model now)) = counters_ok s"
  using counters_ok_lookup [of s p keyID "[]" ScopeKey now]
    counters_ok_lookup [of "fst (lookupCooldown s p keyID [] ScopeKey now)" p keyID model ScopeModel now]
  by (simp add: lookupSuppressed_def case_prod_unfold Let_def split: option.splits)

lemma counters_ok_filter_loop: "counters_ok s \<Longrightarrow> counters_ok (fst (filter_loop s p model now ks))"
proof (induction ks arbitrary: s)
  case (Cons k ks)
  obtain s1 r1 where 1: "lookupSuppressed s p (key_ID k) model now = (s1, r1)" by fastforce
  have "counters_ok s1" using counters_ok_lookupSuppressed [of s p "key_ID k" model now] Cons.prems by (simp add: 1)
  then show ?case using Cons.IH
    by (auto simp: 1 case_prod_unfold Let_def intro: counters_ok_count split: option.splits)
qed simp

lemma counters_ok_shortest: "counters_ok (fst (shortest_loop s p model now acc ks)) = counters_ok s"
proof (induction ks arbitrary: s acc)
  case (Cons k ks)
  obtain s1 r1 where 1: "lookupSuppressed s p (key_ID k) model now = (s1, r1)" by fastforce
  have "counters_ok s1 = counters_ok s" using counters_ok_lookupSuppressed [of s p "key_ID k" model now] by (simp add: 1)
  then show ?case using Cons by (auto simp: 1 Let_def split: option.splits prod.splits)
qed simp

lemma counters_ok_AsFilter: "counters_ok s \<Longrightarrow> counters_ok (fst (AsFilter s ctx p model keys now))"
  using counters_ok_filter_loop [of s p model now keys]
    counters_ok_shortest [of "fst (filter_loop s p model now keys)" p model now None keys]
  by (auto simp: AsFilter_def ShortestRemainingCooldown_def case_prod_unfold Let_def split: option.splits)

text \<open>The states a plugin can reach.\<close>

inductive cd_step :: "cooldown_state \<Rightarrow> cooldown_state \<Rightarrow> bool" where
  "cd_step s (MarkWithTTL s p keyID model ttl kind scope now)"
| "cd_step s (fst (AsFilter s ctx p model keys now))"
| "cd_step s (fst (lookupCooldown s p keyID model scope now))"
| "cd_step s (fst (ClearKey s p keyID model))"
| "cd_step s (fst (gc_tick s now))"
| "cd_step s (SetTTLOverride s p ttl)"

inductive cd_reach :: "int \<Rightarrow> cooldown_state \<Rightarrow> bool" for ttl where
  cd_start: "cd_reach ttl (NewCooldownState ttl)"
| cd_more: "cd_reach ttl s \<Longrightarrow> cd_step s s' \<Longrightarrow> cd_reach ttl s'"

lemma counters_ok_New: "counters_ok (NewCooldownState ttl)"
  by (auto simp: counters_ok_def NewCooldownState_def total_def add_counters_def gm_get_or_def
      zero_counters_def kindIndex_def numeral_3_eq_3)

lemma counters_ok_step: "cd_step s s' \<Longrightarrow> counters_ok s \<Longrightarrow> counters_ok s'"
  by (induction rule: cd_step.induct)
     (simp_all add: counters_ok_mark counters_ok_AsFilter counters_ok_lookup ClearKey_def Let_def
        counters_ok_cooldowns gc_tick_def, simp add: SetTTLOverride_def counters_ok_def)

lemma counters_ok_reach: "cd_reach ttl s \<Longrightarrow> counters_ok s"
  by (induction rule: cd_reach.induct) (auto intro: counters_ok_New counters_ok_step)

section \<open>The retry hint\<close>

text \<open>The expiry the combined lookup reports for a key.\<close>

definition reported :: "cooldown_state \<Rightarrow> provider \<Rightarrow> string \<Rightarrow> int \<Rightarrow> key \<Rightarrow> int option" where
  "reported s p model now k = map_option fst (snd (lookupSuppressed s p (key_ID k) model now))"

lemma reported_cong:
  assumes "live_rec s' now = live_rec s now"
  shows "reported s' p model now k = reported s p model now k"
  unfolding reported_def lookupSuppressed_result assms ..

lemma reported_suppressed: "(reported s p model now k \<noteq> None) = suppressed s p (key_ID k) model now"
  using lookupSuppressed_iff [of s p "key_ID k" model now] by (simp add: reported_def)

lemma shortest_loop_spec:
  assumes "shortest_loop s p model now acc ks = (s', r)"
  shows "(\<forall>k \<in> set ks. \<forall>e. reported s p model now k = Some e \<longrightarrow> (\<exists>d. r = Some d \<and> d \<le> max 0 (time_sub e now))) \<and>
    (\<forall>a. acc = Some a \<longrightarrow> (\<exists>d. r = Some d \<and> d \<le> a)) \<and>
    (\<forall>d. r = Some d \<longrightarrow> acc = Some d \<or>
      (\<exists>k \<in> set ks. \<exists>e. reported s p model now k = Some e \<and> d = max 0 (time_sub e now)))"
  using assms
proof (induction ks arbitrary: s acc)
  case (Cons k ks)
  obtain s1 r1 where 1: "lookupSuppressed s p (key_ID k) model now = (s1, r1)" by fastforce
  have l: "live_rec s1 now = live_rec s now"
    using keeps_liveD [OF keeps_live_suppressed_lookup [of now s p "key_ID k" model], of now] by (simp add: 1)
  have rep: "reported s1 p model now k' = reported s p model now k'" for k' using l by (rule reported_cong)
  show ?case
  proof (cases r1)
    case None
    then have "shortest_loop s1 p model now acc ks = (s', r)" "reported s p model now k = None"
      using Cons.prems by (simp_all add: 1 reported_def)
    then show ?thesis using Cons.IH [of s1 acc] by (simp add: rep)
  next
    case (Some x)
    obtain e kd sc where x: "x = (e, kd, sc)" by (cases x)
    let ?rem = "max 0 (time_sub e now)"
    let ?acc = "case acc of None \<Rightarrow> Some ?rem | Some sh \<Rightarrow> if ?rem < sh then Some ?rem else Some sh"
    have "shortest_loop s1 p model now ?acc ks = (s', r)" and rk: "reported s p model now k = Some e"
      using Cons.prems Some x by (simp_all add: 1 Let_def reported_def)
    note ih = Cons.IH [OF this(1), unfolded rep]
    have "\<exists>a. ?acc = Some a \<and> a \<le> ?rem \<and> (\<forall>b. acc = Some b \<longrightarrow> a \<le> b) \<and> (acc = Some a \<or> a = ?rem)"
      by (cases acc) auto
    then obtain a where a: "?acc = Some a" "a \<le> ?rem" "\<And>b. acc = Some b \<Longrightarrow> a \<le> b" "acc = Some a \<or> a = ?rem"
      by blast
    obtain d where d: "r = Some d" "d \<le> a" using ih a(1) by blast
    have "d \<le> ?rem" using d a by simp
    moreover have "\<exists>d'. r = Some d' \<and> d' \<le> b" if "acc = Some b" for b using d a(3) [OF that] by auto
    moreover have "acc = Some d \<or> (\<exists>k \<in> set (k # ks). \<exists>e. reported s p model now k = Some e \<and> d = max 0 (time_sub e now))"
      using ih d a(1,4) rk by fastforce
    ultimately show ?thesis using ih rk d by auto
  qed
qed simp

lemma hint_ceiling:
  assumes "0 < rem"
  shows "1 \<le> retryAfterSecondsHint rem" and "rem \<le> retryAfterSecondsHint rem * second_ns"
    and "(retryAfterSecondsHint rem - 1) * second_ns < rem"
proof -
  have d: "go_div rem second_ns = rem div second_ns" "go_mod rem second_ns = rem mod second_ns"
    using assms by (simp_all add: go_div_nonneg go_mod_nonneg second_ns_def)
  have m: "0 \<le> rem mod second_ns" "rem mod second_ns < second_ns" by (simp_all add: second_ns_def)
  have r: "rem = rem div second_ns * second_ns + rem mod second_ns" by simp
  have q: "0 \<le> rem div second_ns" using assms by (simp add: second_ns_def)
  have pos: "1 \<le> rem div second_ns" if "rem mod second_ns = 0"
    using that r q assms by (cases "rem div second_ns = 0") auto
  have h: "retryAfterSecondsHint rem = (if rem mod second_ns \<noteq> 0 then rem div second_ns + 1 else rem div second_ns)"
    using assms q pos by (cases "rem mod second_ns = 0") (simp_all add: retryAfterSecondsHint_def Let_def d)
  show "1 \<le> retryAfterSecondsHint rem" using h q pos by (cases "rem mod second_ns = 0") simp_all
  have e: "(rem div second_ns + 1) * second_ns = rem div second_ns * second_ns + second_ns"
    by (simp only: distrib_right mult_1)
  show "rem \<le> retryAfterSecondsHint rem * second_ns"
  proof (cases "rem mod second_ns = 0")
    case False
    then have up: "retryAfterSecondsHint rem = rem div second_ns + 1" by (simp add: h)
    show ?thesis unfolding up e using r m by linarith
  next
    case True
    then have flat: "retryAfterSecondsHint rem = rem div second_ns" by (simp add: h)
    show ?thesis unfolding flat using r True by linarith
  qed
  show "(retryAfterSecondsHint rem - 1) * second_ns < rem"
  proof (cases "rem mod second_ns = 0")
    case True
    then show ?thesis using r by (simp add: h left_diff_distrib second_ns_def)
  next
    case False
    then have "(retryAfterSecondsHint rem - 1) * second_ns = rem div second_ns * second_ns" by (simp add: h)
    then show ?thesis using r m False by linarith
  qed
qed

text \<open>The reported expiry is that of a record which keeps the key out until then.\<close>

lemma reported_until:
  assumes "reported s p model now k = Some e" and "now \<le> t" and "t < e"
  shows "suppressed s p (key_ID k) model t"
  using assms
  by (auto simp: reported_def lookupSuppressed_result suppressed_def live_rec_def cd_expired_def
      split: if_splits option.splits)

lemma reported_record:
  assumes "reported s p model now k = Some e"
  shows "now < e \<and> (\<exists>sk r. gm_get (cs_cooldowns s) sk = Some r \<and> cr_expiresAt r = e)"
  using assms
  by (auto simp: reported_def lookupSuppressed_result live_rec_def cd_expired_def split: if_splits option.splits)

text \<open>A key under one granularity only is eligible from its reported expiry on.\<close>

lemma reported_then_free:
  assumes "reported s p model now k = Some e" and "e \<le> t" and "now \<le> t"
    and "live_rec s now (cd_key p (key_ID k)) = None \<or> live_rec s now (keyModel p (key_ID k) model) = None"
  shows "\<not> suppressed s p (key_ID k) model t"
proof -
  have mono: "live_rec s now x = None \<Longrightarrow> live_rec s t x = None" for x
    using assms(3) by (auto simp: live_rec_def dest: cd_expired_mono split: option.splits if_splits)
  have gone: "live_rec s now x = Some r \<Longrightarrow> cr_expiresAt r \<le> t \<Longrightarrow> live_rec s t x = None" for x r
    by (auto simp: live_rec_def cd_expired_def split: option.splits if_splits)
  show ?thesis
    using assms(1,2,4) mono gone
    by (auto simp: reported_def lookupSuppressed_result suppressed_def split: if_splits option.splits)
qed

lemma AsFilter_hint:
  assumes f: "AsFilter s (Some cx) p model keys now = (s', ctx', [])" and ne: "keys \<noteq> []"
    and range: "\<forall>k r. gm_get (cs_cooldowns s) k = Some r \<longrightarrow> int64_range (cr_expiresAt r - now)"
  obtains rem k where "0 < rem" and "map_option cx_RetryAfterSeconds ctx' = Some (Some (retryAfterSecondsHint rem))"
    and "\<forall>j \<in> set keys. \<exists>e. reported s p model now j = Some e \<and> now + rem \<le> e"
    and "k \<in> set keys" and "reported s p model now k = Some (now + rem)"
proof -
  obtain s1 o1 where 1: "filter_loop s p model now keys = (s1, o1)" by fastforce
  have l: "live_rec s1 now = live_rec s now"
    using filter_loop_spec [of now s p model keys] keeps_liveD [of now s s1 now] by (simp add: 1)
  note rep = reported_cong [OF l]
  obtain s2 r where 2: "shortest_loop s1 p model now None keys = (s2, r)" by fastforce
  have o1: "o1 = []" using f ne by (auto simp: AsFilter_def 1 Let_def split: if_splits prod.splits)
  have all: "reported s p model now j \<noteq> None" if "j \<in> set keys" for j
  proof -
    have "filter (\<lambda>k. \<not> suppressed s p (key_ID k) model now) keys = []"
      using AsFilter_spec(1) [OF f] by simp
    with that show ?thesis unfolding reported_suppressed by (simp add: filter_empty_conv)
  qed
  have sub: "max 0 (time_sub e now) = e - now" if "reported s p model now j = Some e" for j e
    using reported_record [OF that] range by (auto simp: time_sub_exact)
  note sp = shortest_loop_spec [OF 2, unfolded rep]
  obtain j0 where "j0 \<in> set keys" using ne by (cases keys) auto
  then obtain d where d: "r = Some d" using sp all by fastforce
  then obtain k e where k: "k \<in> set keys" "reported s p model now k = Some e" "d = e - now"
    using sp sub by auto
  have low: "\<forall>j \<in> set keys. \<exists>e. reported s p model now j = Some e \<and> now + d \<le> e"
    using sp sub all d by fastforce
  have pos: "0 < d" using reported_record [OF k(2)] k(3) by simp
  have "map_option cx_RetryAfterSeconds ctx' = Some (Some (retryAfterSecondsHint d))"
    using f ne o1 pos by (auto simp: AsFilter_def 1 2 d ShortestRemainingCooldown_def Let_def)
  with that pos low k show thesis by fastforce
qed


section \<open>Properties\<close>

text \<open>The filter is exact. It returns, in their order, the keys that are not cooling down: those
  with no unexpired mark on the key, nor on the key and the requested model. It never returns a key
  that was not in the pool, and what it changes of the state is invisible to every later lookup.\<close>

lemma cooldown_filter_exact:
  assumes "AsFilter s ctx p model keys now = (s', ctx', out)"
  shows "out = filter (\<lambda>k. \<not> suppressed s p (key_ID k) model now) keys \<and>
    (\<forall>t \<ge> now. suppressed s' p' keyID model' t = suppressed s p' keyID model' t)"
  using AsFilter_spec [OF assms] keeps_live_suppressed by blast

abbreviation sample_key :: "string \<Rightarrow> key" where
  "sample_key i \<equiv> zero_key\<lparr>key_ID := i\<rparr>"

abbreviation cooled :: cooldown_state where
  "cooled \<equiv> MarkWithTTL (NewCooldownState 0) P_OpenAI ''k1'' ''gpt'' 50 KindQuota ScopeKey 100"

lemmas cd_eval = AsFilter_def MarkWithTTL_def NewCooldownState_def cd_guard_def scope_OrDefault_def
  IsKeylessProvider_def KeylessProviders_def markKey_def cd_key_def keyModel_def attribute_def Let_def
  lookupSuppressed_def lookupCooldown_def cd_prune_def cd_expired_def count_suppression_def
  zero_key_def



text \<open>The counters add up in every state the plugin reaches, as 64-bit sums: a provider's total
  is its key-scope plus its model-scope count, each by-kind count is the sum over the providers, and
  the lifetime mark count is the sum over the kinds, unclassified included.\<close>

lemma cooldown_counters_add_up:
  assumes "cd_reach ttl s"
  shows "(\<forall>p. gm_get_or zero_counters (st_PerProvider (cd_Stats s)) p =
      add_counters (gm_get_or zero_counters (st_PerProviderScopeKey (cd_Stats s)) p)
        (gm_get_or zero_counters (st_PerProviderScopeModel (cd_Stats s)) p)) \<and>
    kc_MarkCount (pk_RateLimit (st_ByKind (cd_Stats s))) =
      total (kind_counter True KindRateLimit) (st_PerProvider (cd_Stats s)) \<and>
    kc_SuppressedCount (pk_Quota (st_ByKind (cd_Stats s))) =
      total (kind_counter False KindQuota) (st_PerProvider (cd_Stats s)) \<and>
    st_MarkCount (cd_Stats s) = kc_MarkCount (pk_RateLimit (st_ByKind (cd_Stats s))) +
      kc_MarkCount (pk_Quota (st_ByKind (cd_Stats s))) + cs_markByKind s ! kindIndex KindUnclassified"
proof -
  have ok: "counters_ok s" using assms by (rule counters_ok_reach)
  obtain a b c where m: "cs_markByKind s = [a, b, c]"
    using ok by (auto simp: counters_ok_def length_Suc_conv numeral_3_eq_3)
  show ?thesis using ok by (simp add: cd_Stats_def counters_ok_def m kindIndex_def algebra_simps)
qed

text \<open>The retry hint. When the filter vetoes a whole pool it stamps the context with a whole
  number of seconds, at least one; no key of the pool becomes eligible before the last of those
  seconds, and when no key carries both a key-scope and a model-scope mark, one of them is eligible
  once the hinted time has passed.\<close>

lemma retry_hint_bounds:
  assumes "AsFilter s (Some cx) p model keys now = (s', Some cx', [])" and "keys \<noteq> []"
    and "\<forall>k r. gm_get (cs_cooldowns s) k = Some r \<longrightarrow> int64_range (cr_expiresAt r - now)"
  shows "\<exists>h \<ge> 1. cx_RetryAfterSeconds cx' = Some h \<and>
    (\<forall>t. now \<le> t \<and> t \<le> now + (h - 1) * second_ns \<longrightarrow> snd (snd (AsFilter s ctx p model keys t)) = []) \<and>
    ((\<forall>k \<in> set keys. live_rec s now (cd_key p (key_ID k)) = None \<or> live_rec s now (keyModel p (key_ID k) model) = None) \<longrightarrow>
      snd (snd (AsFilter s ctx p model keys (now + h * second_ns))) \<noteq> [])"
proof -
  obtain rem k where r: "0 < rem"
    "map_option cx_RetryAfterSeconds (Some cx') = Some (Some (retryAfterSecondsHint rem))"
    "\<forall>j \<in> set keys. \<exists>e. reported s p model now j = Some e \<and> now + rem \<le> e"
    "k \<in> set keys" "reported s p model now k = Some (now + rem)"
    by (rule AsFilter_hint [OF assms])
  let ?h = "retryAfterSecondsHint rem"
  note h = hint_ceiling [OF r(1)]
  have out: "snd (snd (AsFilter s ctx p model keys t)) = filter (\<lambda>k. \<not> suppressed s p (key_ID k) model t) keys" for t
    by (rule AsFilter_spec(1) [of s ctx p model keys t "fst (AsFilter s ctx p model keys t)" "fst (snd (AsFilter s ctx p model keys t))"]) simp
  have early: "snd (snd (AsFilter s ctx p model keys t)) = []" if "now \<le> t" "t \<le> now + (?h - 1) * second_ns" for t
  proof -
    have "t < now + rem" using that(2) h(3) by linarith
    then have "suppressed s p (key_ID j) model t" if "j \<in> set keys" for j
      using r(3) that \<open>now \<le> t\<close> reported_until [of s p model now j] by (meson less_le_trans)
    then show ?thesis by (simp add: out filter_empty_conv)
  qed
  have late: "snd (snd (AsFilter s ctx p model keys (now + ?h * second_ns))) \<noteq> []"
    if "\<forall>k \<in> set keys. live_rec s now (cd_key p (key_ID k)) = None \<or> live_rec s now (keyModel p (key_ID k) model) = None"
  proof -
    have "now + rem \<le> now + ?h * second_ns" "now \<le> now + ?h * second_ns" using h(1,2) r(1) by linarith+
    then have "\<not> suppressed s p (key_ID k) model (now + ?h * second_ns)"
      using reported_then_free [OF r(5)] that r(4) by blast
    with r(4) show ?thesis by (auto simp: out filter_empty_conv)
  qed
  from r(2) h(1) early late show ?thesis by (intro exI [of _ ?h]) simp
qed


lemma gm_get_cooled: "gm_get (cs_cooldowns cooled) k = Some r \<Longrightarrow> cr_expiresAt r = 150"
  by (auto simp: cd_eval split: if_splits)

lemma cooled_range: "int64_range (150 - 120)"
  by (simp add: int64_range_def min_int64_def max_int64_def)

lemmas hint_eval = cd_eval ShortestRemainingCooldown_def retryAfterSecondsHint_def time_sub_def second_ns_def
  go_div_def go_mod_def empty_ctx_def min_int64_def max_int64_def

text \<open>That the exactness of the hint is restricted to keys under one granularity is needed. With a 30-second mark on the
  key and a 600-second mark on the key and model, the hint is 30 seconds, and after 30 seconds the
  pool is still empty: the lookup reports the key-scope expiry and never looks at the longer one.\<close>

abbreviation doubly_marked :: cooldown_state where
  "doubly_marked \<equiv> MarkWithTTL (MarkWithTTL (NewCooldownState 0) P_OpenAI ''k1'' ''gpt'' (600 * second_ns)
       KindQuota ScopeModel 0) P_OpenAI ''k1'' ''gpt'' (30 * second_ns) KindRateLimit ScopeKey 0"

lemma retry_hint_ignores_longer_mark:
  "map_option cx_RetryAfterSeconds (fst (snd (AsFilter doubly_marked (Some empty_ctx) P_OpenAI ''gpt''
       [sample_key ''k1''] 0))) = Some (Some 30) \<and>
   snd (snd (AsFilter doubly_marked (Some empty_ctx) P_OpenAI ''gpt'' [sample_key ''k1''] (30 * second_ns))) = []"
  by (simp add: hint_eval)

text \<open>The storage keys can be read back. For a provider and a key id without a colon and a model
  that neither contains two colons in a row nor starts with one, splitting the key of a mark gives the
  provider, the key id and the model it was built from (no model for a key-scope mark), which is what
  the status snapshot and the manual clearing of one entry rely on.\<close>

lemma cooldown_key_roundtrip:
  assumes "CHR '':'' \<notin> set p" and "CHR '':'' \<notin> set keyID" and "model_ok model"
    and "cd_guard p keyID model scope" and "IsKeylessProvider p \<Longrightarrow> keyID = []"
  shows "parseCooldownKey (markKey p keyID model scope) =
    (p, keyID, if scope_OrDefault scope = ScopeModel then model else [])"
  using assms by (rule parse_markKey)

end
