(* ===== verification/PluginPipeline.thy ===== *)
theory PluginPipeline
  imports Cooldown
begin

text \<open>
  The plugin pipeline of \<open>core/bifrost.go\<close>: the hooks that run once per request before anything else
  (\<open>RunPreRequestHooks\<close>), the two kinds that run before each attempt (\<open>RunPreProviderHooks\<close>,
  \<open>RunLLMPreHooks\<close>) and the ones that run after it in reverse order (\<open>RunPostLLMHooks\<close>).

  A plugin is a record of functions on a world state, the context and the request or response. The
  record \<open>pipe\<close> is the \<open>PluginPipeline\<close> struct with the world and the context it acts on; its field
  \<open>pp_trace\<close> is not in the code and records which hooks ran. While hooks run the context drops
  writes to its reserved keys; \<open>keep_reserved\<close> undoes such writes. Tracing spans, timing and
  debug output are left out.
\<close>

section \<open>Responses\<close>

text \<open>A \<open>BifrostResponse\<close> is a struct of some forty pointers of which at most one is set; \<open>rp_Active\<close> says
  that one is, and the extra fields are those of that sub-response. Without one the setters do nothing
  and the getters return zero values.\<close>

record 'a bresponse =
  rp_Active :: bool
  rp_Payload :: 'a
  rp_RequestType :: string
  rp_Provider :: provider
  rp_OriginalModelRequested :: string
  rp_ResolvedModelUsed :: string
  rp_RoutingInfo :: routing_info
  rp_RawRequest :: "string option"
  rp_RawResponse :: "string option"

definition resp_PopulateExtraFields ::
  "'a bresponse \<Rightarrow> string \<Rightarrow> provider \<Rightarrow> string \<Rightarrow> string \<Rightarrow> 'a bresponse" where
  "resp_PopulateExtraFields r requestType prov original resolved =
     (if \<not> rp_Active r then r else r\<lparr>rp_RequestType := requestType, rp_Provider := prov, rp_OriginalModelRequested := original,
       rp_ResolvedModelUsed := (if resolved \<noteq> [] then resolved else original)\<rparr>)"

definition original_model :: "routing_info \<Rightarrow> string \<Rightarrow> string" where
  "original_model info old =
     (case ri_PrimaryModel info of
        Some m \<Rightarrow> if ri_IsFallback info \<and> m \<noteq> [] then m else if ri_Model info \<noteq> [] then ri_Model info else old
      | None \<Rightarrow> if ri_Model info \<noteq> [] then ri_Model info else old)"

definition resolved_model :: "routing_info \<Rightarrow> string \<Rightarrow> string" where
  "resolved_model info old =
     (case ri_ResolvedAlias info of
        Some a \<Rightarrow> if rk_ModelID a \<noteq> [] then rk_ModelID a else if ri_Model info \<noteq> [] then ri_Model info else old
      | None \<Rightarrow> if ri_Model info \<noteq> [] then ri_Model info else old)"

definition resp_PopulateRoutingInfo :: "'a bresponse \<Rightarrow> routing_info \<Rightarrow> 'a bresponse" where
  "resp_PopulateRoutingInfo r info =
     (if \<not> rp_Active r then r else r\<lparr>rp_RoutingInfo := info,
       rp_Provider := (if ri_Provider info \<noteq> [] then ri_Provider info else rp_Provider r),
       rp_OriginalModelRequested := original_model info (rp_OriginalModelRequested r),
       rp_ResolvedModelUsed := resolved_model info (rp_ResolvedModelUsed r)\<rparr>)"

definition err_PopulateRoutingInfo :: "bifrost_error \<Rightarrow> routing_info \<Rightarrow> bifrost_error" where
  "err_PopulateRoutingInfo e info = syncDeprecatedFromRoutingInfo info (e\<lparr>be_RoutingInfo := info\<rparr>)"

definition as_fallback :: "provider \<Rightarrow> string \<Rightarrow> routing_info \<Rightarrow> routing_info" where
  "as_fallback primaryProvider primaryModel ri =
     ri\<lparr>ri_IsFallback := True,
       ri_PrimaryProvider := (if primaryProvider \<noteq> [] then Some primaryProvider else ri_PrimaryProvider ri),
       ri_PrimaryModel := (if primaryModel \<noteq> [] then Some primaryModel else ri_PrimaryModel ri)\<rparr>"

definition resp_SetFallbackRoutingInfo :: "'a bresponse \<Rightarrow> provider \<Rightarrow> string \<Rightarrow> 'a bresponse" where
  "resp_SetFallbackRoutingInfo r primaryProvider primaryModel =
     resp_PopulateRoutingInfo r (as_fallback primaryProvider primaryModel (rp_RoutingInfo r))"

section \<open>Plugins\<close>

record 'a short_circuit =
  sc_Response :: "'a bresponse option"
  sc_Stream :: "('a bresponse \<times> bifrost_error option) list option"
  sc_Error :: "bifrost_error option"
  sc_Silent :: bool

type_synonym ('w, 'a) pre_hook =
  "'w \<Rightarrow> bctx \<Rightarrow> brequest option \<Rightarrow> 'w \<times> bctx \<times> brequest option \<times> 'a short_circuit option \<times> string option"

type_synonym ('w, 'a) post_hook =
  "'w \<Rightarrow> bctx \<Rightarrow> 'a bresponse option \<Rightarrow> bifrost_error option \<Rightarrow>
   'w \<times> bctx \<times> 'a bresponse option \<times> bifrost_error option \<times> string option"

record ('w, 'a) plugin =
  pg_Name :: string
  pg_PreRequestHook :: "'w \<Rightarrow> bctx \<Rightarrow> brequest \<Rightarrow> 'w \<times> bctx \<times> brequest \<times> string option"
  pg_PreProviderHook :: "('w, 'a) pre_hook"
  pg_PreLLMHook :: "('w, 'a) pre_hook"
  pg_PostLLMHook :: "('w, 'a) post_hook"

datatype hook_event = PreRequestRan nat | PreProviderRan nat | PreLLMRan nat | PostLLMRan nat

record 'w pipe =
  pp_world :: 'w
  pp_ctx :: bctx
  pp_executedPreHooks :: nat
  pp_executedPreProviderHooks :: nat
  pp_preHookErrors :: "string list"
  pp_postHookErrors :: "string list"
  pp_chunkCount :: nat
  pp_trace :: "hook_event list"

text \<open>A pipeline as \<open>getPluginPipeline\<close> hands it out.\<close>

definition fresh_pipe :: "'w \<Rightarrow> bctx \<Rightarrow> 'w pipe" where
  "fresh_pipe w ctx =
     \<lparr>pp_world = w, pp_ctx = ctx, pp_executedPreHooks = 0, pp_executedPreProviderHooks = 0,
       pp_preHookErrors = [], pp_postHookErrors = [], pp_chunkCount = 0, pp_trace = []\<rparr>"

subsection \<open>Reserved keys\<close>

text \<open>The reserved keys among the modelled ones (\<open>reservedKeys\<close> of \<open>core/schemas/context.go\<close>).\<close>

definition keep_reserved :: "bctx \<Rightarrow> bctx \<Rightarrow> bctx" where
  "keep_reserved old new =
     new\<lparr>cx_APIKeyName := cx_APIKeyName old, cx_APIKeyID := cx_APIKeyID old, cx_DirectKey := cx_DirectKey old,
       cx_RequestID := cx_RequestID old, cx_FallbackRequestID := cx_FallbackRequestID old,
       cx_SelectedKeyID := cx_SelectedKeyID old, cx_SelectedKeyName := cx_SelectedKeyName old,
       cx_NumberOfRetries := cx_NumberOfRetries old, cx_FallbackIndex := cx_FallbackIndex old,
       cx_SkipKeySelection := cx_SkipKeySelection old, cx_AttemptTrail := cx_AttemptTrail old,
       cx_RoutingInfo := cx_RoutingInfo old\<rparr>"

definition same_reserved :: "bctx \<Rightarrow> bctx \<Rightarrow> bool" where
  "same_reserved a b \<longleftrightarrow> cx_APIKeyName b = cx_APIKeyName a \<and> cx_APIKeyID b = cx_APIKeyID a \<and> cx_DirectKey b = cx_DirectKey a \<and>
     cx_RequestID b = cx_RequestID a \<and> cx_FallbackRequestID b = cx_FallbackRequestID a \<and>
     cx_SelectedKeyID b = cx_SelectedKeyID a \<and> cx_SelectedKeyName b = cx_SelectedKeyName a \<and>
     cx_NumberOfRetries b = cx_NumberOfRetries a \<and> cx_FallbackIndex b = cx_FallbackIndex a \<and>
     cx_SkipKeySelection b = cx_SkipKeySelection a \<and> cx_AttemptTrail b = cx_AttemptTrail a \<and>
     cx_RoutingInfo b = cx_RoutingInfo a"

lemma keep_reserved_same [simp]: "same_reserved a (keep_reserved a b)"
  by (simp add: same_reserved_def keep_reserved_def)

lemma same_reserved_refl [simp]: "same_reserved a a"
  by (simp add: same_reserved_def)

lemma same_reserved_trans: "same_reserved a b \<Longrightarrow> same_reserved b c \<Longrightarrow> same_reserved a c"
  unfolding same_reserved_def by simp

section \<open>Running the hooks\<close>

definition skips_pipeline :: "bctx \<Rightarrow> bool" where
  "skips_pipeline ctx \<longleftrightarrow> cx_SkipPluginPipeline ctx = Some True"

definition note_error :: "string option \<Rightarrow> string list \<Rightarrow> string list" where
  "note_error err errs = (case err of None \<Rightarrow> errs | Some e \<Rightarrow> errs @ [e])"

text \<open>The loop of the two kinds of pre-hooks: \<open>store\<close> keeps the number of hooks run. A hook's error
  is noted and does not stop the loop; a short-circuit does.\<close>

fun pre_loop ::
  "(('w, 'a) plugin \<Rightarrow> ('w, 'a) pre_hook) \<Rightarrow> (nat \<Rightarrow> hook_event) \<Rightarrow> (nat \<Rightarrow> 'w pipe \<Rightarrow> 'w pipe) \<Rightarrow>
   nat \<Rightarrow> ('w, 'a) plugin list \<Rightarrow> 'w pipe \<Rightarrow> brequest option \<Rightarrow> 'w pipe \<times> brequest option \<times> 'a short_circuit option" where
  "pre_loop hook ev store i [] p req = (p, req, None)"
| "pre_loop hook ev store i (pl # pls) p req =
     (case hook pl (pp_world p) (pp_ctx p) req of
        (w, ctx, req', sc, err) \<Rightarrow>
          (let p1 = store (Suc i) (p\<lparr>pp_world := w, pp_ctx := keep_reserved (pp_ctx p) ctx,
                      pp_preHookErrors := note_error err (pp_preHookErrors p), pp_trace := pp_trace p @ [ev i]\<rparr>)
           in case sc of Some _ \<Rightarrow> (p1, req', sc) | None \<Rightarrow> pre_loop hook ev store (Suc i) pls p1 req'))"

definition RunLLMPreHooks ::
  "('w, 'a) plugin list \<Rightarrow> 'w pipe \<Rightarrow> brequest option \<Rightarrow> 'w pipe \<times> brequest option \<times> 'a short_circuit option \<times> nat" where
  "RunLLMPreHooks plugins p req =
     (if skips_pipeline (pp_ctx p) then (p, req, None, 0)
      else (case pre_loop pg_PreLLMHook PreLLMRan (\<lambda>n q. q\<lparr>pp_executedPreHooks := n\<rparr>) 0 plugins p req of
              (p', req', sc) \<Rightarrow> (p', req', sc, pp_executedPreHooks p')))"

definition stampProviderCooldownPolicyOnContext ::
  "(provider \<Rightarrow> string + provider_config option) \<Rightarrow> bctx \<Rightarrow> provider \<Rightarrow> bctx" where
  "stampProviderCooldownPolicyOnContext get_config ctx p =
     (if p = [] then ctx
      else (case get_config p of
              Inr (Some cfg) \<Rightarrow>
                ctx\<lparr>cx_CooldownPolicy := (case pc_CooldownPolicy cfg of None \<Rightarrow> Some (DefaultCooldownPolicy p) | Some pol \<Rightarrow> Some pol)\<rparr>
            | _ \<Rightarrow> ctx\<lparr>cx_CooldownPolicy := Some (DefaultCooldownPolicy p)\<rparr>))"

definition stamp_policy :: "(provider \<Rightarrow> string + provider_config option) \<Rightarrow> brequest option \<Rightarrow> bctx \<Rightarrow> bctx" where
  "stamp_policy get_config req ctx =
     (case req of
        None \<Rightarrow> ctx
      | Some r \<Rightarrow> if req_provider r = [] then ctx else stampProviderCooldownPolicyOnContext get_config ctx (req_provider r))"

definition RunPreProviderHooks ::
  "(provider \<Rightarrow> string + provider_config option) \<Rightarrow> ('w, 'a) plugin list \<Rightarrow> 'w pipe \<Rightarrow> brequest option \<Rightarrow>
   'w pipe \<times> brequest option \<times> 'a short_circuit option \<times> nat" where
  "RunPreProviderHooks get_config plugins p req =
     (if skips_pipeline (pp_ctx p) then (p, req, None, 0)
      else (case pre_loop pg_PreProviderHook PreProviderRan (\<lambda>n q. q\<lparr>pp_executedPreProviderHooks := n\<rparr>) 0 plugins
                   (p\<lparr>pp_ctx := stamp_policy get_config req (pp_ctx p)\<rparr>) req of
              (p', req', sc) \<Rightarrow> (p', req', sc, pp_executedPreProviderHooks p')))"

fun request_loop :: "nat \<Rightarrow> ('w, 'a) plugin list \<Rightarrow> 'w pipe \<Rightarrow> brequest \<Rightarrow> 'w pipe \<times> brequest" where
  "request_loop i [] p req = (p, req)"
| "request_loop i (pl # pls) p req =
     (case pg_PreRequestHook pl (pp_world p) (pp_ctx p) req of
        (w, ctx, req', err) \<Rightarrow>
          request_loop (Suc i) pls
            (p\<lparr>pp_world := w, pp_ctx := keep_reserved (pp_ctx p) ctx, pp_preHookErrors := note_error err (pp_preHookErrors p),
               pp_trace := pp_trace p @ [PreRequestRan i]\<rparr>) req')"

text \<open>A key pinned by a routing rule, written by a plugin under a key of its own, becomes the request's pin.\<close>

definition commit_pin :: "bctx \<Rightarrow> bctx" where
  "commit_pin ctx =
     (case cx_RoutingPinnedAPIKeyID ctx of
        None \<Rightarrow> ctx
      | Some pin \<Rightarrow> if trim_space pin \<noteq> [] then ctx\<lparr>cx_APIKeyID := Some (trim_space pin)\<rparr> else ctx)"

definition RunPreRequestHooks :: "('w, 'a) plugin list \<Rightarrow> 'w pipe \<Rightarrow> brequest \<Rightarrow> 'w pipe \<times> brequest" where
  "RunPreRequestHooks plugins p req =
     (if skips_pipeline (pp_ctx p) then (p, req)
      else (case request_loop 0 plugins p req of (p', req') \<Rightarrow> (p'\<lparr>pp_ctx := commit_pin (pp_ctx p')\<rparr>, req')))"

text \<open>The post-hooks of the first \<open>i\<close> plugins, the last of them first.\<close>

fun post_loop ::
  "('w, 'a) plugin list \<Rightarrow> nat \<Rightarrow> 'w pipe \<Rightarrow> 'a bresponse option \<Rightarrow> bifrost_error option \<Rightarrow>
   'w pipe \<times> 'a bresponse option \<times> bifrost_error option" where
  "post_loop plugins 0 p resp err = (p, resp, err)"
| "post_loop plugins (Suc i) p resp err =
     (case pg_PostLLMHook (plugins ! i) (pp_world p) (pp_ctx p) resp err of
        (w, ctx, resp', err', e) \<Rightarrow>
          post_loop plugins i
            (p\<lparr>pp_world := w, pp_ctx := keep_reserved (pp_ctx p) ctx, pp_postHookErrors := note_error e (pp_postHookErrors p),
               pp_trace := pp_trace p @ [PostLLMRan i]\<rparr>) resp' err')"

definition GetResponseFields :: "'a bresponse option \<Rightarrow> bifrost_error option \<Rightarrow> string \<times> provider \<times> string \<times> string" where
  "GetResponseFields resp err =
     (case resp of
        Some r \<Rightarrow> if rp_Active r then (rp_RequestType r, rp_Provider r, rp_OriginalModelRequested r, rp_ResolvedModelUsed r)
                   else ([], [], [], [])
      | None \<Rightarrow>
          (case err of
             Some e \<Rightarrow> (be_RequestType e, be_Provider e, be_OriginalModelRequested e, be_ResolvedModelUsed e)
           | None \<Rightarrow> ([], [], [], [])))"

definition empty_error :: "bifrost_error \<Rightarrow> bool" where
  "empty_error e \<longleftrightarrow> be_StatusCode e = None \<and>
     (case be_Error e of None \<Rightarrow> False | Some f \<Rightarrow> ef_Type f = None \<and> ef_Message f = [] \<and> ef_Error f = None)"

definition RunPostLLMHooks ::
  "('w, 'a) plugin list \<Rightarrow> 'w pipe \<Rightarrow> 'a bresponse option \<Rightarrow> bifrost_error option \<Rightarrow> int \<Rightarrow>
   'w pipe \<times> 'a bresponse option \<times> bifrost_error option" where
  "RunPostLLMHooks plugins p resp err runFrom =
     (if skips_pipeline (pp_ctx p) then (p, resp, err)
      else
        (let n = nat (min runFrom (int (length plugins)));
             streaming = (cx_StreamStartTime (pp_ctx p) \<noteq> None \<and> fst (GetResponseFields resp err) \<noteq> ''realtime'')
         in case post_loop plugins n p resp err of
              (p1, resp', err') \<Rightarrow>
                (let p2 = (if streaming then p1\<lparr>pp_chunkCount := Suc (pp_chunkCount p1)\<rparr> else p1)
                 in case err' of
                      None \<Rightarrow> (p2, resp', None)
                    | Some e \<Rightarrow> if resp' \<noteq> None \<and> empty_error e then (p2, resp', None) else (p2, resp', Some e))))"


section \<open>What the hooks leave behind\<close>

text \<open>A short-circuit comes from one of the hooks.\<close>

lemma pre_loop_short:
  assumes "pre_loop hook ev store i pls p req = (p', req', Some sc)"
  shows "\<exists>pl \<in> set pls. \<exists>w c r. fst (snd (snd (snd (hook pl w c r)))) = Some sc"
  using assms
proof (induction pls arbitrary: i p req)
  case (Cons pl pls)
  obtain w ctx r s e where h: "hook pl (pp_world p) (pp_ctx p) req = (w, ctx, r, s, e)" by (rule prod_cases5)
  then have short: "fst (snd (snd (snd (hook pl (pp_world p) (pp_ctx p) req)))) = s" by simp
  show ?case
  proof (cases s)
    case None
    then show ?thesis using Cons.IH Cons.prems h by (fastforce simp: Let_def)
  next
    case (Some x)
    then have "s = Some sc" using Cons.prems h by (simp add: Let_def)
    with short show ?thesis by (meson list.set_intros(1))
  qed
qed simp

text \<open>The two pre-hook loops differ in where they keep the count; all else follows from these laws.\<close>

locale hook_counter =
  fixes store :: "nat \<Rightarrow> 'w pipe \<Rightarrow> 'w pipe" and counter :: "'w pipe \<Rightarrow> nat"
  assumes counter_store [simp]: "counter (store n q) = n"
    and store_trace [simp]: "pp_trace (store n q) = pp_trace q"
    and store_ctx [simp]: "pp_ctx (store n q) = pp_ctx q"
begin

lemma pre_loop_spec:
  assumes "pre_loop hook ev store i pls p req = (p', req', sc)"
  shows "\<exists>n \<le> length pls. pp_trace p' = pp_trace p @ map ev [i..<i + n] \<and> (n = 0 \<longrightarrow> p' = p) \<and> (0 < n \<longrightarrow> counter p' = i + n) \<and>
    (sc = None \<longrightarrow> n = length pls) \<and> (sc \<noteq> None \<longrightarrow> 0 < n) \<and> same_reserved (pp_ctx p) (pp_ctx p')"
  using assms
proof (induction pls arbitrary: i p req)
  case Nil
  then show ?case by simp
next
  case (Cons pl pls)
  obtain w ctx r s e where h: "hook pl (pp_world p) (pp_ctx p) req = (w, ctx, r, s, e)" by (rule prod_cases5)
  let ?p1 = "store (Suc i) (p\<lparr>pp_world := w, pp_ctx := keep_reserved (pp_ctx p) ctx,
      pp_preHookErrors := note_error e (pp_preHookErrors p), pp_trace := pp_trace p @ [ev i]\<rparr>)"
  show ?case
  proof (cases s)
    case (Some x)
    then show ?thesis using Cons.prems h by (intro exI [of _ 1]) (auto simp: Let_def)
  next
    case None
    then have "pre_loop hook ev store (Suc i) pls ?p1 r = (p', req', sc)" using Cons.prems h by (simp add: Let_def)
    from Cons.IH [OF this] obtain n where n: "n \<le> length pls" "pp_trace p' = pp_trace p @ [ev i] @ map ev [Suc i..<Suc i + n]"
      "n = 0 \<longrightarrow> p' = ?p1" "0 < n \<longrightarrow> counter p' = Suc i + n" "sc = None \<longrightarrow> n = length pls" "sc \<noteq> None \<longrightarrow> 0 < n"
      "same_reserved (keep_reserved (pp_ctx p) ctx) (pp_ctx p')" by auto
    have "same_reserved (pp_ctx p) (pp_ctx p')" using same_reserved_trans [OF keep_reserved_same n(7)] .
    moreover have "map ev [i..<i + Suc n] = ev i # map ev [Suc i..<Suc i + n]" by (subst upt_conv_Cons) auto
    moreover have "counter p' = i + Suc n" using n(3,4) by (cases n) auto
    ultimately show ?thesis using n by (intro exI [of _ "Suc n"]) auto
  qed
qed

text \<open>What no hook touches, the loop does not touch.\<close>

lemma pre_loop_keeps:
  assumes "pre_loop hook ev store i pls p req = (p', req', sc)"
    and "\<And>pl w c r. pl \<in> set pls \<Longrightarrow> f (fst (snd (hook pl w c r))) = f c" and "\<And>a b. f (keep_reserved a b) = f b"
  shows "f (pp_ctx p') = f (pp_ctx p)"
  using assms(1,2)
proof (induction pls arbitrary: i p req)
  case (Cons pl pls)
  obtain w ctx r s e where h: "hook pl (pp_world p) (pp_ctx p) req = (w, ctx, r, s, e)" by (rule prod_cases5)
  have "f ctx = f (pp_ctx p)" using Cons.prems(2) [of pl "pp_world p" "pp_ctx p" req] h by simp
  then show ?case using Cons h assms(3) by (cases s) (auto simp: Let_def)
qed simp

end

interpretation llm_hooks: hook_counter "\<lambda>n q. q\<lparr>pp_executedPreHooks := n\<rparr>" pp_executedPreHooks
  by unfold_locales simp_all

interpretation provider_hooks: hook_counter "\<lambda>n q. q\<lparr>pp_executedPreProviderHooks := n\<rparr>" pp_executedPreProviderHooks
  by unfold_locales simp_all

lemma request_loop_spec:
  "request_loop i pls p req = (p', req') \<Longrightarrow>
   pp_trace p' = pp_trace p @ map PreRequestRan [i..<i + length pls] \<and> same_reserved (pp_ctx p) (pp_ctx p')"
proof (induction pls arbitrary: i p req)
  case (Cons pl pls)
  obtain w ctx r e where h: "pg_PreRequestHook pl (pp_world p) (pp_ctx p) req = (w, ctx, r, e)" by (rule prod_cases4)
  from Cons.IH [OF Cons.prems [unfolded request_loop.simps h prod.case]]
  have t: "pp_trace p' = pp_trace p @ PreRequestRan i # map PreRequestRan [Suc i..<Suc i + length pls]"
    and s: "same_reserved (keep_reserved (pp_ctx p) ctx) (pp_ctx p')" by auto
  show ?case using t same_reserved_trans [OF keep_reserved_same s] by (subst upt_conv_Cons) auto
qed simp

lemma post_loop_spec:
  "post_loop pls n p resp err = (p', resp', err') \<Longrightarrow>
   pp_trace p' = pp_trace p @ map PostLLMRan (rev [0..<n]) \<and> same_reserved (pp_ctx p) (pp_ctx p')"
proof (induction n arbitrary: p resp err)
  case (Suc i)
  obtain w ctx r e x where h: "pg_PostLLMHook (pls ! i) (pp_world p) (pp_ctx p) resp err = (w, ctx, r, e, x)" by (rule prod_cases5)
  from Suc.IH [OF Suc.prems [unfolded post_loop.simps h prod.case]]
  have "pp_trace p' = pp_trace p @ PostLLMRan i # map PostLLMRan (rev [0..<i])"
    and s: "same_reserved (keep_reserved (pp_ctx p) ctx) (pp_ctx p')" by auto
  then show ?case using same_reserved_trans [OF keep_reserved_same s] by simp
qed simp

lemma post_loop_keeps:
  assumes "post_loop pls n p resp err = (p', resp', err')" and "n \<le> length pls"
    and "\<And>pl w c r e. pl \<in> set pls \<Longrightarrow> f (fst (snd (pg_PostLLMHook pl w c r e))) = f c" and "\<And>a b. f (keep_reserved a b) = f b"
  shows "f (pp_ctx p') = f (pp_ctx p)"
  using assms(1,2)
proof (induction n arbitrary: p resp err)
  case (Suc i)
  obtain w ctx r e x where h: "pg_PostLLMHook (pls ! i) (pp_world p) (pp_ctx p) resp err = (w, ctx, r, e, x)" by (rule prod_cases5)
  have "f ctx = f (pp_ctx p)" using assms(3) [of "pls ! i" "pp_world p" "pp_ctx p" resp err] h Suc.prems(2) by simp
  then show ?case using Suc h assms(4) by auto
qed simp

text \<open>Plugins that leave the flag alone that switches the pipeline off.\<close>

definition keeps_skip :: "('w, 'a) plugin \<Rightarrow> bool" where
  "keeps_skip pl \<longleftrightarrow>
     (\<forall>w c r. cx_SkipPluginPipeline (fst (snd (pg_PreProviderHook pl w c r))) = cx_SkipPluginPipeline c) \<and>
     (\<forall>w c r. cx_SkipPluginPipeline (fst (snd (pg_PreLLMHook pl w c r))) = cx_SkipPluginPipeline c)"

lemma keep_reserved_skip [simp]: "cx_SkipPluginPipeline (keep_reserved a b) = cx_SkipPluginPipeline b"
  by (simp add: keep_reserved_def)

text \<open>Plugins whose short-circuits say how the attempt ends.\<close>

definition decisive :: "('w, 'a) plugin \<Rightarrow> bool" where
  "decisive pl \<longleftrightarrow> (\<forall>w c r sc. (fst (snd (snd (snd (pg_PreProviderHook pl w c r)))) = Some sc \<or>
      fst (snd (snd (snd (pg_PreLLMHook pl w c r)))) = Some sc) \<longrightarrow> sc_Response sc \<noteq> None \<or> sc_Error sc \<noteq> None)"

lemma stamp_policy_frame [simp]:
  "cx_SkipPluginPipeline (stamp_policy g r c) = cx_SkipPluginPipeline c" "same_reserved c (stamp_policy g r c)"
  by (simp_all add: stamp_policy_def stampProviderCooldownPolicyOnContext_def same_reserved_def split: option.splits sum.splits)

lemma pre_loop_other_counter:
  "pre_loop hook ev (\<lambda>n q. q\<lparr>pp_executedPreProviderHooks := n\<rparr>) i pls p req = (p', req', sc) \<Longrightarrow>
   pp_executedPreHooks p' = pp_executedPreHooks p"
  by (induction pls arbitrary: i p req) (fastforce simp: Let_def split: prod.splits option.splits)+

lemma provider_hooks_run:
  assumes "RunPreProviderHooks g pls p req = (p', req', sc, n)" and "\<not> skips_pipeline (pp_ctx p)"
    and "pp_executedPreProviderHooks p = 0"
  shows "n \<le> length pls" and "pp_trace p' = pp_trace p @ map PreProviderRan [0..<n]" and "sc = None \<longrightarrow> n = length pls"
    and "sc \<noteq> None \<longrightarrow> 0 < n" and "same_reserved (pp_ctx p) (pp_ctx p')"
    and "list_all keeps_skip pls \<Longrightarrow> \<not> skips_pipeline (pp_ctx p')"
    and "list_all decisive pls \<Longrightarrow> sc = Some x \<Longrightarrow> sc_Response x \<noteq> None \<or> sc_Error x \<noteq> None"
    and "pp_executedPreHooks p' = pp_executedPreHooks p"
proof -
  have l: "pre_loop pg_PreProviderHook PreProviderRan (\<lambda>n q. q\<lparr>pp_executedPreProviderHooks := n\<rparr>) 0 pls
      (p\<lparr>pp_ctx := stamp_policy g req (pp_ctx p)\<rparr>) req = (p', req', sc)" and n: "n = pp_executedPreProviderHooks p'"
    using assms(1,2) by (auto simp: RunPreProviderHooks_def split: prod.splits)
  from provider_hooks.pre_loop_spec [OF l] n assms(3)
  show "n \<le> length pls" and "pp_trace p' = pp_trace p @ map PreProviderRan [0..<n]" and "sc = None \<longrightarrow> n = length pls"
    and "sc \<noteq> None \<longrightarrow> 0 < n" and "same_reserved (pp_ctx p) (pp_ctx p')"
    by (auto intro: same_reserved_trans [OF stamp_policy_frame(2)])
  show "\<not> skips_pipeline (pp_ctx p')" if "list_all keeps_skip pls"
    using provider_hooks.pre_loop_keeps [OF l, of cx_SkipPluginPipeline] that assms(2)
    by (auto simp: keeps_skip_def list_all_iff skips_pipeline_def)
  show "sc_Response x \<noteq> None \<or> sc_Error x \<noteq> None" if "list_all decisive pls" "sc = Some x"
    using pre_loop_short [OF l [unfolded that(2)]] that(1) unfolding decisive_def list_all_iff by blast
  show "pp_executedPreHooks p' = pp_executedPreHooks p" using pre_loop_other_counter [OF l] by simp
qed

lemma llm_hooks_run:
  assumes "RunLLMPreHooks pls p req = (p', req', sc, n)" and "\<not> skips_pipeline (pp_ctx p)" and "pp_executedPreHooks p = 0"
  shows "n \<le> length pls" and "pp_trace p' = pp_trace p @ map PreLLMRan [0..<n]" and "sc = None \<longrightarrow> n = length pls"
    and "sc \<noteq> None \<longrightarrow> 0 < n" and "same_reserved (pp_ctx p) (pp_ctx p')"
    and "list_all keeps_skip pls \<Longrightarrow> \<not> skips_pipeline (pp_ctx p')"
    and "list_all decisive pls \<Longrightarrow> sc = Some x \<Longrightarrow> sc_Response x \<noteq> None \<or> sc_Error x \<noteq> None"
proof -
  have l: "pre_loop pg_PreLLMHook PreLLMRan (\<lambda>n q. q\<lparr>pp_executedPreHooks := n\<rparr>) 0 pls p req = (p', req', sc)"
    and n: "n = pp_executedPreHooks p'"
    using assms(1,2) by (auto simp: RunLLMPreHooks_def split: prod.splits)
  from llm_hooks.pre_loop_spec [OF l] n assms(3)
  show "n \<le> length pls" and "pp_trace p' = pp_trace p @ map PreLLMRan [0..<n]" and "sc = None \<longrightarrow> n = length pls"
    and "sc \<noteq> None \<longrightarrow> 0 < n" and "same_reserved (pp_ctx p) (pp_ctx p')"
    by auto
  show "\<not> skips_pipeline (pp_ctx p')" if "list_all keeps_skip pls"
    using llm_hooks.pre_loop_keeps [OF l, of cx_SkipPluginPipeline] that assms(2)
    by (auto simp: keeps_skip_def list_all_iff skips_pipeline_def)
  show "sc_Response x \<noteq> None \<or> sc_Error x \<noteq> None" if "list_all decisive pls" "sc = Some x"
    using pre_loop_short [OF l [unfolded that(2)]] that(1) unfolding decisive_def list_all_iff by blast
qed

lemma post_hooks_run:
  assumes "RunPostLLMHooks pls p resp err k = (p', resp', err')"
  shows "pp_trace p' = pp_trace p @ (if skips_pipeline (pp_ctx p) then [] else map PostLLMRan (rev [0..<nat (min k (int (length pls)))]))"
    and "same_reserved (pp_ctx p) (pp_ctx p')"
proof -
  obtain q r e where l: "post_loop pls (nat (min k (int (length pls)))) p resp err = (q, r, e)" by (rule prod_cases3)
  from post_loop_spec [OF l] assms l
  show "pp_trace p' = pp_trace p @ (if skips_pipeline (pp_ctx p) then [] else map PostLLMRan (rev [0..<nat (min k (int (length pls)))]))"
    and "same_reserved (pp_ctx p) (pp_ctx p')"
    by (auto simp: RunPostLLMHooks_def Let_def split: if_splits option.splits)
qed


section \<open>Properties\<close>


end
