(* ===== verification/Kvstore.thy ===== *)
theory Kvstore
  imports Prelude
begin

text \<open>
  The in-memory key-value store of \<open>framework/kvstore/kvstore.go\<close>: TTLs, lazy and periodic
  expiry, set-if-absent, the replication hooks and the last-write-wins application of remote
  mutations. A store is a record; each method is a function from the store (and the clock readings it
  takes) to the new store and its result. The mutex is not part of the state: a method is one atomic
  step, except \<open>Get\<close>, whose lookup and lazy delete run under separate lock acquisitions and are
  separate functions here. The delegate's calls are recorded in order in \<open>sync_log\<close>; the code
  makes them right after it releases the mutex, so what is shown of replication is about calls that
  are not overtaken by those of another goroutine. A method's clock reading and its check of
  \<open>closed\<close>, made just before the mutex is taken, belong to the step.
  \<open>sonic.Marshal\<close> is a parameter of the operations that call it.
\<close>

section \<open>State\<close>

text \<open>Values have Go's type \<open>any\<close>. The clients distinguish strings, byte slices and the rest.\<close>

datatype goany = GStr string | GBytes string | GOther nat

datatype kverror = ErrClosed | ErrEmptyKey | ErrNotFound | ErrInvalidTTL | ErrCodec string

record kventry =
  ent_value :: goany
  writtenAt :: int
  expiresAt :: int

datatype sync_event = OnSet string string int int | OnDelete string int

type_synonym decoder = "string \<Rightarrow> kverror + goany"
type_synonym marshaller = "goany \<Rightarrow> kverror + string"

record kvconfig =
  cfg_CleanupInterval :: int
  cfg_DefaultTTL :: int

record kvstore =
  data :: "(string, kventry) gomap"
  defaultTTL :: int
  cleanupInterval :: int
  kv_closed :: bool
  delegate :: bool
  decoders :: "(string, decoder) gomap"
  sync_log :: "sync_event list"

definition defaultCleanupInterval :: int where
  "defaultCleanupInterval = 30 * second_ns"

definition noExpirationUnixNanos :: int where
  "noExpirationUnixNanos = 0"

section \<open>Operations\<close>

definition isExpired :: "kventry \<Rightarrow> int \<Rightarrow> bool" where
  "isExpired e nowUnixNano \<longleftrightarrow>
     expiresAt e \<noteq> noExpirationUnixNanos \<and> expiresAt e \<le> nowUnixNano"

definition kv_SetDelegate :: "kvstore \<Rightarrow> bool \<Rightarrow> kvstore" where
  "kv_SetDelegate s d = s\<lparr>delegate := d\<rparr>"

definition kv_RegisterDecoder :: "kvstore \<Rightarrow> string \<Rightarrow> decoder \<Rightarrow> kvstore" where
  "kv_RegisterDecoder s keyPrefix dec = s\<lparr>decoders := gm_set keyPrefix dec (decoders s)\<rparr>"

definition kv_New :: "kvconfig \<Rightarrow> kverror + kvstore" where
  "kv_New cfg =
     (if cfg_DefaultTTL cfg < 0 then Inl ErrInvalidTTL
      else Inr \<lparr>data = [], defaultTTL = cfg_DefaultTTL cfg,
        cleanupInterval =
          (if cfg_CleanupInterval cfg \<le> 0 then defaultCleanupInterval else cfg_CleanupInterval cfg),
        kv_closed = False, delegate = False, decoders = [], sync_log = []\<rparr>)"

definition validateMutable :: "kvstore \<Rightarrow> string \<Rightarrow> int \<Rightarrow> kverror option" where
  "validateMutable s key ttl =
     (if key = [] then Some ErrEmptyKey
      else if ttl < 0 then Some ErrInvalidTTL
      else if kv_closed s then Some ErrClosed
      else None)"

text \<open>The local write and the delegate's notification that ends both setters.\<close>

definition kv_put :: "kvstore \<Rightarrow> string \<Rightarrow> goany \<Rightarrow> int \<Rightarrow> int \<Rightarrow> string \<Rightarrow> kvstore" where
  "kv_put s key v now expires valueJSON =
     s\<lparr>data := gm_set key \<lparr>ent_value = v, writtenAt = now, expiresAt = expires\<rparr> (data s),
       sync_log := (if delegate s then sync_log s @ [OnSet key valueJSON now expires]
                    else sync_log s)\<rparr>"

definition kv_marshal :: "marshaller \<Rightarrow> kvstore \<Rightarrow> goany \<Rightarrow> kverror + string" where
  "kv_marshal marshal s v = (if delegate s then marshal v else Inr [])"

definition ttl_expiry :: "int \<Rightarrow> int \<Rightarrow> int" where
  "ttl_expiry now ttl = (if ttl > 0 then wrap64 (now + ttl) else 0)"

definition kv_SetWithTTL ::
  "marshaller \<Rightarrow> kvstore \<Rightarrow> string \<Rightarrow> goany \<Rightarrow> int \<Rightarrow> int \<Rightarrow> kvstore \<times> (kverror + unit)" where
  "kv_SetWithTTL marshal s key v ttl now =
     (case validateMutable s key ttl of
        Some e \<Rightarrow> (s, Inl e)
      | None \<Rightarrow>
          (case kv_marshal marshal s v of
             Inl e \<Rightarrow> (s, Inl e)
           | Inr valueJSON \<Rightarrow> (kv_put s key v now (ttl_expiry now ttl) valueJSON, Inr ())))"

definition kv_Set ::
  "marshaller \<Rightarrow> kvstore \<Rightarrow> string \<Rightarrow> goany \<Rightarrow> int \<Rightarrow> kvstore \<times> (kverror + unit)" where
  "kv_Set marshal s key v now = kv_SetWithTTL marshal s key v (defaultTTL s) now"

definition kv_SetNXWithTTL ::
  "marshaller \<Rightarrow> kvstore \<Rightarrow> string \<Rightarrow> goany \<Rightarrow> int \<Rightarrow> int \<Rightarrow> kvstore \<times> (kverror + bool)" where
  "kv_SetNXWithTTL marshal s key v ttl now =
     (case validateMutable s key ttl of
        Some e \<Rightarrow> (s, Inl e)
      | None \<Rightarrow>
          (case kv_marshal marshal s v of
             Inl e \<Rightarrow> (s, Inl e)
           | Inr valueJSON \<Rightarrow>
               (case gm_get (data s) key of
                  Some existing \<Rightarrow>
                    if \<not> isExpired existing now then (s, Inr False)
                    else (kv_put s key v now (ttl_expiry now ttl) valueJSON, Inr True)
                | None \<Rightarrow> (kv_put s key v now (ttl_expiry now ttl) valueJSON, Inr True))))"

text \<open>The decoder loop: the longest registered prefix of the key wins; no decoder, or one that
  fails, leaves the raw bytes.\<close>

fun best_decoder ::
  "string \<Rightarrow> (string, decoder) gomap \<Rightarrow> string \<Rightarrow> decoder option \<Rightarrow> decoder option" where
  "best_decoder key [] bestPrefix bestDecode = bestDecode"
| "best_decoder key ((p, dec) # ds) bestPrefix bestDecode =
     (if str_prefix p key \<and> length bestPrefix < length p then best_decoder key ds p (Some dec)
      else best_decoder key ds bestPrefix bestDecode)"

definition decodeValue :: "kvstore \<Rightarrow> string \<Rightarrow> string \<Rightarrow> goany" where
  "decodeValue s key valueJSON =
     (case best_decoder key (decoders s) [] None of
        None \<Rightarrow> GBytes valueJSON
      | Some dec \<Rightarrow> (case dec valueJSON of Inl _ \<Rightarrow> GBytes valueJSON | Inr v \<Rightarrow> v))"

definition kv_SetRemote ::
  "kvstore \<Rightarrow> string \<Rightarrow> string \<Rightarrow> int \<Rightarrow> int \<Rightarrow> kvstore \<times> (kverror + unit)" where
  "kv_SetRemote s key valueJSON written expires =
     (if key = [] then (s, Inl ErrEmptyKey)
      else if kv_closed s then (s, Inl ErrClosed)
      else
        (let v = decodeValue s key valueJSON;
             s' = s\<lparr>data := gm_set key \<lparr>ent_value = v, writtenAt = written, expiresAt = expires\<rparr>
                              (data s)\<rparr>
         in case gm_get (data s) key of
              Some existing \<Rightarrow> if written < writtenAt existing then (s, Inr ()) else (s', Inr ())
            | None \<Rightarrow> (s', Inr ())))"

text \<open>\<open>Get\<close>: the lookup under the read lock, and the lazy delete under the write lock, which
  reads the clock and the entry again.\<close>

definition kv_get_read :: "kvstore \<Rightarrow> string \<Rightarrow> int \<Rightarrow> kverror + goany" where
  "kv_get_read s key now =
     (if key = [] then Inl ErrEmptyKey
      else if kv_closed s then Inl ErrClosed
      else (case gm_get (data s) key of
              None \<Rightarrow> Inl ErrNotFound
            | Some e \<Rightarrow> if isExpired e now then Inl ErrNotFound else Inr (ent_value e)))"

definition kv_get_needs_prune :: "kvstore \<Rightarrow> string \<Rightarrow> int \<Rightarrow> bool" where
  "kv_get_needs_prune s key now =
     (key \<noteq> [] \<and> \<not> kv_closed s \<and>
      (case gm_get (data s) key of None \<Rightarrow> False | Some e \<Rightarrow> isExpired e now))"

definition kv_get_prune :: "kvstore \<Rightarrow> string \<Rightarrow> int \<Rightarrow> kvstore" where
  "kv_get_prune s key now =
     (case gm_get (data s) key of
        Some latest \<Rightarrow> if isExpired latest now then s\<lparr>data := gm_del key (data s)\<rparr> else s
      | None \<Rightarrow> s)"

definition kv_Get :: "kvstore \<Rightarrow> string \<Rightarrow> int \<Rightarrow> int \<Rightarrow> kvstore \<times> (kverror + goany)" where
  "kv_Get s key now now' =
     ((if kv_get_needs_prune s key now then kv_get_prune s key now' else s), kv_get_read s key now)"

definition kv_GetAndDelete :: "kvstore \<Rightarrow> string \<Rightarrow> int \<Rightarrow> kvstore \<times> (kverror + goany)" where
  "kv_GetAndDelete s key now =
     (if key = [] then (s, Inl ErrEmptyKey)
      else if kv_closed s then (s, Inl ErrClosed)
      else (case gm_get (data s) key of
              None \<Rightarrow> (s, Inl ErrNotFound)
            | Some e \<Rightarrow>
                (let s' = s\<lparr>data := gm_del key (data s)\<rparr>
                 in if isExpired e now then (s', Inl ErrNotFound)
                    else (s'\<lparr>sync_log := (if delegate s then sync_log s @ [OnDelete key now]
                                            else sync_log s)\<rparr>, Inr (ent_value e)))))"

definition kv_Delete :: "kvstore \<Rightarrow> string \<Rightarrow> int \<Rightarrow> kvstore \<times> (kverror + bool)" where
  "kv_Delete s key deletedAt =
     (if key = [] then (s, Inl ErrEmptyKey)
      else if kv_closed s then (s, Inl ErrClosed)
      else (case gm_get (data s) key of
              None \<Rightarrow> (s, Inr False)
            | Some _ \<Rightarrow>
                (s\<lparr>data := gm_del key (data s),
                   sync_log := (if delegate s then sync_log s @ [OnDelete key deletedAt]
                                else sync_log s)\<rparr>, Inr True)))"

definition kv_DeleteRemote :: "kvstore \<Rightarrow> string \<Rightarrow> int \<Rightarrow> kvstore \<times> (kverror + unit)" where
  "kv_DeleteRemote s key deletedAt =
     (if key = [] then (s, Inl ErrEmptyKey)
      else if kv_closed s then (s, Inl ErrClosed)
      else (case gm_get (data s) key of
              Some existing \<Rightarrow>
                if deletedAt < writtenAt existing then (s, Inr ())
                else (s\<lparr>data := gm_del key (data s)\<rparr>, Inr ())
            | None \<Rightarrow> (s\<lparr>data := gm_del key (data s)\<rparr>, Inr ())))"

fun count_unexpired :: "(string, kventry) gomap \<Rightarrow> int \<Rightarrow> nat" where
  "count_unexpired [] now = 0"
| "count_unexpired ((k, v) # m) now =
     (if isExpired v now then count_unexpired m now else Suc (count_unexpired m now))"

definition kv_Len :: "kvstore \<Rightarrow> int \<Rightarrow> nat" where
  "kv_Len s now = (if kv_closed s then 0 else count_unexpired (data s) now)"

definition kv_Close :: "kvstore \<Rightarrow> kvstore" where
  "kv_Close s = s\<lparr>kv_closed := True\<rparr>"

definition cleanupExpired :: "kvstore \<Rightarrow> int \<Rightarrow> kvstore" where
  "cleanupExpired s now = s\<lparr>data := gm_filter (\<lambda>k v. \<not> isExpired v now) (data s)\<rparr>"


section \<open>The abstract store\<close>

text \<open>What a client can observe at a moment: the live keys with their values.\<close>

definition kv_view :: "kvstore \<Rightarrow> int \<Rightarrow> string \<Rightarrow> goany option" where
  "kv_view s now key =
     (case gm_get (data s) key of
        None \<Rightarrow> None
      | Some e \<Rightarrow> if isExpired e now then None else Some (ent_value e))"

text \<open>The state invariant: the data is a map, and expiry times are either absent or \<open>int64\<close>.\<close>

definition kv_inv :: "kvstore \<Rightarrow> bool" where
  "kv_inv s \<longleftrightarrow> gm_wf (data s) \<and> (\<forall>k e. gm_get (data s) k = Some e \<longrightarrow> int64_range (expiresAt e))"

lemma ttl_expiry_range: "int64_range (ttl_expiry now ttl)"
  by (simp add: ttl_expiry_def wrap64_range) (simp add: int64_range_def)

lemma isExpired_mono: "isExpired e t \<Longrightarrow> t \<le> t' \<Longrightarrow> isExpired e t'"
  by (auto simp: isExpired_def)

lemma kv_inv_New: "kv_New cfg = Inr s \<Longrightarrow> kv_inv s"
  by (auto simp: kv_New_def kv_inv_def split: if_splits)

lemma kv_inv_put [inv_intros]: "kv_inv s \<Longrightarrow> kv_inv (kv_put s k v now (ttl_expiry now ttl) j)"
  by (auto simp: kv_inv_def kv_put_def ttl_expiry_range)

lemma kv_inv_del: "kv_inv s \<Longrightarrow> kv_inv (s\<lparr>data := gm_del k (data s)\<rparr>)"
  by (auto simp: kv_inv_def)

lemma kv_inv_SetWithTTL [inv_intros]:
  "kv_inv s \<Longrightarrow> kv_inv (fst (kv_SetWithTTL marshal s k v ttl now))"
  by (auto simp: kv_SetWithTTL_def intro: kv_inv_put split: option.splits sum.splits)

lemma kv_inv_SetNXWithTTL [inv_intros]:
  "kv_inv s \<Longrightarrow> kv_inv (fst (kv_SetNXWithTTL marshal s k v ttl now))"
  by (auto simp: kv_SetNXWithTTL_def intro: kv_inv_put split: option.splits sum.splits)

lemma kv_inv_prune [inv_intros]: "kv_inv s \<Longrightarrow> kv_inv (kv_get_prune s k now)"
  by (auto simp: kv_get_prune_def intro: kv_inv_del split: option.splits)

lemma kv_inv_Get [inv_intros]: "kv_inv s \<Longrightarrow> kv_inv (fst (kv_Get s k now now'))"
  by (simp add: kv_Get_def kv_inv_prune)

lemma kv_inv_log [simp]: "kv_inv (s\<lparr>sync_log := l\<rparr>) = kv_inv s"
  by (simp add: kv_inv_def)

lemma kv_inv_del_log: "kv_inv s \<Longrightarrow> kv_inv (s\<lparr>data := gm_del k (data s), sync_log := l\<rparr>)"
  by (auto simp: kv_inv_def)

lemma kv_inv_GetAndDelete [inv_intros]: "kv_inv s \<Longrightarrow> kv_inv (fst (kv_GetAndDelete s k now))"
  by (auto simp: kv_GetAndDelete_def Let_def intro: kv_inv_del kv_inv_del_log split: option.splits)

lemma kv_inv_Delete [inv_intros]: "kv_inv s \<Longrightarrow> kv_inv (fst (kv_Delete s k now))"
  by (auto simp: kv_Delete_def intro: kv_inv_del kv_inv_del_log split: option.splits)

lemma kv_inv_DeleteRemote [inv_intros]: "kv_inv s \<Longrightarrow> kv_inv (fst (kv_DeleteRemote s k now))"
  by (auto simp: kv_DeleteRemote_def intro: kv_inv_del split: option.splits)

lemma kv_inv_SetRemote [inv_intros]:
  "kv_inv s \<Longrightarrow> int64_range x \<Longrightarrow> kv_inv (fst (kv_SetRemote s k j w x))"
  by (auto simp: kv_SetRemote_def Let_def kv_inv_def split: option.splits)

lemma kv_inv_cleanup [inv_intros]: "kv_inv s \<Longrightarrow> kv_inv (cleanupExpired s now)"
  by (auto simp: cleanupExpired_def kv_inv_def gm_get_filter split: option.splits if_splits)

lemma kv_inv_Close [simp]: "kv_inv (kv_Close s) = kv_inv s"
  by (simp add: kv_Close_def kv_inv_def)

subsection \<open>Views\<close>

lemma kv_view_put:
  "kv_view (kv_put s k v now (ttl_expiry now ttl) j) t =
     (kv_view s t)(k := if 0 < ttl \<and> wrap64 (now + ttl) \<noteq> 0 \<and> wrap64 (now + ttl) \<le> t
                        then None else Some v)"
  by (rule ext)
     (simp add: kv_view_def kv_put_def isExpired_def ttl_expiry_def noExpirationUnixNanos_def)

lemma kv_view_del: "kv_view (s\<lparr>data := gm_del k (data s)\<rparr>) t = (kv_view s t)(k := None)"
  by (rule ext) (simp add: kv_view_def)

lemma kv_view_log [simp]: "kv_view (s\<lparr>sync_log := l\<rparr>) = kv_view s"
  by (intro ext) (simp add: kv_view_def)

lemma kv_view_prune:
  assumes "now \<le> t"
  shows "kv_view (kv_get_prune s k now) t = kv_view s t"
  using assms
  by (intro ext) (auto simp: kv_get_prune_def kv_view_def dest: isExpired_mono split: option.splits)

lemma kv_view_Get: "now' \<le> t \<Longrightarrow> kv_view (fst (kv_Get s k now now')) t = kv_view s t"
  by (simp add: kv_Get_def kv_view_prune)

lemma kv_closed_prune [simp]: "kv_closed (kv_get_prune s k now) = kv_closed s"
  by (simp add: kv_get_prune_def split: option.splits)

lemma kv_closed_Get [simp]: "kv_closed (fst (kv_Get s k now now')) = kv_closed s"
  by (simp add: kv_Get_def)

lemma kv_Get_result:
  "k \<noteq> [] \<Longrightarrow> \<not> kv_closed s \<Longrightarrow>
   snd (kv_Get s k now now') = (case kv_view s now k of None \<Rightarrow> Inl ErrNotFound | Some v \<Rightarrow> Inr v)"
  by (simp add: kv_Get_def kv_get_read_def kv_view_def split: option.splits)

lemma kv_view_cleanup:
  assumes "kv_inv s" and "now \<le> t"
  shows "kv_view (cleanupExpired s now) t = kv_view s t"
proof
  fix k
  have "gm_wf (data s)" using assms(1) by (simp add: kv_inv_def)
  then show "kv_view (cleanupExpired s now) t k = kv_view s t k"
    using assms(2) by (auto simp: cleanupExpired_def kv_view_def gm_get_filter
        dest: isExpired_mono split: option.splits)
qed

lemma kv_SetWithTTL_ok:
  assumes "k \<noteq> []" and "0 \<le> ttl" and "\<not> kv_closed s" and "kv_marshal marshal s v = Inr j"
  shows "kv_SetWithTTL marshal s k v ttl now = (kv_put s k v now (ttl_expiry now ttl) j, Inr ())"
  using assms by (simp add: kv_SetWithTTL_def validateMutable_def)

lemma kv_SetNXWithTTL_ok:
  assumes "k \<noteq> []" and "0 \<le> ttl" and "\<not> kv_closed s" and "kv_marshal marshal s v = Inr j"
  shows "kv_SetNXWithTTL marshal s k v ttl now =
    (if kv_view s now k = None then (kv_put s k v now (ttl_expiry now ttl) j, Inr True)
     else (s, Inr False))"
  using assms
  by (auto simp: kv_SetNXWithTTL_def validateMutable_def kv_view_def split: option.splits)


section \<open>Concurrent use\<close>

text \<open>
  Several goroutines share a store. A step is one lock-protected section: a whole method, or one of
  the two halves of \<open>Get\<close>, whose lazy delete (\<open>pend\<close> holds the keys of the \<open>Get\<close>s that
  saw an expired entry and have not deleted it yet) may run after any number of other steps. The
  specification is a store without expired entries: it maps each moment from now on to the live
  keys, and every step is atomic.
\<close>

record kvsys =
  st :: kvstore
  clock :: int
  pend :: "string list"

datatype kvlabel =
    LTau
  | LTick int
  | LClose
  | LGet string "kverror + goany"
  | LSet string goany int "kverror + unit"
  | LSetNX string goany int "kverror + bool"
  | LGetAndDelete string "kverror + goany"
  | LDelete string "kverror + bool"

inductive kv_step :: "marshaller \<Rightarrow> kvsys \<Rightarrow> kvlabel \<Rightarrow> kvsys \<Rightarrow> bool" for marshal where
  step_tick: "clock s \<le> t \<Longrightarrow> kv_step marshal s (LTick t) (s\<lparr>clock := t\<rparr>)"
| step_get: "kv_step marshal s (LGet k (kv_get_read (st s) k (clock s)))
     (if kv_get_needs_prune (st s) k (clock s) then s\<lparr>pend := k # pend s\<rparr> else s)"
| step_prune: "k \<in> set (pend s) \<Longrightarrow>
     kv_step marshal s LTau (s\<lparr>st := kv_get_prune (st s) k (clock s), pend := remove1 k (pend s)\<rparr>)"
| step_cleanup: "kv_step marshal s LTau (s\<lparr>st := cleanupExpired (st s) (clock s)\<rparr>)"
| step_set: "kv_SetWithTTL marshal (st s) k v ttl (clock s) = (s', r) \<Longrightarrow>
     kv_step marshal s (LSet k v ttl r) (s\<lparr>st := s'\<rparr>)"
| step_setnx: "kv_SetNXWithTTL marshal (st s) k v ttl (clock s) = (s', r) \<Longrightarrow>
     kv_step marshal s (LSetNX k v ttl r) (s\<lparr>st := s'\<rparr>)"
| step_gad: "kv_GetAndDelete (st s) k (clock s) = (s', r) \<Longrightarrow>
     kv_step marshal s (LGetAndDelete k r) (s\<lparr>st := s'\<rparr>)"
| step_delete: "kv_Delete (st s) k (clock s) = (s', r) \<Longrightarrow>
     kv_step marshal s (LDelete k r) (s\<lparr>st := s'\<rparr>)"
| step_close: "kv_step marshal s LClose (s\<lparr>st := kv_Close (st s)\<rparr>)"

record kvspec =
  live :: "int \<Rightarrow> string \<Rightarrow> goany option"
  sclock :: int
  sclosed :: bool

definition spec_put :: "kvspec \<Rightarrow> string \<Rightarrow> goany \<Rightarrow> int \<Rightarrow> kvspec" where
  "spec_put a k v ttl = a\<lparr>live := (\<lambda>t. (live a t)(k :=
     if 0 < ttl \<and> wrap64 (sclock a + ttl) \<noteq> 0 \<and> wrap64 (sclock a + ttl) \<le> t
     then None else Some v))\<rparr>"

definition spec_drop :: "kvspec \<Rightarrow> string \<Rightarrow> kvspec" where
  "spec_drop a k = a\<lparr>live := (\<lambda>t. (live a t)(k := None))\<rparr>"

definition spec_guard :: "kvspec \<Rightarrow> string \<Rightarrow> kverror option" where
  "spec_guard a k =
     (if k = [] then Some ErrEmptyKey else if sclosed a then Some ErrClosed else None)"

definition spec_guard_ttl :: "kvspec \<Rightarrow> string \<Rightarrow> int \<Rightarrow> kverror option" where
  "spec_guard_ttl a k ttl =
     (if k = [] then Some ErrEmptyKey else if ttl < 0 then Some ErrInvalidTTL
      else if sclosed a then Some ErrClosed else None)"

definition spec_found :: "goany option \<Rightarrow> kverror + goany" where
  "spec_found r = (case r of None \<Rightarrow> Inl ErrNotFound | Some v \<Rightarrow> Inr v)"

inductive spec_step :: "(goany \<Rightarrow> kverror + string) \<Rightarrow> kvspec \<Rightarrow> kvlabel \<Rightarrow> kvspec \<Rightarrow> bool"
  for mar where
  sp_tau: "spec_step mar a LTau a"
| sp_tick: "sclock a \<le> t \<Longrightarrow> spec_step mar a (LTick t) (a\<lparr>sclock := t\<rparr>)"
| sp_close: "spec_step mar a LClose (a\<lparr>sclosed := True\<rparr>)"
| sp_get_err: "spec_guard a k = Some e \<Longrightarrow> spec_step mar a (LGet k (Inl e)) a"
| sp_get: "spec_guard a k = None \<Longrightarrow>
     spec_step mar a (LGet k (spec_found (live a (sclock a) k))) a"
| sp_set_err: "spec_guard_ttl a k ttl = Some e \<Longrightarrow> spec_step mar a (LSet k v ttl (Inl e)) a"
| sp_set_mar: "spec_guard_ttl a k ttl = None \<Longrightarrow> mar v = Inl e \<Longrightarrow>
     spec_step mar a (LSet k v ttl (Inl e)) a"
| sp_set: "spec_guard_ttl a k ttl = None \<Longrightarrow> mar v = Inr j \<Longrightarrow>
     spec_step mar a (LSet k v ttl (Inr ())) (spec_put a k v ttl)"
| sp_nx_err: "spec_guard_ttl a k ttl = Some e \<Longrightarrow> spec_step mar a (LSetNX k v ttl (Inl e)) a"
| sp_nx_mar: "spec_guard_ttl a k ttl = None \<Longrightarrow> mar v = Inl e \<Longrightarrow>
     spec_step mar a (LSetNX k v ttl (Inl e)) a"
| sp_nx_lost: "spec_guard_ttl a k ttl = None \<Longrightarrow> mar v = Inr j \<Longrightarrow>
     live a (sclock a) k = Some w \<Longrightarrow> spec_step mar a (LSetNX k v ttl (Inr False)) a"
| sp_nx_won: "spec_guard_ttl a k ttl = None \<Longrightarrow> mar v = Inr j \<Longrightarrow>
     live a (sclock a) k = None \<Longrightarrow>
     spec_step mar a (LSetNX k v ttl (Inr True)) (spec_put a k v ttl)"
| sp_gad_err: "spec_guard a k = Some e \<Longrightarrow> spec_step mar a (LGetAndDelete k (Inl e)) a"
| sp_gad: "spec_guard a k = None \<Longrightarrow>
     spec_step mar a (LGetAndDelete k (spec_found (live a (sclock a) k))) (spec_drop a k)"
| sp_del_err: "spec_guard a k = Some e \<Longrightarrow> spec_step mar a (LDelete k (Inl e)) a"
| sp_del: "spec_guard a k = None \<Longrightarrow> (live a (sclock a) k \<noteq> None \<longrightarrow> r) \<Longrightarrow>
     spec_step mar a (LDelete k (Inr r)) (spec_drop a k)"

text \<open>The simulation relation.\<close>

definition kv_refines :: "kvsys \<Rightarrow> kvspec \<Rightarrow> bool" where
  "kv_refines s a \<longleftrightarrow> kv_inv (st s) \<and> sclock a = clock s \<and> sclosed a = kv_closed (st s) \<and>
     (\<forall>t\<ge>clock s. kv_view (st s) t = live a t)"

lemma kv_refinesI:
  assumes "kv_inv (st s)" and "sclock a = clock s" and "sclosed a = kv_closed (st s)"
    and "\<And>t. clock s \<le> t \<Longrightarrow> kv_view (st s) t = live a t"
  shows "kv_refines s a"
  using assms by (simp add: kv_refines_def)

lemma kv_refinesD:
  assumes "kv_refines s a"
  shows "kv_inv (st s)" and "sclock a = clock s" and "sclosed a = kv_closed (st s)"
    and "\<And>t. clock s \<le> t \<Longrightarrow> kv_view (st s) t = live a t"
  using assms by (simp_all add: kv_refines_def)

lemma kv_closed_put [simp]: "kv_closed (kv_put s k v now e j) = kv_closed s"
  by (simp add: kv_put_def)

lemma kv_closed_cleanup [simp]: "kv_closed (cleanupExpired s now) = kv_closed s"
  by (simp add: cleanupExpired_def)

lemma kv_refines_put:
  assumes "kv_refines s a"
  shows "kv_refines (s\<lparr>st := kv_put (st s) k v (clock s) (ttl_expiry (clock s) ttl) j\<rparr>)
           (spec_put a k v ttl)"
  using kv_refinesD [OF assms]
  by (intro kv_refinesI) (simp_all add: spec_put_def kv_view_put kv_inv_put)

lemma kv_refines_drop:
  assumes "kv_refines s a"
  shows "kv_refines (s\<lparr>st := (st s)\<lparr>data := gm_del k (data (st s)), sync_log := l\<rparr>\<rparr>)
           (spec_drop a k)"
proof -
  have "(st s)\<lparr>data := gm_del k (data (st s)), sync_log := l\<rparr> =
        (st s)\<lparr>data := gm_del k (data (st s))\<rparr>\<lparr>sync_log := l\<rparr>" by simp
  with kv_refinesD [OF assms] show ?thesis
    by (intro kv_refinesI) (simp_all add: spec_drop_def kv_view_del kv_inv_del)
qed

lemma kv_refines_drop_data:
  assumes "kv_refines s a"
  shows "kv_refines (s\<lparr>st := (st s)\<lparr>data := gm_del k (data (st s))\<rparr>\<rparr>) (spec_drop a k)"
  using kv_refinesD [OF assms]
  by (intro kv_refinesI) (simp_all add: spec_drop_def kv_view_del kv_inv_del)

lemma kv_refines_absent:
  assumes "kv_refines s a" and "gm_get (data (st s)) k = None"
  shows "kv_refines s (spec_drop a k)"
proof -
  have "(kv_view (st s) t)(k := None) = kv_view (st s) t" for t
    using assms(2) by (auto simp: kv_view_def)
  then have "(live a t)(k := None) = live a t" if "clock s \<le> t" for t
    using kv_refinesD(4) [OF assms(1) that] by metis
  with kv_refinesD [OF assms(1)] show ?thesis
    by (intro kv_refinesI) (simp_all add: spec_drop_def)
qed

lemmas spec_guards = spec_guard_def spec_guard_ttl_def validateMutable_def kv_refines_def

text \<open>Each lock-protected section is matched by a step of the specification; the two deletions of
  expired entries are invisible.\<close>

lemma kv_sim_set:
  assumes r: "kv_refines s a" and "kv_SetWithTTL marshal (st s) k v ttl (clock s) = (s', res)"
  shows "\<exists>a'. spec_step (kv_marshal marshal (st s)) a (LSet k v ttl res) a' \<and>
           kv_refines (s\<lparr>st := s'\<rparr>) a'"
proof (cases "validateMutable (st s) k ttl")
  case (Some e)
  with assms have "spec_guard_ttl a k ttl = Some e" and "s' = st s" and "res = Inl e"
    by (auto simp: spec_guards kv_SetWithTTL_def split: if_splits)
  with r show ?thesis by (auto intro: sp_set_err)
next
  case None
  with r have g: "spec_guard_ttl a k ttl = None"
    by (auto simp: spec_guards split: if_splits)
  show ?thesis
  proof (cases "kv_marshal marshal (st s) v")
    case (Inl e)
    with None assms(2) have "s' = st s" and "res = Inl e" by (auto simp: kv_SetWithTTL_def)
    with r g Inl show ?thesis by (auto intro: sp_set_mar)
  next
    case (Inr j)
    with None assms(2)
    have "s' = kv_put (st s) k v (clock s) (ttl_expiry (clock s) ttl) j" and "res = Inr ()"
      by (auto simp: kv_SetWithTTL_def)
    with r g Inr show ?thesis by (auto intro: sp_set kv_refines_put)
  qed
qed

lemma kv_sim_setnx:
  assumes r: "kv_refines s a" and "kv_SetNXWithTTL marshal (st s) k v ttl (clock s) = (s', res)"
  shows "\<exists>a'. spec_step (kv_marshal marshal (st s)) a (LSetNX k v ttl res) a' \<and>
           kv_refines (s\<lparr>st := s'\<rparr>) a'"
proof (cases "validateMutable (st s) k ttl")
  case (Some e)
  with assms have "spec_guard_ttl a k ttl = Some e" and "s' = st s" and "res = Inl e"
    by (auto simp: spec_guards kv_SetNXWithTTL_def split: if_splits)
  with r show ?thesis by (auto intro: sp_nx_err)
next
  case None
  then have ok: "k \<noteq> []" "0 \<le> ttl" "\<not> kv_closed (st s)"
    by (auto simp: validateMutable_def split: if_splits)
  with r have g: "spec_guard_ttl a k ttl = None" by (auto simp: spec_guards)
  have lv: "live a (sclock a) k = kv_view (st s) (clock s) k"
    using kv_refinesD(2,4) [OF r] by simp
  show ?thesis
  proof (cases "kv_marshal marshal (st s) v")
    case (Inl e)
    with None assms(2) have "s' = st s" and "res = Inl e" by (auto simp: kv_SetNXWithTTL_def)
    with r g Inl show ?thesis by (auto intro: sp_nx_mar)
  next
    case (Inr j)
    with assms(2) kv_SetNXWithTTL_ok [OF ok Inr] r g Inr lv show ?thesis
      by (cases "kv_view (st s) (clock s) k")
         (auto intro: sp_nx_won sp_nx_lost kv_refines_put)
  qed
qed


lemma kv_sim_get:
  assumes r: "kv_refines s a"
  shows "spec_step mar a (LGet k (kv_get_read (st s) k (clock s))) a"
proof (cases "spec_guard a k")
  case (Some e)
  with r have "kv_get_read (st s) k (clock s) = Inl e"
    by (auto simp: spec_guards kv_get_read_def split: if_splits)
  with Some show ?thesis by (simp add: sp_get_err)
next
  case None
  with r have "k \<noteq> []" "\<not> kv_closed (st s)" by (auto simp: spec_guards split: if_splits)
  then have "kv_get_read (st s) k (clock s) = spec_found (kv_view (st s) (clock s) k)"
    by (simp add: kv_get_read_def spec_found_def kv_view_def split: option.splits)
  then have "kv_get_read (st s) k (clock s) = spec_found (live a (sclock a) k)"
    using kv_refinesD(2,4) [OF r] by simp
  with None show ?thesis by (simp add: sp_get)
qed

lemma kv_sim_gad:
  assumes r: "kv_refines s a" and "kv_GetAndDelete (st s) k (clock s) = (s', res)"
  shows "\<exists>a'. spec_step mar a (LGetAndDelete k res) a' \<and> kv_refines (s\<lparr>st := s'\<rparr>) a'"
proof (cases "spec_guard a k")
  case (Some e)
  with assms have "s' = st s" and "res = Inl e"
    by (auto simp: spec_guards kv_GetAndDelete_def split: if_splits)
  with r Some show ?thesis by (auto intro: sp_gad_err)
next
  case None
  with r have ok: "k \<noteq> []" "\<not> kv_closed (st s)" by (auto simp: spec_guards split: if_splits)
  have lv: "live a (sclock a) k = kv_view (st s) (clock s) k"
    using kv_refinesD(2,4) [OF r] by simp
  with ok assms(2) have "res = spec_found (live a (sclock a) k)"
    by (auto simp: kv_GetAndDelete_def spec_found_def kv_view_def Let_def
        split: option.splits if_splits)
  moreover have "kv_refines (s\<lparr>st := s'\<rparr>) (spec_drop a k)"
    using ok assms(2) kv_refines_absent [OF r] kv_refines_drop_data [OF r] kv_refines_drop [OF r]
    by (auto simp: kv_GetAndDelete_def Let_def split: option.splits if_splits)
  ultimately show ?thesis using None by (auto intro: sp_gad)
qed

lemma kv_sim_delete:
  assumes r: "kv_refines s a" and "kv_Delete (st s) k (clock s) = (s', res)"
  shows "\<exists>a'. spec_step mar a (LDelete k res) a' \<and> kv_refines (s\<lparr>st := s'\<rparr>) a'"
proof (cases "spec_guard a k")
  case (Some e)
  with assms have "s' = st s" and "res = Inl e"
    by (auto simp: spec_guards kv_Delete_def split: if_splits)
  with r Some show ?thesis by (auto intro: sp_del_err)
next
  case None
  with r have ok: "k \<noteq> []" "\<not> kv_closed (st s)" by (auto simp: spec_guards split: if_splits)
  define p where "p \<longleftrightarrow> gm_get (data (st s)) k \<noteq> None"
  have "live a (sclock a) k = kv_view (st s) (clock s) k"
    using kv_refinesD(2,4) [OF r] by simp
  then have "live a (sclock a) k \<noteq> None \<longrightarrow> p"
    by (auto simp: p_def kv_view_def split: option.splits)
  with None have "spec_step mar a (LDelete k (Inr p)) (spec_drop a k)"
    by (rule sp_del)
  moreover have "res = Inr p" and "kv_refines (s\<lparr>st := s'\<rparr>) (spec_drop a k)"
    using ok assms(2) kv_refines_absent [OF r] kv_refines_drop_data [OF r] kv_refines_drop [OF r]
    by (auto simp: kv_Delete_def p_def split: option.splits if_splits)
  ultimately show ?thesis by blast
qed

lemma kv_delegate_const:
  "kv_step marshal s l s' \<Longrightarrow> delegate (st s') = delegate (st s)"
  by (induction rule: kv_step.induct)
     (auto simp: kv_get_prune_def cleanupExpired_def kv_SetWithTTL_def kv_SetNXWithTTL_def
       kv_GetAndDelete_def kv_Delete_def kv_Close_def kv_put_def Let_def
       split: option.splits sum.splits if_splits)

lemma kv_step_simulated:
  assumes "kv_step marshal s l s'" and r: "kv_refines s a"
  shows "\<exists>a'. spec_step (kv_marshal marshal (st s)) a l a' \<and> kv_refines s' a'"
  using assms(1)
proof cases
  case (step_tick t)
  then show ?thesis using kv_refinesD [OF r]
    by (intro exI [of _ "a\<lparr>sclock := t\<rparr>"]) (auto intro!: sp_tick kv_refinesI)
next
  case (step_get k)
  then show ?thesis using kv_sim_get [OF r] kv_refinesD [OF r]
    by (intro exI [of _ a]) (auto intro!: kv_refinesI)
next
  case (step_prune k)
  then show ?thesis using kv_refinesD [OF r]
    by (intro exI [of _ a]) (auto intro!: sp_tau kv_refinesI simp: kv_view_prune kv_inv_prune)
next
  case step_cleanup
  then show ?thesis using kv_refinesD [OF r]
    by (intro exI [of _ a]) (auto intro!: sp_tau kv_refinesI simp: kv_view_cleanup kv_inv_cleanup)
next
  case (step_set k v ttl s'' res)
  then show ?thesis using kv_sim_set [OF r] by blast
next
  case (step_setnx k v ttl s'' res)
  then show ?thesis using kv_sim_setnx [OF r] by blast
next
  case (step_gad k s'' res)
  then show ?thesis using kv_sim_gad [OF r] by blast
next
  case (step_delete k s'' res)
  then show ?thesis using kv_sim_delete [OF r] by blast
next
  case step_close
  then show ?thesis using kv_refinesD [OF r]
    by (intro exI [of _ "a\<lparr>sclosed := True\<rparr>"])
       (auto intro!: sp_close kv_refinesI simp: kv_Close_def kv_inv_def kv_view_def fun_eq_iff)
qed

text \<open>Runs and their traces.\<close>

inductive kv_run :: "marshaller \<Rightarrow> kvsys \<Rightarrow> kvlabel list \<Rightarrow> kvsys \<Rightarrow> bool" for marshal where
  run_nil: "kv_run marshal s [] s"
| run_cons: "kv_step marshal s l s' \<Longrightarrow> kv_run marshal s' ls s'' \<Longrightarrow> kv_run marshal s (l # ls) s''"

inductive spec_run :: "(goany \<Rightarrow> kverror + string) \<Rightarrow> kvspec \<Rightarrow> kvlabel list \<Rightarrow> kvspec \<Rightarrow> bool"
  for mar where
  sprun_nil: "spec_run mar a [] a"
| sprun_cons: "spec_step mar a l a' \<Longrightarrow> spec_run mar a' ls a'' \<Longrightarrow> spec_run mar a (l # ls) a''"

lemma kv_run_simulated:
  assumes "kv_run marshal s ls s'" and "kv_refines s a"
  shows "\<exists>a'. spec_run (kv_marshal marshal (st s)) a ls a' \<and> kv_refines s' a'"
  using assms
proof (induction arbitrary: a rule: kv_run.induct)
  case (run_nil s)
  then show ?case by (auto intro: sprun_nil)
next
  case (run_cons s l s' ls s'')
  from kv_step_simulated [OF run_cons.hyps(1) run_cons.prems]
  obtain a' where 1: "spec_step (kv_marshal marshal (st s)) a l a'" and r: "kv_refines s' a'" by blast
  from run_cons.IH [OF r] obtain a'' where
    2: "spec_run (kv_marshal marshal (st s')) a' ls a''" and r': "kv_refines s'' a''" by blast
  have "kv_marshal marshal (st s') = kv_marshal marshal (st s)"
    using kv_delegate_const [OF run_cons.hyps(1)] by (simp add: kv_marshal_def fun_eq_iff)
  with 1 2 r' show ?case by (auto intro: sprun_cons)
qed


section \<open>Replication\<close>

text \<open>A replica applies the delegate's calls in the order they were made.\<close>

definition apply_event :: "kvstore \<Rightarrow> sync_event \<Rightarrow> kvstore" where
  "apply_event r ev =
     (case ev of
        OnSet k j w e \<Rightarrow> fst (kv_SetRemote r k j w e)
      | OnDelete k d \<Rightarrow> fst (kv_DeleteRemote r k d))"

definition replay :: "kvstore \<Rightarrow> sync_event list \<Rightarrow> kvstore" where
  "replay r evs = foldl apply_event r evs"

lemma replay_Nil [simp]: "replay r [] = r"
  by (simp add: replay_def)

lemma replay_snoc [simp]: "replay r (evs @ [ev]) = apply_event (replay r evs) ev"
  by (simp add: replay_def)

lemma apply_event_frame [frame]:
  "decoders (apply_event r ev) = decoders r" "kv_closed (apply_event r ev) = kv_closed r"
  by (auto simp: apply_event_def kv_SetRemote_def kv_DeleteRemote_def Let_def
      split: sync_event.splits option.splits)

lemma replay_frame [frame]:
  "decoders (replay r evs) = decoders r" "kv_closed (replay r evs) = kv_closed r"
  by (induction evs rule: rev_induct) (simp_all add: frame)

text \<open>The replica agrees with the origin on every entry the origin holds; an entry only the replica
  still holds has expired.\<close>

definition replica_entry :: "int \<Rightarrow> kventry option \<Rightarrow> kventry option \<Rightarrow> bool" where
  "replica_entry now a b \<longleftrightarrow>
     (case a of
        Some e \<Rightarrow> b = Some e \<and> writtenAt e \<le> now
      | None \<Rightarrow> (case b of None \<Rightarrow> True | Some e \<Rightarrow> isExpired e now \<and> writtenAt e \<le> now))"

definition replica_ok :: "kvstore \<Rightarrow> int \<Rightarrow> kvstore \<Rightarrow> bool" where
  "replica_ok s now r \<longleftrightarrow> \<not> kv_closed r \<and>
     (\<forall>k. replica_entry now (gm_get (data s) k) (gm_get (data r) k))"

lemma replica_okD:
  assumes "replica_ok s now r"
  shows "\<not> kv_closed r" and "\<And>k. replica_entry now (gm_get (data s) k) (gm_get (data r) k)"
  using assms by (simp_all add: replica_ok_def)

lemma replica_ok_view:
  assumes "replica_ok s now r" and "now \<le> t"
  shows "kv_view r t = kv_view s t"
proof
  fix k
  show "kv_view r t k = kv_view s t k"
    using replica_okD(2) [OF assms(1), of k] assms(2)
    by (auto simp: kv_view_def replica_entry_def dest: isExpired_mono split: option.splits)
qed

lemma replica_ok_written:
  assumes "replica_ok s now r" and "gm_get (data r) k = Some e"
  shows "writtenAt e \<le> now"
  using replica_okD(2) [OF assms(1), of k] assms(2)
  by (auto simp: replica_entry_def split: option.splits)

lemma replica_entry_tick:
  "replica_entry now a b \<Longrightarrow> now \<le> t \<Longrightarrow> replica_entry t a b"
  by (auto simp: replica_entry_def dest: isExpired_mono split: option.splits)

lemma replica_ok_tick: "replica_ok s now r \<Longrightarrow> now \<le> t \<Longrightarrow> replica_ok s t r"
  by (auto simp: replica_ok_def intro: replica_entry_tick)

lemma replica_ok_set:
  assumes ok: "replica_ok s now r" and "k \<noteq> []" and dec: "decodeValue r k j = v"
    and s': "data s' = gm_set k \<lparr>ent_value = v, writtenAt = now, expiresAt = e\<rparr> (data s)"
  shows "replica_ok s' now (apply_event r (OnSet k j now e))"
proof -
  have "data (apply_event r (OnSet k j now e)) =
          gm_set k \<lparr>ent_value = v, writtenAt = now, expiresAt = e\<rparr> (data r)"
    using replica_okD(1) [OF ok] \<open>k \<noteq> []\<close> replica_ok_written [OF ok] dec
    by (force simp: apply_event_def kv_SetRemote_def Let_def split: option.splits)
  with replica_okD [OF ok] s' show ?thesis
    by (simp add: replica_ok_def frame) (simp add: replica_entry_def)
qed

lemma replica_ok_del:
  assumes ok: "replica_ok s now r" and "k \<noteq> []" and s': "data s' = gm_del k (data s)"
  shows "replica_ok s' now (apply_event r (OnDelete k now))"
proof -
  have "data (apply_event r (OnDelete k now)) = gm_del k (data r)"
    using replica_okD(1) [OF ok] \<open>k \<noteq> []\<close> replica_ok_written [OF ok]
    by (force simp: apply_event_def kv_DeleteRemote_def split: option.splits)
  with replica_okD [OF ok] s' show ?thesis
    by (simp add: replica_ok_def frame) (simp add: replica_entry_def)
qed

lemma replica_ok_same: "replica_ok s now r \<Longrightarrow> data s' = data s \<Longrightarrow> replica_ok s' now r"
  by (simp add: replica_ok_def)

lemma replica_ok_expire:
  assumes ok: "replica_ok s now r" and "gm_get (data s) k = Some e" and "isExpired e now"
    and "data s' = gm_del k (data s)"
  shows "replica_ok s' now r"
  using assms(2-) replica_okD [OF ok] replica_okD(2) [OF ok, of k]
  by (auto simp: replica_ok_def replica_entry_def split: option.splits)

lemma replica_ok_cleanup:
  assumes ok: "replica_ok s now r" and "kv_inv s"
  shows "replica_ok (cleanupExpired s now) now r"
proof -
  have "replica_entry now (gm_get (data (cleanupExpired s now)) k) (gm_get (data r) k)" for k
    using replica_okD(2) [OF ok, of k] \<open>kv_inv s\<close>
    by (auto simp: cleanupExpired_def gm_get_filter kv_inv_def replica_entry_def split: option.splits)
  with replica_okD(1) [OF ok] show ?thesis by (simp add: replica_ok_def)
qed

text \<open>What a step of the origin adds to the log brings the replica back in agreement.\<close>

lemmas replica_ops = kv_SetWithTTL_def kv_SetNXWithTTL_def kv_GetAndDelete_def kv_Delete_def
  kv_marshal_def validateMutable_def

text \<open>The value a step writes survives the trip through the marshaller and the replica's decoder
  for its key.\<close>

definition codec_ok :: "marshaller \<Rightarrow> kvstore \<Rightarrow> string \<Rightarrow> goany \<Rightarrow> bool" where
  "codec_ok marshal r k v \<longleftrightarrow> (case marshal v of Inl _ \<Rightarrow> True | Inr j \<Rightarrow> decodeValue r k j = v)"

definition label_codec_ok :: "marshaller \<Rightarrow> kvstore \<Rightarrow> kvlabel \<Rightarrow> bool" where
  "label_codec_ok marshal r l \<longleftrightarrow>
     (case l of LSet k v _ _ \<Rightarrow> codec_ok marshal r k v | LSetNX k v _ _ \<Rightarrow> codec_ok marshal r k v | _ \<Rightarrow> True)"

lemma kv_step_replica:
  assumes "kv_step marshal s l s'" and "delegate (st s)" and "kv_inv (st s)"
    and codec: "label_codec_ok marshal r0 l"
    and ok: "replica_ok (st s) (clock s) (replay r0 (sync_log (st s)))"
  shows "replica_ok (st s') (clock s') (replay r0 (sync_log (st s')))"
proof -
  let ?r = "replay r0 (sync_log (st s))"
  have codec': "decodeValue ?r k j = v" if "codec_ok marshal r0 k v" and "marshal v = Inr j" for k v j
    using that by (simp add: decodeValue_def codec_ok_def frame)
  have put: "replica_ok (kv_put (st s) k v (clock s) e j) (clock s)
      (replay r0 (sync_log (kv_put (st s) k v (clock s) e j)))"
    if "k \<noteq> []" and "codec_ok marshal r0 k v" and "marshal v = Inr j" for k v e j
    using replica_ok_set [OF ok that(1) codec' [OF that(2,3)]] assms(2) by (simp add: kv_put_def)
  from assms(1) show ?thesis
  proof cases
    case (step_tick t)
    then show ?thesis using replica_ok_tick [OF ok] by simp
  next
    case (step_get k)
    then show ?thesis using ok by simp
  next
    case (step_prune k)
    then show ?thesis using ok replica_ok_expire [OF ok]
      by (auto simp: kv_get_prune_def split: option.splits)
  next
    case step_cleanup
    then show ?thesis using replica_ok_cleanup [OF ok assms(3)] by (simp add: cleanupExpired_def)
  next
    case (step_set k v ttl s'' res)
    then show ?thesis using ok put codec assms(2)
      by (auto simp: replica_ops label_codec_ok_def split: if_splits option.splits sum.splits)
  next
    case (step_setnx k v ttl s'' res)
    then show ?thesis using ok put codec assms(2)
      by (auto simp: replica_ops label_codec_ok_def split: if_splits option.splits sum.splits)
  next
    case (step_gad k s'' res)
    then show ?thesis using ok replica_ok_del [OF ok] replica_ok_expire [OF ok] assms(2)
      by (auto simp: replica_ops Let_def split: if_splits option.splits)
  next
    case (step_delete k s'' res)
    then show ?thesis using ok replica_ok_del [OF ok] assms(2)
      by (auto simp: replica_ops split: if_splits option.splits)
  next
    case step_close
    then show ?thesis using replica_ok_same [OF ok] by (simp add: kv_Close_def)
  qed
qed

lemma kv_step_inv: "kv_step marshal s l s' \<Longrightarrow> kv_inv (st s) \<Longrightarrow> kv_inv (st s')"
proof (induction rule: kv_step.induct)
  case (step_set s k v ttl s' r)
  then show ?case using kv_inv_SetWithTTL [of "st s" marshal k v ttl "clock s"] by simp
next
  case (step_setnx s k v ttl s' r)
  then show ?case using kv_inv_SetNXWithTTL [of "st s" marshal k v ttl "clock s"] by simp
next
  case (step_gad s k s' r)
  then show ?case using kv_inv_GetAndDelete [of "st s" k "clock s"] by simp
next
  case (step_delete s k s' r)
  then show ?case using kv_inv_Delete [of "st s" k "clock s"] by simp
qed (auto simp: inv_intros)

lemma kv_run_replica:
  assumes "kv_run marshal s ls s'" and "delegate (st s)" and "kv_inv (st s)"
    and "\<forall>l \<in> set ls. label_codec_ok marshal r0 l"
    and ok: "replica_ok (st s) (clock s) (replay r0 (sync_log (st s)))"
  shows "replica_ok (st s') (clock s') (replay r0 (sync_log (st s')))"
  using assms
proof (induction rule: kv_run.induct)
  case (run_nil s)
  then show ?case by simp
next
  case (run_cons s l s' ls s'')
  then show ?case
    using kv_step_replica [of marshal s l s' r0] kv_step_inv [of marshal s l s']
      kv_delegate_const [of marshal s l s'] by simp
qed


section \<open>Remote writes in any order\<close>

text \<open>One remote write on the key-to-entry map: last write wins.\<close>

definition lww :: "string \<times> kventry \<Rightarrow> (string \<Rightarrow> kventry option) \<Rightarrow> (string \<Rightarrow> kventry option)" where
  "lww = (\<lambda>(k, e) m. case m k of
     Some old \<Rightarrow> if writtenAt e < writtenAt old then m else m(k \<mapsto> e) | None \<Rightarrow> m(k \<mapsto> e))"

definition remote_entry :: "kvstore \<Rightarrow> string \<times> string \<times> int \<times> int \<Rightarrow> string \<times> kventry" where
  "remote_entry s = (\<lambda>(k, j, w, e).
     (k, \<lparr>ent_value = decodeValue s k j, writtenAt = w, expiresAt = e\<rparr>))"

fun set_remotes :: "kvstore \<Rightarrow> (string \<times> string \<times> int \<times> int) list \<Rightarrow> kvstore" where
  "set_remotes s [] = s"
| "set_remotes s ((k, j, w, e) # ws) = set_remotes (fst (kv_SetRemote s k j w e)) ws"

lemma kv_SetRemote_lww:
  assumes "k \<noteq> []" and "\<not> kv_closed s"
  shows "gm_get (data (fst (kv_SetRemote s k j w e))) = lww (remote_entry s (k, j, w, e)) (gm_get (data s))"
  using assms
  by (auto simp: kv_SetRemote_def lww_def remote_entry_def Let_def update_conv' split: option.splits)

lemma kv_SetRemote_frame [frame]:
  "kv_closed (fst (kv_SetRemote s k j w e)) = kv_closed s"
  "remote_entry (fst (kv_SetRemote s k j w e)) = remote_entry s"
  "sync_log (fst (kv_SetRemote s k j w e)) = sync_log s"
  by (auto simp: kv_SetRemote_def remote_entry_def decodeValue_def Let_def fun_eq_iff
      split: option.splits)

lemma set_remotes_fold:
  assumes "\<not> kv_closed s" and "\<forall>(k, x) \<in> set ws. k \<noteq> []"
  shows "gm_get (data (set_remotes s ws)) = fold lww (map (remote_entry s) ws) (gm_get (data s))"
  using assms
proof (induction s ws rule: set_remotes.induct)
  case (2 s k j w e ws)
  then show ?case by (simp add: frame kv_SetRemote_lww)
qed simp

lemma lww_commute:
  assumes "writtenAt (snd x) \<noteq> writtenAt (snd y)"
  shows "lww x \<circ> lww y = lww y \<circ> lww x"
proof (rule ext)
  fix m
  obtain k e where x: "x = (k, e)" by fastforce
  obtain k' e' where y: "y = (k', e')" by fastforce
  show "(lww x \<circ> lww y) m = (lww y \<circ> lww x) m"
    using assms unfolding x y
    by (cases "k = k'"; cases "m k"; cases "m k'")
       (auto simp: lww_def fun_upd_twist split: option.splits)
qed

lemma lww_commute_in:
  assumes "distinct (map (writtenAt \<circ> snd) xs)" and "x \<in> set xs" and "y \<in> set xs"
  shows "lww x \<circ> lww y = lww y \<circ> lww x"
proof (cases "x = y")
  case False
  with assms have "writtenAt (snd x) \<noteq> writtenAt (snd y)"
    by (auto simp: distinct_map inj_on_def)
  then show ?thesis by (rule lww_commute)
qed simp


section \<open>The interface clients use\<close>

text \<open>
  \<open>schemas.KVStore\<close>, the interface core's session stickiness calls: what a client may rely on is
  stated over the view, for a store that stays open.
\<close>

locale session_store =
  fixes inv :: "'s \<Rightarrow> bool"
    and view :: "'s \<Rightarrow> int \<Rightarrow> string \<Rightarrow> goany option"
    and get :: "'s \<Rightarrow> string \<Rightarrow> int \<Rightarrow> 's \<times> (kverror + goany)"
    and set_ttl :: "'s \<Rightarrow> string \<Rightarrow> goany \<Rightarrow> int \<Rightarrow> int \<Rightarrow> 's \<times> (kverror + unit)"
    and set_nx :: "'s \<Rightarrow> string \<Rightarrow> goany \<Rightarrow> int \<Rightarrow> int \<Rightarrow> 's \<times> (kverror + bool)"
    and del :: "'s \<Rightarrow> string \<Rightarrow> int \<Rightarrow> 's \<times> (kverror + bool)"
    and writable :: "goany \<Rightarrow> bool"
  assumes view_expires: "inv s \<Longrightarrow> view s now k = None \<Longrightarrow> now \<le> t \<Longrightarrow> view s t k = None"
    and set_ok: "inv s \<Longrightarrow> k \<noteq> [] \<Longrightarrow> 0 \<le> ttl \<Longrightarrow> writable v \<Longrightarrow> snd (set_ttl s k v ttl now) = Inr ()"
    and nx_ok: "inv s \<Longrightarrow> k \<noteq> [] \<Longrightarrow> 0 \<le> ttl \<Longrightarrow> writable v \<Longrightarrow> \<exists>b. snd (set_nx s k v ttl now) = Inr b"
    and get_inv: "inv s \<Longrightarrow> inv (fst (get s k now))"
    and get_view: "inv s \<Longrightarrow> now \<le> t \<Longrightarrow> view (fst (get s k now)) t = view s t"
    and get_result: "inv s \<Longrightarrow> k \<noteq> [] \<Longrightarrow>
      snd (get s k now) = (case view s now k of None \<Rightarrow> Inl ErrNotFound | Some v \<Rightarrow> Inr v)"
    and set_inv: "inv s \<Longrightarrow> inv (fst (set_ttl s k v ttl now))"
    and set_view: "inv s \<Longrightarrow> k \<noteq> [] \<Longrightarrow> 0 < ttl \<Longrightarrow> 0 \<le> now \<Longrightarrow> now + ttl < 2 ^ 63 \<Longrightarrow>
      snd (set_ttl s k v ttl now) = Inr () \<Longrightarrow>
      view (fst (set_ttl s k v ttl now)) t = (view s t)(k := if t < now + ttl then Some v else None)"
    and set_err: "inv s \<Longrightarrow> snd (set_ttl s k v ttl now) = Inl e \<Longrightarrow> fst (set_ttl s k v ttl now) = s"
    and nx_inv: "inv s \<Longrightarrow> inv (fst (set_nx s k v ttl now))"
    and nx_won: "inv s \<Longrightarrow> k \<noteq> [] \<Longrightarrow> 0 < ttl \<Longrightarrow> 0 \<le> now \<Longrightarrow> now + ttl < 2 ^ 63 \<Longrightarrow>
      snd (set_nx s k v ttl now) = Inr True \<Longrightarrow> view s now k = None \<and>
      view (fst (set_nx s k v ttl now)) t = (view s t)(k := if t < now + ttl then Some v else None)"
    and nx_lost: "inv s \<Longrightarrow> snd (set_nx s k v ttl now) = Inr False \<Longrightarrow>
      view s now k \<noteq> None \<and> fst (set_nx s k v ttl now) = s"
    and nx_err: "inv s \<Longrightarrow> snd (set_nx s k v ttl now) = Inl e \<Longrightarrow> fst (set_nx s k v ttl now) = s"
    and del_inv: "inv s \<Longrightarrow> inv (fst (del s k now))"
    and del_view: "inv s \<Longrightarrow> k \<noteq> [] \<Longrightarrow> view (fst (del s k now)) t = (view s t)(k := None)"
begin

text \<open>A read changes nothing a later read could see.\<close>

lemma get_twice:
  assumes "inv s" and "k \<noteq> []" and "now \<le> t"
  shows "snd (get (fst (get s k' now)) k t) = snd (get s k t)"
  using assms by (simp add: get_result get_inv get_view)

lemma set_then_get:
  assumes "inv s" and "k \<noteq> []" and "0 < ttl" and "0 \<le> now" and "now + ttl < 2 ^ 63"
    and "snd (set_ttl s k v ttl now) = Inr ()"
  shows "snd (get (fst (set_ttl s k v ttl now)) k t) =
    (if t < now + ttl then Inr v else Inl ErrNotFound)"
  using assms by (simp add: get_result set_inv set_view)

text \<open>Exactly one of two racing set-if-absent calls installs its value, and the reader sees it.\<close>

lemma nx_exclusive:
  assumes "inv s" and "k \<noteq> []" and "0 < ttl" and "0 \<le> now" and "now + ttl < 2 ^ 63"
    and "snd (set_nx s k v ttl now) = Inr True" and "now \<le> t" and "t < now + ttl"
  shows "snd (set_nx (fst (set_nx s k v ttl now)) k w ttl' t) \<noteq> Inr True \<or> \<not> 0 < ttl' \<or> 2 ^ 63 \<le> t + ttl'"
    and "snd (get (fst (set_nx s k v ttl now)) k t) = Inr v"
proof -
  let ?s = "fst (set_nx s k v ttl now)"
  have v: "view ?s t k = Some v" using nx_won [OF assms(1-6)] assms(8) by simp
  have i: "inv ?s" using assms(1) by (rule nx_inv)
  show "snd (set_nx ?s k w ttl' t) \<noteq> Inr True \<or> \<not> 0 < ttl' \<or> 2 ^ 63 \<le> t + ttl'"
    using nx_won [OF i assms(2), of ttl' t w] v assms(4,7) by (cases "t + ttl' < 2 ^ 63") auto
  show "snd (get ?s k t) = Inr v" using get_result [OF i assms(2)] v by simp
qed

end

abbreviation kv_open :: "kvstore \<Rightarrow> bool" where
  "kv_open s \<equiv> kv_inv s \<and> \<not> kv_closed s"

lemma ttl_expiry_live:
  assumes "0 < ttl" and "0 \<le> now" and "now + ttl < 2 ^ 63"
  shows "ttl_expiry now ttl = now + ttl" and "wrap64 (now + ttl) = now + ttl"
  using assms by (simp_all add: ttl_expiry_def wrap64_id_bounds)

lemma kv_view_put_live:
  assumes "0 < ttl" and "0 \<le> now" and "now + ttl < 2 ^ 63"
  shows "kv_view (kv_put s k v now (ttl_expiry now ttl) j) t =
    (kv_view s t)(k := if t < now + ttl then Some v else None)"
  using assms by (auto simp: kv_view_put ttl_expiry_live(2))

lemma kv_closed_setters [simp]:
  "kv_closed (fst (kv_SetWithTTL marshal s k v ttl now)) = kv_closed s"
  "kv_closed (fst (kv_SetNXWithTTL marshal s k v ttl now)) = kv_closed s"
  "kv_closed (fst (kv_Delete s k now)) = kv_closed s"
  by (auto simp: kv_SetWithTTL_def kv_SetNXWithTTL_def kv_Delete_def split: option.splits sum.splits)

lemma kv_view_Delete:
  "k \<noteq> [] \<Longrightarrow> \<not> kv_closed s \<Longrightarrow> kv_view (fst (kv_Delete s k now)) t = (kv_view s t)(k := None)"
  by (rule ext) (auto simp: kv_Delete_def kv_view_def split: option.splits)

interpretation kv: session_store kv_open kv_view "\<lambda>s k now. kv_Get s k now now"
  "kv_SetWithTTL marshal" "kv_SetNXWithTTL marshal" kv_Delete "\<lambda>v. \<exists>j. marshal v = Inr j"
  for marshal
proof (unfold_locales, goal_cases)
  case (1 s now k t)
  then show ?case by (auto simp: kv_view_def isExpired_def split: option.splits if_splits)
next
  case (2 s k ttl v now)
  then show ?case by (auto simp: kv_SetWithTTL_def validateMutable_def kv_marshal_def split: sum.splits)
next
  case (3 s k ttl v now)
  then show ?case by (auto simp: kv_SetNXWithTTL_def validateMutable_def kv_marshal_def split: sum.splits option.splits)
next
  case (4 s k now)
  then show ?case by (simp add: inv_intros)
next
  case (5 s now t k)
  then show ?case by (simp add: kv_view_Get)
next
  case (6 s k now)
  then show ?case by (simp add: kv_Get_result)
next
  case (7 s k v ttl now)
  then show ?case by (simp add: inv_intros)
next
  case (8 s k ttl now v t)
  then show ?case
    by (auto simp: kv_SetWithTTL_def validateMutable_def kv_view_put_live fun_eq_iff
        split: sum.splits if_splits)
next
  case (9 s k v ttl now e)
  then show ?case by (auto simp: kv_SetWithTTL_def split: option.splits sum.splits)
next
  case (10 s k v ttl now)
  then show ?case by (simp add: inv_intros)
next
  case (11 s k ttl now v t)
  then show ?case
    by (auto simp: kv_SetNXWithTTL_def validateMutable_def kv_view_put_live fun_eq_iff
        kv_view_def [of s now] split: sum.splits if_splits option.splits)
next
  case (12 s k v ttl now)
  then show ?case
    by (auto simp: kv_SetNXWithTTL_def kv_view_def split: option.splits sum.splits if_splits)
next
  case (13 s k v ttl now e)
  then show ?case by (auto simp: kv_SetNXWithTTL_def split: option.splits sum.splits if_splits)
next
  case (14 s k now)
  then show ?case by (simp add: inv_intros)
next
  case (15 s k now t)
  then show ?case by (simp add: kv_view_Delete)
qed


section \<open>Counting and decoding\<close>

lemma count_unexpired_card:
  assumes "gm_wf m"
  shows "count_unexpired m now = card {k. \<exists>e. gm_get m k = Some e \<and> \<not> isExpired e now}"
  using assms
proof (induction m)
  case (Cons p m)
  obtain k e where p: "p = (k, e)" by fastforce
  let ?L = "\<lambda>m. {k. \<exists>e. gm_get m k = Some e \<and> \<not> isExpired e now}"
  have k: "gm_get m k = None" using Cons.prems p by (simp add: map_of_eq_None_iff)
  have "?L (p # m) = (if isExpired e now then ?L m else insert k (?L m))"
    using k by (auto simp: p)
  moreover have "finite (?L m)"
    by (rule finite_subset [OF _ finite_dom_map_of [of m]]) auto
  ultimately show ?case using Cons k by (simp add: p)
qed simp

text \<open>Go iterates over the registered decoders in an unspecified order; the choice does not depend
  on it.\<close>

definition decoder_step ::
  "string \<Rightarrow> string \<times> decoder \<Rightarrow> string \<times> decoder option \<Rightarrow> string \<times> decoder option" where
  "decoder_step key = (\<lambda>(p, dec) (b, best).
     if str_prefix p key \<and> length b < length p then (p, Some dec) else (b, best))"

lemma best_decoder_fold:
  "best_decoder key ds b best = snd (fold (decoder_step key) ds (b, best))"
  by (induction key ds b best rule: best_decoder.induct) (simp_all add: decoder_step_def)

lemma decoder_step_commute:
  assumes "gm_wf ds" and "x \<in> set ds" and "y \<in> set ds"
  shows "decoder_step key x \<circ> decoder_step key y = decoder_step key y \<circ> decoder_step key x"
proof (cases "x = y")
  case False
  with assms have "fst x \<noteq> fst y" by (metis eq_key_imp_eq_value prod.collapse)
  then have "\<not> (str_prefix (fst x) key \<and> str_prefix (fst y) key \<and> length (fst x) = length (fst y))"
    by (metis str_prefix_def)
  then show ?thesis by (auto simp: decoder_step_def fun_eq_iff split: prod.splits)
qed simp

lemma decodeValue_order:
  assumes "gm_wf ds" and "mset ds' = mset ds"
  shows "decodeValue (s\<lparr>decoders := ds'\<rparr>) k j = decodeValue (s\<lparr>decoders := ds\<rparr>) k j"
proof -
  have "fold (decoder_step k) ds' = fold (decoder_step k) ds"
    using decoder_step_commute [OF assms(1)] mset_eq_setD [OF assms(2)]
    by (intro fold_multiset_equiv) (simp_all add: assms(2))
  then show ?thesis by (simp add: decodeValue_def best_decoder_fold)
qed


section \<open>Properties\<close>



text \<open>A successful \<open>SetWithTTL\<close> with a positive TTL that does not overflow \<open>int64\<close> is
  what every later \<open>Get\<close> of the key returns until the TTL has passed, and \<open>ErrNotFound\<close>
  from that moment on; other keys read as before.\<close>

lemma kv_set_then_get:
  assumes "kv_inv s" and "\<not> kv_closed s" and "k \<noteq> []" and "0 < ttl" and "0 \<le> now"
    and "now + ttl < 2 ^ 63" and "kv_SetWithTTL marshal s k v ttl now = (s', Inr ())"
  shows "snd (kv_Get s' k t t') = (if t < now + ttl then Inr v else Inl ErrNotFound) \<and>
    (k' \<noteq> k \<longrightarrow> snd (kv_Get s' k' t t') = snd (kv_Get s k' t t'))"
proof -
  have s': "s' = fst (kv_SetWithTTL marshal s k v ttl now)" using assms(7) by simp
  have v: "kv_view s' t = (kv_view s t)(k := if t < now + ttl then Some v else None)"
    using kv.set_view [of s k ttl now marshal v t] assms by simp
  have c: "\<not> kv_closed s'" using assms(2) by (simp add: s')
  have "snd (kv_Get s' k t t') = (if t < now + ttl then Inr v else Inl ErrNotFound)"
    using v by (simp add: kv_Get_result [OF assms(3) c])
  moreover have "snd (kv_Get s' k' t t') = snd (kv_Get s k' t t')" if "k' \<noteq> k"
  proof (cases "k' = []")
    case True
    then show ?thesis by (simp add: kv_Get_def kv_get_read_def)
  next
    case False
    show ?thesis using v that by (simp add: kv_Get_result [OF False c] kv_Get_result [OF False assms(2)])
  qed
  ultimately show ?thesis by blast
qed

abbreviation kv_sample :: kvstore where
  "kv_sample \<equiv> \<lparr>data = [(''a'', \<lparr>ent_value = GStr ''x'', writtenAt = 1, expiresAt = 7\<rparr>)],
     defaultTTL = 0, cleanupInterval = 1, kv_closed = False, delegate = False, decoders = [],
     sync_log = []\<rparr>"

lemma kv_sample_inv: "kv_inv kv_sample"
  by (simp add: kv_inv_def int64_range_def)

lemmas kv_eval = kv_SetWithTTL_def kv_SetNXWithTTL_def validateMutable_def kv_marshal_def kv_put_def
  ttl_expiry_def wrap64_def kv_Get_def kv_get_read_def kv_get_needs_prune_def kv_get_prune_def
  isExpired_def noExpirationUnixNanos_def

text \<open>Of two \<open>SetNXWithTTL\<close> calls on a key, the second within the TTL of the first that
  won, only the first installs its value: the second returns false, changes nothing, and a reader
  sees the first value.\<close>

lemma kv_setnx_first_wins:
  assumes "kv_inv s" and "\<not> kv_closed s" and "k \<noteq> []" and "0 < ttl" and "0 \<le> now"
    and "now + ttl < 2 ^ 63" and "kv_SetNXWithTTL marshal s k v ttl now = (s', Inr True)"
    and "now \<le> t" and "t < now + ttl" and "0 \<le> ttl'"
    and "kv_marshal marshal s' w = Inr j"
  shows "kv_SetNXWithTTL marshal s' k w ttl' t = (s', Inr False)
    \<and> snd (kv_Get s' k t t') = Inr v \<and> kv_view s now k = None"
proof -
  have s': "s' = fst (kv_SetNXWithTTL marshal s k v ttl now)" using assms(7) by simp
  have c: "\<not> kv_closed s'" using assms(2) by (simp add: s')
  have won: "kv_view s now k = None \<and>
      kv_view s' t = (kv_view s t)(k := if t < now + ttl then Some v else None)"
    using kv.nx_won [of s k ttl now marshal v t] assms by simp
  then have v: "kv_view s' t k = Some v" using assms(9) by simp
  show ?thesis
    using won v kv_SetNXWithTTL_ok [OF assms(3,10) c assms(11), of t]
    by (simp add: kv_Get_result [OF assms(3) c])
qed

text \<open>Remote writes commute. Replicas that receive the same remote writes in different orders
  end with the same entries, when no two of the writes carry the same timestamp.\<close>

lemma kv_remote_writes_converge:
  assumes "\<not> kv_closed s" and "\<forall>(k, x) \<in> set ws. k \<noteq> []"
    and "distinct (map (\<lambda>(k, j, w, e). w) ws)" and "mset ws' = mset ws"
  shows "gm_get (data (set_remotes s ws')) = gm_get (data (set_remotes s ws))"
proof -
  let ?r = "map (remote_entry s)"
  have set: "set ws' = set ws" using assms(4) by (rule mset_eq_setD)
  have "map (writtenAt \<circ> snd) (?r ws) = map (\<lambda>(k, j, w, e). w) ws"
    by (auto simp: remote_entry_def)
  with assms(3) have d: "distinct (map (writtenAt \<circ> snd) (?r ws))" by (simp only:)
  have "fold lww (?r ws') = fold lww (?r ws)"
  proof (rule fold_multiset_equiv)
    fix x y assume "x \<in> set (?r ws')" and "y \<in> set (?r ws')"
    then show "lww x \<circ> lww y = lww y \<circ> lww x"
      using lww_commute_in [OF d] set by simp
  qed (simp add: assms(4))
  with assms(1,2) set show ?thesis by (simp add: set_remotes_fold)
qed


abbreviation kv_fresh :: kvstore where
  "kv_fresh \<equiv> \<lparr>data = [], defaultTTL = 0, cleanupInterval = 1, kv_closed = False,
     delegate = False, decoders = [], sync_log = []\<rparr>"

abbreviation bytes_codec :: marshaller where
  "bytes_codec \<equiv> (\<lambda>v. case v of GBytes b \<Rightarrow> Inr b | _ \<Rightarrow> Inl (ErrCodec ''json''))"


end
