(* ===== verification/Floats.thy ===== *)
theory Floats
  imports Schemas
begin

text \<open>
  The part of IEEE double arithmetic that key weights and retry jitter use: a finite
  \<open>float64\<close> is a mantissa and a binary exponent, and an operation is the exact one followed by
  rounding the mantissa to 53 bits, to nearest and ties to even. Overflow to infinity and gradual
  underflow are left out: the operands are weights and durations, whose products stay in the
  normal range.
\<close>

section \<open>Operations\<close>

fun bit_length :: "nat \<Rightarrow> nat" where
  "bit_length n = (if n = 0 then 0 else Suc (bit_length (n div 2)))"

declare bit_length.simps [simp del]

definition round_half_even :: "int \<Rightarrow> nat \<Rightarrow> int" where
  "round_half_even a s =
     (let q = a div 2 ^ s; r = a mod 2 ^ s
      in if 2 ^ s < 2 * r \<or> 2 * r = 2 ^ s \<and> odd q then q + 1 else q)"

definition round53 :: "float64 \<Rightarrow> float64" where
  "round53 f =
     (let (m, e) = f; s = bit_length (nat \<bar>m\<bar>) - 53
      in (sgn m * round_half_even \<bar>m\<bar> s, e + int s))"

definition float_mul :: "float64 \<Rightarrow> float64 \<Rightarrow> float64" where
  "float_mul a b = round53 (fst a * fst b, snd a + snd b)"

definition float_add :: "float64 \<Rightarrow> float64 \<Rightarrow> float64" where
  "float_add a b =
     (let e = min (snd a) (snd b)
      in round53 (fst a * 2 ^ nat (snd a - e) + fst b * 2 ^ nat (snd b - e), e))"

definition float_of_int :: "int \<Rightarrow> float64" where
  "float_of_int i = round53 (i, 0)"

text \<open>The real number a float stands for.\<close>

definition float_val :: "float64 \<Rightarrow> real" where
  "float_val f = real_of_int (fst f) * 2 powr real_of_int (snd f)"

section \<open>Rounding\<close>

lemma bit_length_bounds: "0 < n \<Longrightarrow> 2 ^ (bit_length n - 1) \<le> n \<and> n < 2 ^ bit_length n"
proof (induction n rule: bit_length.induct)
  case (1 n)
  show ?case
  proof (cases "n div 2 = 0")
    case True
    with 1 have "n = 1" by auto
    then show ?thesis by (simp add: bit_length.simps)
  next
    case False
    with 1 have ih: "2 ^ (bit_length (n div 2) - 1) \<le> n div 2" "n div 2 < 2 ^ bit_length (n div 2)" by auto
    have p: "0 < bit_length (n div 2)" using False by (simp add: bit_length.simps [of "n div 2"])
    have e: "(2::nat) ^ bit_length (n div 2) = 2 * 2 ^ (bit_length (n div 2) - 1)"
      using p by (cases "bit_length (n div 2)") auto
    have b: "bit_length n = Suc (bit_length (n div 2))" using 1(2) by (simp add: bit_length.simps [of n])
    have "bit_length n - 1 = bit_length (n div 2)" "(2::nat) ^ bit_length n = 2 * 2 ^ bit_length (n div 2)"
      by (simp_all add: b)
    moreover have "2 * 2 ^ (bit_length (n div 2) - 1) \<le> n" "n < 2 * 2 ^ bit_length (n div 2)" using ih by presburger+
    ultimately show ?thesis using e by simp
  qed
qed

lemma round_half_even_0 [simp]: "round_half_even a 0 = a"
  by (simp add: round_half_even_def Let_def)

lemma half_up:
  fixes D S r a :: int
  assumes "a = D + r" and "S \<le> 2 * r" and "r < S"
  shows "\<bar>2 * (D + S) - 2 * a\<bar> \<le> S"
  unfolding abs_le_iff using assms by (simp add: algebra_simps)

lemma half_down:
  fixes D S r a :: int
  assumes "a = D + r" and "2 * r \<le> S" and "0 \<le> r"
  shows "\<bar>2 * D - 2 * a\<bar> \<le> S"
  using assms by linarith

lemma round_half_even_bounds:
  assumes "0 \<le> a"
  shows "0 \<le> round_half_even a s" and "\<bar>2 * (round_half_even a s * 2 ^ s) - 2 * a\<bar> \<le> 2 ^ s"
proof -
  have q: "0 \<le> a div 2 ^ s" using assms by (simp add: pos_imp_zdiv_nonneg_iff)
  have r: "a = a div 2 ^ s * 2 ^ s + a mod 2 ^ s" "0 \<le> a mod 2 ^ s" "a mod 2 ^ s < 2 ^ s"
    by (rule div_mult_mod_eq [symmetric]) simp_all
  show "0 \<le> round_half_even a s" using q by (simp add: round_half_even_def Let_def)
  show "\<bar>2 * (round_half_even a s * 2 ^ s) - 2 * a\<bar> \<le> 2 ^ s"
  proof (cases "2 ^ s < 2 * (a mod 2 ^ s) \<or> 2 * (a mod 2 ^ s) = 2 ^ s \<and> odd (a div 2 ^ s)")
    case True
    then have up: "round_half_even a s * 2 ^ s = a div 2 ^ s * 2 ^ s + 2 ^ s"
      by (simp add: round_half_even_def Let_def distrib_right)
    from True have "2 ^ s \<le> 2 * (a mod 2 ^ s)" by auto
    then show ?thesis unfolding up using half_up r by blast
  next
    case False
    then have down: "round_half_even a s * 2 ^ s = a div 2 ^ s * 2 ^ s"
      by (auto simp: round_half_even_def Let_def)
    from False have "2 * (a mod 2 ^ s) \<le> 2 ^ s" by auto
    then show ?thesis unfolding down using half_down r by blast
  qed
qed

lemma round53_nonneg: "0 \<le> fst f \<Longrightarrow> 0 \<le> fst (round53 f)"
  using round_half_even_bounds(1) [of "fst f"] by (simp add: round53_def Let_def case_prod_unfold sgn_if)

text \<open>The relative error of one rounding.\<close>

lemma round53_error:
  assumes "0 \<le> fst f"
  shows "\<bar>float_val (round53 f) - float_val f\<bar> \<le> float_val f * 2 powr - 53"
proof -
  obtain m e where f: "f = (m, e)" by fastforce
  define s where "s = bit_length (nat \<bar>m\<bar>) - 53"
  have m: "0 \<le> m" using assms f by simp
  show ?thesis
  proof (cases "m = 0 \<or> s = 0")
    case True
    have "round53 f = (sgn m * round_half_even \<bar>m\<bar> s, e + int s)" by (simp add: f round53_def Let_def s_def)
    with True m show ?thesis by (auto simp: f float_val_def sgn_if)
  next
    case False
    then have pos: "0 < m" and l: "53 < bit_length (nat m)" using m by (auto simp: s_def)
    have "2 ^ (bit_length (nat m) - 1) \<le> nat m" using bit_length_bounds [of "nat m"] pos by simp
    moreover have "bit_length (nat m) - 1 = 52 + s" using l m by (simp add: s_def)
    ultimately have big: "2 ^ 52 * 2 ^ s \<le> m" using pos by (simp add: power_add nat_le_iff le_nat_iff)
    define R where "R = round_half_even m s"
    have v: "float_val (round53 f) = real_of_int (R * 2 ^ s) * 2 powr e"
      using pos by (simp add: f round53_def Let_def float_val_def s_def R_def sgn_if powr_add powr_realpow)
    have "\<bar>2 * (R * 2 ^ s) - 2 * m\<bar> \<le> 2 ^ s" using round_half_even_bounds(2) [OF m, of s] by (simp add: R_def)
    then have "real_of_int \<bar>2 * (R * 2 ^ s) - 2 * m\<bar> \<le> real_of_int (2 ^ s)" by linarith
    moreover have "real_of_int \<bar>2 * (R * 2 ^ s) - 2 * m\<bar> = \<bar>2 * (real_of_int (R * 2 ^ s) - real_of_int m)\<bar>"
      by (simp only: of_int_abs of_int_diff of_int_mult of_int_numeral right_diff_distrib)
    ultimately have d: "2 * \<bar>real_of_int (R * 2 ^ s) - real_of_int m\<bar> \<le> 2 ^ s"
      by (simp only: abs_mult abs_numeral of_int_power of_int_numeral)
    have "real_of_int (2 ^ 52 * 2 ^ s) \<le> real_of_int m" using big by linarith
    then have "2 ^ s \<le> real_of_int m / 2 ^ 52" by (simp add: field_simps)
    with d have h: "\<bar>real_of_int (R * 2 ^ s) - real_of_int m\<bar> \<le> real_of_int m * 2 powr - 53"
      by (simp add: powr_minus powr_numeral field_simps)
    have "float_val (round53 f) - float_val f = (real_of_int (R * 2 ^ s) - real_of_int m) * 2 powr e"
      unfolding v by (simp add: f float_val_def algebra_simps)
    then have "\<bar>float_val (round53 f) - float_val f\<bar> = \<bar>real_of_int (R * 2 ^ s) - real_of_int m\<bar> * 2 powr e"
      by (simp add: abs_mult)
    also have "\<dots> \<le> real_of_int m * 2 powr - 53 * 2 powr e" using h by (rule mult_right_mono) simp
    also have "\<dots> = float_val f * 2 powr - 53" by (simp add: f float_val_def)
    finally show ?thesis .
  qed
qed

lemma float_val_nonneg [simp]: "0 \<le> fst f \<Longrightarrow> 0 \<le> float_val f"
  by (simp add: float_val_def)

lemma float_mul_exact:
  "float_val (fst a * fst b, snd a + snd b) = float_val a * float_val b"
  by (simp add: float_val_def powr_add)

lemma float_add_exact:
  assumes "e = min (snd a) (snd b)"
  shows "float_val (fst a * 2 ^ nat (snd a - e) + fst b * 2 ^ nat (snd b - e), e) = float_val a + float_val b"
proof -
  have "2 powr real_of_int (snd x) = 2 ^ nat (snd x - e) * 2 powr e" if "e \<le> snd x" for x :: float64
  proof -
    have "2 powr real_of_int (snd x) = 2 powr (real (nat (snd x - e)) + e)" using that by simp
    also have "\<dots> = 2 ^ nat (snd x - e) * 2 powr e" by (simp only: powr_add powr_realpow [of 2, simplified])
    finally show ?thesis .
  qed
  from this [of a] this [of b] assms show ?thesis by (simp add: float_val_def algebra_simps)
qed

text \<open>Truncation loses less than one.\<close>

lemma float_trunc_val:
  assumes "0 \<le> fst f"
  shows "0 \<le> float_trunc f" and "real_of_int (float_trunc f) \<le> float_val f"
    and "float_val f < real_of_int (float_trunc f) + 1"
proof -
  obtain m e where f: "f = (m, e)" by fastforce
  have m: "0 \<le> m" using assms f by simp
  have "0 \<le> float_trunc f \<and> real_of_int (float_trunc f) \<le> float_val f \<and> float_val f < real_of_int (float_trunc f) + 1"
  proof (cases "0 \<le> e")
    case True
    have "2 powr real_of_int e = 2 ^ nat e" using True powr_realpow [of 2 "nat e"] by simp
    with True m show ?thesis by (simp add: f float_trunc_def float_val_def)
  next
    case False
    let ?d = "2 ^ nat (- e) :: int"
    have t: "float_trunc f = m div ?d" using False m by (simp add: f float_trunc_def go_div_nonneg)
    have "2 powr real_of_int e = 1 / 2 ^ nat (- e)"
      using False powr_realpow [of 2 "nat (- e)"] powr_minus [of 2 "real_of_int (- e)"]
      by (simp add: field_simps)
    then have v: "float_val f = real_of_int m / real_of_int ?d" by (simp add: f float_val_def)
    have "m = m div ?d * ?d + m mod ?d" "0 \<le> m mod ?d" "m mod ?d < ?d"
      by (rule div_mult_mod_eq [symmetric]) simp_all
    then have "m div ?d * ?d \<le> m" "m < (m div ?d + 1) * ?d" by (simp_all only: distrib_right)
    then have "real_of_int (m div ?d * ?d) \<le> real_of_int m" "real_of_int m < real_of_int ((m div ?d + 1) * ?d)"
      by linarith+
    then show ?thesis using m
      by (simp add: t v field_simps pos_imp_zdiv_nonneg_iff)
  qed
  then show "0 \<le> float_trunc f" "real_of_int (float_trunc f) \<le> float_val f"
    "float_val f < real_of_int (float_trunc f) + 1" by auto
qed

end
