(* ===== verification/KeySelection.thy ===== *)
theory KeySelection
  imports Kvstore Cooldown Floats "HOL-Library.Char_ord" "HOL-Library.List_Lexorder"
begin

text \<open>
  Which API key serves an attempt. The theory follows \<open>core/bifrost.go\<close>
  (\<open>selectKeyFromProviderForModelWithPool\<close>, \<open>getAllSupportedKeys\<close>,
  \<open>getKeysForBatchAndFileOps\<close>, the fixed and the rotating key provider),
  \<open>core/utils.go\<close> (\<open>validateKey\<close>, \<open>calculateBackoff\<close>) and
  \<open>core/keyselectors/weightedrandom.go\<close>.

  The account (the source of configured keys), the key selector, the key pool filter, the session
  store and SHA-256 are arguments. Their laws are the locales \<open>pool_filter\<close>,
  \<open>key_selector\<close> and \<open>session_store\<close>, interpreted on the cooldown plugin, on
  \<open>WeightedRandom\<close> and on the key-value store.
\<close>

section \<open>Weighted random selection\<close>

text \<open>\<open>int(key.Weight * 100)\<close>. A value outside the range of \<open>int\<close> converts to the least
  integer, as on amd64.\<close>

definition weight_units :: "key \<Rightarrow> int" where
  "weight_units k =
     (let t = float_trunc (float_mul (key_Weight k) (100, 0))
      in if int64_range t then t else min_int64)"

definition total_weight :: "key list \<Rightarrow> int" where
  "total_weight keys = foldl (\<lambda>t k. wrap64 (t + weight_units k)) 0 keys"

fun pick_key :: "int \<Rightarrow> int \<Rightarrow> key list \<Rightarrow> key option" where
  "pick_key randomValue currentWeight [] = None"
| "pick_key randomValue currentWeight (k # ks) =
     (let c = wrap64 (currentWeight + weight_units k)
      in if randomValue < c then Some k else pick_key randomValue c ks)"

text \<open>\<open>draw n\<close> is the value \<open>rand.Intn(n)\<close> returns; \<open>None\<close> is its panic for an argument
  that is not positive.\<close>

definition WeightedRandom :: "(int \<Rightarrow> int) \<Rightarrow> key list \<Rightarrow> key option" where
  "WeightedRandom draw keys =
     (let total = total_weight keys
      in if total = 0 then
           (if keys = [] then None else Some (keys ! nat (draw (int (length keys)))))
         else if total < 0 then None
         else (case pick_key (draw total) 0 keys of
                 Some k \<Rightarrow> Some k
               | None \<Rightarrow> Some (hd keys)))"

section \<open>Backoff\<close>

text \<open>\<open>time.Duration(1<<uint(attempt))\<close>: a shift by 64 or more gives 0. The constants 0.8 and 0.4
  are the doubles nearest to them, and \<open>rand.Float64\<close> is \<open>u\<close> over two to the power 53.\<close>

definition shl1 :: "nat \<Rightarrow> int" where
  "shl1 n = (if n < 64 then wrap64 (2 ^ n) else 0)"

definition go_08 :: float64 where "go_08 = (7205759403792794, - 53)"
definition go_04 :: float64 where "go_04 = (7205759403792794, - 54)"

definition jitter :: "int \<Rightarrow> int \<Rightarrow> int" where
  "jitter u backoff =
     float_trunc (float_mul (float_of_int backoff) (float_add go_08 (float_mul go_04 (u, - 53))))"

definition raw_backoff :: "nat \<Rightarrow> provider_config \<Rightarrow> int" where
  "raw_backoff attempt cfg =
     min (wrap64 (nc_RetryBackoffInitial (pc_Network cfg) * shl1 attempt)) (nc_RetryBackoffMax (pc_Network cfg))"

definition calculateBackoff :: "int \<Rightarrow> nat \<Rightarrow> provider_config \<Rightarrow> int" where
  "calculateBackoff u attempt cfg =
     min (jitter u (raw_backoff attempt cfg)) (nc_RetryBackoffMax (pc_Network cfg))"

section \<open>Which keys may serve a request\<close>

definition CanProviderKeyValueBeEmpty :: "provider \<Rightarrow> bool" where
  "CanProviderKeyValueBeEmpty p \<longleftrightarrow>
     p \<in> set [P_Vertex, P_Bedrock, P_BedrockMantle, P_VLLM, P_Azure, P_Ollama, P_SGL]"

definition isKeySkippingAllowed :: "provider \<Rightarrow> bool" where
  "isKeySkippingAllowed p \<longleftrightarrow> p \<notin> set [P_Azure, P_Bedrock, P_BedrockMantle, P_Vertex]"

text \<open>A custom provider is a pair of its \<open>IsKeyLess\<close> flag and its base provider.\<close>

definition providerRequiresKey :: "(bool \<times> provider) option \<Rightarrow> bool" where
  "providerRequiresKey custom =
     (case custom of
        Some (keyless, base) \<Rightarrow> \<not> (keyless \<and> base \<noteq> P_Bedrock)
      | None \<Rightarrow> True)"

text \<open>\<open>validateKey\<close> gets a pointer and fills in the optional Bedrock configurations.\<close>

definition validateKey :: "provider \<Rightarrow> key \<Rightarrow> string + key" where
  "validateKey p k =
     (if p = P_Azure then
        (case key_AzureEndpoint k of
           None \<Rightarrow> Inl ''azure_key_config is required''
         | Some e \<Rightarrow> if e = [] then Inl ''azure_key_config.endpoint is required'' else Inr k)
      else if p = P_Bedrock then Inr (k\<lparr>key_Bedrock := True\<rparr>)
      else if p = P_BedrockMantle then Inr (k\<lparr>key_BedrockMantle := True\<rparr>)
      else if p = P_Vertex then
        (if key_Vertex k then Inr k else Inl ''vertex_key_config is required'')
      else if p = P_VLLM then
        (case key_VLLM k of
           None \<Rightarrow> Inl ''vllm_key_config is required''
         | Some c \<Rightarrow> if vllm_URL c = [] then Inl ''vllm_key_config.url is required'' else Inr k)
      else if p = P_Ollama then
        (case key_OllamaURL k of
           None \<Rightarrow> Inl ''ollama_key_config is required''
         | Some u \<Rightarrow> if u = [] then Inl ''ollama_key_config.url is required'' else Inr k)
      else if p = P_SGL then
        (case key_SGLURL k of
           None \<Rightarrow> Inl ''sgl_key_config is required''
         | Some u \<Rightarrow> if u = [] then Inl ''sgl_key_config.url is required'' else Inr k)
      else Inr k)"

definition key_disabled :: "key \<Rightarrow> bool" where
  "key_disabled k \<longleftrightarrow> key_Enabled k = Some False"

definition batch_enabled :: "key \<Rightarrow> bool" where
  "batch_enabled k \<longleftrightarrow> key_UseForBatchAPI k = Some True"

definition has_value :: "provider \<Rightarrow> key \<Rightarrow> bool" where
  "has_value base k \<longleftrightarrow> trim_space (key_Value k) \<noteq> [] \<or> CanProviderKeyValueBeEmpty base"

text \<open>One turn of the loops over the configured keys: the key to append, if any.\<close>

definition usable_key :: "provider \<Rightarrow> key \<Rightarrow> key option" where
  "usable_key base k =
     (if key_disabled k then None
      else (case validateKey base k of
              Inl _ \<Rightarrow> None
            | Inr k' \<Rightarrow> if has_value base k' then Some k' else None))"

definition model_supported :: "provider \<Rightarrow> string \<Rightarrow> key \<Rightarrow> bool" where
  "model_supported base model k \<longleftrightarrow>
     wl_IsAllowed (key_Models k) model \<and> \<not> bl_IsBlocked (key_BlacklistedModels k) model \<and>
     (base = P_VLLM \<longrightarrow>
        (case key_VLLM k of
           None \<Rightarrow> True
         | Some c \<Rightarrow> vllm_ModelName c \<noteq> [] \<longrightarrow> vllm_ModelName c = model))"

definition usable_for_model :: "provider \<Rightarrow> string \<Rightarrow> key \<Rightarrow> key option" where
  "usable_for_model base model k =
     (case usable_key base k of
        None \<Rightarrow> None
      | Some k' \<Rightarrow> if model_supported base model k' then Some k' else None)"

datatype pool_error =
    AccountError string
  | NoKeysFound provider
  | NoValidKeys provider
  | NoKeysForModel provider string
  | NoBatchKeysForModel provider string
  | NoBatchConfig provider
  | NoKeysSupportModel string
  | NoKeyWithID string provider string
  | NoKeyWithName string provider string
  | SelectorFailed string

definition filterKeysByID :: "key list \<Rightarrow> string \<Rightarrow> key list" where
  "filterKeysByID keys target = filter (\<lambda>k. key_ID k = target) keys"

text \<open>\<open>get_keys p\<close> is what the account's \<open>GetKeysForProvider\<close> answers in this request.\<close>

definition getAllSupportedKeys ::
  "(provider \<Rightarrow> string + key list) \<Rightarrow> bctx \<Rightarrow> provider \<Rightarrow> provider \<Rightarrow> pool_error + key list" where
  "getAllSupportedKeys get_keys ctx p base =
     (case cx_DirectKey ctx of
        Some k \<Rightarrow> Inr [k]
      | None \<Rightarrow>
          (case get_keys p of
             Inl e \<Rightarrow> Inl (AccountError e)
           | Inr keys \<Rightarrow>
               if keys = [] then (if IsKeylessProvider p then Inr [zero_key] else Inl (NoKeysFound p))
               else
                 (let supported = List.map_filter (usable_key base) keys
                  in if supported = [] then Inl (NoValidKeys p) else Inr supported)))"

definition batch_file_key :: "provider \<Rightarrow> string option \<Rightarrow> bool \<Rightarrow> key \<Rightarrow> key option" where
  "batch_file_key base model isBatchOp k =
     (if key_disabled k then None
      else if isBatchOp \<and> \<not> batch_enabled k then None
      else (case validateKey base k of
              Inl _ \<Rightarrow> None
            | Inr k' \<Rightarrow>
                if (case model of
                      Some m \<Rightarrow> m \<noteq> [] \<and> (bl_IsBlocked (key_BlacklistedModels k') m \<or> \<not> wl_IsAllowed (key_Models k') m)
                    | None \<Rightarrow> False)
                then None
                else if has_value base k' then Some k' else None))"

text \<open>The result is sorted by key id; \<open>sort.Slice\<close> leaves the order of equal ids open.\<close>

definition getKeysForBatchAndFileOps ::
  "(provider \<Rightarrow> string + key list) \<Rightarrow> bctx \<Rightarrow> provider \<Rightarrow> provider \<Rightarrow> string option \<Rightarrow> bool \<Rightarrow> pool_error + key list" where
  "getKeysForBatchAndFileOps get_keys ctx p base model isBatchOp =
     (case cx_DirectKey ctx of
        Some k \<Rightarrow> Inr [k]
      | None \<Rightarrow>
          (case get_keys p of
             Inl e \<Rightarrow> Inl (AccountError e)
           | Inr keys \<Rightarrow>
               if keys = [] then Inl (NoKeysFound p)
               else
                 (let filtered = List.map_filter (batch_file_key base model isBatchOp) keys;
                      m = (case model of Some m \<Rightarrow> m | None \<Rightarrow> [])
                  in if filtered = [] then
                       Inl (if isBatchOp then NoBatchKeysForModel p m else NoKeysForModel p m)
                     else Inr (sort_key key_ID filtered))))"

section \<open>The key pool of a request\<close>

record 's kv_ops =
  op_get :: "'s \<Rightarrow> string \<Rightarrow> int \<Rightarrow> 's \<times> (kverror + goany)"
  op_set :: "'s \<Rightarrow> string \<Rightarrow> goany \<Rightarrow> int \<Rightarrow> int \<Rightarrow> 's \<times> (kverror + unit)"
  op_nx :: "'s \<Rightarrow> string \<Rightarrow> goany \<Rightarrow> int \<Rightarrow> int \<Rightarrow> 's \<times> (kverror + bool)"
  op_del :: "'s \<Rightarrow> string \<Rightarrow> int \<Rightarrow> 's \<times> (kverror + bool)"

text \<open>What the gateway is configured with: the account, the key selector, the session store if any,
  the JSON decoder for a stored string and the hash of session identifiers.\<close>

record 's gateway =
  gw_keys :: "provider \<Rightarrow> string + key list"
  gw_selector :: "key list \<Rightarrow> string + key"
  gw_kv :: "'s kv_ops option"
  gw_unmarshal :: "string \<Rightarrow> string option"
  gw_sha256 :: "string \<Rightarrow> string"

definition buildSessionKey :: "(string \<Rightarrow> string) \<Rightarrow> provider \<Rightarrow> string \<Rightarrow> string \<Rightarrow> string" where
  "buildSessionKey sha p sessionID model =
     ''session:'' @ p @ '':'' @ sha sessionID @ '':'' @ sha (if model = [] then ''__modelless__'' else model)"

definition DefaultSessionStickyTTL :: int where
  "DefaultSessionStickyTTL = 3600 * second_ns"

definition cached_key_id :: "(string \<Rightarrow> string option) \<Rightarrow> goany \<Rightarrow> string" where
  "cached_key_id unmarshal raw =
     (case raw of
        GStr s \<Rightarrow> s
      | GBytes b \<Rightarrow> (case unmarshal b of Some s \<Rightarrow> s | None \<Rightarrow> b)
      | GOther _ \<Rightarrow> [])"

text \<open>The key found, if any, and whether a stored identifier is stale.\<close>

definition getCachedKeyFromStore ::
  "(string \<Rightarrow> string option) \<Rightarrow> 's kv_ops \<Rightarrow> 's \<Rightarrow> string \<Rightarrow> key list \<Rightarrow> int \<Rightarrow> 's \<times> key option \<times> bool" where
  "getCachedKeyFromStore unmarshal ops s kvKey supported now =
     (case op_get ops s kvKey now of
        (s', Inl _) \<Rightarrow> (s', None, False)
      | (s', Inr raw) \<Rightarrow>
          (let c = cached_key_id unmarshal raw
           in if c \<noteq> [] then
                (case List.find (\<lambda>k. key_ID k = c) supported of
                   Some k \<Rightarrow> (s', Some k, False)
                 | None \<Rightarrow> (s', None, True))
              else (s', None, False)))"

text \<open>The stickiness branch. \<open>clk i\<close> is the time of the \<open>i\<close>-th access to the store. When
  nothing usable is stored a key is selected and written unless another request got there first.\<close>

definition sticky_fresh ::
  "'s gateway \<Rightarrow> 's kv_ops \<Rightarrow> (nat \<Rightarrow> int) \<Rightarrow> 's \<Rightarrow> string \<Rightarrow> int \<Rightarrow> key list \<Rightarrow> 's \<times> (pool_error + key list \<times> bool)" where
  "sticky_fresh gw ops clk s2 kvKey ttl supported =
     (case gw_selector gw supported of
        Inl e \<Rightarrow> (s2, Inl (SelectorFailed e))
      | Inr selected \<Rightarrow>
          (case op_nx ops s2 kvKey (GStr (key_ID selected)) ttl (clk 2) of
             (s3, Inl _) \<Rightarrow> (s3, Inr ([selected], False))
           | (s3, Inr True) \<Rightarrow> (s3, Inr ([selected], False))
           | (s3, Inr False) \<Rightarrow>
               (case getCachedKeyFromStore (gw_unmarshal gw) ops s3 kvKey supported (clk 3) of
                  (s4, Some current, _) \<Rightarrow> (s4, Inr ([current], False))
                | (s4, None, stale) \<Rightarrow>
                    ((if stale then fst (op_del ops s4 kvKey (clk 4)) else s4), Inr ([selected], False)))))"

definition sticky_pool ::
  "'s gateway \<Rightarrow> 's kv_ops \<Rightarrow> (nat \<Rightarrow> int) \<Rightarrow> 's \<Rightarrow> string \<Rightarrow> int \<Rightarrow> key list \<Rightarrow> 's \<times> (pool_error + key list \<times> bool)" where
  "sticky_pool gw ops clk s kvKey ttl supported =
     (case getCachedKeyFromStore (gw_unmarshal gw) ops s kvKey supported (clk 0) of
        (s1, Some cached, _) \<Rightarrow>
          (fst (op_set ops s1 kvKey (GStr (key_ID cached)) ttl (clk 1)), Inr ([cached], False))
      | (s1, None, stale) \<Rightarrow>
          sticky_fresh gw ops clk (if stale then fst (op_del ops s1 kvKey (clk 1)) else s1) kvKey ttl supported)"

definition skip_model_check :: "string \<Rightarrow> string \<Rightarrow> bool" where
  "skip_model_check requestType model \<longleftrightarrow>
     (model = [] \<and>
        (isFileRequestType requestType \<or> isBatchRequestType requestType \<or> isContainerRequestType requestType \<or>
         isCachedContentRequestType requestType \<or> isModellessVideoRequestType requestType \<or>
         isPassthroughRequestType requestType)) \<or>
     requestType = ''list_models'' \<or> isResponsesLifecycleRequestType requestType"

definition supported_keys :: "string \<Rightarrow> string \<Rightarrow> provider \<Rightarrow> key list \<Rightarrow> key list" where
  "supported_keys requestType model base keys =
     (if skip_model_check requestType model then List.map_filter (usable_key base) keys
      else List.map_filter (usable_for_model base model) keys)"

text \<open>The key the caller pinned by id or by name; both come trimmed.\<close>

definition pinned :: "string option \<Rightarrow> string option" where
  "pinned v = (case v of None \<Rightarrow> None | Some s \<Rightarrow> if trim_space s = [] then None else Some (trim_space s))"

definition session_of :: "bctx \<Rightarrow> string" where
  "session_of ctx = (case cx_SessionID ctx of Some i \<Rightarrow> i | None \<Rightarrow> [])"

definition session_ttl :: "bctx \<Rightarrow> int" where
  "session_ttl ctx =
     (case cx_SessionTTL ctx of
        Some t \<Rightarrow> if t \<le> 0 then DefaultSessionStickyTTL else t
      | None \<Rightarrow> DefaultSessionStickyTTL)"

definition first_attempt :: "bctx \<Rightarrow> bool" where
  "first_attempt ctx \<longleftrightarrow> cx_FallbackIndex ctx = None \<or> cx_FallbackIndex ctx = Some 0"

definition choose_from_supported ::
  "'s gateway \<Rightarrow> (nat \<Rightarrow> int) \<Rightarrow> 's \<Rightarrow> bctx \<Rightarrow> provider \<Rightarrow> string \<Rightarrow> key list \<Rightarrow> 's \<times> (pool_error + key list \<times> bool)" where
  "choose_from_supported gw clk s ctx p model supported =
     (case pinned (cx_APIKeyID ctx) of
        Some i \<Rightarrow>
          (case List.find (\<lambda>k. key_ID k = i) supported of
             Some k \<Rightarrow> (s, Inr ([k], False))
           | None \<Rightarrow> (s, Inl (NoKeyWithID i p model)))
      | None \<Rightarrow>
          (case pinned (cx_APIKeyName ctx) of
             Some n \<Rightarrow>
               (case List.find (\<lambda>k. key_Name k = n) supported of
                  Some k \<Rightarrow> (s, Inr ([k], False))
                | None \<Rightarrow> (s, Inl (NoKeyWithName n p model)))
           | None \<Rightarrow>
               if length supported = 1 then (s, Inr ([hd supported], False))
               else
                 (case gw_kv gw of
                    Some ops \<Rightarrow>
                      if session_of ctx \<noteq> [] \<and> first_attempt ctx then
                        sticky_pool gw ops clk s (buildSessionKey (gw_sha256 gw) p (session_of ctx) model)
                          (session_ttl ctx) supported
                      else (s, Inr (supported, True))
                  | None \<Rightarrow> (s, Inr (supported, True)))))"

definition selectKeyFromProviderForModelWithPool ::
  "'s gateway \<Rightarrow> (nat \<Rightarrow> int) \<Rightarrow> 's \<Rightarrow> bctx \<Rightarrow> string \<Rightarrow> provider \<Rightarrow> string \<Rightarrow> provider \<Rightarrow>
   's \<times> (pool_error + key list \<times> bool)" where
  "selectKeyFromProviderForModelWithPool gw clk s ctx requestType p model base =
     (case cx_DirectKey ctx of
        Some k \<Rightarrow> (s, Inr ([k], False))
      | None \<Rightarrow>
          if cx_SkipKeySelection ctx = Some True \<and> isKeySkippingAllowed p then (s, Inr ([], False))
          else
            (case gw_keys gw p of
               Inl e \<Rightarrow> (s, Inl (AccountError e))
             | Inr keys \<Rightarrow>
                 if keys = [] then
                   (s, if IsKeylessProvider p then Inr ([], False) else Inl (NoKeysForModel p model))
                 else
                   (let batch = isBatchRequestType requestType \<or> isFileRequestType requestType;
                        keys' = (if batch then filter batch_enabled keys else keys);
                        supported = supported_keys requestType model base keys'
                    in if batch \<and> keys' = [] then (s, Inl (NoBatchConfig p))
                       else if supported = [] then (s, Inl (NoKeysSupportModel model))
                       else choose_from_supported gw clk s ctx p model supported)))"

section \<open>Key providers\<close>

text \<open>The key provider is called before every attempt with the keys rate-limited in this cycle and
  the keys dead for this request. The rotating provider may clear the former.\<close>

datatype provider_error = AllKeysDead | AllKeysFiltered | SelectorError string

type_synonym 'w filter_hook = "'w \<Rightarrow> bctx \<Rightarrow> provider \<Rightarrow> string \<Rightarrow> key list \<Rightarrow> 'w \<times> bctx \<times> (string + key list)"
type_synonym 'w selector_hook = "'w \<Rightarrow> bctx \<Rightarrow> key list \<Rightarrow> provider \<Rightarrow> string \<Rightarrow> 'w \<times> (string + key)"
type_synonym 'w key_provider_fn =
  "'w \<Rightarrow> bctx \<Rightarrow> string list \<Rightarrow> string list \<Rightarrow> 'w \<times> bctx \<times> string list \<times> (provider_error + key)"

definition run_filter ::
  "'w filter_hook option \<Rightarrow> 'w \<Rightarrow> bctx \<Rightarrow> provider \<Rightarrow> string \<Rightarrow> key list \<Rightarrow> 'w \<times> bctx \<times> key list" where
  "run_filter f w ctx p model keys =
     (case f of
        None \<Rightarrow> (w, ctx, keys)
      | Some g \<Rightarrow>
          (case g w ctx p model keys of
             (w', ctx', Inl _) \<Rightarrow> (w', ctx', keys)
           | (w', ctx', Inr out) \<Rightarrow> (w', ctx', out)))"

definition newFixedKeyProvider ::
  "'w filter_hook option \<Rightarrow> provider \<Rightarrow> string \<Rightarrow> key \<Rightarrow> 'w key_provider_fn" where
  "newFixedKeyProvider f p model fixedKey w ctx used dead =
     (if key_ID fixedKey \<in> set dead then (w, ctx, used, Inl AllKeysDead)
      else
        (case run_filter f w ctx p model [fixedKey] of
           (w', ctx', out) \<Rightarrow>
             if out = [] then (w', ctx', used, Inl AllKeysFiltered) else (w', ctx', used, Inr fixedKey)))"

definition call_selector ::
  "'w selector_hook \<Rightarrow> 'w \<Rightarrow> bctx \<Rightarrow> string list \<Rightarrow> key list \<Rightarrow> provider \<Rightarrow> string \<Rightarrow>
   'w \<times> bctx \<times> string list \<times> (provider_error + key)" where
  "call_selector sel w ctx used available p model =
     (case sel w ctx available p model of
        (w', Inl e) \<Rightarrow> (w', ctx, used, Inl (SelectorError e))
      | (w', Inr k) \<Rightarrow> (w', ctx, used, Inr k))"

definition rotatingKeyProvider ::
  "'w filter_hook option \<Rightarrow> 'w selector_hook \<Rightarrow> provider \<Rightarrow> string \<Rightarrow> key list \<Rightarrow> 'w key_provider_fn" where
  "rotatingKeyProvider f sel p model pool w ctx used dead =
     (let available = filter (\<lambda>k. \<not> (key_ID k \<in> set dead \<or> key_ID k \<in> set used)) pool
      in case run_filter f w ctx p model available of
           (w1, ctx1, available1) \<Rightarrow>
             if available1 = [] then
               (let live = filter (\<lambda>k. key_ID k \<notin> set dead) pool
                in case run_filter f w1 ctx1 p model live of
                     (w2, ctx2, available2) \<Rightarrow>
                       if available2 = [] then
                         (w2, ctx2, used, Inl (if live \<noteq> [] then AllKeysFiltered else AllKeysDead))
                       else call_selector sel w2 ctx2 [] available2 p model)
             else call_selector sel w1 ctx1 used available1 p model)"

definition stampProviderKeysOnContext ::
  "(provider \<Rightarrow> string + key list) \<Rightarrow> bctx \<Rightarrow> provider \<Rightarrow> bctx" where
  "stampProviderKeysOnContext get_keys ctx p =
     (if p = [] then ctx
      else (case get_keys p of
              Inl _ \<Rightarrow> ctx
            | Inr keys \<Rightarrow> if keys = [] then ctx else ctx\<lparr>cx_ProviderKeys := Some [(p, keys)]\<rparr>))"


section \<open>Weighted selection\<close>

definition weights_ok :: "key list \<Rightarrow> bool" where
  "weights_ok ks \<longleftrightarrow> (\<forall>k \<in> set ks. 0 \<le> weight_units k) \<and> sum_list (map weight_units ks) < 2 ^ 63"

lemma weight_sum_nonneg: "\<forall>k \<in> set ks. 0 \<le> weight_units k \<Longrightarrow> 0 \<le> sum_list (map weight_units ks)"
  by (induction ks) auto

lemma weight_filter_le:
  "\<forall>k \<in> set ks. 0 \<le> weight_units k \<Longrightarrow>
    sum_list (map weight_units (filter P ks)) \<le> sum_list (map weight_units ks)"
  by (induction ks) auto

lemma weights_ok_filter: "weights_ok ks \<Longrightarrow> weights_ok (filter P ks)"
  using weight_filter_le [of ks P] by (auto simp: weights_ok_def)

lemma total_weight_from:
  assumes "\<forall>k \<in> set ks. 0 \<le> weight_units k" and "0 \<le> c" and "c + sum_list (map weight_units ks) < 2 ^ 63"
  shows "foldl (\<lambda>t k. wrap64 (t + weight_units k)) c ks = c + sum_list (map weight_units ks)"
  using assms
proof (induction ks arbitrary: c)
  case (Cons k ks)
  have "wrap64 (c + weight_units k) = c + weight_units k"
    using Cons.prems weight_sum_nonneg [of ks] by (intro wrap64_id_bounds) auto
  with Cons show ?case by simp
qed simp

lemma total_weight_sum: "weights_ok ks \<Longrightarrow> total_weight ks = sum_list (map weight_units ks)"
  using total_weight_from [of ks 0] by (simp add: total_weight_def weights_ok_def)

lemma pick_key_share:
  assumes "\<forall>k \<in> set ks. 0 \<le> weight_units k" and "0 \<le> c" and "c + sum_list (map weight_units ks) < 2 ^ 63"
  shows "int (card {r. c \<le> r \<and> r < c + sum_list (map weight_units ks) \<and> pick_key r c ks = Some k}) =
    sum_list (map weight_units (filter (\<lambda>x. x = k) ks))"
  using assms
proof (induction ks arbitrary: c)
  case (Cons x ks)
  let ?w = "weight_units x" and ?S = "sum_list (map weight_units ks)"
  have w: "0 \<le> ?w" and S: "0 \<le> ?S" using Cons.prems weight_sum_nonneg [of ks] by auto
  have c: "wrap64 (c + ?w) = c + ?w" using Cons.prems w S by (intro wrap64_id_bounds) auto
  let ?A = "if x = k then {c..<c + ?w} else {}"
  let ?B = "{r. c + ?w \<le> r \<and> r < (c + ?w) + ?S \<and> pick_key r (c + ?w) ks = Some k}"
  have split: "{r. c \<le> r \<and> r < c + sum_list (map weight_units (x # ks)) \<and> pick_key r c (x # ks) = Some k} = ?A \<union> ?B"
    using w S by (auto simp: Let_def c split: if_splits)
  have fin: "finite ?B" by (rule finite_subset [of _ "{c + ?w..<c + ?w + ?S}"]) auto
  have "card (?A \<union> ?B) = card ?A + card ?B" using fin by (intro card_Un_disjoint) auto
  then show ?case unfolding split using Cons.IH [of "c + ?w"] Cons.prems w
    by (cases "x = k") (auto simp: add.assoc)
qed simp

lemma pick_key_total:
  assumes "\<forall>k \<in> set ks. 0 \<le> weight_units k" and "0 \<le> c" and "c + sum_list (map weight_units ks) < 2 ^ 63"
    and "c \<le> r" and "r < c + sum_list (map weight_units ks)"
  shows "\<exists>k \<in> set ks. pick_key r c ks = Some k \<and> 0 < weight_units k"
  using assms
proof (induction ks arbitrary: c)
  case (Cons x ks)
  have c: "wrap64 (c + weight_units x) = c + weight_units x"
    using Cons.prems weight_sum_nonneg [of ks] by (intro wrap64_id_bounds) auto
  show ?case
  proof (cases "r < c + weight_units x")
    case True
    with Cons.prems(4) show ?thesis by (simp add: c Let_def)
  next
    case False
    with Cons.IH [of "c + weight_units x"] Cons.prems show ?thesis by (auto simp: c Let_def add.assoc)
  qed
qed simp

text \<open>With weights in range and a draw below its bound the selector never panics, and what it returns
  is a key of the pool; a key of weight zero is taken only when all weights are zero.\<close>

lemma WeightedRandom_member:
  assumes "weights_ok ks" and "ks \<noteq> []" and "\<And>n. 0 < n \<Longrightarrow> 0 \<le> draw n \<and> draw n < n"
  shows "\<exists>k \<in> set ks. WeightedRandom draw ks = Some k \<and> (0 < weight_units k \<or> total_weight ks = 0)"
proof -
  have t: "total_weight ks = sum_list (map weight_units ks)" using assms(1) by (rule total_weight_sum)
  have nn: "\<forall>k \<in> set ks. 0 \<le> weight_units k" using assms(1) by (simp add: weights_ok_def)
  show ?thesis
  proof (cases "total_weight ks = 0")
    case True
    then show ?thesis using assms(2) assms(3) [of "int (length ks)"]
      by (auto simp: WeightedRandom_def Let_def nat_less_iff intro!: nth_mem)
  next
    case False
    then have pos: "0 < total_weight ks" using t weight_sum_nonneg [OF nn] by simp
    obtain k where "k \<in> set ks" "pick_key (draw (total_weight ks)) 0 ks = Some k" "0 < weight_units k"
      using pick_key_total [OF nn, of 0 "draw (total_weight ks)"] assms(1) assms(3) [OF pos] t
      by (auto simp: weights_ok_def)
    then show ?thesis using pos by (auto simp: WeightedRandom_def Let_def)
  qed
qed

section \<open>Jitter\<close>

lemma go_consts: "fst go_08 = 7205759403792794" "fst go_04 = 7205759403792794"
  by (simp_all add: go_08_def go_04_def)

lemma go_const_vals:
  "799 / 1000 < float_val go_08" "float_val go_08 < 801 / 1000" "float_val go_04 < 401 / 1000" "0 \<le> float_val go_04"
  by (simp_all add: float_val_def go_08_def go_04_def powr_minus powr_numeral field_simps)

text \<open>A coarse form of the relative error is all the bounds below need.\<close>

lemma round53_between:
  assumes "0 \<le> fst f"
  shows "float_val f * (999 / 1000) \<le> float_val (round53 f)" and "float_val (round53 f) \<le> float_val f * (1001 / 1000)"
proof -
  have "(2::real) powr - 53 \<le> 1 / 1000" by (simp add: powr_minus powr_numeral)
  then have "float_val f * 2 powr - 53 \<le> float_val f * (1 / 1000)" using assms by (intro mult_left_mono) auto
  with round53_error [OF assms] show "float_val f * (999 / 1000) \<le> float_val (round53 f)"
    and "float_val (round53 f) \<le> float_val f * (1001 / 1000)" by (simp_all add: abs_le_iff)
qed

lemma float_mul_between:
  assumes "0 \<le> fst a" and "0 \<le> fst b"
  shows "0 \<le> fst (float_mul a b)" and "float_val a * float_val b * (999 / 1000) \<le> float_val (float_mul a b)"
    and "float_val (float_mul a b) \<le> float_val a * float_val b * (1001 / 1000)"
  using assms round53_between [of "(fst a * fst b, snd a + snd b)"] round53_nonneg [of "(fst a * fst b, snd a + snd b)"]
  by (simp_all add: float_mul_def float_mul_exact)

lemma float_add_between:
  assumes "0 \<le> fst a" and "0 \<le> fst b"
  shows "0 \<le> fst (float_add a b)" and "(float_val a + float_val b) * (999 / 1000) \<le> float_val (float_add a b)"
    and "float_val (float_add a b) \<le> (float_val a + float_val b) * (1001 / 1000)"
proof -
  let ?e = "min (snd a) (snd b)"
  let ?f = "(fst a * 2 ^ nat (snd a - ?e) + fst b * 2 ^ nat (snd b - ?e), ?e)"
  have n: "0 \<le> fst ?f" using assms by simp
  have eq: "float_add a b = round53 ?f" by (simp add: float_add_def Let_def)
  show "0 \<le> fst (float_add a b)" unfolding eq by (rule round53_nonneg [OF n])
  show "(float_val a + float_val b) * (999 / 1000) \<le> float_val (float_add a b)"
    using round53_between(1) [OF n] unfolding eq float_add_exact [OF refl] .
  show "float_val (float_add a b) \<le> (float_val a + float_val b) * (1001 / 1000)"
    using round53_between(2) [OF n] unfolding eq float_add_exact [OF refl] .
qed

lemma jitter_factor:
  assumes "0 \<le> u" and "u < 2 ^ 53"
  shows "0 \<le> fst (float_add go_08 (float_mul go_04 (u, - 53)))"
    and "798 / 1000 \<le> float_val (float_add go_08 (float_mul go_04 (u, - 53)))"
    and "float_val (float_add go_08 (float_mul go_04 (u, - 53))) \<le> 1206 / 1000"
proof -
  let ?r = "(u, - 53) :: float64"
  have v: "0 \<le> float_val ?r" "float_val ?r \<le> 1"
    using assms by (simp_all add: float_val_def powr_minus powr_numeral field_simps)
  have g: "0 \<le> fst (float_mul go_04 ?r)" "0 \<le> float_val (float_mul go_04 ?r)"
    "float_val (float_mul go_04 ?r) \<le> 4015 / 10000"
  proof -
    show n: "0 \<le> fst (float_mul go_04 ?r)" using float_mul_between(1) [of go_04 ?r] assms by (simp add: go_consts)
    then show "0 \<le> float_val (float_mul go_04 ?r)" by simp
    have "float_val go_04 * float_val ?r \<le> 401 / 1000 * 1"
      using go_const_vals v by (intro mult_mono) auto
    then show "float_val (float_mul go_04 ?r) \<le> 4015 / 10000"
      using float_mul_between(3) [of go_04 ?r] assms by (simp add: go_consts)
  qed
  have a: "0 \<le> fst go_08" by (simp add: go_consts)
  show "0 \<le> fst (float_add go_08 (float_mul go_04 (u, - 53)))" using float_add_between(1) [OF a g(1)] .
  show "798 / 1000 \<le> float_val (float_add go_08 (float_mul go_04 (u, - 53)))"
    using float_add_between(2) [OF a g(1)] go_const_vals(1) g(2) by simp
  show "float_val (float_add go_08 (float_mul go_04 (u, - 53))) \<le> 1206 / 1000"
    using float_add_between(3) [OF a g(1)] go_const_vals(2) g(3) by simp
qed

lemma jitter_bounds:
  assumes "0 \<le> u" and "u < 2 ^ 53" and "0 \<le> b"
  shows "79 / 100 * real_of_int b - 1 \<le> real_of_int (jitter u b)"
    and "real_of_int (jitter u b) \<le> 121 / 100 * real_of_int b" and "0 \<le> jitter u b"
proof -
  let ?F = "float_of_int b" and ?H = "float_add go_08 (float_mul go_04 (u, - 53))"
  have vb: "float_val (b, 0) = real_of_int b" by (simp add: float_val_def)
  have F: "0 \<le> fst ?F" "real_of_int b * (999 / 1000) \<le> float_val ?F" "float_val ?F \<le> real_of_int b * (1001 / 1000)"
    using round53_between [of "(b, 0)"] round53_nonneg [of "(b, 0)"] assms(3) by (simp_all add: float_of_int_def vb)
  note H = jitter_factor [OF assms(1,2)]
  have b: "0 \<le> real_of_int b" using assms(3) by simp
  have lo: "real_of_int b * (999 / 1000) * (798 / 1000) \<le> float_val ?F * float_val ?H"
    using F H b by (intro mult_mono) auto
  have hi: "float_val ?F * float_val ?H \<le> real_of_int b * (1001 / 1000) * (1206 / 1000)"
    using F H b by (intro mult_mono) auto
  note J = float_mul_between [OF F(1) H(1)]
  note T = float_trunc_val [OF J(1)]
  show "0 \<le> jitter u b" using T(1) by (simp add: jitter_def)
  show "79 / 100 * real_of_int b - 1 \<le> real_of_int (jitter u b)"
    using T(3) J(2) lo b by (simp add: jitter_def)
  show "real_of_int (jitter u b) \<le> 121 / 100 * real_of_int b"
    using T(2) J(3) hi b by (simp add: jitter_def)
qed

lemma round53_neg: "round53 (- m, e) = (- fst (round53 (m, e)), snd (round53 (m, e)))"
  by (simp add: round53_def Let_def sgn_minus)

lemma jitter_neg: "jitter u (- b) = - jitter u b"
proof -
  have "float_of_int (- b) = (- fst (float_of_int b), snd (float_of_int b))"
    using round53_neg [of b 0] by (simp add: float_of_int_def)
  moreover have "float_mul (- m, e) g = (- fst (float_mul (m, e) g), snd (float_mul (m, e) g))" for m e g
    using round53_neg [of "m * fst g" "e + snd g"] by (simp add: float_mul_def)
  moreover have "float_trunc (- m, e) = - float_trunc (m, e)" for m e
    by (simp add: float_trunc_def go_div_def sgn_minus)
  ultimately show ?thesis by (simp add: jitter_def)
qed

lemma raw_backoff_exact:
  assumes "0 \<le> nc_RetryBackoffInitial (pc_Network cfg)" and "attempt < 63"
    and "nc_RetryBackoffInitial (pc_Network cfg) * 2 ^ attempt < 2 ^ 63"
  shows "raw_backoff attempt cfg =
    min (nc_RetryBackoffInitial (pc_Network cfg) * 2 ^ attempt) (nc_RetryBackoffMax (pc_Network cfg))"
proof -
  have hi: "(2::int) ^ attempt < 2 ^ 63" using assms(2) by (intro power_strict_increasing) auto
  have lo: "- (2 ^ 63) \<le> (2::int) ^ attempt" by (rule order_trans [of _ 0]) simp_all
  have "attempt < 64" using assms(2) by simp
  then have p: "shl1 attempt = 2 ^ attempt" unfolding shl1_def using wrap64_id_bounds [OF lo hi] by (rule if_P [THEN trans])
  have "0 \<le> nc_RetryBackoffInitial (pc_Network cfg) * 2 ^ attempt" using assms(1) by (rule mult_nonneg_nonneg) simp
  then have "- (2 ^ 63) \<le> nc_RetryBackoffInitial (pc_Network cfg) * 2 ^ attempt" by (rule order_trans [rotated]) simp
  then have w: "wrap64 (nc_RetryBackoffInitial (pc_Network cfg) * 2 ^ attempt) = nc_RetryBackoffInitial (pc_Network cfg) * 2 ^ attempt"
    using assms(3) by (rule wrap64_id_bounds)
  show ?thesis unfolding raw_backoff_def p w by (rule refl)
qed


section \<open>Eligible keys\<close>

text \<open>A pool key is a configured key, with an optional Bedrock configuration filled in.\<close>

definition same_key :: "key \<Rightarrow> key \<Rightarrow> bool" where
  "same_key k k' \<longleftrightarrow> k' = k\<lparr>key_Bedrock := key_Bedrock k', key_BedrockMantle := key_BedrockMantle k'\<rparr>"

lemma same_key_fields:
  assumes "same_key k k'"
  shows "key_ID k' = key_ID k" and "key_Name k' = key_Name k" and "key_Models k' = key_Models k"
    and "key_BlacklistedModels k' = key_BlacklistedModels k" and "key_Enabled k' = key_Enabled k"
    and "key_UseForBatchAPI k' = key_UseForBatchAPI k" and "key_Value k' = key_Value k"
proof -
  obtain b m where "k' = k\<lparr>key_Bedrock := b, key_BedrockMantle := m\<rparr>" using assms same_key_def by blast
  then show "key_ID k' = key_ID k" "key_Name k' = key_Name k" "key_Models k' = key_Models k"
    "key_BlacklistedModels k' = key_BlacklistedModels k" "key_Enabled k' = key_Enabled k"
    "key_UseForBatchAPI k' = key_UseForBatchAPI k" "key_Value k' = key_Value k" by simp_all
qed

lemma validateKey_same: "validateKey p k = Inr k' \<Longrightarrow> same_key k k'"
  by (cases k) (auto simp: validateKey_def same_key_def split: if_splits option.splits)

lemma usable_keyD:
  assumes "usable_key base k = Some k'"
  shows "same_key k k'" and "\<not> key_disabled k" and "validateKey base k = Inr k'" and "has_value base k'"
  using assms by (auto simp: usable_key_def validateKey_same split: if_splits sum.splits)

lemma usable_for_modelD:
  assumes "usable_for_model base model k = Some k'"
  shows "usable_key base k = Some k'" and "model_supported base model k'"
  using assms by (auto simp: usable_for_model_def split: option.splits if_splits)

lemma set_map_filter: "set (List.map_filter f xs) = {y. \<exists>x \<in> set xs. f x = Some y}"
  by (force simp: List.map_filter_def image_iff)

definition eligible :: "string \<Rightarrow> string \<Rightarrow> provider \<Rightarrow> key list \<Rightarrow> key \<Rightarrow> bool" where
  "eligible requestType model base configured k \<longleftrightarrow>
     (\<exists>c \<in> set configured. validateKey base c = Inr k) \<and> \<not> key_disabled k \<and> has_value base k \<and>
     (isBatchRequestType requestType \<or> isFileRequestType requestType \<longrightarrow> batch_enabled k) \<and>
     (\<not> skip_model_check requestType model \<longrightarrow> model_supported base model k)"

lemma same_key_enabled:
  assumes "same_key k k'"
  shows "key_disabled k' = key_disabled k" and "batch_enabled k' = batch_enabled k"
  using same_key_fields [OF assms] by (simp_all add: key_disabled_def batch_enabled_def)

lemma supported_keys_usable:
  assumes "k \<in> set (supported_keys requestType model base keys)"
  shows "\<exists>c \<in> set keys. usable_key base c = Some k" and "\<not> skip_model_check requestType model \<Longrightarrow> model_supported base model k"
  using assms by (auto simp: supported_keys_def set_map_filter dest: usable_for_modelD split: if_splits)

lemma supported_keys_eligible:
  assumes "k \<in> set (supported_keys requestType model base
      (if isBatchRequestType requestType \<or> isFileRequestType requestType then filter batch_enabled keys else keys))"
  shows "eligible requestType model base keys k"
proof -
  obtain c where c: "c \<in> set (if isBatchRequestType requestType \<or> isFileRequestType requestType then filter batch_enabled keys else keys)"
    "usable_key base c = Some k" using supported_keys_usable(1) [OF assms] by blast
  note u = usable_keyD [OF c(2)]
  show ?thesis using c(1) u supported_keys_usable(2) [OF assms] same_key_enabled [OF u(1)]
    by (auto simp: eligible_def split: if_splits)
qed

text \<open>Whatever way the pool is narrowed, it is narrowed to supported keys.\<close>

lemma find_mem: "List.find P xs = Some x \<Longrightarrow> x \<in> set xs \<and> P x"
  by (auto simp: find_Some_iff)

lemma getCached_mem:
  "getCachedKeyFromStore um ops s kvKey supported now = (s', Some k, stale) \<Longrightarrow> k \<in> set supported"
  by (auto simp: getCachedKeyFromStore_def Let_def dest: find_mem split: prod.splits sum.splits if_splits option.splits)

lemma sticky_pool_mem:
  assumes "sticky_pool gw ops clk s kvKey ttl supported = (s', Inr (pool, canRotate))"
    and "\<And>k. gw_selector gw supported = Inr k \<Longrightarrow> k \<in> set supported"
  shows "\<not> canRotate \<and> (\<exists>k \<in> set supported. pool = [k])"
  using assms
  by (auto simp: sticky_pool_def sticky_fresh_def dest: getCached_mem
      split: prod.splits option.splits sum.splits bool.splits)

lemma choose_mem:
  assumes "choose_from_supported gw clk s ctx p model supported = (s', Inr (pool, canRotate))"
    and "supported \<noteq> []" and "\<And>k. gw_selector gw supported = Inr k \<Longrightarrow> k \<in> set supported"
  shows "pool \<noteq> [] \<and> set pool \<subseteq> set supported \<and> (canRotate \<longrightarrow> pool = supported) \<and>
    (canRotate \<longrightarrow> 2 \<le> length pool) \<and> (\<not> canRotate \<longrightarrow> length pool = 1)"
proof -
  have len: "length supported \<noteq> 1 \<Longrightarrow> 2 \<le> length supported" using assms(2) by (cases supported) (auto simp: Suc_le_eq)
  show ?thesis
    using assms len
    by (auto simp: choose_from_supported_def dest!: find_mem sticky_pool_mem split: option.splits if_splits)
qed


section \<open>Session stickiness\<close>

abbreviation mk_ops where
  "mk_ops g w nx dl \<equiv> \<lparr>op_get = g, op_set = w, op_nx = nx, op_del = dl\<rparr>"

text \<open>What is stored for a session, if anything, names a key.\<close>

definition session_entry_ok :: "(string \<Rightarrow> string option) \<Rightarrow> goany option \<Rightarrow> bool" where
  "session_entry_ok unmarshal v \<longleftrightarrow> (case v of None \<Rightarrow> True | Some raw \<Rightarrow> cached_key_id unmarshal raw \<noteq> [])"

lemma find_by_id:
  assumes "k \<in> set ks" and "distinct (map key_ID ks)"
  shows "List.find (\<lambda>x. key_ID x = key_ID k) ks = Some k"
  using assms by (induction ks) auto

context session_store
begin

lemma getCached_spec:
  assumes "inv s" and "kvKey \<noteq> []"
  shows "getCachedKeyFromStore um (mk_ops get set_ttl set_nx del) s kvKey supported now =
    (fst (get s kvKey now),
     (case view s now kvKey of
        None \<Rightarrow> None
      | Some raw \<Rightarrow> if cached_key_id um raw = [] then None else List.find (\<lambda>k. key_ID k = cached_key_id um raw) supported),
     (case view s now kvKey of
        None \<Rightarrow> False
      | Some raw \<Rightarrow> cached_key_id um raw \<noteq> [] \<and> List.find (\<lambda>k. key_ID k = cached_key_id um raw) supported = None))"
  using get_result [OF assms, of now]
  by (cases "get s kvKey now") (auto simp: getCachedKeyFromStore_def Let_def split: option.splits)

text \<open>A request of a session leaves the identifier of the key it used in the store, for the
  session's lifetime from its second access on.\<close>

lemma sticky_stores:
  assumes s: "inv s" and k: "kvKey \<noteq> []" and ttl: "0 < ttl"
    and clk: "0 \<le> clk 0" "clk 0 \<le> clk 1" "clk 1 \<le> clk 2" "clk 2 + ttl < 2 ^ 63"
    and w: "\<And>i. writable (GStr i)" and ok: "session_entry_ok (gw_unmarshal gw) (view s (clk 0) kvKey)"
    and run: "sticky_pool gw (mk_ops get set_ttl set_nx del) clk s kvKey ttl supported = (s', Inr (pool, r))"
  obtains key where "pool = [key]" and "inv s'" and "\<And>t. clk 2 \<le> t \<Longrightarrow> t < clk 1 + ttl \<Longrightarrow> view s' t kvKey = Some (GStr (key_ID key))"
proof -
  let ?s1 = "fst (get s kvKey (clk 0))"
  note gc = getCached_spec [OF s k, of "gw_unmarshal gw" supported "clk 0"]
  have i1: "inv ?s1" using s by (rule get_inv)
  let ?c = "case view s (clk 0) kvKey of None \<Rightarrow> None
      | Some raw \<Rightarrow> if cached_key_id (gw_unmarshal gw) raw = [] then None else List.find (\<lambda>k. key_ID k = cached_key_id (gw_unmarshal gw) raw) supported"
  show ?thesis
  proof (cases ?c)
    case (Some c)
    then have p: "pool = [c]" and s': "s' = fst (set_ttl ?s1 kvKey (GStr (key_ID c)) ttl (clk 1))"
      using run by (auto simp: sticky_pool_def gc)
    have wr: "snd (set_ttl ?s1 kvKey (GStr (key_ID c)) ttl (clk 1)) = Inr ()" using set_ok [OF i1 k _ w] ttl by simp
    have "view s' t kvKey = Some (GStr (key_ID c))" if "t < clk 1 + ttl" for t
      unfolding s' using set_view [OF i1 k ttl _ _ wr, of t] clk that by simp
    with p that set_inv [OF i1] s' show ?thesis by auto
  next
    case None
    define s2 where "s2 = (if view s (clk 0) kvKey \<noteq> None then fst (del ?s1 kvKey (clk 1)) else ?s1)"
    have i2: "inv s2" using i1 by (simp add: s2_def del_inv)
    have v2: "view s2 (clk 2) kvKey = None"
    proof (cases "view s (clk 0) kvKey")
      case None
      then have "view s (clk 2) kvKey = None" using view_expires [OF s None] clk by simp
      with None show ?thesis using get_view [OF s, of "clk 0" "clk 2"] clk by (simp add: s2_def)
    next
      case (Some raw)
      then show ?thesis using del_view [OF i1 k] by (simp add: s2_def)
    qed
    have stale: "(case view s (clk 0) kvKey of None \<Rightarrow> False
        | Some raw \<Rightarrow> cached_key_id (gw_unmarshal gw) raw \<noteq> [] \<and> List.find (\<lambda>k. key_ID k = cached_key_id (gw_unmarshal gw) raw) supported = None) =
        (view s (clk 0) kvKey \<noteq> None)"
      using None ok by (auto simp: session_entry_ok_def split: option.splits)
    have "sticky_fresh gw (mk_ops get set_ttl set_nx del) clk s2 kvKey ttl supported = (s', Inr (pool, r))"
      using run unfolding sticky_pool_def gc None stale s2_def by (simp del: One_nat_def not_None_eq cong: if_cong)
    note run2 = this [unfolded sticky_fresh_def, simplified]
    from run2 obtain sel where sel: "gw_selector gw supported = Inr sel" by (auto split: sum.splits)
    obtain s3 b where nx: "set_nx s2 kvKey (GStr (key_ID sel)) ttl (clk 2) = (s3, Inr b)"
      using nx_ok [OF i2 k _ w, of ttl "key_ID sel" "clk 2"] ttl by (cases "set_nx s2 kvKey (GStr (key_ID sel)) ttl (clk 2)") auto
    have b: "b = True" using nx_lost [OF i2, of kvKey "GStr (key_ID sel)" ttl "clk 2"] nx v2 by (cases b) auto
    have p: "pool = [sel]" "s' = s3" using run2 by (auto simp: sel nx b)
    have wr: "snd (set_nx s2 kvKey (GStr (key_ID sel)) ttl (clk 2)) = Inr True" by (simp add: nx b)
    have "view s' t kvKey = Some (GStr (key_ID sel))" if "t < clk 1 + ttl" for t
      using nx_won [OF i2 k ttl _ clk(4) wr, of t] clk that nx p by simp
    with p that nx_inv [OF i2, of kvKey "GStr (key_ID sel)" ttl "clk 2"] nx show ?thesis by auto
  qed
qed

text \<open>The next request of the session then gets the same key, if it is still among the supported
  ones.\<close>

lemma sticky_repeats:
  assumes "inv s" and "kvKey \<noteq> []" and "view s (clk 0) kvKey = Some (GStr (key_ID key))" and "key_ID key \<noteq> []"
    and "key \<in> set supported" and "distinct (map key_ID supported)"
  shows "snd (sticky_pool gw (mk_ops get set_ttl set_nx del) clk s kvKey ttl supported) = Inr ([key], False)"
  using find_by_id [OF assms(5,6)] assms(3,4)
  by (simp add: sticky_pool_def getCached_spec [OF assms(1,2)] cached_key_id_def)

text \<open>A request that loses the race for the first write adopts the winner's key.\<close>

lemma sticky_race:
  assumes s: "inv s" and k: "kvKey \<noteq> []" and ttl: "0 < ttl"
    and none: "view s (clk 0) kvKey = None" and sel: "gw_selector gw supported = Inr mine"
    and other: "inv (env (fst (get s kvKey (clk 0))))"
    and won: "\<And>t. clk 2 \<le> t \<Longrightarrow> t \<le> clk 3 \<Longrightarrow> view (env (fst (get s kvKey (clk 0)))) t kvKey = Some (GStr (key_ID key))"
    and clk: "clk 0 \<le> clk 2" "clk 2 \<le> clk 3" "0 \<le> clk 2" "clk 2 + ttl < 2 ^ 63"
    and w: "\<And>i. writable (GStr i)" and mem: "key \<in> set supported" "distinct (map key_ID supported)" "key_ID key \<noteq> []"
  shows "snd (sticky_pool gw (mk_ops get set_ttl (\<lambda>t. set_nx (env t)) del) clk s kvKey ttl supported) = Inr ([key], False)"
proof -
  let ?s1 = "fst (get s kvKey (clk 0))" and ?ops = "mk_ops get set_ttl (\<lambda>t. set_nx (env t)) del"
  note i1 = other
  have first: "getCachedKeyFromStore (gw_unmarshal gw) ?ops s kvKey supported (clk 0) = (?s1, None, False)"
    using get_result [OF s k, of "clk 0"] none
    by (cases "get s kvKey (clk 0)") (simp add: getCachedKeyFromStore_def)
  obtain s3 b where nx: "set_nx (env ?s1) kvKey (GStr (key_ID mine)) ttl (clk 2) = (s3, Inr b)"
    using nx_ok [OF i1 k _ w, of ttl "key_ID mine" "clk 2"] ttl
    by (cases "set_nx (env ?s1) kvKey (GStr (key_ID mine)) ttl (clk 2)") auto
  have v2: "view (env ?s1) (clk 2) kvKey \<noteq> None" using won [of "clk 2"] clk by simp
  have b: "b = False" using nx_won [OF i1 k ttl clk(3,4), of "GStr (key_ID mine)"] nx v2 by (cases b) auto
  have s3: "s3 = env ?s1" using nx_lost [OF i1, of kvKey "GStr (key_ID mine)" ttl "clk 2"] nx b by simp
  have v3: "view s3 (clk 3) kvKey = Some (GStr (key_ID key))" using won [of "clk 3"] clk s3 by simp
  have "getCachedKeyFromStore (gw_unmarshal gw) ?ops s3 kvKey supported (clk 3) = (fst (get s3 kvKey (clk 3)), Some key, False)"
    using get_result [OF i1 k, of "clk 3"] v3 find_by_id [OF mem(1,2)] mem(3)
    by (cases "get s3 kvKey (clk 3)") (simp add: getCachedKeyFromStore_def s3 cached_key_id_def)
  with first sel nx b show ?thesis by (simp add: sticky_pool_def sticky_fresh_def)
qed

end


section \<open>Interfaces of the key providers\<close>

text \<open>The three ways the rotating provider can go: an unused key, a new cycle, or no key at all.\<close>

lemma rotating_cases:
  assumes "rotatingKeyProvider f sel p model pool w c used dead = (w', c', used', r)"
  obtains (fresh) w1 c1 a1 where "run_filter f w c p model (filter (\<lambda>k. \<not> (key_ID k \<in> set dead \<or> key_ID k \<in> set used)) pool) = (w1, c1, a1)"
      "a1 \<noteq> []" "call_selector sel w1 c1 used a1 p model = (w', c', used', r)"
    | (again) w1 c1 w2 c2 a2 where "run_filter f w c p model (filter (\<lambda>k. \<not> (key_ID k \<in> set dead \<or> key_ID k \<in> set used)) pool) = (w1, c1, [])"
      "run_filter f w1 c1 p model (filter (\<lambda>k. key_ID k \<notin> set dead) pool) = (w2, c2, a2)"
      "a2 \<noteq> []" "call_selector sel w2 c2 [] a2 p model = (w', c', used', r)"
    | (none) w1 c1 where "run_filter f w c p model (filter (\<lambda>k. \<not> (key_ID k \<in> set dead \<or> key_ID k \<in> set used)) pool) = (w1, c1, [])"
      "run_filter f w1 c1 p model (filter (\<lambda>k. key_ID k \<notin> set dead) pool) = (w', c', [])" "used' = used"
      "r = Inl (if filter (\<lambda>k. key_ID k \<notin> set dead) pool \<noteq> [] then AllKeysFiltered else AllKeysDead)"
proof -
  let ?live = "filter (\<lambda>k. key_ID k \<notin> set dead) pool"
  obtain w1 c1 a1 where 1: "run_filter f w c p model (filter (\<lambda>k. \<not> (key_ID k \<in> set dead \<or> key_ID k \<in> set used)) pool) = (w1, c1, a1)"
    by (rule prod_cases3)
  obtain w2 c2 a2 where 2: "run_filter f w1 c1 p model ?live = (w2, c2, a2)" by (rule prod_cases3)
  have run: "(if a1 = [] then if a2 = [] then (w2, c2, used, Inl (if ?live \<noteq> [] then AllKeysFiltered else AllKeysDead))
      else call_selector sel w2 c2 [] a2 p model else call_selector sel w1 c1 used a1 p model) = (w', c', used', r)"
    using assms unfolding rotatingKeyProvider_def Let_def 1 2 prod.case .
  show thesis
  proof (cases "a1 = []")
    case False
    with run have "call_selector sel w1 c1 used a1 p model = (w', c', used', r)" by (simp only: if_False)
    with 1 False show thesis by (rule fresh)
  next
    case a1: True
    show thesis
    proof (cases "a2 = []")
      case False
      with a1 run have "call_selector sel w2 c2 [] a2 p model = (w', c', used', r)" by (simp only: if_True if_False refl)
      with 1 [unfolded a1] 2 False show thesis by (rule again)
    next
      case True
      with a1 run have eq: "w2 = w'" "c2 = c'" "used' = used" "r = Inl (if ?live \<noteq> [] then AllKeysFiltered else AllKeysDead)"
        by (simp_all only: if_True prod.inject refl)
      show thesis by (rule none [OF 1 [unfolded a1] 2 [unfolded True eq(1,2)] eq(3,4)])
    qed
  qed
qed

text \<open>A pool filter returns keys it was given and writes nothing to the context but its retry
  hint.\<close>

locale pool_filter =
  fixes filt :: "'w filter_hook"
  assumes filter_subset: "filt w c p m ks = (w', c', Inr out) \<Longrightarrow> set out \<subseteq> set ks"
    and filter_ctx: "filt w c p m ks = (w', c', r) \<Longrightarrow> \<exists>h. c' = c\<lparr>cx_RetryAfterSeconds := h\<rparr>"
begin

lemma run_filter_subset:
  assumes "f = None \<or> f = Some filt" and "run_filter f w c p m ks = (w', c', out)"
  shows "set out \<subseteq> set ks" and "\<exists>h. c' = c\<lparr>cx_RetryAfterSeconds := h\<rparr>"
proof -
  obtain w1 c1 q where q: "filt w c p m ks = (w1, c1, q)" by (rule prod_cases3)
  have same: "\<exists>h. c = c\<lparr>cx_RetryAfterSeconds := h\<rparr>" by (rule exI [of _ "cx_RetryAfterSeconds c"]) simp
  show "set out \<subseteq> set ks"
    using assms filter_subset [of w c p m ks] by (cases f; cases q) (auto simp: run_filter_def q)
  have "c' = c \<or> c' = c1" using assms by (cases f; cases q) (auto simp: run_filter_def q)
  then show "\<exists>h. c' = c\<lparr>cx_RetryAfterSeconds := h\<rparr>" using same filter_ctx [OF q] by (elim disjE) simp_all
qed

end

text \<open>An exact filter never fails and vetoes by a predicate that its own bookkeeping does not change.\<close>

locale exact_filter = pool_filter filt for filt :: "'w filter_hook" +
  fixes vetoed :: "'w \<Rightarrow> provider \<Rightarrow> string \<Rightarrow> key \<Rightarrow> bool"
  assumes filter_exact: "filt w c p m ks = (w', c', r) \<Longrightarrow> r = Inr (filter (\<lambda>k. \<not> vetoed w p m k) ks) \<and> vetoed w' = vetoed w"
begin

lemma run_exact:
  "run_filter (Some filt) w c p m ks = (w', c', out) \<Longrightarrow> out = filter (\<lambda>k. \<not> vetoed w p m k) ks \<and> vetoed w' = vetoed w"
  by (auto simp: run_filter_def dest: filter_exact split: sum.splits prod.splits)

end

text \<open>A key selector returns one of the keys it is given, and on an acceptable list it returns.\<close>

locale key_selector =
  fixes sel :: "'w selector_hook" and acceptable :: "key list \<Rightarrow> bool"
  assumes select_member: "ks \<noteq> [] \<Longrightarrow> sel w c ks p m = (w', Inr k) \<Longrightarrow> k \<in> set ks"
    and select_total: "acceptable ks \<Longrightarrow> ks \<noteq> [] \<Longrightarrow> \<exists>w' k. sel w c ks p m = (w', Inr k)"
    and acceptable_filter: "acceptable ks \<Longrightarrow> acceptable (filter P ks)"
begin

lemma call_selector_spec:
  assumes "call_selector sel w c used ks p m = (w', c', used', r)" and "ks \<noteq> []"
  shows "c' = c" and "used' = used" and "r = Inr k \<Longrightarrow> k \<in> set ks" and "acceptable ks \<Longrightarrow> \<exists>k. r = Inr k"
    and "r \<noteq> Inl AllKeysDead" and "r \<noteq> Inl AllKeysFiltered"
proof -
  obtain w1 q where q: "sel w c ks p m = (w1, q)" by fastforce
  show "c' = c" "used' = used" "r \<noteq> Inl AllKeysDead" "r \<noteq> Inl AllKeysFiltered"
    using assms q by (auto simp: call_selector_def split: sum.splits)
  show "k \<in> set ks" if "r = Inr k"
    using assms q that select_member [OF assms(2)] by (auto simp: call_selector_def split: sum.splits)
  show "\<exists>k. r = Inr k" if "acceptable ks"
    using assms q select_total [OF that assms(2), of w c p m] by (auto simp: call_selector_def)
qed

end

text \<open>What the retry loop relies on: a key it gets is of the pool and not dead, \<open>AllKeysDead\<close> means
  what it says, and the call only shrinks the set of used keys.\<close>

locale key_provider =
  fixes provide :: "'w key_provider_fn" and pool :: "key list"
  assumes provide_live: "provide w c used dead = (w', c', used', Inr k) \<Longrightarrow> k \<in> set pool \<and> key_ID k \<notin> set dead"
    and provide_used: "provide w c used dead = (w', c', used', r) \<Longrightarrow> set used' \<subseteq> set used"
    and provide_dead: "provide w c used dead = (w', c', used', Inl AllKeysDead) \<Longrightarrow> \<forall>k \<in> set pool. key_ID k \<in> set dead"
    and provide_ctx: "provide w c used dead = (w', c', used', r) \<Longrightarrow> \<exists>h. c' = c\<lparr>cx_RetryAfterSeconds := h\<rparr>"

locale fixed_key = pool_filter filt for filt :: "'w filter_hook" +
  fixes f :: "'w filter_hook option" and p :: provider and model :: string and fixedKey :: key
  assumes fixed_filter: "f = None \<or> f = Some filt"

sublocale fixed_key \<subseteq> fixed: key_provider "newFixedKeyProvider f p model fixedKey" "[fixedKey]"
proof
  fix w and c :: bctx and used dead w' c' used' k r
  have same: "\<exists>h. c = c\<lparr>cx_RetryAfterSeconds := h\<rparr>" by (rule exI [of _ "cx_RetryAfterSeconds c"]) simp
  show "newFixedKeyProvider f p model fixedKey w c used dead = (w', c', used', Inr k) \<Longrightarrow>
      k \<in> set [fixedKey] \<and> key_ID k \<notin> set dead"
    by (auto simp: newFixedKeyProvider_def split: if_splits prod.splits)
  show "newFixedKeyProvider f p model fixedKey w c used dead = (w', c', used', r) \<Longrightarrow> set used' \<subseteq> set used"
    by (auto simp: newFixedKeyProvider_def split: if_splits prod.splits)
  show "newFixedKeyProvider f p model fixedKey w c used dead = (w', c', used', Inl AllKeysDead) \<Longrightarrow>
      \<forall>k \<in> set [fixedKey]. key_ID k \<in> set dead"
    by (auto simp: newFixedKeyProvider_def split: if_splits prod.splits)
  show "newFixedKeyProvider f p model fixedKey w c used dead = (w', c', used', r) \<Longrightarrow> \<exists>h. c' = c\<lparr>cx_RetryAfterSeconds := h\<rparr>"
    using same run_filter_subset(2) [OF fixed_filter]
    by (auto simp: newFixedKeyProvider_def split: if_splits prod.splits)
qed

locale rotation = pool_filter filt + key_selector sel acceptable
  for filt :: "'w filter_hook" and sel :: "'w selector_hook" and acceptable +
  fixes f :: "'w filter_hook option" and p :: provider and model :: string and pool :: "key list"
  assumes rotation_filter: "f = None \<or> f = Some filt"
begin

lemma rotation_spec:
  assumes "rotatingKeyProvider f sel p model pool w c used dead = (w', c', used', r)"
  shows "(used' = used \<or> used' = []) \<and> (\<exists>h. c' = c\<lparr>cx_RetryAfterSeconds := h\<rparr>) \<and>
    (\<forall>k. r = Inr k \<longrightarrow> k \<in> set pool \<and> key_ID k \<notin> set dead) \<and>
    (r = Inl AllKeysDead \<longrightarrow> (\<forall>k \<in> set pool. key_ID k \<in> set dead))"
proof -
  note sub = run_filter_subset [OF rotation_filter]
  show ?thesis using assms
  proof (cases rule: rotating_cases)
    case fresh
    note cs = call_selector_spec [OF fresh(3,2)]
    obtain h where "c' = c\<lparr>cx_RetryAfterSeconds := h\<rparr>" using sub(2) [OF fresh(1)] cs(1) by auto
    moreover have "k \<in> set pool \<and> key_ID k \<notin> set dead" if "r = Inr k" for k
      using cs(3) [OF that] sub(1) [OF fresh(1)] by auto
    ultimately show ?thesis using cs(2,5) by (intro conjI allI impI exI [of _ h]) simp_all
  next
    case again
    note cs = call_selector_spec [OF again(4,3)]
    obtain h where "c' = c\<lparr>cx_RetryAfterSeconds := h\<rparr>" using sub(2) [OF again(1)] sub(2) [OF again(2)] cs(1) by auto
    moreover have "k \<in> set pool \<and> key_ID k \<notin> set dead" if "r = Inr k" for k
      using cs(3) [OF that] sub(1) [OF again(2)] by auto
    ultimately show ?thesis using cs(2,5) by (intro conjI allI impI exI [of _ h]) simp_all
  next
    case none
    obtain h where "c' = c\<lparr>cx_RetryAfterSeconds := h\<rparr>" using sub(2) [OF none(1)] sub(2) [OF none(2)] by auto
    then show ?thesis using none(3,4) by (intro conjI allI impI exI [of _ h]) (simp_all add: filter_empty_conv split: if_splits)
  qed
qed

end

sublocale rotation \<subseteq> rotating: key_provider "rotatingKeyProvider f sel p model pool" pool
proof
  fix w c used dead w' c' used' k r
  show "rotatingKeyProvider f sel p model pool w c used dead = (w', c', used', Inr k) \<Longrightarrow>
      k \<in> set pool \<and> key_ID k \<notin> set dead"
    using rotation_spec by blast
  show "rotatingKeyProvider f sel p model pool w c used dead = (w', c', used', r) \<Longrightarrow> set used' \<subseteq> set used"
    using rotation_spec by fastforce
  show "rotatingKeyProvider f sel p model pool w c used dead = (w', c', used', Inl AllKeysDead) \<Longrightarrow>
      \<forall>k \<in> set pool. key_ID k \<in> set dead"
    using rotation_spec by blast
  show "rotatingKeyProvider f sel p model pool w c used dead = (w', c', used', r) \<Longrightarrow> \<exists>h. c' = c\<lparr>cx_RetryAfterSeconds := h\<rparr>"
    using rotation_spec by blast
qed


lemma Nil_eq_filter: "[] = filter P xs \<longleftrightarrow> (\<forall>x \<in> set xs. \<not> P x)"
  by (metis filter_empty_conv)

text \<open>With an exact filter the outcome of the rotating provider is determined up to the selector's
  choice.\<close>

locale exact_rotation = exact_filter filt vetoed + key_selector sel acceptable
  for filt :: "'w filter_hook" and vetoed and sel :: "'w selector_hook" and acceptable
begin

lemma exact_outcome:
  assumes "rotatingKeyProvider (Some filt) sel p model pool w c used dead = (w', c', used', r)"
  defines "free k \<equiv> key_ID k \<notin> set dead \<and> \<not> vetoed w p model k"
  shows "(\<forall>k. r = Inr k \<longrightarrow> k \<in> set pool \<and> free k \<and>
      (key_ID k \<notin> set used \<and> used' = used \<or> used' = [] \<and> (\<forall>j \<in> set pool. free j \<longrightarrow> key_ID j \<in> set used)))"
    and "r = Inl AllKeysDead \<longleftrightarrow> (\<forall>k \<in> set pool. key_ID k \<in> set dead)"
    and "r = Inl AllKeysFiltered \<longleftrightarrow> (\<exists>k \<in> set pool. key_ID k \<notin> set dead) \<and> (\<forall>k \<in> set pool. \<not> free k)"
    and "acceptable pool \<Longrightarrow> (\<exists>k. r = Inr k) \<longleftrightarrow> (\<exists>k \<in> set pool. free k)"
proof -
  have all: "(\<forall>k. r = Inr k \<longrightarrow> k \<in> set pool \<and> free k \<and>
      (key_ID k \<notin> set used \<and> used' = used \<or> used' = [] \<and> (\<forall>j \<in> set pool. free j \<longrightarrow> key_ID j \<in> set used))) \<and>
    (r = Inl AllKeysDead \<longleftrightarrow> (\<forall>k \<in> set pool. key_ID k \<in> set dead)) \<and>
    (r = Inl AllKeysFiltered \<longleftrightarrow> (\<exists>k \<in> set pool. key_ID k \<notin> set dead) \<and> (\<forall>k \<in> set pool. \<not> free k)) \<and>
    (acceptable pool \<longrightarrow> (\<exists>k. r = Inr k) \<longleftrightarrow> (\<exists>k \<in> set pool. free k))"
    using assms(1)
  proof (cases rule: rotating_cases)
    case (fresh w1 c1 a1)
    note cs = call_selector_spec [OF fresh(3,2)]
    have a1: "a1 = filter (\<lambda>k. free k \<and> key_ID k \<notin> set used) pool"
      using run_exact [OF fresh(1)] by (simp add: free_def conj_ac cong: filter_cong)
    then obtain j where j: "j \<in> set pool" "free j" using fresh(2) by (auto simp: filter_empty_conv)
    have "acceptable pool \<Longrightarrow> \<exists>k. r = Inr k" using cs(4) acceptable_filter a1 by blast
    moreover have "r = Inr k \<Longrightarrow> k \<in> set pool \<and> free k \<and> key_ID k \<notin> set used" for k using cs(3) a1 by auto
    ultimately show ?thesis using cs(2,5,6) j by (auto simp: free_def)
  next
    case (again w1 c1 w2 c2 a2)
    note cs = call_selector_spec [OF again(4,3)]
    have none: "\<forall>k \<in> set pool. free k \<longrightarrow> key_ID k \<in> set used" and v: "vetoed w1 = vetoed w"
      using run_exact [OF again(1)] by (auto simp: free_def Nil_eq_filter)
    have a2: "a2 = filter free pool" using run_exact [OF again(2)] v by (simp add: free_def conj_ac cong: filter_cong)
    then obtain j where j: "j \<in> set pool" "free j" using again(3) by (auto simp: filter_empty_conv)
    have "acceptable pool \<Longrightarrow> \<exists>k. r = Inr k" using cs(4) acceptable_filter a2 by blast
    moreover have "r = Inr k \<Longrightarrow> k \<in> set pool \<and> free k" for k using cs(3) a2 by auto
    ultimately show ?thesis using cs(2,5,6) j none by (auto simp: free_def)
  next
    case (none w1 c1)
    have v: "vetoed w1 = vetoed w" using run_exact [OF none(1)] by simp
    have "\<forall>k \<in> set pool. \<not> free k" using run_exact [OF none(2)] v by (auto simp: free_def Nil_eq_filter)
    then show ?thesis using none(4) by (auto simp: filter_empty_conv)
  qed
  then show "(\<forall>k. r = Inr k \<longrightarrow> k \<in> set pool \<and> free k \<and>
      (key_ID k \<notin> set used \<and> used' = used \<or> used' = [] \<and> (\<forall>j \<in> set pool. free j \<longrightarrow> key_ID j \<in> set used)))"
    "r = Inl AllKeysDead \<longleftrightarrow> (\<forall>k \<in> set pool. key_ID k \<in> set dead)"
    "r = Inl AllKeysFiltered \<longleftrightarrow> (\<exists>k \<in> set pool. key_ID k \<notin> set dead) \<and> (\<forall>k \<in> set pool. \<not> free k)"
    "acceptable pool \<Longrightarrow> (\<exists>k. r = Inr k) \<longleftrightarrow> (\<exists>k \<in> set pool. free k)" by blast+
qed

end

section \<open>The gateway's own filter and selector\<close>

text \<open>The state the hooks of one attempt share: the cooldown state, the time, and how many random
  numbers were drawn.\<close>

record world =
  wd_cool :: cooldown_state
  wd_now :: int
  wd_draws :: nat

definition cooldown_filter :: "world filter_hook" where
  "cooldown_filter w ctx p model keys =
     (case AsFilter (wd_cool w) (Some ctx) p model keys (wd_now w) of
        (s', ctx', out) \<Rightarrow> (w\<lparr>wd_cool := s'\<rparr>, (case ctx' of Some c \<Rightarrow> c | None \<Rightarrow> ctx), Inr out))"

text \<open>\<open>raw\<close> is the stream of the random source; reduced modulo \<open>n\<close> it ranges over all the values
  \<open>rand.Intn(n)\<close> may return. A panic of \<open>WeightedRandom\<close>, which \<open>WeightedRandom_member\<close> rules
  out for weights in range, stands as an error here.\<close>

definition weighted_selector :: "(nat \<Rightarrow> int) \<Rightarrow> world selector_hook" where
  "weighted_selector raw w ctx keys p model =
     (w\<lparr>wd_draws := Suc (wd_draws w)\<rparr>,
      case WeightedRandom (\<lambda>n. raw (wd_draws w) mod n) keys of Some k \<Rightarrow> Inr k | None \<Rightarrow> Inl ''panic'')"

abbreviation cooling :: "world \<Rightarrow> provider \<Rightarrow> string \<Rightarrow> key \<Rightarrow> bool" where
  "cooling w p model k \<equiv> suppressed (wd_cool w) p (key_ID k) model (wd_now w)"

lemma AsFilter_ctx:
  "AsFilter s (Some c) p model keys now = (s', c', out) \<Longrightarrow> \<exists>h. c' = Some (c\<lparr>cx_RetryAfterSeconds := h\<rparr>)"
proof -
  have same: "\<exists>h. c = c\<lparr>cx_RetryAfterSeconds := h\<rparr>" by (rule exI [of _ "cx_RetryAfterSeconds c"]) simp
  show "AsFilter s (Some c) p model keys now = (s', c', out) \<Longrightarrow> ?thesis"
    using same by (auto simp: AsFilter_def Let_def split: if_splits prod.splits)
qed

interpretation cooldown: exact_filter cooldown_filter "\<lambda>w p model k. cooling w p model k"
proof
  fix w :: world and c p m ks w' c' out r
  obtain s1 c1 o1 where a: "AsFilter (wd_cool w) (Some c) p m ks (wd_now w) = (s1, c1, o1)" by (rule prod_cases3)
  obtain h where h: "c1 = Some (c\<lparr>cx_RetryAfterSeconds := h\<rparr>)" using AsFilter_ctx [OF a] by auto
  have v: "cooling (w\<lparr>wd_cool := s1\<rparr>) = cooling w" using keeps_live_suppressed [OF AsFilter_spec(2) [OF a]] by (simp add: fun_eq_iff)
  note run = cooldown_filter_def [of w c p m ks, unfolded a h, simplified]
  show "cooldown_filter w c p m ks = (w', c', Inr out) \<Longrightarrow> set out \<subseteq> set ks"
    using AsFilter_spec(1) [OF a] by (auto simp: run)
  show "cooldown_filter w c p m ks = (w', c', r) \<Longrightarrow> \<exists>h. c' = c\<lparr>cx_RetryAfterSeconds := h\<rparr>"
    by (auto simp: run)
  show "cooldown_filter w c p m ks = (w', c', r) \<Longrightarrow>
      r = Inr (filter (\<lambda>k. \<not> cooling w p m k) ks) \<and> (\<lambda>p m k. cooling w' p m k) = (\<lambda>p m k. cooling w p m k)"
    using AsFilter_spec(1) [OF a] v by (auto simp: run fun_eq_iff)
qed

lemma WeightedRandom_in:
  assumes "ks \<noteq> []" and "WeightedRandom (\<lambda>n. x mod n) ks = Some k"
  shows "k \<in> set ks"
proof -
  have "pick_key r c xs = Some y \<Longrightarrow> y \<in> set xs" for r c xs y
    by (induction r c xs rule: pick_key.induct) (auto simp: Let_def split: if_splits)
  moreover have "nat (x mod int (length ks)) < length ks" using assms(1) by (simp add: nat_less_iff)
  ultimately show ?thesis using assms
    by (auto simp: WeightedRandom_def Let_def split: if_splits option.splits)
qed

interpretation weighted: key_selector "weighted_selector raw" weights_ok for raw
proof
  fix ks p m k and w w' :: world and c P
  show "ks \<noteq> [] \<Longrightarrow> weighted_selector raw w c ks p m = (w', Inr k) \<Longrightarrow> k \<in> set ks"
    using WeightedRandom_in by (auto simp: weighted_selector_def split: option.splits)
  show "weights_ok ks \<Longrightarrow> ks \<noteq> [] \<Longrightarrow> \<exists>w' k. weighted_selector raw w c ks p m = (w', Inr k)"
    using WeightedRandom_member [of ks "\<lambda>n. raw (wd_draws w) mod n"] by (auto simp: weighted_selector_def)
  show "weights_ok ks \<Longrightarrow> weights_ok (filter P ks)" by (rule weights_ok_filter)
qed

interpretation gw_rotation: exact_rotation cooldown_filter "\<lambda>w p model k. cooling w p model k" "weighted_selector raw" weights_ok
  for raw ..

interpretation gw_rotating: rotation cooldown_filter "weighted_selector raw" weights_ok "Some cooldown_filter" p model pool
  for raw p model pool
  by unfold_locales simp

interpretation gw_fixed: fixed_key cooldown_filter "Some cooldown_filter" p model fixedKey
  for p model fixedKey
  by unfold_locales simp


section \<open>Properties\<close>

abbreviation kv_session_ops :: "marshaller \<Rightarrow> kvstore kv_ops" where
  "kv_session_ops marshal \<equiv>
     mk_ops (\<lambda>s k now. kv_Get s k now now) (kv_SetWithTTL marshal) (kv_SetNXWithTTL marshal) kv_Delete"

text \<open>The ways to a pool: none needed, or a choice among the supported keys.\<close>

lemma select_pool_cases:
  assumes "selectKeyFromProviderForModelWithPool gw clk s ctx requestType p model base = (s', Inr (pool, canRotate))"
    and "cx_DirectKey ctx = None"
  obtains (skipped) "pool = []" "\<not> canRotate" "cx_SkipKeySelection ctx = Some True" "isKeySkippingAllowed p"
    | (keyless) "pool = []" "\<not> canRotate" "gw_keys gw p = Inr []" "IsKeylessProvider p"
    | (chosen) keys where "gw_keys gw p = Inr keys"
      "supported_keys requestType model base
        (if isBatchRequestType requestType \<or> isFileRequestType requestType then filter batch_enabled keys else keys) \<noteq> []"
      "choose_from_supported gw clk s ctx p model (supported_keys requestType model base
        (if isBatchRequestType requestType \<or> isFileRequestType requestType then filter batch_enabled keys else keys)) =
        (s', Inr (pool, canRotate))"
proof (cases "cx_SkipKeySelection ctx = Some True \<and> isKeySkippingAllowed p")
  case True
  with assms have "pool = []" "\<not> canRotate" by (auto simp: selectKeyFromProviderForModelWithPool_def)
  with True skipped show thesis by blast
next
  case skip: False
  show thesis
  proof (cases "gw_keys gw p")
    case (Inl e)
    with assms skip show thesis by (simp add: selectKeyFromProviderForModelWithPool_def)
  next
    case (Inr keys)
    note run = assms(1) [unfolded selectKeyFromProviderForModelWithPool_def assms(2) option.case if_not_P [OF skip] Inr sum.case Let_def]
    show thesis
    proof (cases "keys = []")
      case True
      with run have "pool = [] \<and> \<not> canRotate \<and> IsKeylessProvider p" by (auto split: if_splits)
      with keyless Inr True show thesis by blast
    next
      case False
      from chosen [OF Inr] run [unfolded if_not_P [OF False]] show thesis
        by (cases "isBatchRequestType requestType \<or> isFileRequestType requestType") (simp_all split: if_splits)
    qed
  qed
qed

lemma choose_sticky:
  assumes "gw_kv gw = Some ops" and "session_of ctx \<noteq> []" and "first_attempt ctx"
    and "pinned (cx_APIKeyID ctx) = None" and "pinned (cx_APIKeyName ctx) = None" and "length supported \<noteq> 1"
  shows "choose_from_supported gw clk s ctx p model supported =
    sticky_pool gw ops clk s (buildSessionKey (gw_sha256 gw) p (session_of ctx) model) (session_ttl ctx) supported"
  using assms by (simp add: choose_from_supported_def)

text \<open>Every key of the pool may serve the request. A pool that is not empty consists of keys the
  account has configured, validated for the provider, that are enabled, have a value where the provider
  needs one, are enabled for batch work when the request is of that kind, and allow the model without
  blocking it. Rotation is permitted exactly for pools of two or more keys. An empty pool arises only
  for keyless requests.\<close>

lemma pool_keys_eligible:
  assumes "selectKeyFromProviderForModelWithPool gw clk s ctx requestType p model base = (s', Inr (pool, canRotate))"
    and "cx_DirectKey ctx = None" and "\<forall>ks k. ks \<noteq> [] \<longrightarrow> gw_selector gw ks = Inr k \<longrightarrow> k \<in> set ks"
  shows "pool = [] \<and> \<not> canRotate \<and>
      (cx_SkipKeySelection ctx = Some True \<and> isKeySkippingAllowed p \<or> gw_keys gw p = Inr [] \<and> IsKeylessProvider p) \<or>
    (\<exists>configured. gw_keys gw p = Inr configured \<and> pool \<noteq> [] \<and>
      (\<forall>k \<in> set pool. eligible requestType model base configured k) \<and>
      canRotate = (2 \<le> length pool))"
  using assms(1,2)
proof (cases rule: select_pool_cases)
  case (chosen keys)
  note m = choose_mem [OF chosen(3,2)]
  have "\<And>k. gw_selector gw (supported_keys requestType model base
      (if isBatchRequestType requestType \<or> isFileRequestType requestType then filter batch_enabled keys else keys)) = Inr k \<Longrightarrow>
      k \<in> set (supported_keys requestType model base
      (if isBatchRequestType requestType \<or> isFileRequestType requestType then filter batch_enabled keys else keys))"
    using assms(3) chosen(2) by blast
  note m' = m [OF this]
  have "canRotate = (2 \<le> length pool)" using m' by linarith
  moreover have "\<forall>k \<in> set pool. eligible requestType model base keys k"
    using m' supported_keys_eligible by blast
  ultimately show ?thesis using chosen(1) m' by blast
qed simp_all

abbreviation any_key :: "string \<Rightarrow> key" where
  "any_key i \<equiv> (sample_key i)\<lparr>key_Value := ''v'', key_Models := [''*''], key_Weight := (1, 0)\<rparr>"

abbreviation sample_gateway :: "'s kv_ops option \<Rightarrow> 's gateway" where
  "sample_gateway kv \<equiv> \<lparr>gw_keys = (\<lambda>_. Inr [any_key ''a'', any_key ''b'']), gw_selector = (\<lambda>ks. Inr (hd ks)),
     gw_kv = kv, gw_unmarshal = (\<lambda>_. None), gw_sha256 = (\<lambda>x. x)\<rparr>"

text \<open>C26: session stickiness. Once a request of a session has been given a key, a later request of
  the same session, provider and model within the session's lifetime is given the same key, as long
  as the key is still supported; this holds whichever key the selector would now choose.\<close>

theorem session_sticky:
  fixes gw :: "kvstore gateway"
  assumes "gw_kv gw = Some (kv_session_ops marshal)" and "\<forall>v. \<exists>j. marshal (GStr v) = Inr j"
    and "kv_inv s" and "\<not> kv_closed s"
    and "session_of ctx \<noteq> []" and "session_of ctx2 = session_of ctx" and "first_attempt ctx" and "first_attempt ctx2"
    and "pinned (cx_APIKeyID ctx) = None" and "pinned (cx_APIKeyName ctx) = None"
    and "pinned (cx_APIKeyID ctx2) = None" and "pinned (cx_APIKeyName ctx2) = None"
    and "length supported \<noteq> 1" and "length supported2 \<noteq> 1"
    and "0 \<le> clk 0" and "clk 0 \<le> clk 1" and "clk 1 \<le> clk 2" and "clk 2 + session_ttl ctx < 2 ^ 63"
    and "session_entry_ok (gw_unmarshal gw) (kv_view s (clk 0) (buildSessionKey (gw_sha256 gw) p (session_of ctx) model))"
    and "choose_from_supported gw clk s ctx p model supported = (s', Inr (pool, r))"
    and "clk 2 \<le> clk2 0" and "clk2 0 < clk 1 + session_ttl ctx"
    and "distinct (map key_ID supported2)"
  shows "\<exists>key. pool = [key] \<and> (key \<in> set supported2 \<and> key_ID key \<noteq> [] \<longrightarrow>
    snd (choose_from_supported gw clk2 s' ctx2 p model supported2) = Inr ([key], False))"
proof -
  let ?k = "buildSessionKey (gw_sha256 gw) p (session_of ctx) model"
  have k: "?k \<noteq> []" by (simp add: buildSessionKey_def)
  have ttl: "0 < session_ttl ctx"
    by (simp add: session_ttl_def DefaultSessionStickyTTL_def second_ns_def split: option.splits)
  have run: "sticky_pool gw (kv_session_ops marshal) clk s ?k (session_ttl ctx) supported = (s', Inr (pool, r))"
    using assms(20) unfolding choose_sticky [OF assms(1,5,7,9,10,13)] .
  have op: "kv_open s" using assms(3,4) by simp
  have s2: "session_of ctx2 \<noteq> []" using assms(5,6) by simp
  obtain key where key: "pool = [key]" "kv_open s'"
    "\<And>t. clk 2 \<le> t \<Longrightarrow> t < clk 1 + session_ttl ctx \<Longrightarrow> kv_view s' t ?k = Some (GStr (key_ID key))"
    by (rule kv.sticky_stores [OF op k ttl assms(15-18) _ assms(19) run]) (use assms(2) in auto)
  have "snd (choose_from_supported gw clk2 s' ctx2 p model supported2) = Inr ([key], False)"
    if "key \<in> set supported2" "key_ID key \<noteq> []"
    unfolding choose_sticky [OF assms(1) s2 assms(8,11,12,14)] assms(6)
    by (rule kv.sticky_repeats) (use key(2) k key(3) [OF assms(21,22)] that assms(23) in simp_all)
  with key(1) show ?thesis by blast
qed

abbreviation session_ctx :: bctx where
  "session_ctx \<equiv> empty_ctx\<lparr>cx_SessionID := Some ''s1''\<rparr>"

abbreviation str_codec :: marshaller where
  "str_codec \<equiv> (\<lambda>v. case v of GStr b \<Rightarrow> Inr b | _ \<Rightarrow> Inl (ErrCodec ''json''))"

abbreviation sticky_gateway :: "kvstore gateway" where
  "sticky_gateway \<equiv> sample_gateway (Some (kv_session_ops str_codec))"

lemmas session_eval = choose_from_supported_def empty_ctx_def pinned_def session_of_def first_attempt_def
  sticky_pool_def sticky_fresh_def getCachedKeyFromStore_def kv_Get_def kv_get_read_def kv_get_needs_prune_def
  buildSessionKey_def kv_SetNXWithTTL_def validateMutable_def session_ttl_def DefaultSessionStickyTTL_def
  second_ns_def kv_marshal_def

lemma sample_first_request:
  "\<exists>s'. choose_from_supported sticky_gateway (\<lambda>_. 5) kv_fresh session_ctx P_OpenAI ''gpt'' [any_key ''a'', any_key ''b''] =
     (s', Inr ([any_key ''a''], False))"
  by (simp add: session_eval)

theorem session_sticky_witness:
  "snd (choose_from_supported sticky_gateway (\<lambda>_. 9)
     (fst (choose_from_supported sticky_gateway (\<lambda>_. 5) kv_fresh session_ctx P_OpenAI ''gpt'' [any_key ''a'', any_key ''b'']))
     session_ctx P_OpenAI ''gpt'' [any_key ''b'', any_key ''a'']) = Inr ([any_key ''a''], False)"
proof -
  obtain s' where run: "choose_from_supported sticky_gateway (\<lambda>_. 5) kv_fresh session_ctx P_OpenAI ''gpt'' [any_key ''a'', any_key ''b''] =
     (s', Inr ([any_key ''a''], False))" using sample_first_request by blast
  have "\<exists>key. [any_key ''a''] = [key] \<and> (key \<in> set [any_key ''b'', any_key ''a''] \<and> key_ID key \<noteq> [] \<longrightarrow>
    snd (choose_from_supported sticky_gateway (\<lambda>_. 9) s' session_ctx P_OpenAI ''gpt'' [any_key ''b'', any_key ''a'']) = Inr ([key], False))"
    by (rule session_sticky [OF _ _ _ _ _ _ _ _ _ _ _ _ _ _ _ _ _ _ _ run, where marshal = str_codec])
      (simp_all add: session_eval session_entry_ok_def kv_view_def kv_inv_def)
  then show ?thesis unfolding run by simp
qed

text \<open>Two first requests of a session that race agree. If a request finds nothing stored, and
  another request of the session completes before it writes, the first request adopts the other's
  key instead of its own choice.\<close>

lemma session_race_agrees:
  fixes gw gw2 :: "kvstore gateway"
  assumes "\<forall>v. \<exists>j. marshal (GStr v) = Inr j" and "kv_inv s" and "\<not> kv_closed s" and "kvKey \<noteq> []" and "0 < ttl"
    and "kv_view s (clk 0) kvKey = None" and "gw_selector gw supported = Inr mine"
    and "sticky_pool gw2 (kv_session_ops marshal) clk2 (fst (kv_Get s kvKey (clk 0) (clk 0))) kvKey ttl supported2 = (s2, Inr ([key], r))"
    and "0 \<le> clk 0" and "clk 0 \<le> clk2 0" and "clk2 0 \<le> clk2 1" and "clk2 1 \<le> clk2 2" and "clk2 2 \<le> clk 2" and "clk 2 \<le> clk 3"
    and "clk 3 < clk2 1 + ttl" and "clk 2 + ttl < 2 ^ 63"
    and "key \<in> set supported" and "distinct (map key_ID supported)" and "key_ID key \<noteq> []"
  shows "snd (sticky_pool gw
      (mk_ops (\<lambda>s k now. kv_Get s k now now) (kv_SetWithTTL marshal)
        (\<lambda>t. kv_SetNXWithTTL marshal (fst (sticky_pool gw2 (kv_session_ops marshal) clk2 t kvKey ttl supported2))) kv_Delete)
      clk s kvKey ttl supported) = Inr ([key], False)"
proof -
  have op: "kv_open s" using assms by simp
  let ?s1 = "fst (kv_Get s kvKey (clk 0) (clk 0))"
  have op1: "kv_open ?s1" using kv.get_inv [OF op] .
  have "kv_view ?s1 (clk2 0) kvKey = None"
    using kv.get_view [OF op assms(10)] kv.view_expires [OF op assms(6,10)] by simp
  then have ok: "session_entry_ok (gw_unmarshal gw2) (kv_view ?s1 (clk2 0) kvKey)" by (simp add: session_entry_ok_def)
  have t: "0 \<le> clk2 0" "clk2 2 + ttl < 2 ^ 63" using assms by linarith+
  obtain key' where key: "[key] = [key']" "kv_open s2"
    "\<And>t. clk2 2 \<le> t \<Longrightarrow> t < clk2 1 + ttl \<Longrightarrow> kv_view s2 t kvKey = Some (GStr (key_ID key'))"
    by (rule kv.sticky_stores [OF op1 assms(4,5) t(1) assms(11,12) t(2) _ ok assms(8)]) (use assms(1) in auto)
  let ?env = "\<lambda>t. fst (sticky_pool gw2 (kv_session_ops marshal) clk2 t kvKey ttl supported2)"
  have e: "?env ?s1 = s2" using assms(8) by simp
  have c: "clk 0 \<le> clk 2" "0 \<le> clk 2" using assms by linarith+
  show ?thesis
  proof (rule kv.sticky_race)
    show "kv_open s" "kvKey \<noteq> []" "0 < ttl" "kv_view s (clk 0) kvKey = None" "gw_selector gw supported = Inr mine"
      by (fact op assms)+
    show "kv_open (?env ?s1)" unfolding e by (rule key(2))
    show "kv_view (?env ?s1) t kvKey = Some (GStr (key_ID key))" if "clk 2 \<le> t" "t \<le> clk 3" for t
      unfolding e using key(1) key(3) [of t] that assms(13,15) by auto
  qed (use assms c in auto)
qed


text \<open>C34: weighted selection is fair. For weights in range that are not all zero, of the draws below
  the total weight exactly as many select a key as the key has weight, in hundredths; with all
  weights zero every position of the pool corresponds to one draw.\<close>

theorem weighted_random_share:
  assumes "weights_ok ks" and "ks \<noteq> []"
  shows "(0 < total_weight ks \<longrightarrow>
      int (card {r. 0 \<le> r \<and> r < total_weight ks \<and> WeightedRandom (\<lambda>_. r) ks = Some k}) =
        sum_list (map weight_units (filter (\<lambda>x. x = k) ks))) \<and>
    (total_weight ks = 0 \<longrightarrow> (\<forall>i < length ks. WeightedRandom (\<lambda>_. int i) ks = Some (ks ! i)))"
proof -
  have nn: "\<forall>k \<in> set ks. 0 \<le> weight_units k" and b: "0 + sum_list (map weight_units ks) < 2 ^ 63"
    using assms(1) by (auto simp: weights_ok_def)
  note t = total_weight_sum [OF assms(1)]
  have "WeightedRandom (\<lambda>_. r) ks = Some k \<longleftrightarrow> pick_key r 0 ks = Some k" if "0 < total_weight ks" "0 \<le> r" "r < total_weight ks" for r
    using pick_key_total [OF nn _ b, of r] that t by (auto simp: WeightedRandom_def Let_def)
  then have "{r. 0 \<le> r \<and> r < total_weight ks \<and> WeightedRandom (\<lambda>_. r) ks = Some k} =
      {r. 0 \<le> r \<and> r < 0 + sum_list (map weight_units ks) \<and> pick_key r 0 ks = Some k}" if "0 < total_weight ks"
    using that t by auto
  with pick_key_share [OF nn _ b] show ?thesis using assms(2) by (simp add: WeightedRandom_def)
qed

theorem weighted_random_share_witness:
  "int (card {r. 0 \<le> r \<and> r < 400 \<and>
      WeightedRandom (\<lambda>_. r) [any_key ''a'', (any_key ''b'')\<lparr>key_Weight := (3, 0)\<rparr>] = Some ((any_key ''b'')\<lparr>key_Weight := (3, 0)\<rparr>)}) = 300"
proof -
  let ?ks = "[any_key ''a'', (any_key ''b'')\<lparr>key_Weight := (3, 0)\<rparr>]"
  have ok: "weights_ok ?ks" and t: "total_weight ?ks = 400" and w: "weight_units ((any_key ''b'')\<lparr>key_Weight := (3, 0)\<rparr>) = 300"
    by code_simp+
  have "any_key ''a'' \<noteq> (any_key ''b'')\<lparr>key_Weight := (3, 0)\<rparr>" by (simp add: zero_key_def)
  with weighted_random_share [OF ok, of "(any_key ''b'')\<lparr>key_Weight := (3, 0)\<rparr>"] t w show ?thesis by simp
qed

text \<open>C35: the wait before a retry. As long as the doubled initial backoff fits into 63 bits, the wait
  is never longer than the configured maximum and never shorter than about four fifths of the capped
  exponential backoff.\<close>

theorem backoff_bounds:
  assumes "0 \<le> nc_RetryBackoffInitial (pc_Network cfg)" and "attempt < 63"
    and "nc_RetryBackoffInitial (pc_Network cfg) * 2 ^ attempt < 2 ^ 63"
    and "0 \<le> nc_RetryBackoffMax (pc_Network cfg)" and "0 \<le> u" and "u < 2 ^ 53"
    and "b = min (nc_RetryBackoffInitial (pc_Network cfg) * 2 ^ attempt) (nc_RetryBackoffMax (pc_Network cfg))"
  shows "79 / 100 * real_of_int b - 1 \<le> real_of_int (calculateBackoff u attempt cfg) \<and>
    calculateBackoff u attempt cfg \<le> nc_RetryBackoffMax (pc_Network cfg) \<and>
    real_of_int (calculateBackoff u attempt cfg) \<le> 121 / 100 * real_of_int b \<and>
    0 \<le> calculateBackoff u attempt cfg"
proof (intro conjI)
  have r: "raw_backoff attempt cfg = b" using raw_backoff_exact [OF assms(1-3)] assms(7) by simp
  have b: "0 \<le> b" "b \<le> nc_RetryBackoffMax (pc_Network cfg)" using assms(1,4,7) by simp_all
  note j = jitter_bounds [OF assms(5,6) b(1)]
  show "79 / 100 * real_of_int b - 1 \<le> real_of_int (calculateBackoff u attempt cfg)"
    using j(1) b by (auto simp: calculateBackoff_def r min_def)
  show "calculateBackoff u attempt cfg \<le> nc_RetryBackoffMax (pc_Network cfg)" by (simp add: calculateBackoff_def)
  show "real_of_int (calculateBackoff u attempt cfg) \<le> 121 / 100 * real_of_int b"
    using j(2) b by (auto simp: calculateBackoff_def r min_def)
  show "0 \<le> calculateBackoff u attempt cfg" using j(3) assms(4) by (simp add: calculateBackoff_def r)
qed

abbreviation sample_config :: "int \<Rightarrow> provider_config" where
  "sample_config retries \<equiv> \<lparr>pc_Network = \<lparr>nc_DefaultRequestTimeoutInSeconds = 30, nc_MaxRetries = retries,
     nc_RetryBackoffInitial = DefaultRetryBackoffInitial, nc_RetryBackoffMax = DefaultRetryBackoffMax,
     nc_StreamIdleTimeoutInSeconds = 60, nc_KeepAliveTimeoutInSeconds = 30, nc_MaxConnsPerHost = 10,
     nc_HTTP2PingIntervalInSeconds = 0, nc_ExtraHeaders = [], nc_BetaHeaderOverrides = []\<rparr>,
     pc_Concurrency = 1, pc_BufferSize = 1, pc_CooldownPolicy = None,
     pc_SendBackRawRequest = False, pc_SendBackRawResponse = False, pc_StoreRawRequestResponse = False, pc_Custom = None\<rparr>"

theorem backoff_bounds_witness:
  "0 \<le> calculateBackoff 7 2 (sample_config 3) \<and> calculateBackoff 7 2 (sample_config 3) \<le> DefaultRetryBackoffMax"
  using backoff_bounds [of "sample_config 3" 2 7 "min (DefaultRetryBackoffInitial * 2 ^ 2) DefaultRetryBackoffMax"] by simp

text \<open>Beyond that range the backoff fails. With the default settings the thirty-sixth retry
  multiplies past 63 bits; the wait becomes negative, so the retry follows at once instead of after
  the maximum of five seconds.\<close>

lemma backoff_wraps:
  "calculateBackoff 0 35 (sample_config 40) < 0"
proof -
  have "raw_backoff 35 (sample_config 40) = - 1266874889709551616"
    by (simp add: raw_backoff_def shl1_def wrap64_def)
  then have "calculateBackoff 0 35 (sample_config 40) \<le> - jitter 0 1266874889709551616"
    by (simp add: calculateBackoff_def jitter_neg)
  moreover have "0 < jitter 0 1266874889709551616" using jitter_bounds(1) [of 0 1266874889709551616] by simp
  ultimately show ?thesis by linarith
qed

text \<open>C27: what the rotating key provider returns, with the cooldown plugin as filter and weighted
  random selection. A key it returns is of the pool, not dead, not cooling down, and not used in this
  cycle unless every key that is neither dead nor cooling down has been used, in which case the cycle
  starts anew. It reports dead credentials exactly when every key is dead, and a filtered pool exactly
  when some key is alive and all those are cooling down.\<close>

theorem rotation_outcome:
  assumes "rotatingKeyProvider (Some cooldown_filter) (weighted_selector raw) p model pool w c used dead = (w', c', used', r)"
    and "weights_ok pool"
    and "free = (\<lambda>k. key_ID k \<notin> set dead \<and> \<not> suppressed (wd_cool w) p (key_ID k) model (wd_now w))"
  shows "(\<forall>k. r = Inr k \<longrightarrow> k \<in> set pool \<and> free k \<and>
      (key_ID k \<notin> set used \<and> used' = used \<or> used' = [] \<and> (\<forall>j \<in> set pool. free j \<longrightarrow> key_ID j \<in> set used))) \<and>
    ((\<exists>k. r = Inr k) \<longleftrightarrow> (\<exists>k \<in> set pool. free k)) \<and>
    (r = Inl AllKeysDead \<longleftrightarrow> (\<forall>k \<in> set pool. key_ID k \<in> set dead)) \<and>
    (r = Inl AllKeysFiltered \<longleftrightarrow> (\<exists>k \<in> set pool. key_ID k \<notin> set dead) \<and> (\<forall>k \<in> set pool. \<not> free k))"
  unfolding assms(3) by (intro conjI gw_rotation.exact_outcome [OF assms(1)] assms(2))

abbreviation cooled_world :: world where
  "cooled_world \<equiv> \<lparr>wd_cool = cooled, wd_now = 120, wd_draws = 0\<rparr>"

theorem rotation_outcome_witness:
  "\<exists>k. snd (snd (snd (rotatingKeyProvider (Some cooldown_filter) (weighted_selector (\<lambda>_. 0)) P_OpenAI ''gpt''
     [any_key ''k1'', any_key ''k2''] cooled_world empty_ctx [] []))) = Inr k \<and> key_ID k \<noteq> ''k1''"
proof -
  let ?pool = "[any_key ''k1'', any_key ''k2'']"
  obtain w' c' used' r where run: "rotatingKeyProvider (Some cooldown_filter) (weighted_selector (\<lambda>_. 0)) P_OpenAI ''gpt''
     ?pool cooled_world empty_ctx [] [] = (w', c', used', r)" by (rule prod_cases4)
  have ok: "weights_ok ?pool" by code_simp
  have cool: "suppressed cooled P_OpenAI ''k1'' ''gpt'' 120" "\<not> suppressed cooled P_OpenAI ''k2'' ''gpt'' 120"
    by (simp_all add: suppressed_def live_rec_def cd_eval)
  note o = rotation_outcome [OF run ok refl]
  have "key_ID (any_key ''k2'') \<notin> set [] \<and> \<not> suppressed (wd_cool cooled_world) P_OpenAI (key_ID (any_key ''k2'')) ''gpt'' (wd_now cooled_world)"
    using cool by simp
  then have "\<exists>k \<in> set ?pool. key_ID k \<notin> set [] \<and> \<not> suppressed (wd_cool cooled_world) P_OpenAI (key_ID k) ''gpt'' (wd_now cooled_world)"
    by (metis list.set_intros)
  then obtain k where k: "r = Inr k" using o by blast
  then have "\<not> suppressed cooled P_OpenAI (key_ID k) ''gpt'' 120" using o by simp
  then show ?thesis unfolding run using k cool by auto
qed

end
