(* ===== verification/Retry.thy ===== *)
theory Retry
  imports KeySelection
begin

text \<open>
  The retry loop of one provider attempt: \<open>executeRequestWithRetries\<close> of
  \<open>core/bifrost.go\<close> with the error classification of \<open>core/utils.go\<close>, the
  encrypted-reasoning fail-soft of \<open>core/encryptedreasoning.go\<close> and the first-chunk check of
  \<open>core/providers/utils/stream.go\<close>.

  The upstream call, the key provider, the failure marker and the JSON library are arguments of the
  loop (record \<open>retry_env\<close>); they act on a world state of any type. The loop's local variables are
  the record \<open>retry_state\<close>. Two of its fields are not in the code and only record what happened:
  \<open>rt_calls\<close>, the upstream calls with their outcomes, and \<open>rt_sleeps\<close>, the backoff waits. Tracing
  spans and debug output are left out; the request fails without a tracer, as in the code.
\<close>

section \<open>Error classification\<close>

definition transientServerStatusCodes :: "int list" where
  "transientServerStatusCodes = [500, 502, 503, 504]"

definition perKeyFailureStatusCodes :: "int list" where
  "perKeyFailureStatusCodes = [401, 402, 403, 429]"

definition rateLimitPatterns :: "string list" where
  "rateLimitPatterns =
    [''rate limit'', ''rate_limit'', ''ratelimit'', ''too many requests'', ''quota exceeded'', ''quota_exceeded'',
     ''request limit'', ''throttled'', ''throttling'', ''rate exceeded'', ''limit exceeded'', ''requests per'',
     ''rpm exceeded'', ''tpm exceeded'', ''tokens per minute'', ''requests per minute'', ''requests per second'',
     ''api rate limit'', ''usage limit'', ''concurrent requests limit'', ''burst_rate'', ''rate increased'']"

definition IsRateLimitErrorMessage :: "string \<Rightarrow> bool" where
  "IsRateLimitErrorMessage m \<longleftrightarrow>
     m \<noteq> [] \<and> list_ex (\<lambda>p. str_contains (to_lower m) p) rateLimitPatterns"

definition routingErrorSummary :: "bifrost_error option \<Rightarrow> string" where
  "routingErrorSummary err =
     (case err of
        None \<Rightarrow> ''unknown error''
      | Some e \<Rightarrow>
          (let kind = (case err_type e of
                         Some t \<Rightarrow> if t \<noteq> [] then [t]
                                   else (case be_Type e of Some u \<Rightarrow> if u \<noteq> [] then [u] else [] | None \<Rightarrow> [])
                       | None \<Rightarrow> (case be_Type e of Some u \<Rightarrow> if u \<noteq> [] then [u] else [] | None \<Rightarrow> []));
               code = (case be_StatusCode e of Some c \<Rightarrow> [''HTTP '' @ itoa c] | None \<Rightarrow> []);
               parts = kind @ code
           in if parts = [] then ''request failed''
              else (case parts of [a] \<Rightarrow> a | a # b # _ \<Rightarrow> a @ '' '' @ b | [] \<Rightarrow> [])))"

definition newBifrostErrorFromMsg :: "string \<Rightarrow> bifrost_error" where
  "newBifrostErrorFromMsg m =
     zero_error\<lparr>be_Error := Some \<lparr>ef_Type = None, ef_Code = None, ef_Message = m, ef_Error = None\<rparr>\<rparr>"

text \<open>\<open>timedOut\<close> says whether the context's error is \<open>DeadlineExceeded\<close>; \<open>text\<close> is its text.\<close>

definition newBifrostCtxDoneError :: "bool \<Rightarrow> string \<Rightarrow> string \<Rightarrow> bifrost_error" where
  "newBifrostCtxDoneError timedOut text stage =
     zero_error\<lparr>be_IsBifrostError := True, be_StatusCode := Some (if timedOut then 504 else 499),
       be_AllowFallbacks := Some False,
       be_Error := Some \<lparr>ef_Type = Some (if timedOut then RequestTimedOut else RequestCancelled), ef_Code = None,
         ef_Message = (if timedOut then ''request timed out '' else ''request cancelled '') @ stage @ '': '' @ text,
         ef_Error = Some text\<rparr>\<rparr>"

definition newBifrostQueueFullError :: bifrost_error where
  "newBifrostQueueFullError =
     zero_error\<lparr>be_IsBifrostError := True, be_StatusCode := Some 503,
       be_Error := Some \<lparr>ef_Type = Some RequestDropped, ef_Code = None,
         ef_Message = ''request dropped: queue is full'', ef_Error = None\<rparr>\<rparr>"

definition noEligibleKeysErrorType :: string where
  "noEligibleKeysErrorType = ''no_eligible_keys''"

definition isSyntheticNoEligibleKeysError :: "bifrost_error option \<Rightarrow> bool" where
  "isSyntheticNoEligibleKeysError err =
     (case err of
        None \<Rightarrow> False
      | Some e \<Rightarrow>
          (case be_StatusCode e of
             None \<Rightarrow> False
           | Some c \<Rightarrow> (c = 429 \<or> c = 503) \<and> be_Type e = Some noEligibleKeysErrorType))"

abbreviation ErrProviderDoRequest :: string where
  "ErrProviderDoRequest \<equiv> ''failed to execute HTTP request to provider API''"

abbreviation ErrProviderNetworkError :: string where
  "ErrProviderNetworkError \<equiv>
     ''network error occurred while connecting to provider API (DNS lookup, connection refused, etc.)''"

text \<open>The three questions the loop asks of a failure: does it end the request, is it bound to the key,
  and may it be retried.\<close>

definition ends_request :: "bifrost_error \<Rightarrow> bool" where
  "ends_request e \<longleftrightarrow> be_IsBifrostError e \<or> err_type e = Some RequestCancelled"

definition isPerKeyFailure :: "bifrost_error \<Rightarrow> bool" where
  "isPerKeyFailure e \<longleftrightarrow>
     (case be_StatusCode e of Some c \<Rightarrow> c \<in> set perKeyFailureStatusCodes | None \<Rightarrow> False) \<or>
     (case be_Error e of
        None \<Rightarrow> False
      | Some f \<Rightarrow>
          IsRateLimitErrorMessage (ef_Message f) \<or>
          (case ef_Type f of Some t \<Rightarrow> IsRateLimitErrorMessage t | None \<Rightarrow> False) \<or>
          (case ef_Code f of Some c \<Rightarrow> IsRateLimitErrorMessage c | None \<Rightarrow> False))"

definition is_network_error :: "bifrost_error \<Rightarrow> bool" where
  "is_network_error e =
     (case be_Error e of
        None \<Rightarrow> False
      | Some f \<Rightarrow> ef_Message f = ErrProviderDoRequest \<or> ef_Message f = ErrProviderNetworkError)"

definition retryable :: "bifrost_error \<Rightarrow> bool" where
  "retryable e \<longleftrightarrow>
     is_network_error e \<or>
     (case be_StatusCode e of Some c \<Rightarrow> c \<in> set transientServerStatusCodes | None \<Rightarrow> False) \<or>
     isPerKeyFailure e"

definition permanent_status :: "bifrost_error \<Rightarrow> bool" where
  "permanent_status e \<longleftrightarrow> be_StatusCode e \<in> {Some 401, Some 402, Some 403}"

definition fail_reason :: "bifrost_error \<Rightarrow> string" where
  "fail_reason e =
     (if be_StatusCode e = Some 429 then ''rate_limit_error''
      else if be_StatusCode e = Some 401 \<or> be_StatusCode e = Some 403 then ''authentication_error''
      else if be_StatusCode e = Some 402 then ''billing_error''
      else (case err_type e of Some t \<Rightarrow> if t \<noteq> [] then t else ''unknown'' | None \<Rightarrow> ''unknown''))"

section \<open>Rejected encrypted reasoning\<close>

definition encryptedContentErrorCode :: string where
  "encryptedContentErrorCode = ''invalid_encrypted_content''"

definition backtick :: string where
  "backtick = [char_of (96 :: nat)]"

definition isEncryptedReasoningRejection :: "bifrost_error \<Rightarrow> bool" where
  "isEncryptedReasoningRejection e =
     (case be_Error e of
        None \<Rightarrow> False
      | Some f \<Rightarrow>
          be_StatusCode e = Some 400 \<and>
          ((case ef_Code f of Some c \<Rightarrow> str_contains c encryptedContentErrorCode | None \<Rightarrow> False) \<or>
           (let m = to_lower (ef_Message f)
            in str_contains m encryptedContentErrorCode \<or>
               (str_contains m ''encrypted content'' \<and> str_contains m ''could not be verified'') \<or>
               (str_contains m (''invalid '' @ backtick @ ''data'' @ backtick) \<and>
                str_contains m (backtick @ ''redacted_thinking'' @ backtick @ '' block'')))))"

text \<open>The first of the three request shapes that is set.\<close>

definition encryptedReasoningCarriers :: "brequest \<Rightarrow> string option" where
  "encryptedReasoningCarriers r =
     (if gm_get (br_subs r) ''ResponsesRequest'' \<noteq> None then Some ''ResponsesRequest''
      else if gm_get (br_subs r) ''CountTokensRequest'' \<noteq> None then Some ''CountTokensRequest''
      else if gm_get (br_subs r) ''CompactionRequest'' \<noteq> None then Some ''CompactionRequest''
      else None)"

definition carries_encrypted :: "responses_message \<Rightarrow> bool" where
  "carries_encrypted m = (case rm_Reasoning m of None \<Rightarrow> False | Some r \<Rightarrow> rs_EncryptedContent r \<noteq> None)"

definition says_something :: "responses_message \<Rightarrow> bool" where
  "says_something m \<longleftrightarrow>
     (case rm_Reasoning m of None \<Rightarrow> True | Some r \<Rightarrow> rs_Summary r \<noteq> []) \<or>
     (case rm_Content m of None \<Rightarrow> False | Some c \<Rightarrow> ct_Blocks c \<noteq> [] \<or> ct_Str c \<noteq> None)"

definition strip_message :: "responses_message \<Rightarrow> responses_message option" where
  "strip_message m =
     (if \<not> carries_encrypted m then Some m
      else
        (let m' = m\<lparr>rm_Reasoning := map_option (\<lambda>r. r\<lparr>rs_EncryptedContent := None\<rparr>) (rm_Reasoning m)\<rparr>
         in if says_something m' then Some m' else None))"

text \<open>What the code uses of the JSON libraries: reading the \<open>input\<close> array, looking for and deleting the
  field of an item, and writing the array back.\<close>

record json_ops =
  js_input :: "string \<Rightarrow> string list option"
  js_encrypted :: "string \<Rightarrow> bool"
  js_delete :: "string \<Rightarrow> string option"
  js_empty_item :: "string \<Rightarrow> bool"
  js_set_input :: "string \<Rightarrow> string \<Rightarrow> string option"

definition strip_raw_item :: "json_ops \<Rightarrow> string \<Rightarrow> string option" where
  "strip_raw_item js item =
     (if \<not> js_encrypted js item then Some item
      else (case js_delete js item of
              None \<Rightarrow> Some item
            | Some rest \<Rightarrow> if js_empty_item js rest then None else Some rest))"

fun join_comma :: "string list \<Rightarrow> string" where
  "join_comma [] = []"
| "join_comma [x] = x"
| "join_comma (x # y # ys) = x @ '','' @ join_comma (y # ys)"

definition stripRawResponsesEncryptedContent :: "json_ops \<Rightarrow> string \<Rightarrow> string option" where
  "stripRawResponsesEncryptedContent js body =
     (if body = [] then None
      else (case js_input js body of
              None \<Rightarrow> None
            | Some items \<Rightarrow>
                if \<not> list_ex (js_encrypted js) items then None
                else js_set_input js body (''['' @ join_comma (List.map_filter (strip_raw_item js) items) @ '']'')))"

text \<open>\<open>None\<close> when nothing changed, otherwise the rewritten request.\<close>

definition stripResponsesEncryptedContent :: "json_ops \<Rightarrow> bctx \<Rightarrow> brequest option \<Rightarrow> brequest option" where
  "stripResponsesEncryptedContent js ctx req =
     (case req of
        None \<Rightarrow> None
      | Some r \<Rightarrow>
          (case encryptedReasoningCarriers r of
             None \<Rightarrow> None
           | Some field \<Rightarrow>
               (case gm_get (br_subs r) field of
                  None \<Rightarrow> None
                | Some q \<Rightarrow>
                    if cx_LargePayloadMode ctx = Some True then None
                    else if cx_UseRawRequestBody ctx = Some True then
                      (case stripRawResponsesEncryptedContent js (sq_RawRequestBody q) of
                         None \<Rightarrow> None
                       | Some body \<Rightarrow> Some (r\<lparr>br_subs := gm_set field (q\<lparr>sq_RawRequestBody := body\<rparr>) (br_subs r)\<rparr>))
                    else if \<not> list_ex carries_encrypted (sq_Input q) then None
                    else Some (r\<lparr>br_subs := gm_set field
                           (q\<lparr>sq_Input := List.map_filter strip_message (sq_Input q)\<rparr>) (br_subs r)\<rparr>))))"

section \<open>Replies and the first-chunk check\<close>

text \<open>A reply is a response or a stream, given by the chunks its channel delivers until it is closed.
  A chunk is a payload and perhaps an error.\<close>

type_synonym 'r chunk = "'r \<times> bifrost_error option"

datatype 'r reply = Response 'r | StreamOf "'r chunk list"

definition chunk_error :: "'r chunk \<Rightarrow> bifrost_error option" where
  "chunk_error c =
     (case snd c of
        None \<Rightarrow> None
      | Some e \<Rightarrow>
          (case be_Error e of
             None \<Rightarrow> None
           | Some f \<Rightarrow> if ef_Message f \<noteq> [] \<or> ef_Code f \<noteq> None \<or> ef_Type f \<noteq> None then Some e else None))"

text \<open>The wrapped stream, \<open>None\<close> for an empty one, and the error of the first chunk.\<close>

definition CheckFirstStreamChunkForError :: "'r chunk list \<Rightarrow> 'r chunk list option \<times> bifrost_error option" where
  "CheckFirstStreamChunkForError stream =
     (case stream of
        [] \<Rightarrow> (None, None)
      | c # cs \<Rightarrow>
          (case chunk_error c of
             Some e \<Rightarrow> (None, Some e)
           | None \<Rightarrow> (Some (c # cs), None)))"

text \<open>The reply and error of an attempt after the check. An empty stream becomes a closed channel.\<close>

definition settle_reply :: "bctx \<Rightarrow> 'r reply \<Rightarrow> bifrost_error option \<Rightarrow> bctx \<times> 'r reply \<times> bifrost_error option" where
  "settle_reply ctx res err =
     (case err of
        Some e \<Rightarrow> (ctx, res, Some e)
      | None \<Rightarrow>
          (case res of
             Response x \<Rightarrow> (ctx, res, None)
           | StreamOf s \<Rightarrow>
               (case CheckFirstStreamChunkForError s of
                  (_, Some e) \<Rightarrow> (ctx\<lparr>cx_ConnectionClosed := None\<rparr>, res, Some e)
                | (None, None) \<Rightarrow> (ctx, StreamOf [], None)
                | (Some s', None) \<Rightarrow> (ctx, StreamOf s', None))))"


section \<open>The loop\<close>

type_synonym 'w marker_hook = "'w \<Rightarrow> bctx \<Rightarrow> provider \<Rightarrow> string \<Rightarrow> string \<Rightarrow> string \<Rightarrow> bifrost_error \<Rightarrow> 'w \<times> bctx"

text \<open>The handler gets the key and closes over the context and the request, both of which it may
  change; \<open>re_zero\<close> is the zero value of the result type and \<open>re_rand\<close> the random number drawn for
  each wait. \<open>re_deadText\<close> is the text of the key provider's error when all keys are dead: the fixed
  provider returns the sentinel itself, the rotating one wraps it with the provider's name.\<close>

definition errAllKeysDead :: string where
  "errAllKeysDead = ''all configured keys returned permanent per-key errors (401/402/403)''"

definition rotating_dead_text :: "provider \<Rightarrow> string" where
  "rotating_dead_text p = errAllKeysDead @ '': provider '' @ p"

record ('w, 'r) retry_env =
  re_config :: provider_config
  re_handler :: "'w \<Rightarrow> bctx \<Rightarrow> brequest option \<Rightarrow> key \<Rightarrow> 'w \<times> bctx \<times> brequest option \<times> 'r reply \<times> bifrost_error option"
  re_keyProvider :: "'w key_provider_fn option"
  re_deadText :: string
  re_marker :: "'w marker_hook option"
  re_requestType :: string
  re_provider :: provider
  re_model :: string
  re_json :: json_ops
  re_zero :: "'r reply"
  re_rand :: "int \<Rightarrow> int"

record call =
  cl_key :: key
  cl_error :: "bifrost_error option"

record ('w, 'r) retry_state =
  rt_world :: 'w
  rt_ctx :: bctx
  rt_req :: "brequest option"
  rt_attempts :: int
  rt_currentKey :: key
  rt_used :: "string list"
  rt_dead :: "string list"
  rt_lastPerKey :: bool
  rt_lastPermanent :: bool
  rt_previousKeyID :: string
  rt_pending :: "nat option"
  rt_extra :: int
  rt_stripped :: bool
  rt_lastStrip :: bool
  rt_result :: "'r reply"
  rt_error :: "bifrost_error option"
  rt_calls :: "call list"
  rt_sleeps :: "int list"
  rt_marks :: "string list"

definition retry_start :: "('w, 'r) retry_env \<Rightarrow> 'w \<Rightarrow> bctx \<Rightarrow> brequest option \<Rightarrow> ('w, 'r) retry_state" where
  "retry_start env w ctx req =
     \<lparr>rt_world = w, rt_ctx = ctx, rt_req = req, rt_attempts = 0, rt_currentKey = zero_key, rt_used = [],
       rt_dead = [], rt_lastPerKey = False, rt_lastPermanent = False, rt_previousKeyID = [], rt_pending = None,
       rt_extra = 0, rt_stripped = False, rt_lastStrip = False, rt_result = re_zero env, rt_error = None,
       rt_calls = [], rt_sleeps = [], rt_marks = []\<rparr>"

definition budget :: "('w, 'r) retry_env \<Rightarrow> ('w, 'r) retry_state \<Rightarrow> int" where
  "budget env s = nc_MaxRetries (pc_Network (re_config env)) + rt_extra s"

definition clear_selected :: "bctx \<Rightarrow> bctx" where
  "clear_selected ctx = ctx\<lparr>cx_SelectedKeyID := Some [], cx_SelectedKeyName := Some []\<rparr>"

text \<open>The start of an attempt: the retry counter, and a fresh trail on the first one.\<close>

definition begin_attempt :: "('w, 'r) retry_env \<Rightarrow> ('w, 'r) retry_state \<Rightarrow> ('w, 'r) retry_state" where
  "begin_attempt env s =
     (let c = (rt_ctx s)\<lparr>cx_NumberOfRetries := Some (rt_attempts s)\<rparr>
      in s\<lparr>rt_ctx := (if re_keyProvider env \<noteq> None \<and> rt_attempts s = 0 then c\<lparr>cx_AttemptTrail := Some []\<rparr> else c)\<rparr>)"

text \<open>What the caller gets when no key can be selected.\<close>

definition key_selection_error :: "provider \<Rightarrow> string \<Rightarrow> bctx \<Rightarrow> provider_error \<Rightarrow> bifrost_error" where
  "key_selection_error p deadText ctx err =
     (case err of
        AllKeysFiltered \<Rightarrow>
          (let retryAfter = (case cx_RetryAfterSeconds ctx of Some v \<Rightarrow> if v > 0 then v else 0 | None \<Rightarrow> 0)
           in zero_error\<lparr>be_StatusCode := Some 429, be_Type := Some noEligibleKeysErrorType,
                be_Error := Some \<lparr>ef_Type = Some noEligibleKeysErrorType, ef_Code = None,
                  ef_Message = NoEligibleKeysMessage p retryAfter, ef_Error = None\<rparr>,
                be_RetryAfterSeconds := retryAfter\<rparr>)
      | AllKeysDead \<Rightarrow>
          zero_error\<lparr>be_StatusCode := Some 502, be_Type := Some ''upstream_credentials_exhausted'',
            be_Error := Some \<lparr>ef_Type = Some ''upstream_credentials_exhausted'', ef_Code = None,
              ef_Message = deadText, ef_Error = None\<rparr>\<rparr>
      | SelectorError m \<Rightarrow> newBifrostErrorFromMsg m)"

text \<open>A pending rotation is confirmed when the newly selected key differs from the one that failed.\<close>

definition confirm_rotation :: "nat option \<Rightarrow> key \<Rightarrow> bctx \<Rightarrow> bctx" where
  "confirm_rotation pending k ctx =
     (case pending of
        None \<Rightarrow> ctx
      | Some i \<Rightarrow>
          (case cx_AttemptTrail ctx of
             None \<Rightarrow> ctx
           | Some trail \<Rightarrow>
               if i < length trail \<and> ar_KeyID (trail ! i) \<noteq> key_ID k
               then ctx\<lparr>cx_AttemptTrail := Some (trail[i := (trail ! i)\<lparr>ar_TriggeredRotation := True\<rparr>])\<rparr>
               else ctx))"

definition select_key ::
  "('w, 'r) retry_env \<Rightarrow> ('w, 'r) retry_state \<Rightarrow> ('w, 'r) retry_state \<times> bifrost_error option" where
  "select_key env s =
     (case re_keyProvider env of
        None \<Rightarrow> (s, None)
      | Some provide \<Rightarrow>
          if rt_attempts s = 0 \<or> rt_lastPerKey s then
            (case provide (rt_world s) (rt_ctx s) (rt_used s) (rt_dead s) of
               (w, ctx, used, Inl e) \<Rightarrow>
                 (s\<lparr>rt_world := w, rt_ctx := clear_selected ctx, rt_used := used\<rparr>,
                  Some (key_selection_error (re_provider env) (re_deadText env) (clear_selected ctx) e))
             | (w, ctx, used, Inr k) \<Rightarrow>
                 (s\<lparr>rt_world := w, rt_used := used, rt_currentKey := k,
                    rt_ctx := confirm_rotation (rt_pending s) k
                      (ctx\<lparr>cx_SelectedKeyID := Some (key_ID k), cx_SelectedKeyName := Some (key_Name k)\<rparr>),
                    rt_pending := None\<rparr>, None))
          else (s, None))"

definition record_attempt :: "('w, 'r) retry_env \<Rightarrow> ('w, 'r) retry_state \<Rightarrow> ('w, 'r) retry_state" where
  "record_attempt env s =
     (if re_keyProvider env = None then s
      else s\<lparr>rt_ctx := (rt_ctx s)\<lparr>cx_AttemptTrail := append_ctx_list (cx_AttemptTrail (rt_ctx s))
             \<lparr>ar_Attempt = rt_attempts s, ar_KeyID = key_ID (rt_currentKey s), ar_KeyName = key_Name (rt_currentKey s),
               ar_FailReason = None, ar_TriggeredRotation = False\<rparr>\<rparr>\<rparr>)"

definition key_changed :: "('w, 'r) retry_env \<Rightarrow> ('w, 'r) retry_state \<Rightarrow> bool" where
  "key_changed env s \<longleftrightarrow> re_keyProvider env \<noteq> None \<and> key_ID (rt_currentKey s) \<noteq> rt_previousKeyID s"

definition skips_backoff :: "('w, 'r) retry_env \<Rightarrow> ('w, 'r) retry_state \<Rightarrow> bool" where
  "skips_backoff env s \<longleftrightarrow> rt_lastPermanent s \<and> key_changed env s \<or> rt_lastStrip s"

definition retry_note :: "('w, 'r) retry_env \<Rightarrow> ('w, 'r) retry_state \<Rightarrow> string" where
  "retry_note env s =
     ''Retry '' @ itoa (rt_attempts s) @ ''/'' @ itoa (budget env s) @ '' for '' @ re_provider env @ ''/'' @ re_model env @
     '' (previous attempt failed: '' @ routingErrorSummary (rt_error s) @
     (if re_keyProvider env = None then []
      else ''; '' @ (if key_changed env s then ''rotated key'' else ''same key'') @ ''='' @ key_Name (rt_currentKey s)) @ '')''"

text \<open>A retry is written to the routing log and, unless the key or the payload changed for good, waits.\<close>

definition announce_retry :: "('w, 'r) retry_env \<Rightarrow> ('w, 'r) retry_state \<Rightarrow> ('w, 'r) retry_state" where
  "announce_retry env s =
     (if rt_attempts s > 0 then
        s\<lparr>rt_ctx := AppendRoutingEngineLog (use_core_engine (rt_ctx s)) RoutingEngineCore LevelInfo (retry_note env s),
          rt_sleeps := (if skips_backoff env s then rt_sleeps s
                        else rt_sleeps s @ [calculateBackoff (re_rand env (rt_attempts s)) (nat (rt_attempts s - 1)) (re_config env)])\<rparr>
      else s)"

definition call_upstream :: "('w, 'r) retry_env \<Rightarrow> ('w, 'r) retry_state \<Rightarrow> ('w, 'r) retry_state" where
  "call_upstream env s =
     (case re_handler env (rt_world s) (rt_ctx s) (rt_req s) (rt_currentKey s) of
        (w, ctx, req, res, err) \<Rightarrow>
          (case settle_reply ctx res err of
             (ctx', res', err') \<Rightarrow>
               s\<lparr>rt_world := w, rt_ctx := ctx', rt_req := req, rt_result := res', rt_error := err',
                 rt_calls := rt_calls s @ [\<lparr>cl_key = rt_currentKey s, cl_error = err'\<rparr>]\<rparr>))"

definition note_failure :: "bifrost_error \<Rightarrow> bctx \<Rightarrow> bctx" where
  "note_failure e ctx =
     (case cx_AttemptTrail ctx of
        None \<Rightarrow> ctx
      | Some trail \<Rightarrow>
          if trail = [] then ctx
          else ctx\<lparr>cx_AttemptTrail := Some (trail[length trail - 1 :=
                 (trail ! (length trail - 1))\<lparr>ar_FailReason := Some (fail_reason e)\<rparr>])\<rparr>)"

text \<open>The fail-soft: the encrypted reasoning is dropped, once, and one more attempt granted.\<close>

definition try_strip ::
  "('w, 'r) retry_env \<Rightarrow> bifrost_error \<Rightarrow> ('w, 'r) retry_state \<Rightarrow> ('w, 'r) retry_state option" where
  "try_strip env e s =
     (if retryable e \<or> rt_stripped s \<or> \<not> isEncryptedReasoningRejection e then None
      else (case stripResponsesEncryptedContent (re_json env) (rt_ctx s) (rt_req s) of
              None \<Rightarrow> None
            | Some r \<Rightarrow>
                Some (s\<lparr>rt_req := Some r, rt_stripped := True, rt_lastStrip := True, rt_extra := rt_extra s + 1,
                  rt_ctx := AppendRoutingEngineLog (rt_ctx s) RoutingEngineCore LevelWarn
                    (''Stripped unverifiable encrypted reasoning content from the request to '' @ re_provider env @
                     ''/'' @ re_model env @ '' and retrying once'')\<rparr>)))"

definition add_id :: "string \<Rightarrow> string list \<Rightarrow> string list" where
  "add_id i xs = (if i \<in> set xs then xs else i # xs)"

text \<open>A permanent per-key failure kills the key for this request; a transient one marks it used and is
  reported to the marker.\<close>

definition track_key :: "('w, 'r) retry_env \<Rightarrow> bifrost_error \<Rightarrow> ('w, 'r) retry_state \<Rightarrow> ('w, 'r) retry_state" where
  "track_key env e s =
     (if isPerKeyFailure e \<and> re_keyProvider env \<noteq> None then
        (if permanent_status e then s\<lparr>rt_dead := add_id (key_ID (rt_currentKey s)) (rt_dead s), rt_lastPermanent := True\<rparr>
         else
           (let s1 = s\<lparr>rt_used := add_id (key_ID (rt_currentKey s)) (rt_used s), rt_lastPermanent := False\<rparr>
            in case re_marker env of
                 None \<Rightarrow> s1
               | Some mark \<Rightarrow>
                   (case mark (rt_world s1) (rt_ctx s1) (re_provider env) (key_ID (rt_currentKey s))
                           (key_Name (rt_currentKey s)) (re_model env) e of
                      (w, ctx) \<Rightarrow> s1\<lparr>rt_world := w, rt_ctx := ctx, rt_marks := rt_marks s @ [key_ID (rt_currentKey s)]\<rparr>)))
      else s\<lparr>rt_lastPermanent := False\<rparr>)"

definition after_failure :: "('w, 'r) retry_env \<Rightarrow> bifrost_error \<Rightarrow> ('w, 'r) retry_state \<Rightarrow> ('w, 'r) retry_state" where
  "after_failure env e s =
     (let s1 = track_key env e s;
          s2 = s1\<lparr>rt_lastPerKey := isPerKeyFailure e, rt_previousKeyID := key_ID (rt_currentKey s1)\<rparr>
      in if isPerKeyFailure e \<and> re_keyProvider env \<noteq> None \<and> rt_attempts s2 < budget env s2
         then (case cx_AttemptTrail (rt_ctx s2) of
                 None \<Rightarrow> s2
               | Some trail \<Rightarrow> if trail = [] then s2 else s2\<lparr>rt_pending := Some (length trail - 1)\<rparr>)
         else s2)"

text \<open>How an iteration ends: an early return, the end of the loop, or another attempt.\<close>

datatype ('w, 'r) verdict =
    EarlyReturn "('w, 'r) retry_state" "'r reply" bifrost_error
  | Done "('w, 'r) retry_state"
  | Again "('w, 'r) retry_state"

definition judge :: "('w, 'r) retry_env \<Rightarrow> ('w, 'r) retry_state \<Rightarrow> ('w, 'r) verdict" where
  "judge env s =
     (case rt_error s of
        None \<Rightarrow> Done s
      | Some e \<Rightarrow>
          if ends_request e then Done s
          else
            (let s1 = s\<lparr>rt_ctx := note_failure e (rt_ctx s), rt_lastStrip := False\<rparr>
             in case try_strip env e s1 of
                  Some s2 \<Rightarrow> Again (after_failure env e s2)
                | None \<Rightarrow> if retryable e then Again (after_failure env e s1) else Done s1))"

definition attempt_once :: "('w, 'r) retry_env \<Rightarrow> ('w, 'r) retry_state \<Rightarrow> ('w, 'r) verdict" where
  "attempt_once env s =
     (case select_key env (begin_attempt env s) of
        (s1, Some e) \<Rightarrow> EarlyReturn s1 (re_zero env) e
      | (s1, None) \<Rightarrow>
          (let s2 = announce_retry env (record_attempt env s1)
           in if \<not> cx_Tracer (rt_ctx s2)
              then EarlyReturn s2 (rt_result s2) (newBifrostErrorFromMsg ''tracer not found in context'')
              else judge env (call_upstream env s2)))"


text \<open>What every step of an attempt does to the bookkeeping that bounds the loop.\<close>

lemma select_key_frame:
  assumes "select_key env s = (s', r)"
  shows "rt_attempts s' = rt_attempts s" and "rt_extra s' = rt_extra s" and "rt_stripped s' = rt_stripped s"
    and "rt_calls s' = rt_calls s" and "rt_marks s' = rt_marks s" and "rt_dead s' = rt_dead s" and "rt_req s' = rt_req s"
    and "rt_error s' = rt_error s" and "rt_result s' = rt_result s" and "rt_lastPerKey s' = rt_lastPerKey s"
  using assms by (auto simp: select_key_def split: option.splits if_splits prod.splits sum.splits)

lemma begin_attempt_frame [simp]:
  "rt_attempts (begin_attempt env s) = rt_attempts s" "rt_extra (begin_attempt env s) = rt_extra s"
  "rt_stripped (begin_attempt env s) = rt_stripped s" "rt_calls (begin_attempt env s) = rt_calls s"
  "rt_marks (begin_attempt env s) = rt_marks s" "rt_dead (begin_attempt env s) = rt_dead s"
  "rt_req (begin_attempt env s) = rt_req s" "rt_error (begin_attempt env s) = rt_error s"
  "rt_lastPerKey (begin_attempt env s) = rt_lastPerKey s" "rt_currentKey (begin_attempt env s) = rt_currentKey s"
  "rt_used (begin_attempt env s) = rt_used s" "rt_world (begin_attempt env s) = rt_world s"
  "rt_pending (begin_attempt env s) = rt_pending s" "rt_result (begin_attempt env s) = rt_result s"
  by (simp_all add: begin_attempt_def Let_def)

lemma record_attempt_frame [simp]:
  "rt_attempts (record_attempt env s) = rt_attempts s" "rt_extra (record_attempt env s) = rt_extra s"
  "rt_stripped (record_attempt env s) = rt_stripped s" "rt_calls (record_attempt env s) = rt_calls s"
  "rt_marks (record_attempt env s) = rt_marks s" "rt_dead (record_attempt env s) = rt_dead s"
  "rt_req (record_attempt env s) = rt_req s" "rt_error (record_attempt env s) = rt_error s"
  "rt_lastPerKey (record_attempt env s) = rt_lastPerKey s" "rt_currentKey (record_attempt env s) = rt_currentKey s"
  "rt_used (record_attempt env s) = rt_used s" "rt_world (record_attempt env s) = rt_world s"
  "rt_pending (record_attempt env s) = rt_pending s" "rt_result (record_attempt env s) = rt_result s"
  by (simp_all add: record_attempt_def)

lemma announce_retry_frame [simp]:
  "rt_attempts (announce_retry env s) = rt_attempts s" "rt_extra (announce_retry env s) = rt_extra s"
  "rt_stripped (announce_retry env s) = rt_stripped s" "rt_calls (announce_retry env s) = rt_calls s"
  "rt_marks (announce_retry env s) = rt_marks s" "rt_dead (announce_retry env s) = rt_dead s"
  "rt_req (announce_retry env s) = rt_req s" "rt_error (announce_retry env s) = rt_error s"
  "rt_lastPerKey (announce_retry env s) = rt_lastPerKey s" "rt_currentKey (announce_retry env s) = rt_currentKey s"
  "rt_used (announce_retry env s) = rt_used s" "rt_world (announce_retry env s) = rt_world s"
  "rt_pending (announce_retry env s) = rt_pending s" "rt_result (announce_retry env s) = rt_result s"
  by (simp_all add: announce_retry_def)

lemma call_upstream_frame [simp]:
  "rt_attempts (call_upstream env s) = rt_attempts s" "rt_extra (call_upstream env s) = rt_extra s"
  "rt_stripped (call_upstream env s) = rt_stripped s" "rt_marks (call_upstream env s) = rt_marks s"
  "rt_dead (call_upstream env s) = rt_dead s" "rt_lastPerKey (call_upstream env s) = rt_lastPerKey s"
  "rt_currentKey (call_upstream env s) = rt_currentKey s" "rt_used (call_upstream env s) = rt_used s"
  "rt_calls (call_upstream env s) = rt_calls s @ [\<lparr>cl_key = rt_currentKey s, cl_error = rt_error (call_upstream env s)\<rparr>]"
  by (simp_all add: call_upstream_def split: prod.splits)

lemma track_key_frame [simp]:
  "rt_attempts (track_key env e s) = rt_attempts s" "rt_extra (track_key env e s) = rt_extra s"
  "rt_stripped (track_key env e s) = rt_stripped s" "rt_calls (track_key env e s) = rt_calls s"
  "rt_req (track_key env e s) = rt_req s" "rt_error (track_key env e s) = rt_error s"
  "rt_currentKey (track_key env e s) = rt_currentKey s" "rt_result (track_key env e s) = rt_result s"
  by (simp_all add: track_key_def Let_def split: option.splits prod.splits)

lemma after_failure_frame [simp]:
  "rt_attempts (after_failure env e s) = rt_attempts s" "rt_extra (after_failure env e s) = rt_extra s"
  "rt_stripped (after_failure env e s) = rt_stripped s" "rt_calls (after_failure env e s) = rt_calls s"
  "rt_error (after_failure env e s) = rt_error s" "rt_currentKey (after_failure env e s) = rt_currentKey s"
  "rt_lastPerKey (after_failure env e s) = isPerKeyFailure e" "rt_dead (after_failure env e s) = rt_dead (track_key env e s)"
  "rt_marks (after_failure env e s) = rt_marks (track_key env e s)" "rt_result (after_failure env e s) = rt_result s"
  by (simp_all add: after_failure_def Let_def split: option.splits)

lemma try_strip_frame:
  assumes "try_strip env e s = Some s'"
  shows "rt_attempts s' = rt_attempts s" and "rt_extra s' = rt_extra s + 1" and "\<not> rt_stripped s" and "rt_stripped s'"
    and "rt_calls s' = rt_calls s" and "rt_error s' = rt_error s" and "rt_currentKey s' = rt_currentKey s"
    and "rt_dead s' = rt_dead s" and "rt_marks s' = rt_marks s" and "\<not> retryable e" and "rt_used s' = rt_used s"
    and "isEncryptedReasoningRejection e"
  using assms by (auto simp: try_strip_def split: if_splits option.splits)

lemma judge_cases:
  assumes "judge env s = v"
  obtains (success) "rt_error s = None" "v = Done s"
    | (ended) e where "rt_error s = Some e" "ends_request e" "v = Done s"
    | (stripped) e s2 where "rt_error s = Some e" "\<not> ends_request e"
        "try_strip env e (s\<lparr>rt_ctx := note_failure e (rt_ctx s), rt_lastStrip := False\<rparr>) = Some s2" "v = Again (after_failure env e s2)"
    | (retried) e where "rt_error s = Some e" "\<not> ends_request e" "retryable e"
        "v = Again (after_failure env e (s\<lparr>rt_ctx := note_failure e (rt_ctx s), rt_lastStrip := False\<rparr>))"
    | (final) e where "rt_error s = Some e" "\<not> ends_request e" "\<not> retryable e"
        "try_strip env e (s\<lparr>rt_ctx := note_failure e (rt_ctx s), rt_lastStrip := False\<rparr>) = None"
        "v = Done (s\<lparr>rt_ctx := note_failure e (rt_ctx s), rt_lastStrip := False\<rparr>)"
  using assms by (auto simp: judge_def Let_def split: option.splits if_splits)

lemma attempt_cases:
  assumes "attempt_once env s = v"
  obtains (no_key) s1 e where "select_key env (begin_attempt env s) = (s1, Some e)" "v = EarlyReturn s1 (re_zero env) e"
    | (no_tracer) s1 where "select_key env (begin_attempt env s) = (s1, None)"
        "\<not> cx_Tracer (rt_ctx (announce_retry env (record_attempt env s1)))"
        "v = EarlyReturn (announce_retry env (record_attempt env s1)) (rt_result s1) (newBifrostErrorFromMsg ''tracer not found in context'')"
    | (called) s1 where "select_key env (begin_attempt env s) = (s1, None)"
        "v = judge env (call_upstream env (announce_retry env (record_attempt env s1)))"
  using assms by (auto simp: attempt_once_def Let_def split: option.splits if_splits prod.splits)

text \<open>Another attempt either leaves the budget as it was or has used up the one strip.\<close>

lemma attempt_again:
  assumes "attempt_once env s = Again s'"
  shows "rt_attempts s' = rt_attempts s" and
    "rt_extra s' = rt_extra s \<and> rt_stripped s' = rt_stripped s \<or> rt_extra s' = rt_extra s + 1 \<and> \<not> rt_stripped s \<and> rt_stripped s'"
proof -
  obtain s1 where sel: "select_key env (begin_attempt env s) = (s1, None)"
    and j: "judge env (call_upstream env (announce_retry env (record_attempt env s1))) = Again s'"
    using assms by (cases rule: attempt_cases) auto
  note f = select_key_frame [OF sel]
  show "rt_attempts s' = rt_attempts s"
    using j by (cases rule: judge_cases) (auto simp: f dest: try_strip_frame)
  show "rt_extra s' = rt_extra s \<and> rt_stripped s' = rt_stripped s \<or> rt_extra s' = rt_extra s + 1 \<and> \<not> rt_stripped s \<and> rt_stripped s'"
    using j by (cases rule: judge_cases) (auto simp: f dest: try_strip_frame)
qed

function retry_loop :: "('w, 'r) retry_env \<Rightarrow> ('w, 'r) retry_state \<Rightarrow> ('w, 'r) verdict" where
  "retry_loop env s =
     (if rt_attempts s \<le> budget env s then
        (case attempt_once env s of
           Again s' \<Rightarrow> retry_loop env (s'\<lparr>rt_attempts := rt_attempts s' + 1\<rparr>)
         | v \<Rightarrow> v)
      else Done s)"
  by pat_completeness auto

termination
proof (relation "measures [\<lambda>(env, s). if rt_stripped s then 0 else 1, \<lambda>(env, s). nat (budget env s + 1 - rt_attempts s)]", goal_cases)
  case (2 env s s')
  then show ?case using attempt_again [OF 2(2)] by (auto simp: budget_def)
qed simp

declare retry_loop.simps [simp del]

text \<open>The deferred entry that ends the audit trail.\<close>

definition terminal_note :: "('w, 'r) retry_env \<Rightarrow> int \<Rightarrow> bifrost_error option \<Rightarrow> bctx \<Rightarrow> bctx" where
  "terminal_note env attempts err ctx =
     (if attempts \<le> 0 then ctx
      else
        (let c = use_core_engine ctx; route = re_provider env @ ''/'' @ re_model env
         in case err of
              None \<Rightarrow> AppendRoutingEngineLog c RoutingEngineCore LevelInfo
                (''Request to '' @ route @ '' succeeded after '' @ itoa attempts @ '' retry attempt(s)'')
            | Some e \<Rightarrow>
                if be_IsBifrostError e then AppendRoutingEngineLog c RoutingEngineCore LevelError
                  (''Retries halted for '' @ route @ '' after '' @ itoa attempts @
                   '' attempt(s): internal Bifrost error ('' @ routingErrorSummary err @ '')'')
                else if err_type e = Some RequestCancelled then AppendRoutingEngineLog c RoutingEngineCore LevelError
                  (''Request to '' @ route @ '' cancelled after '' @ itoa attempts @ '' attempt(s)'')
                else AppendRoutingEngineLog c RoutingEngineCore LevelError
                  (''Retries exhausted for '' @ route @ '' after '' @ itoa attempts @ '' attempt(s); last error: '' @
                   routingErrorSummary err)))"

definition executeRequestWithRetries ::
  "('w, 'r) retry_env \<Rightarrow> 'w \<Rightarrow> bctx \<Rightarrow> brequest option \<Rightarrow> ('w, 'r) retry_state \<times> 'r reply \<times> bifrost_error option" where
  "executeRequestWithRetries env w ctx req =
     (case retry_loop env (retry_start env w ctx req) of
        EarlyReturn s res e \<Rightarrow>
          (s\<lparr>rt_ctx := terminal_note env (rt_attempts s) (Some e) (rt_ctx s)\<rparr>, res, Some e)
      | Done s \<Rightarrow>
          (s\<lparr>rt_ctx := terminal_note env (rt_attempts s) (rt_error s)
               (if rt_error s \<noteq> None \<and> re_keyProvider env \<noteq> None then clear_selected (rt_ctx s) else rt_ctx s)\<rparr>,
           rt_result s, rt_error s)
      | Again s \<Rightarrow> (s, rt_result s, rt_error s))"


section \<open>Reasoning about the loop\<close>

text \<open>The rule for invariants: what holds at the start and is kept by every iteration that is followed by
  another one holds where the loop ends, which is past the budget or in an iteration that does not ask
  for another one.\<close>

lemma retry_loop_invariant:
  assumes "I s" and "\<And>s s'. I s \<Longrightarrow> rt_attempts s \<le> budget env s \<Longrightarrow> attempt_once env s = Again s' \<Longrightarrow>
      I (s'\<lparr>rt_attempts := rt_attempts s' + 1\<rparr>)"
  shows "\<exists>t. I t \<and> (\<not> rt_attempts t \<le> budget env t \<and> retry_loop env s = Done t \<or>
    rt_attempts t \<le> budget env t \<and> retry_loop env s = attempt_once env t \<and> (\<forall>t'. attempt_once env t \<noteq> Again t'))"
  using assms
proof (induction env s rule: retry_loop.induct)
  case (1 env s)
  note unfold = retry_loop.simps [of env s]
  show ?case
  proof (cases "rt_attempts s \<le> budget env s")
    case False
    then show ?thesis using 1(2) unfold by auto
  next
    case le: True
    show ?thesis
    proof (cases "\<exists>s'. attempt_once env s = Again s'")
      case True
      then obtain s' where s': "attempt_once env s = Again s'" by blast
      have "I (s'\<lparr>rt_attempts := rt_attempts s' + 1\<rparr>)" by (rule 1(3) [OF 1(2) le s'])
      from 1(1) [OF le s' this 1(3)] show ?thesis unfolding unfold by (simp add: le s')
    next
      case False
      then have "retry_loop env s = attempt_once env s" unfolding unfold by (simp add: le split: verdict.split)
      then show ?thesis using 1(2) le False by blast
    qed
  qed
qed

lemma retry_loop_not_again: "retry_loop env s \<noteq> Again t"
  using retry_loop_invariant [of "\<lambda>_. True" s env] by auto

text \<open>The shape of a finished run: an invariant, and the last iteration, in which at most one more call
  is made.\<close>

definition loop_keeps :: "('w, 'r) retry_env \<Rightarrow> (('w, 'r) retry_state \<Rightarrow> bool) \<Rightarrow> bool" where
  "loop_keeps env I \<longleftrightarrow> (\<forall>s s'. I s \<longrightarrow> rt_attempts s \<le> budget env s \<longrightarrow> attempt_once env s = Again s' \<longrightarrow>
     I (s'\<lparr>rt_attempts := rt_attempts s' + 1\<rparr>))"

lemma finished_run:
  assumes run: "executeRequestWithRetries env w ctx req = (s, res, err)"
    and start: "I (retry_start env w ctx req)"
    and step: "loop_keeps env I"
  obtains (exhausted) t where "I t" "\<not> rt_attempts t \<le> budget env t" "err = rt_error t" "res = rt_result t"
      "s = t\<lparr>rt_ctx := terminal_note env (rt_attempts t) err
        (if err \<noteq> None \<and> re_keyProvider env \<noteq> None then clear_selected (rt_ctx t) else rt_ctx t)\<rparr>"
    | (no_key) t s1 e where "I t" "rt_attempts t \<le> budget env t" "select_key env (begin_attempt env t) = (s1, Some e)"
      "err = Some e" "res = re_zero env" "s = s1\<lparr>rt_ctx := terminal_note env (rt_attempts s1) err (rt_ctx s1)\<rparr>"
    | (no_tracer) t s1 where "I t" "rt_attempts t \<le> budget env t" "select_key env (begin_attempt env t) = (s1, None)"
      "\<not> cx_Tracer (rt_ctx (announce_retry env (record_attempt env s1)))"
      "err = Some (newBifrostErrorFromMsg ''tracer not found in context'')" "res = rt_result s1"
      "s = (announce_retry env (record_attempt env s1))\<lparr>rt_ctx :=
        terminal_note env (rt_attempts s1) err (rt_ctx (announce_retry env (record_attempt env s1)))\<rparr>"
    | (called) t s1 u where "I t" "rt_attempts t \<le> budget env t" "select_key env (begin_attempt env t) = (s1, None)"
      "judge env (call_upstream env (announce_retry env (record_attempt env s1))) = Done u" "err = rt_error u" "res = rt_result u"
      "s = u\<lparr>rt_ctx := terminal_note env (rt_attempts u) err
        (if err \<noteq> None \<and> re_keyProvider env \<noteq> None then clear_selected (rt_ctx u) else rt_ctx u)\<rparr>"
proof -
  let ?v = "retry_loop env (retry_start env w ctx req)"
  obtain t where t: "I t" and
    v: "\<not> rt_attempts t \<le> budget env t \<and> ?v = Done t \<or>
      rt_attempts t \<le> budget env t \<and> ?v = attempt_once env t \<and> (\<forall>t'. attempt_once env t \<noteq> Again t')"
    using retry_loop_invariant [of I "retry_start env w ctx req" env] start step [unfolded loop_keeps_def] by blast
  note run' = run [unfolded executeRequestWithRetries_def]
  show thesis using v
  proof (elim disjE conjE)
    assume "\<not> rt_attempts t \<le> budget env t" "?v = Done t"
    with run' t exhausted show thesis by auto
  next
    assume le: "rt_attempts t \<le> budget env t" and eq: "?v = attempt_once env t" and na: "\<forall>t'. attempt_once env t \<noteq> Again t'"
    from refl [of "attempt_once env t"] show thesis
    proof (cases rule: attempt_cases)
      case (no_key s1 e)
      then show thesis using run' eq t le by (intro that(2) [of t s1 e]) auto
    next
      case (no_tracer s1)
      then show thesis using run' eq t le by (intro that(3) [of t s1]) auto
    next
      case (called s1)
      have "\<exists>u. judge env (call_upstream env (announce_retry env (record_attempt env s1))) = Done u"
        using refl [of "judge env (call_upstream env (announce_retry env (record_attempt env s1)))"]
        by (cases rule: judge_cases) (use called na in auto)
      then obtain u where u: "judge env (call_upstream env (announce_retry env (record_attempt env s1))) = Done u" by blast
      then show thesis using run' eq t le called by (intro that(4) [of t s1 u]) auto
    qed
  qed
qed


text \<open>What an iteration that asks for another one has done.\<close>

definition transient_key_failure :: "bifrost_error \<Rightarrow> bool" where
  "transient_key_failure e \<longleftrightarrow> \<not> ends_request e \<and> isPerKeyFailure e \<and> \<not> permanent_status e"

definition permanent_key_failure :: "bifrost_error \<Rightarrow> bool" where
  "permanent_key_failure e \<longleftrightarrow> \<not> ends_request e \<and> permanent_status e"

lemma permanent_isPerKey: "permanent_status e \<Longrightarrow> isPerKeyFailure e"
  by (auto simp: permanent_status_def isPerKeyFailure_def perKeyFailureStatusCodes_def)

lemma isPerKey_retryable: "isPerKeyFailure e \<Longrightarrow> retryable e"
  by (simp add: retryable_def)

lemma track_key_marks:
  "rt_marks (track_key env e s) = rt_marks s @
     (if re_marker env \<noteq> None \<and> re_keyProvider env \<noteq> None \<and> isPerKeyFailure e \<and> \<not> permanent_status e
      then [key_ID (rt_currentKey s)] else [])"
  by (auto simp: track_key_def Let_def split: option.splits prod.splits)

lemma track_key_dead:
  "rt_dead (track_key env e s) =
     (if re_keyProvider env \<noteq> None \<and> permanent_status e then add_id (key_ID (rt_currentKey s)) (rt_dead s) else rt_dead s)"
  by (auto simp: track_key_def Let_def permanent_isPerKey split: option.splits prod.splits)

lemma again_shape:
  assumes "attempt_once env s = Again s'"
  obtains s1 e where "select_key env (begin_attempt env s) = (s1, None)" and "\<not> ends_request e"
    and "rt_calls s' = rt_calls s @ [\<lparr>cl_key = rt_currentKey s1, cl_error = Some e\<rparr>]" and "rt_error s' = Some e"
    and "rt_attempts s' = rt_attempts s" and "rt_currentKey s' = rt_currentKey s1" and "rt_lastPerKey s' = isPerKeyFailure e"
    and "retryable e \<and> rt_extra s' = rt_extra s \<and> rt_stripped s' = rt_stripped s \<or>
      \<not> retryable e \<and> isEncryptedReasoningRejection e \<and> rt_extra s' = rt_extra s + 1 \<and> \<not> rt_stripped s \<and> rt_stripped s'"
    and "rt_marks s' = rt_marks s @ (if re_marker env \<noteq> None \<and> re_keyProvider env \<noteq> None \<and> transient_key_failure e
      then [key_ID (rt_currentKey s1)] else [])"
    and "rt_dead s' = (if re_keyProvider env \<noteq> None \<and> permanent_status e
      then add_id (key_ID (rt_currentKey s1)) (rt_dead s) else rt_dead s)"
proof -
  obtain s1 where sel: "select_key env (begin_attempt env s) = (s1, None)"
    and j: "judge env (call_upstream env (announce_retry env (record_attempt env s1))) = Again s'"
    using assms by (cases rule: attempt_cases) auto
  note f = select_key_frame [OF sel]
  show thesis using j
  proof (cases rule: judge_cases)
    case (stripped e s2)
    note t = try_strip_frame [OF stripped(3)]
    have np: "\<not> isPerKeyFailure e" "\<not> permanent_status e" using t(10) isPerKey_retryable permanent_isPerKey by blast+
    show thesis
      by (rule that [OF sel stripped(2)])
        (use stripped(1,4) t f np in \<open>simp_all add: track_key_marks track_key_dead transient_key_failure_def\<close>)
  next
    case (retried e)
    show thesis
      by (rule that [OF sel retried(2)])
        (use retried f in \<open>simp_all add: track_key_marks track_key_dead transient_key_failure_def\<close>)
  qed auto
qed

lemma done_shape:
  assumes "judge env s = Done u"
  shows "rt_calls u = rt_calls s" and "rt_error u = rt_error s" and "rt_marks u = rt_marks s" and "rt_stripped u = rt_stripped s"
    and "rt_attempts u = rt_attempts s" and "rt_result u = rt_result s" and "rt_extra u = rt_extra s"
    and "rt_error s = Some e \<Longrightarrow> ends_request e \<or> \<not> retryable e"
    and "rt_ctx u = (case rt_error s of Some e \<Rightarrow> if ends_request e then rt_ctx s else note_failure e (rt_ctx s) | None \<Rightarrow> rt_ctx s)"
  using assms by (cases rule: judge_cases; auto)+

section \<open>The bookkeeping invariant\<close>

abbreviation failed_with :: "(bifrost_error \<Rightarrow> bool) \<Rightarrow> call \<Rightarrow> bool" where
  "failed_with P c \<equiv> case_option False P (cl_error c)"

definition retry_inv :: "('w, 'r) retry_env \<Rightarrow> ('w, 'r) retry_state \<Rightarrow> bool" where
  "retry_inv env s \<longleftrightarrow>
     rt_attempts s = int (length (rt_calls s)) \<and> rt_extra s = of_bool (rt_stripped s) \<and>
     rt_attempts s \<le> max 0 (budget env s + 1) \<and>
     list_all (failed_with (\<lambda>e. \<not> ends_request e \<and> (retryable e \<or> isEncryptedReasoningRejection e))) (rt_calls s) \<and>
     length (filter (failed_with (\<lambda>e. \<not> retryable e)) (rt_calls s)) = of_bool (rt_stripped s) \<and>
     (rt_calls s \<noteq> [] \<longrightarrow> rt_error s = cl_error (last (rt_calls s))) \<and> (rt_calls s = [] \<longrightarrow> rt_error s = None) \<and>
     rt_marks s = (if re_marker env \<noteq> None \<and> re_keyProvider env \<noteq> None
       then map (\<lambda>c. key_ID (cl_key c)) (filter (failed_with transient_key_failure) (rt_calls s)) else [])"

lemma retry_inv_start: "retry_inv env (retry_start env w ctx req)"
  by (simp add: retry_inv_def retry_start_def)

lemma retry_inv_step:
  assumes inv: "retry_inv env s" and le: "rt_attempts s \<le> budget env s" and step: "attempt_once env s = Again s'"
  shows "retry_inv env (s'\<lparr>rt_attempts := rt_attempts s' + 1\<rparr>)"
proof -
  show ?thesis using step
  proof (cases rule: again_shape)
    case (1 s1 e)
    from 1(8) show ?thesis
    proof (elim disjE conjE)
      assume "retryable e" "rt_extra s' = rt_extra s" "rt_stripped s' = rt_stripped s"
      then show ?thesis using inv le 1(2-5,9) unfolding retry_inv_def by (simp add: budget_def)
    next
      assume "\<not> retryable e" "isEncryptedReasoningRejection e" "rt_extra s' = rt_extra s + 1" "\<not> rt_stripped s" "rt_stripped s'"
      then show ?thesis using inv le 1(2-5,9) unfolding retry_inv_def by (simp add: budget_def)
    qed
  qed
qed

lemma retry_inv_kept: "loop_keeps env (retry_inv env)"
  unfolding loop_keeps_def using retry_inv_step by blast

lemmas retry_run = finished_run [OF _ retry_inv_start retry_inv_kept,
  consumes 1, case_names exhausted no_key no_tracer called]

definition calls_ok :: "('w, 'r) retry_env \<Rightarrow> call list \<Rightarrow> string list \<Rightarrow> bool \<Rightarrow> bool" where
  "calls_ok env calls marks stripped \<longleftrightarrow>
     int (length calls) \<le> max 0 (nc_MaxRetries (pc_Network (re_config env)) + 1) + of_bool stripped \<and>
     list_all (failed_with (\<lambda>e. \<not> ends_request e \<and> (retryable e \<or> isEncryptedReasoningRejection e))) (butlast calls) \<and>
     length (filter (failed_with (\<lambda>e. \<not> retryable e)) (butlast calls)) \<le> of_bool stripped \<and>
     marks = (if re_marker env \<noteq> None \<and> re_keyProvider env \<noteq> None
       then map (\<lambda>c. key_ID (cl_key c)) (filter (failed_with transient_key_failure) calls) else [])"

lemma retry_inv_calls:
  assumes "retry_inv env t"
  shows "calls_ok env (rt_calls t) (rt_marks t) (rt_stripped t)"
proof -
  have sub: "length (filter P (butlast xs)) \<le> length (filter P xs)" for P and xs :: "call list"
    by (cases xs rule: rev_cases) auto
  have "list_all P (butlast xs)" if "list_all P xs" for P and xs :: "call list"
    using that by (auto simp: list_all_iff dest: in_set_butlastD)
  with assms sub [of "failed_with (\<lambda>e. \<not> retryable e)" "rt_calls t"] show ?thesis
    unfolding retry_inv_def calls_ok_def budget_def by (cases "rt_stripped t") auto
qed

lemma last_call_ok:
  assumes inv: "retry_inv env t" and le: "rt_attempts t \<le> budget env t"
    and err: "\<And>e. err = Some e \<Longrightarrow> ends_request e \<or> \<not> retryable e"
  shows "calls_ok env (rt_calls t @ [\<lparr>cl_key = k, cl_error = err\<rparr>]) (rt_marks t) (rt_stripped t)"
proof -
  have "\<not> case_option False transient_key_failure err"
    using err by (auto simp: transient_key_failure_def isPerKey_retryable split: option.splits)
  then show ?thesis using inv le unfolding retry_inv_def calls_ok_def budget_def by (cases "rt_stripped t") auto
qed

lemma finished_calls:
  assumes "executeRequestWithRetries env w ctx req = (s, res, err)"
  shows "calls_ok env (rt_calls s) (rt_marks s) (rt_stripped s)"
  using assms
proof (cases rule: retry_run)
  case (exhausted t)
  then show ?thesis using retry_inv_calls by simp
next
  case (no_key t s1 e)
  then show ?thesis using retry_inv_calls [OF no_key(1)] select_key_frame [OF no_key(3)] by simp
next
  case (no_tracer t s1)
  then show ?thesis using retry_inv_calls [OF no_tracer(1)] select_key_frame [OF no_tracer(3)] by simp
next
  case (called t s1 u)
  note d = done_shape [OF called(4)] and f = select_key_frame [OF called(3)]
  show ?thesis using last_call_ok [OF called(1,2) d(8)] d(1,3,4) f called(7) by simp
qed

section \<open>Dead keys\<close>

definition dead_inv :: "('w, 'r) retry_state \<Rightarrow> bool" where
  "dead_inv s \<longleftrightarrow>
     (\<forall>c \<in> set (rt_calls s). failed_with permanent_key_failure c \<longrightarrow> key_ID (cl_key c) \<in> set (rt_dead s)) \<and>
     (rt_calls s = [] \<or> rt_lastPerKey s \<or> key_ID (rt_currentKey s) \<notin> set (rt_dead s)) \<and>
     sorted_wrt (\<lambda>a b. failed_with permanent_key_failure a \<longrightarrow> key_ID (cl_key b) \<noteq> key_ID (cl_key a)) (rt_calls s)"

lemma set_add_id [simp]: "set (add_id i xs) = insert i (set xs)"
  by (auto simp: add_id_def)

context key_provider
begin

lemma selected_is_live:
  assumes "re_keyProvider env = Some provide" and "retry_inv env s" and "dead_inv s"
    and sel: "select_key env (begin_attempt env s) = (s1, None)"
  shows "key_ID (rt_currentKey s1) \<notin> set (rt_dead s)"
proof (cases "rt_attempts s = 0 \<or> rt_lastPerKey s")
  case True
  let ?b = "begin_attempt env s"
  obtain w c u r where p: "provide (rt_world ?b) (rt_ctx ?b) (rt_used ?b) (rt_dead ?b) = (w, c, u, r)" by (rule prod_cases4)
  obtain k where r: "r = Inr k" using sel True assms(1) p by (cases r) (auto simp: select_key_def)
  then have "rt_currentKey s1 = k" using sel True assms(1) p by (auto simp: select_key_def)
  then show ?thesis using provide_live [of "rt_world ?b" "rt_ctx ?b" "rt_used ?b" "rt_dead ?b" w c u k] p r by simp
next
  case False
  then have "rt_currentKey s1 = rt_currentKey s" using sel assms(1) by (auto simp: select_key_def)
  moreover have "rt_calls s \<noteq> []" using False assms(2) by (auto simp: retry_inv_def)
  ultimately show ?thesis using False assms(3) by (simp add: dead_inv_def)
qed

lemma dead_inv_kept:
  assumes kp: "re_keyProvider env = Some provide"
  shows "loop_keeps env (\<lambda>s. retry_inv env s \<and> dead_inv s)"
  unfolding loop_keeps_def
proof (intro allI impI conjI)
  fix s s' assume inv: "retry_inv env s \<and> dead_inv s" and le: "rt_attempts s \<le> budget env s" and step: "attempt_once env s = Again s'"
  show "retry_inv env (s'\<lparr>rt_attempts := rt_attempts s' + 1\<rparr>)" using inv le step retry_inv_step by blast
  show "dead_inv (s'\<lparr>rt_attempts := rt_attempts s' + 1\<rparr>)" using step
  proof (cases rule: again_shape)
    case (1 s1 e)
    have live: "key_ID (rt_currentKey s1) \<notin> set (rt_dead s)"
      using selected_is_live [OF kp _ _ 1(1)] inv by blast
    have fresh: "\<forall>c \<in> set (rt_calls s). failed_with permanent_key_failure c \<longrightarrow> key_ID (rt_currentKey s1) \<noteq> key_ID (cl_key c)"
      using inv live unfolding dead_inv_def by metis
    have d: "sorted_wrt (\<lambda>a b. failed_with permanent_key_failure a \<longrightarrow> key_ID (cl_key b) \<noteq> key_ID (cl_key a)) (rt_calls s)"
      "\<forall>c \<in> set (rt_calls s). failed_with permanent_key_failure c \<longrightarrow> key_ID (cl_key c) \<in> set (rt_dead s)"
      using inv by (simp_all add: dead_inv_def)
    show ?thesis unfolding dead_inv_def
    proof (intro conjI)
      show "sorted_wrt (\<lambda>a b. failed_with permanent_key_failure a \<longrightarrow> key_ID (cl_key b) \<noteq> key_ID (cl_key a))
          (rt_calls (s'\<lparr>rt_attempts := rt_attempts s' + 1\<rparr>))"
        using d(1) fresh by (simp add: 1(3) sorted_wrt_append)
      show "\<forall>c \<in> set (rt_calls (s'\<lparr>rt_attempts := rt_attempts s' + 1\<rparr>)). failed_with permanent_key_failure c \<longrightarrow>
          key_ID (cl_key c) \<in> set (rt_dead (s'\<lparr>rt_attempts := rt_attempts s' + 1\<rparr>))"
        using d(2) by (auto simp: 1(3,10) kp permanent_key_failure_def)
      show "rt_calls (s'\<lparr>rt_attempts := rt_attempts s' + 1\<rparr>) = [] \<or> rt_lastPerKey (s'\<lparr>rt_attempts := rt_attempts s' + 1\<rparr>) \<or>
          key_ID (rt_currentKey (s'\<lparr>rt_attempts := rt_attempts s' + 1\<rparr>)) \<notin> set (rt_dead (s'\<lparr>rt_attempts := rt_attempts s' + 1\<rparr>))"
        using live by (auto simp: 1(6,7,10) permanent_isPerKey)
    qed
  qed
qed

lemma calls_avoid_dead:
  assumes kp: "re_keyProvider env = Some provide" and run: "executeRequestWithRetries env w ctx req = (s, res, err)"
  shows "sorted_wrt (\<lambda>a b. failed_with permanent_key_failure a \<longrightarrow> key_ID (cl_key b) \<noteq> key_ID (cl_key a)) (rt_calls s)"
proof -
  have start: "retry_inv env (retry_start env w ctx req) \<and> dead_inv (retry_start env w ctx req)"
    using retry_inv_start by (simp add: dead_inv_def retry_start_def)
  from run start dead_inv_kept [OF kp] show ?thesis
  proof (cases rule: finished_run)
    case (exhausted t)
    then show ?thesis by (simp add: dead_inv_def)
  next
    case (no_key t s1 e)
    then show ?thesis using select_key_frame [OF no_key(3)] by (simp add: dead_inv_def)
  next
    case (no_tracer t s1)
    then show ?thesis using select_key_frame [OF no_tracer(3)] by (simp add: dead_inv_def)
  next
    case (called t s1 u)
    have live: "key_ID (rt_currentKey s1) \<notin> set (rt_dead t)"
      using selected_is_live [OF kp _ _ called(3)] called(1) by blast
    have "\<forall>c \<in> set (rt_calls t). failed_with permanent_key_failure c \<longrightarrow> key_ID (rt_currentKey s1) \<noteq> key_ID (cl_key c)"
      using called(1) live unfolding dead_inv_def by metis
    then show ?thesis using called(1,7) done_shape(1) [OF called(4)] select_key_frame(4) [OF called(3)]
      by (simp add: dead_inv_def sorted_wrt_append)
  qed
qed

end


section \<open>The attempt trail\<close>

definition fail_note :: "call \<Rightarrow> string option" where
  "fail_note c = (case cl_error c of None \<Rightarrow> None | Some e \<Rightarrow> if ends_request e then None else Some (fail_reason e))"

definition rotated :: "call list \<Rightarrow> nat \<Rightarrow> bool" where
  "rotated calls i \<longleftrightarrow> Suc i < length calls \<and> failed_with isPerKeyFailure (calls ! i) \<and>
     key_ID (cl_key (calls ! Suc i)) \<noteq> key_ID (cl_key (calls ! i))"

text \<open>The trail a list of calls should leave: the attempts in order, each with its key, the reason it
  failed for, and whether the next attempt was made with another key because of it.\<close>

definition trail_of :: "call list \<Rightarrow> attempt_record list" where
  "trail_of calls = map (\<lambda>i. \<lparr>ar_Attempt = int i, ar_KeyID = key_ID (cl_key (calls ! i)), ar_KeyName = key_Name (cl_key (calls ! i)),
     ar_FailReason = fail_note (calls ! i), ar_TriggeredRotation = rotated calls i\<rparr>) [0..<length calls]"

lemma length_trail_of [simp]: "length (trail_of calls) = length calls"
  by (simp add: trail_of_def)

lemma trail_of_Nil [simp]: "trail_of [] = []"
  by (simp add: trail_of_def)

lemma nth_trail_of:
  "i < length calls \<Longrightarrow> trail_of calls ! i = \<lparr>ar_Attempt = int i, ar_KeyID = key_ID (cl_key (calls ! i)),
     ar_KeyName = key_Name (cl_key (calls ! i)), ar_FailReason = fail_note (calls ! i), ar_TriggeredRotation = rotated calls i\<rparr>"
  by (simp add: trail_of_def)

text \<open>The trail when one more call is under way: its outcome is open, and the last finished one is
  known to have caused a rotation.\<close>

definition open_trail :: "call list \<Rightarrow> key \<Rightarrow> attempt_record list" where
  "open_trail calls k = trail_of (calls @ [\<lparr>cl_key = k, cl_error = None\<rparr>])"

lemma rotated_append: "i < length calls \<Longrightarrow> rotated (calls @ [c]) i =
    (if Suc i < length calls then rotated calls i
     else failed_with isPerKeyFailure (last calls) \<and> key_ID (cl_key c) \<noteq> key_ID (cl_key (last calls)))"
proof (cases "Suc i < length calls")
  case False
  assume "i < length calls"
  with False have "i = length calls - 1" "calls \<noteq> []" by auto
  then show ?thesis by (simp add: rotated_def nth_append last_conv_nth)
qed (simp add: rotated_def nth_append)

lemma trail_of_snoc:
  "trail_of (calls @ [c]) =
     (if calls \<noteq> [] \<and> failed_with isPerKeyFailure (last calls) \<and> key_ID (cl_key c) \<noteq> key_ID (cl_key (last calls))
      then (trail_of calls)[length calls - 1 := (trail_of calls ! (length calls - 1))\<lparr>ar_TriggeredRotation := True\<rparr>]
      else trail_of calls) @
     [\<lparr>ar_Attempt = int (length calls), ar_KeyID = key_ID (cl_key c), ar_KeyName = key_Name (cl_key c),
       ar_FailReason = fail_note c, ar_TriggeredRotation = False\<rparr>]" (is "?l = ?r")
proof (rule nth_equalityI)
  show "length ?l = length ?r" by simp
  fix i assume "i < length ?l"
  then consider "i < length calls - 1" | "calls \<noteq> []" "i = length calls - 1" | "i = length calls" by fastforce
  then show "?l ! i = ?r ! i"
  proof cases
    case 1
    then have "i < length calls" "Suc i < length calls" "length calls - 1 \<noteq> i" by simp_all
    then show ?thesis by (simp add: nth_trail_of nth_append rotated_append)
  next
    case 2
    have "rotated calls (length calls - 1) = False" using 2(1) by (simp add: rotated_def)
    with 2 show ?thesis by (simp add: nth_trail_of nth_append rotated_append)
  next
    case 3
    then show ?thesis by (simp add: nth_trail_of nth_append rotated_def)
  qed
qed

lemma trail_of_outcome:
  assumes "\<not> ends_request e"
  shows "(open_trail calls k)[length calls := (open_trail calls k ! length calls)\<lparr>ar_FailReason := Some (fail_reason e)\<rparr>] =
    trail_of (calls @ [\<lparr>cl_key = k, cl_error = Some e\<rparr>])"
  using assms by (simp add: open_trail_def trail_of_snoc fail_note_def nth_append list_update_append)

text \<open>The hooks may do anything but change the trail, the selected key and the tracer.\<close>

definition keeps_audit :: "bctx \<Rightarrow> bctx \<Rightarrow> bool" where
  "keeps_audit c c' \<longleftrightarrow> cx_AttemptTrail c' = cx_AttemptTrail c \<and> cx_SelectedKeyID c' = cx_SelectedKeyID c \<and>
     cx_SelectedKeyName c' = cx_SelectedKeyName c \<and> cx_Tracer c' = cx_Tracer c"

definition quiet_hooks :: "('w, 'r) retry_env \<Rightarrow> bool" where
  "quiet_hooks env \<longleftrightarrow>
     (\<forall>w c r k w' c' r' res err. re_handler env w c r k = (w', c', r', res, err) \<longrightarrow> keeps_audit c c') \<and>
     (\<forall>f w c p i n m e w' c'. re_marker env = Some f \<longrightarrow> f w c p i n m e = (w', c') \<longrightarrow> keeps_audit c c')"

lemma keeps_audit_refl [simp]: "keeps_audit c c"
  by (simp add: keeps_audit_def)

lemma keeps_audit_trans: "keeps_audit a b \<Longrightarrow> keeps_audit b c \<Longrightarrow> keeps_audit a c"
  by (simp add: keeps_audit_def)

lemma keeps_audit_hint: "keeps_audit c (c\<lparr>cx_RetryAfterSeconds := h\<rparr>)"
  by (simp add: keeps_audit_def)

lemma keeps_audit_log [simp]:
  "keeps_audit c (AppendRoutingEngineLog (use_core_engine c) e l m)" "keeps_audit c (AppendRoutingEngineLog c e l m)"
  by (simp_all add: keeps_audit_def)

lemma keeps_audit_settle: "settle_reply c res err = (c', res', err') \<Longrightarrow> keeps_audit c c'"
  by (auto simp: settle_reply_def keeps_audit_def split: option.splits reply.splits prod.splits)

lemma keeps_audit_call: "quiet_hooks env \<Longrightarrow> keeps_audit (rt_ctx s) (rt_ctx (call_upstream env s))"
proof -
  assume q: "quiet_hooks env"
  obtain w c r res err where h: "re_handler env (rt_world s) (rt_ctx s) (rt_req s) (rt_currentKey s) = (w, c, r, res, err)"
    by (rule prod_cases5)
  obtain c' res' err' where t: "settle_reply c res err = (c', res', err')" by (rule prod_cases3)
  have "keeps_audit (rt_ctx s) c" using q h unfolding quiet_hooks_def by blast
  with keeps_audit_settle [OF t] show ?thesis by (simp add: call_upstream_def h t keeps_audit_trans)
qed

lemma keeps_audit_track: "quiet_hooks env \<Longrightarrow> keeps_audit (rt_ctx s) (rt_ctx (track_key env e s))"
  by (auto simp: track_key_def Let_def quiet_hooks_def split: option.splits prod.splits)

lemma keeps_audit_announce: "keeps_audit (rt_ctx s) (rt_ctx (announce_retry env s))"
  by (simp add: announce_retry_def)

lemma keeps_audit_after: "quiet_hooks env \<Longrightarrow> keeps_audit (rt_ctx s) (rt_ctx (after_failure env e s))"
  using keeps_audit_track [of env s e] by (simp add: after_failure_def Let_def split: option.splits)

lemma keeps_audit_strip: "try_strip env e s = Some s' \<Longrightarrow> keeps_audit (rt_ctx s) (rt_ctx s')"
  by (auto simp: try_strip_def split: if_splits option.splits)

lemma keeps_audit_terminal: "keeps_audit c (terminal_note env n err c)"
  by (simp add: terminal_note_def Let_def split: option.splits)


lemma append_attempt:
  assumes "map ar_Attempt t = map int [0..<length t]" and "ar_Attempt r = int (length t)"
  shows "append_ctx_list (Some t) r = Some (t @ [r])"
proof -
  have "ar_Attempt x < int (length t)" if "x \<in> set t" for x
  proof -
    have "ar_Attempt x \<in> set (map ar_Attempt t)" using that by simp
    then show ?thesis unfolding assms(1) by auto
  qed
  then have "r \<notin> set t" using assms(2) by fastforce
  then show ?thesis by (simp add: append_ctx_list_def append_new_def)
qed

lemma trail_attempts: "map ar_Attempt (trail_of calls) = map int [0..<length (trail_of calls)]"
  by (simp add: trail_of_def)

lemma flagged_attempts:
  "map ar_Attempt (t[i := (t ! i)\<lparr>ar_TriggeredRotation := True\<rparr>]) = map ar_Attempt t"
  by (simp add: map_update list_update_same_conv [THEN iffD2] list_update_beyond not_less)
     (metis length_map list_update_beyond list_update_id not_le nth_map)

definition trail_inv :: "('w, 'r) retry_env \<Rightarrow> ('w, 'r) retry_state \<Rightarrow> bool" where
  "trail_inv env s \<longleftrightarrow> cx_Tracer (rt_ctx s) \<and>
     (if rt_calls s = [] then rt_pending s = None
      else cx_AttemptTrail (rt_ctx s) = Some (trail_of (rt_calls s)) \<and> rt_currentKey s = cl_key (last (rt_calls s)) \<and>
        rt_lastPerKey s = failed_with isPerKeyFailure (last (rt_calls s)) \<and>
        (rt_attempts s \<le> budget env s \<longrightarrow> rt_pending s = (if rt_lastPerKey s then Some (length (rt_calls s) - 1) else None)) \<and>
        cx_SelectedKeyID (rt_ctx s) = Some (key_ID (rt_currentKey s)) \<and>
        cx_SelectedKeyName (rt_ctx s) = Some (key_Name (rt_currentKey s)))"

lemma track_key_pending [simp]: "rt_pending (track_key env e s) = rt_pending s"
  by (simp add: track_key_def Let_def split: option.splits prod.splits)

lemma after_failure_pending:
  assumes "quiet_hooks env" and "cx_AttemptTrail (rt_ctx s) = Some t" and "t \<noteq> []"
  shows "rt_pending (after_failure env e s) =
    (if isPerKeyFailure e \<and> re_keyProvider env \<noteq> None \<and> rt_attempts s < budget env s then Some (length t - 1) else rt_pending s)"
proof -
  have "cx_AttemptTrail (rt_ctx (track_key env e s)) = Some t"
    using keeps_audit_track [OF assms(1), of s e] assms(2) by (simp add: keeps_audit_def)
  then show ?thesis using assms(3) by (auto simp: after_failure_def Let_def budget_def)
qed

lemma trail_of_single:
  "trail_of [c] = [\<lparr>ar_Attempt = 0, ar_KeyID = key_ID (cl_key c), ar_KeyName = key_Name (cl_key c),
     ar_FailReason = fail_note c, ar_TriggeredRotation = False\<rparr>]"
  using trail_of_snoc [of "[]" c] by simp

context key_provider
begin

text \<open>After the key is selected and the attempt recorded, the trail is the open trail of the call about to
  be made.\<close>

lemma trail_opened:
  assumes kp: "re_keyProvider env = Some provide" and inv: "retry_inv env s" "trail_inv env s" and le: "rt_attempts s \<le> budget env s"
    and sel: "select_key env (begin_attempt env s) = (s1, None)"
  shows "cx_AttemptTrail (rt_ctx (record_attempt env s1)) = Some (open_trail (rt_calls s) (rt_currentKey s1))"
    and "rt_pending s1 = None" and "cx_SelectedKeyID (rt_ctx s1) = Some (key_ID (rt_currentKey s1))"
    and "cx_SelectedKeyName (rt_ctx s1) = Some (key_Name (rt_currentKey s1))" and "cx_Tracer (rt_ctx s1)"
proof -
  let ?b = "begin_attempt env s" and ?calls = "rt_calls s"
  have n: "rt_attempts s = int (length ?calls)" using inv(1) by (simp add: retry_inv_def)
  have rec: "cx_AttemptTrail (rt_ctx (record_attempt env s1)) = append_ctx_list (cx_AttemptTrail (rt_ctx s1))
      \<lparr>ar_Attempt = int (length ?calls), ar_KeyID = key_ID (rt_currentKey s1), ar_KeyName = key_Name (rt_currentKey s1),
        ar_FailReason = None, ar_TriggeredRotation = False\<rparr>"
    using select_key_frame(1) [OF sel] by (simp add: record_attempt_def kp n)
  have tr: "cx_Tracer (rt_ctx s)" using inv(2) by (simp add: trail_inv_def)
  have "cx_AttemptTrail (rt_ctx (record_attempt env s1)) = Some (open_trail ?calls (rt_currentKey s1)) \<and> rt_pending s1 = None \<and>
    cx_SelectedKeyID (rt_ctx s1) = Some (key_ID (rt_currentKey s1)) \<and>
    cx_SelectedKeyName (rt_ctx s1) = Some (key_Name (rt_currentKey s1)) \<and> cx_Tracer (rt_ctx s1)"
  proof (cases "rt_attempts s = 0 \<or> rt_lastPerKey s")
    case True
    obtain w c u r where p: "provide (rt_world ?b) (rt_ctx ?b) (rt_used ?b) (rt_dead ?b) = (w, c, u, r)" by (rule prod_cases4)
    obtain h where h: "c = (rt_ctx ?b)\<lparr>cx_RetryAfterSeconds := h\<rparr>" using provide_ctx [OF p] by blast
    obtain k where r: "r = Inr k" using sel True kp p by (cases r) (auto simp: select_key_def)
    let ?c = "c\<lparr>cx_SelectedKeyID := Some (key_ID k), cx_SelectedKeyName := Some (key_Name k)\<rparr>"
    have s1: "s1 = ?b\<lparr>rt_world := w, rt_used := u, rt_currentKey := k, rt_ctx := confirm_rotation (rt_pending s) k ?c, rt_pending := None\<rparr>"
      using sel True kp p r by (auto simp: select_key_def)
    have keep: "cx_SelectedKeyID (confirm_rotation q k ?c) = Some (key_ID k)" "cx_SelectedKeyName (confirm_rotation q k ?c) = Some (key_Name k)"
      "cx_Tracer (confirm_rotation q k ?c) = cx_Tracer (rt_ctx s)" for q
      by (simp_all add: confirm_rotation_def h begin_attempt_def Let_def split: option.splits)
    have "cx_AttemptTrail (rt_ctx (record_attempt env s1)) = Some (open_trail ?calls k)"
    proof (cases "?calls = []")
      case True
      then have "cx_AttemptTrail (rt_ctx s1) = Some []" using inv(2) n
        by (simp add: s1 confirm_rotation_def trail_inv_def h begin_attempt_def Let_def kp)
      with True show ?thesis unfolding rec
        by (simp add: append_ctx_list_def append_new_def open_trail_def trail_of_single fail_note_def s1)
    next
      case False
      have pend: "rt_pending s = Some (length ?calls - 1)" and t: "cx_AttemptTrail (rt_ctx s) = Some (trail_of ?calls)"
        and lp: "failed_with isPerKeyFailure (last ?calls)"
        using False True inv(2) le n by (auto simp: trail_inv_def)
      have tc: "cx_AttemptTrail ?c = Some (trail_of ?calls)" using t False n by (simp add: h begin_attempt_def Let_def)
      have lastid: "ar_KeyID (trail_of ?calls ! (length ?calls - 1)) = key_ID (cl_key (last ?calls))"
        using False by (simp add: nth_trail_of last_conv_nth)
      let ?t = "if key_ID (cl_key (last ?calls)) \<noteq> key_ID k
          then (trail_of ?calls)[length ?calls - 1 := (trail_of ?calls ! (length ?calls - 1))\<lparr>ar_TriggeredRotation := True\<rparr>] else trail_of ?calls"
      have t1: "cx_AttemptTrail (rt_ctx s1) = Some ?t"
        using False lastid by (simp add: s1 pend confirm_rotation_def tc)
      have "map ar_Attempt ?t = map int [0..<length ?t]" using trail_attempts [of ?calls] by (simp add: flagged_attempts)
      then show ?thesis unfolding rec t1
        by (subst append_attempt) (use False lp in \<open>auto simp: open_trail_def trail_of_snoc fail_note_def s1\<close>)
    qed
    then show ?thesis using keep tr by (simp add: s1)
  next
    case False
    then have s1: "s1 = ?b" using sel kp by (auto simp: select_key_def)
    have ne: "?calls \<noteq> []" using False n by auto
    have t: "cx_AttemptTrail (rt_ctx s1) = Some (trail_of ?calls)" using inv(2) ne n by (simp add: s1 trail_inv_def begin_attempt_def Let_def)
    have "cx_AttemptTrail (rt_ctx (record_attempt env s1)) = Some (open_trail ?calls (rt_currentKey s1))"
      unfolding rec t by (subst append_attempt [OF trail_attempts])
        (use inv(2) ne False in \<open>auto simp: open_trail_def trail_of_snoc fail_note_def trail_inv_def\<close>)
    then show ?thesis using inv(2) ne n False le by (simp add: s1 trail_inv_def begin_attempt_def Let_def)
  qed
  then show "cx_AttemptTrail (rt_ctx (record_attempt env s1)) = Some (open_trail (rt_calls s) (rt_currentKey s1))"
    "rt_pending s1 = None" "cx_SelectedKeyID (rt_ctx s1) = Some (key_ID (rt_currentKey s1))"
    "cx_SelectedKeyName (rt_ctx s1) = Some (key_Name (rt_currentKey s1))" "cx_Tracer (rt_ctx s1)" by blast+
qed

end


context key_provider
begin

lemma trail_inv_kept:
  assumes kp: "re_keyProvider env = Some provide" and q: "quiet_hooks env"
  shows "loop_keeps env (\<lambda>s. retry_inv env s \<and> trail_inv env s)"
  unfolding loop_keeps_def
proof (intro allI impI conjI)
  fix s s' assume inv: "retry_inv env s \<and> trail_inv env s" and le: "rt_attempts s \<le> budget env s" and step: "attempt_once env s = Again s'"
  show "retry_inv env (s'\<lparr>rt_attempts := rt_attempts s' + 1\<rparr>)" using inv le step retry_inv_step by blast
  obtain s1 where sel: "select_key env (begin_attempt env s) = (s1, None)"
    and j: "judge env (call_upstream env (announce_retry env (record_attempt env s1))) = Again s'"
    using step by (cases rule: attempt_cases) auto
  let ?r = "record_attempt env s1"
  let ?u = "call_upstream env (announce_retry env ?r)"
  note o = trail_opened [OF kp _ _ le sel] and f = select_key_frame [OF sel]
  have inv': "retry_inv env s" "trail_inv env s" using inv by auto
  note o = o [OF inv']
  have ku: "keeps_audit (rt_ctx ?r) (rt_ctx ?u)"
    using keeps_audit_trans [OF keeps_audit_announce keeps_audit_call [OF q]] .
  have r: "cx_SelectedKeyID (rt_ctx ?r) = cx_SelectedKeyID (rt_ctx s1)" "cx_SelectedKeyName (rt_ctx ?r) = cx_SelectedKeyName (rt_ctx s1)"
    "cx_Tracer (rt_ctx ?r) = cx_Tracer (rt_ctx s1)" by (simp_all add: record_attempt_def)
  have u: "cx_AttemptTrail (rt_ctx ?u) = Some (open_trail (rt_calls s) (rt_currentKey s1))" "rt_pending ?u = None"
    "cx_SelectedKeyID (rt_ctx ?u) = Some (key_ID (rt_currentKey s1))" "cx_SelectedKeyName (rt_ctx ?u) = Some (key_Name (rt_currentKey s1))"
    "cx_Tracer (rt_ctx ?u)"
    using ku o r by (simp_all add: keeps_audit_def call_upstream_def split: prod.splits)
  have noted: "cx_AttemptTrail (note_failure e (rt_ctx ?u)) = Some (trail_of (rt_calls s @ [\<lparr>cl_key = rt_currentKey s1, cl_error = Some e\<rparr>]))"
    "cx_SelectedKeyID (note_failure e (rt_ctx ?u)) = Some (key_ID (rt_currentKey s1))"
    "cx_SelectedKeyName (note_failure e (rt_ctx ?u)) = Some (key_Name (rt_currentKey s1))" "cx_Tracer (note_failure e (rt_ctx ?u))"
    if "\<not> ends_request e" for e
    using trail_of_outcome [OF that, of "rt_calls s" "rt_currentKey s1"] u
    by (auto simp: note_failure_def open_trail_def)
  have finish: "trail_inv env ((after_failure env e v)\<lparr>rt_attempts := rt_attempts (after_failure env e v) + 1\<rparr>)"
    if e: "\<not> ends_request e" "rt_error ?u = Some e" and v: "keeps_audit (note_failure e (rt_ctx ?u)) (rt_ctx v)"
      "rt_calls v = rt_calls ?u" "rt_currentKey v = rt_currentKey s1" "rt_pending v = None" "rt_attempts v = rt_attempts s" for e v
  proof -
    have calls: "rt_calls v = rt_calls s @ [\<lparr>cl_key = rt_currentKey s1, cl_error = Some e\<rparr>]" using v(2) e(2) f by simp
    have tv: "cx_AttemptTrail (rt_ctx v) = Some (trail_of (rt_calls v))" using v(1) noted(1) [OF e(1)] calls by (simp add: keeps_audit_def)
    have ne: "trail_of (rt_calls v) \<noteq> []" unfolding calls by (metis length_trail_of length_greater_0_conv length_append_singleton zero_less_Suc)
    have ka: "keeps_audit (rt_ctx v) (rt_ctx (after_failure env e v))" by (rule keeps_audit_after [OF q])
    have a: "cx_AttemptTrail (rt_ctx (after_failure env e v)) = Some (trail_of (rt_calls v))"
      "cx_SelectedKeyID (rt_ctx (after_failure env e v)) = Some (key_ID (rt_currentKey s1))"
      "cx_SelectedKeyName (rt_ctx (after_failure env e v)) = Some (key_Name (rt_currentKey s1))"
      "cx_Tracer (rt_ctx (after_failure env e v))"
      using ka v(1) tv noted(2-4) [OF e(1)] by (simp_all add: keeps_audit_def)
    have l: "rt_calls v \<noteq> []" "last (rt_calls v) = \<lparr>cl_key = rt_currentKey s1, cl_error = Some e\<rparr>" by (simp_all add: calls)
    show ?thesis unfolding trail_inv_def
      using after_failure_pending [OF q tv ne, of e] a l v(3-5) by (simp add: kp budget_def)
  qed
  show "trail_inv env (s'\<lparr>rt_attempts := rt_attempts s' + 1\<rparr>)" using j
  proof (cases rule: judge_cases)
    case (stripped e s2)
    note t = try_strip_frame [OF stripped(3)] and k = keeps_audit_strip [OF stripped(3)]
    have "rt_pending s2 = None" using stripped(3) u(2) by (auto simp: try_strip_def split: if_splits option.splits)
    then show ?thesis using finish [OF stripped(2,1), of s2] stripped(4) t k f by simp
  next
    case (retried e)
    then show ?thesis using finish [OF retried(2,1), of "?u\<lparr>rt_ctx := note_failure e (rt_ctx ?u), rt_lastStrip := False\<rparr>"] u(2) f by simp
  qed auto
qed

lemma audit_exact:
  assumes kp: "re_keyProvider env = Some provide" and q: "quiet_hooks env" and tr: "cx_Tracer ctx"
    and nn: "0 \<le> nc_MaxRetries (pc_Network (re_config env))"
    and run: "executeRequestWithRetries env w ctx req = (s, res, err)"
  shows "cx_AttemptTrail (rt_ctx s) = Some (trail_of (rt_calls s)) \<and>
    (if err = None then rt_calls s \<noteq> [] \<and> cl_error (last (rt_calls s)) = None \<and>
       cx_SelectedKeyID (rt_ctx s) = Some (key_ID (cl_key (last (rt_calls s))))
     else cx_SelectedKeyID (rt_ctx s) = Some [])"
proof -
  have start: "retry_inv env (retry_start env w ctx req) \<and> trail_inv env (retry_start env w ctx req)"
    using retry_inv_start tr by (simp add: trail_inv_def retry_start_def)
  have kt: "cx_AttemptTrail (terminal_note env n er c) = cx_AttemptTrail c" "cx_SelectedKeyID (terminal_note env n er c) = cx_SelectedKeyID c" for n er c
    using keeps_audit_terminal [of c env n er] by (simp_all add: keeps_audit_def)
  have cs: "cx_AttemptTrail (clear_selected c) = cx_AttemptTrail c" "cx_SelectedKeyID (clear_selected c) = Some []" for c
    by (simp_all add: clear_selected_def)
  from run start trail_inv_kept [OF kp q] show ?thesis
  proof (cases rule: finished_run)
    case (exhausted t)
    then have ne: "rt_calls t \<noteq> []" using nn by (auto simp: retry_inv_def budget_def)
    have "rt_error t = cl_error (last (rt_calls t))" "cl_error (last (rt_calls t)) \<noteq> None"
      using exhausted(1) ne by (auto simp: retry_inv_def list_all_iff dest!: last_in_set split: option.splits)
    then show ?thesis using exhausted ne by (auto simp: kt cs kp trail_inv_def)
  next
    case (no_key t s1 e)
    let ?b = "begin_attempt env t"
    obtain w' c u r where p: "provide (rt_world ?b) (rt_ctx ?b) (rt_used ?b) (rt_dead ?b) = (w', c, u, r)" by (rule prod_cases4)
    obtain h where h: "c = (rt_ctx ?b)\<lparr>cx_RetryAfterSeconds := h\<rparr>" using provide_ctx [OF p] by blast
    have c1: "rt_ctx s1 = clear_selected c" using no_key(3) kp p
      by (cases r) (auto simp: select_key_def split: if_splits)
    have "cx_AttemptTrail c = Some (trail_of (rt_calls t))"
      using no_key(1) by (auto simp: h begin_attempt_def Let_def kp retry_inv_def trail_inv_def split: if_splits)
    then show ?thesis using no_key c1 select_key_frame(4) [OF no_key(3)] by (simp add: kt cs)
  next
    case (no_tracer t s1)
    have inv: "retry_inv env t" "trail_inv env t" using no_tracer(1) by auto
    have "cx_Tracer (rt_ctx (announce_retry env (record_attempt env s1)))"
      using trail_opened(5) [OF kp inv no_tracer(2,3)] keeps_audit_announce [of "record_attempt env s1" env]
      by (simp add: keeps_audit_def record_attempt_def)
    with no_tracer(4) show ?thesis by blast
  next
    case (called t s1 v)
    have inv: "retry_inv env t" "trail_inv env t" using called(1) by auto
    let ?r = "record_attempt env s1"
    let ?u = "call_upstream env (announce_retry env ?r)"
    note o = trail_opened [OF kp inv called(2,3)] and d = done_shape [OF called(4)]
    have ku: "keeps_audit (rt_ctx ?r) (rt_ctx ?u)"
      using keeps_audit_trans [OF keeps_audit_announce keeps_audit_call [OF q]] .
    have sel: "cx_SelectedKeyID (rt_ctx ?u) = Some (key_ID (rt_currentKey s1))"
      using ku o(3) by (simp add: keeps_audit_def record_attempt_def)
    have tu: "cx_AttemptTrail (rt_ctx ?u) = Some (open_trail (rt_calls t) (rt_currentKey s1))"
      using ku o(1) by (simp add: keeps_audit_def)
    have calls: "rt_calls v = rt_calls t @ [\<lparr>cl_key = rt_currentKey s1, cl_error = rt_error ?u\<rparr>]"
      using d(1) select_key_frame(4) [OF called(3)] by simp
    have tv: "cx_AttemptTrail (rt_ctx v) = Some (trail_of (rt_calls v))"
    proof (cases "rt_error ?u")
      case None
      then show ?thesis using d(9) tu unfolding calls by (simp add: open_trail_def)
    next
      case (Some e)
      show ?thesis
      proof (cases "ends_request e")
        case True
        then have "trail_of (rt_calls t @ [\<lparr>cl_key = rt_currentKey s1, cl_error = Some e\<rparr>]) = open_trail (rt_calls t) (rt_currentKey s1)"
          by (simp add: open_trail_def trail_of_snoc fail_note_def)
        with Some True show ?thesis using d(9) tu unfolding calls by simp
      next
        case False
        have "cx_AttemptTrail (rt_ctx v) = Some (trail_of (rt_calls t @ [\<lparr>cl_key = rt_currentKey s1, cl_error = Some e\<rparr>]))"
          using d(9) Some False tu trail_of_outcome [OF False, of "rt_calls t" "rt_currentKey s1"]
          by (auto simp: note_failure_def open_trail_def)
        then show ?thesis unfolding calls Some .
      qed
    qed
    have sv: "rt_error ?u = None \<Longrightarrow> cx_SelectedKeyID (rt_ctx v) = Some (key_ID (rt_currentKey s1))" using d(9) sel by simp
    show ?thesis using called(5,7) tv sv d(2) calls by (simp add: kt cs kp)
  qed
qed

end


section \<open>Properties\<close>

text \<open>C13: the retry loop ends, and within its budget. However the upstream answers, a request makes at most
  one call more than the configured number of retries, and a second extra one only if encrypted
  reasoning was stripped from it. Every call but the last failed in a way that justifies another: not
  cancelled and not an internal error, and retryable; the one exception is the call whose rejected
  reasoning was stripped.\<close>

theorem retry_bounded:
  assumes "executeRequestWithRetries env w ctx req = (s, res, err)"
  shows "int (length (rt_calls s)) \<le> max 0 (nc_MaxRetries (pc_Network (re_config env)) + 1) + of_bool (rt_stripped s) \<and>
    list_all (failed_with (\<lambda>e. \<not> ends_request e \<and> (retryable e \<or> isEncryptedReasoningRejection e))) (butlast (rt_calls s)) \<and>
    length (filter (failed_with (\<lambda>e. \<not> retryable e)) (butlast (rt_calls s))) \<le> of_bool (rt_stripped s)"
  using finished_calls [OF assms] unfolding calls_ok_def by blast

text \<open>A small gateway for the examples: the keys \<open>k1\<close> and \<open>k2\<close>, of which the upstream refuses the first.\<close>

definition failure :: "int \<Rightarrow> bifrost_error" where
  "failure c = zero_error\<lparr>be_StatusCode := Some c, be_Error := Some \<lparr>ef_Type = None, ef_Code = None, ef_Message = ''no'', ef_Error = None\<rparr>\<rparr>"

definition no_json :: json_ops where
  "no_json = \<lparr>js_input = (\<lambda>_. None), js_encrypted = (\<lambda>_. False), js_delete = (\<lambda>_. None), js_empty_item = (\<lambda>_. False),
     js_set_input = (\<lambda>_ _. None)\<rparr>"

definition sample_env :: "int \<Rightarrow> int \<Rightarrow> world key_provider_fn option \<Rightarrow> world marker_hook option \<Rightarrow> (world, string) retry_env" where
  "sample_env retries code kp mark =
     \<lparr>re_config = sample_config retries,
       re_handler = (\<lambda>w c r k. (w, c, r, Response ''ok'', if key_ID k = ''k1'' then Some (failure code) else None)),
       re_keyProvider = kp, re_deadText = errAllKeysDead, re_marker = mark, re_requestType = ''chat_completion'',
       re_provider = P_OpenAI, re_model = ''gpt'', re_json = no_json, re_zero = Response [], re_rand = (\<lambda>_. 0)\<rparr>"

abbreviation idle_world :: world where
  "idle_world \<equiv> \<lparr>wd_cool = NewCooldownState 0, wd_now = 120, wd_draws = 0\<rparr>"

abbreviation sample_rotation :: "world key_provider_fn" where
  "sample_rotation \<equiv> rotatingKeyProvider (Some cooldown_filter) (weighted_selector (\<lambda>_. 0)) P_OpenAI ''gpt''
     [any_key ''k1'', any_key ''k2'']"

abbreviation traced :: bctx where
  "traced \<equiv> empty_ctx\<lparr>cx_Tracer := True\<rparr>"

lemma sample_run:
  "rt_calls (fst (executeRequestWithRetries (sample_env 2 401 (Some sample_rotation) None) idle_world traced None)) =
     [\<lparr>cl_key = any_key ''k1'', cl_error = Some (failure 401)\<rparr>, \<lparr>cl_key = any_key ''k2'', cl_error = None\<rparr>]"
  by code_simp


theorem retry_bounded_witness:
  "length (rt_calls (fst (executeRequestWithRetries (sample_env 2 401 (Some sample_rotation) None) idle_world traced None))) \<le> 4"
proof -
  let ?x = "executeRequestWithRetries (sample_env 2 401 (Some sample_rotation) None) idle_world traced None"
  obtain s res err where run: "?x = (s, res, err)" by (rule prod_cases3)
  show ?thesis using retry_bounded [OF run] unfolding run by (cases "rt_stripped s") (simp_all add: sample_env_def)
qed

text \<open>C4: a credential the upstream has refused is not used again. Once a call has failed with status 401,
  402 or 403, no later call of the request is made with a key of that identifier, with the rotating and
  with the fixed key provider.\<close>

theorem dead_keys_not_reused:
  assumes "re_keyProvider env = Some (rotatingKeyProvider (Some cooldown_filter) (weighted_selector raw) p model pool) \<or>
      re_keyProvider env = Some (newFixedKeyProvider (Some cooldown_filter) p model fixedKey)"
    and "executeRequestWithRetries env w ctx req = (s, res, err)" and "i < j" and "j < length (rt_calls s)"
    and "cl_error (rt_calls s ! i) = Some e" and "be_StatusCode e \<in> {Some 401, Some 402, Some 403}" and "\<not> ends_request e"
  shows "key_ID (cl_key (rt_calls s ! j)) \<noteq> key_ID (cl_key (rt_calls s ! i))"
proof -
  have "sorted_wrt (\<lambda>a b. failed_with permanent_key_failure a \<longrightarrow> key_ID (cl_key b) \<noteq> key_ID (cl_key a)) (rt_calls s)"
    using assms(1) gw_rotating.rotating.calls_avoid_dead [OF _ assms(2)] gw_fixed.fixed.calls_avoid_dead [OF _ assms(2)] by blast
  then show ?thesis using assms(3-7)
    by (auto simp: sorted_wrt_iff_nth_less permanent_key_failure_def permanent_status_def)
qed

theorem dead_keys_not_reused_witness:
  "key_ID (cl_key (rt_calls (fst (executeRequestWithRetries (sample_env 2 401 (Some sample_rotation) None) idle_world traced None)) ! 1)) \<noteq> ''k1''"
proof -
  let ?env = "sample_env 2 401 (Some sample_rotation) None"
  obtain s res err where run: "executeRequestWithRetries ?env idle_world traced None = (s, res, err)" by (rule prod_cases3)
  have calls: "rt_calls s = [\<lparr>cl_key = any_key ''k1'', cl_error = Some (failure 401)\<rparr>, \<lparr>cl_key = any_key ''k2'', cl_error = None\<rparr>]"
    using sample_run unfolding run by simp
  have kp: "re_keyProvider ?env = Some sample_rotation" by (simp add: sample_env_def)
  have "\<not> ends_request (failure 401)" by code_simp
  then show ?thesis using dead_keys_not_reused [OF disjI1 [OF kp] run, of 0 1 "failure 401"] calls run
    by (simp add: failure_def zero_error_def)
qed

text \<open>The attempt trail is exact. When the upstream handler and the marker leave the trail alone, the
  trail after the request lists its calls in order, numbered from 0, each with the key it used, with the
  reason it failed for, and flagged as a rotation exactly when the failure was the key's and the next
  call used another key.\<close>

lemma attempt_trail_exact:
  assumes "re_keyProvider env = Some (rotatingKeyProvider (Some cooldown_filter) (weighted_selector raw) p model pool)"
    and "quiet_hooks env" and "cx_Tracer ctx" and "0 \<le> nc_MaxRetries (pc_Network (re_config env))"
    and "executeRequestWithRetries env w ctx req = (s, res, err)"
  shows "cx_AttemptTrail (rt_ctx s) = Some (map (\<lambda>i.
    \<lparr>ar_Attempt = int i, ar_KeyID = key_ID (cl_key (rt_calls s ! i)), ar_KeyName = key_Name (cl_key (rt_calls s ! i)),
      ar_FailReason = (case cl_error (rt_calls s ! i) of None \<Rightarrow> None | Some e \<Rightarrow> if ends_request e then None else Some (fail_reason e)),
      ar_TriggeredRotation = (Suc i < length (rt_calls s) \<and> failed_with isPerKeyFailure (rt_calls s ! i) \<and>
        key_ID (cl_key (rt_calls s ! Suc i)) \<noteq> key_ID (cl_key (rt_calls s ! i)))\<rparr>) [0..<length (rt_calls s)])"
  using gw_rotating.rotating.audit_exact [OF assms]
  by (simp add: trail_of_def fail_note_def [abs_def] rotated_def [abs_def])

lemma sample_quiet: "quiet_hooks (sample_env n c kp None)"
  by (simp add: quiet_hooks_def sample_env_def)

text \<open>The selected key names the key that served the request. Under the same conditions the context
  names, after a success, the key of the last call, which succeeded, and no key after a failure.\<close>

lemma selected_key_iff_success:
  assumes "re_keyProvider env = Some (rotatingKeyProvider (Some cooldown_filter) (weighted_selector raw) p model pool)"
    and "quiet_hooks env" and "cx_Tracer ctx" and "0 \<le> nc_MaxRetries (pc_Network (re_config env))"
    and "executeRequestWithRetries env w ctx req = (s, res, err)"
  shows "if err = None then rt_calls s \<noteq> [] \<and> cl_error (last (rt_calls s)) = None \<and>
       cx_SelectedKeyID (rt_ctx s) = Some (key_ID (cl_key (last (rt_calls s))))
     else cx_SelectedKeyID (rt_ctx s) = Some []"
  using gw_rotating.rotating.audit_exact [OF assms] by blast

text \<open>The failure marker sees exactly the transient per-key failures, the intermediate ones included:
  the identifiers it is called with are, in order, the keys of the calls that failed on a rate limit or
  another per-key error other than 401, 402 and 403.\<close>

lemma marker_sees_transient_failures:
  assumes "executeRequestWithRetries env w ctx req = (s, res, err)" and "re_marker env \<noteq> None" and "re_keyProvider env \<noteq> None"
  shows "rt_marks s = map (\<lambda>c. key_ID (cl_key c)) (filter (\<lambda>c. \<exists>e. cl_error c = Some e \<and>
    \<not> ends_request e \<and> isPerKeyFailure e \<and> be_StatusCode e \<notin> {Some 401, Some 402, Some 403}) (rt_calls s))"
proof -
  have "failed_with transient_key_failure = (\<lambda>c. \<exists>e. cl_error c = Some e \<and> \<not> ends_request e \<and> isPerKeyFailure e \<and>
      be_StatusCode e \<notin> {Some 401, Some 402, Some 403})"
    by (rule ext) (simp add: transient_key_failure_def permanent_status_def split: option.splits)
  with finished_calls [OF assms(1)] assms(2,3) show ?thesis unfolding calls_ok_def by simp
qed

text \<open>The cooldown plugin as marker.\<close>

definition cooldown_marker :: "world marker_hook" where
  "cooldown_marker w ctx p keyID keyName model e =
     (w\<lparr>wd_cool := AsMarker (wd_cool w) (Some ctx) p keyID model (Some e) (wd_now w)\<rparr>, ctx)"

lemma sample_marked_calls:
  "rt_calls (fst (executeRequestWithRetries (sample_env 0 429 (Some sample_rotation) (Some cooldown_marker)) idle_world traced None)) =
     [\<lparr>cl_key = any_key ''k1'', cl_error = Some (failure 429)\<rparr>]"
  by code_simp

end
