(* ===== verification/Dispatch.thy ===== *)
theory Dispatch
  imports PluginPipeline Retry
begin

text \<open>
  One attempt of a request at one provider: \<open>tryRequest\<close> and \<open>tryStreamRequest\<close> of \<open>core/bifrost.go\<close>.
  An attempt looks up the provider's queue, runs the pre-hooks, enqueues the request, waits for the worker
  and runs the post-hooks in reverse.

  The record \<open>core\<close> holds what an attempt uses of the gateway. The worker is an argument here
  (theory \<open>Worker\<close> defines it). Which case of a \<open>select\<close> wins depends on other goroutines;
  the record \<open>schedule\<close> says what happened, and the theorems hold for every schedule. Hooks and the worker
  change the request in place, so an attempt also returns the request as its caller sees it afterwards.
  The pools of messages and channels are left out.
\<close>

section \<open>The gateway as an attempt sees it\<close>

datatype send_event = Sent | QueueDone | CallerDone

record schedule =
  sd_closing :: bool
  sd_rerouted :: bool
  sd_send :: "send_event option"
  sd_dropExcess :: bool
  sd_closingAgain :: bool
  sd_blockedSend :: send_event
  sd_timedOut :: bool
  sd_ctxText :: string

datatype 'a worker_reply = Replied "'a bresponse option" | WorkerFailed bifrost_error | CallerGone

text \<open>A channel of stream chunks: nil, or what it delivers until it is closed. \<open>Crashing\<close> is a channel whose
  sender dereferences a nil response.\<close>

datatype 'a stream = NilChan | Chan "('a bresponse option \<times> bifrost_error option) list" | Crashing

datatype 'a stream_reply = StreamReplied "'a stream" | StreamFailed bifrost_error | StreamCallerGone

record ('w, 'a) core =
  co_plugins :: "('w, 'a) plugin list"
  co_pluginCount :: "'w \<Rightarrow> int"
  co_config :: "provider \<Rightarrow> string + provider_config option"
  co_keys :: "provider \<Rightarrow> string + key list"
  co_queue :: "'w \<Rightarrow> provider \<Rightarrow> 'w \<times> string option"
  co_tools :: "('w \<Rightarrow> bctx \<Rightarrow> brequest \<Rightarrow> brequest) option"
  co_tracer :: bool
  co_schedule :: "'w \<Rightarrow> schedule"
  co_worker :: "'w \<Rightarrow> bctx \<Rightarrow> brequest \<Rightarrow> 'w \<times> bctx \<times> brequest \<times> 'a worker_reply"
  co_streamWorker :: "'w \<Rightarrow> bctx \<Rightarrow> brequest \<Rightarrow> 'w \<times> bctx \<times> brequest \<times> 'a stream_reply"

definition newBifrostError :: "string \<Rightarrow> bifrost_error" where
  "newBifrostError err =
     zero_error\<lparr>be_Error := Some \<lparr>ef_Type = None, ef_Code = None, ef_Message = err, ef_Error = Some err\<rparr>\<rparr>"

section \<open>Waiting for the queue\<close>

definition shutting_down :: bifrost_error where
  "shutting_down = newBifrostErrorFromMsg ''provider is shutting down''"

definition sent_or_error :: "schedule \<Rightarrow> send_event \<Rightarrow> bifrost_error option" where
  "sent_or_error sd ev =
     (case ev of
        Sent \<Rightarrow> None
      | QueueDone \<Rightarrow> Some shutting_down
      | CallerDone \<Rightarrow> Some (newBifrostCtxDoneError (sd_timedOut sd) (sd_ctxText sd) ''while waiting for queue space''))"

text \<open>\<open>None\<close> when the message is in the queue.\<close>

definition enqueue :: "schedule \<Rightarrow> bifrost_error option" where
  "enqueue sd =
     (if sd_closing sd \<and> \<not> sd_rerouted sd then Some shutting_down
      else (case sd_send sd of
              Some ev \<Rightarrow> sent_or_error sd ev
            | None \<Rightarrow>
                if sd_dropExcess sd then Some newBifrostQueueFullError
                else if sd_closingAgain sd then Some shutting_down
                else sent_or_error sd (sd_blockedSend sd)))"

section \<open>The result of an attempt\<close>

text \<open>The metadata the core stamps on whatever leaves an attempt.\<close>

record stamp =
  sm_RequestType :: string
  sm_Provider :: provider
  sm_Model :: string

definition stamp_err :: "stamp \<Rightarrow> bifrost_error \<Rightarrow> bifrost_error" where
  "stamp_err sm e = PopulateExtraFields e (sm_RequestType sm) (sm_Provider sm) (sm_Model sm) (sm_Model sm)"

definition stamp_resp :: "stamp \<Rightarrow> 'a bresponse \<Rightarrow> 'a bresponse" where
  "stamp_resp sm r = resp_PopulateExtraFields r (sm_RequestType sm) (sm_Provider sm) (sm_Model sm) (sm_Model sm)"

text \<open>The post-hooks on a response or an error, and what is made of their result.\<close>

definition finish ::
  "('w, 'a) core \<Rightarrow> stamp \<Rightarrow> int \<Rightarrow> 'w pipe \<Rightarrow> 'a bresponse option \<Rightarrow> bifrost_error option \<Rightarrow>
   'w pipe \<times> 'a bresponse option \<times> bifrost_error option" where
  "finish co sm n p resp err =
     (case RunPostLLMHooks (co_plugins co) p resp err n of
        (p', resp', err') \<Rightarrow>
          (case err' of
             Some e \<Rightarrow> (p', None, Some (stamp_err sm e))
           | None \<Rightarrow> (p', map_option (stamp_resp sm) resp', None)))"

definition drop_raw_resp :: "bctx \<Rightarrow> 'a bresponse \<Rightarrow> 'a bresponse" where
  "drop_raw_resp ctx r =
     (let r1 = (if cx_DropRawRequestFromClient ctx = Some True then r\<lparr>rp_RawRequest := None\<rparr> else r)
      in if cx_DropRawResponseFromClient ctx = Some True then r1\<lparr>rp_RawResponse := None\<rparr> else r1)"

definition drop_raw_err :: "bctx \<Rightarrow> bifrost_error \<Rightarrow> bifrost_error" where
  "drop_raw_err ctx e =
     (let e1 = (if cx_DropRawRequestFromClient ctx = Some True then e\<lparr>be_RawRequest := None\<rparr> else e)
      in if cx_DropRawResponseFromClient ctx = Some True then e1\<lparr>be_RawResponse := None\<rparr> else e1)"

definition silence :: "bifrost_error \<Rightarrow> bctx \<Rightarrow> bctx" where
  "silence e ctx = (if isSyntheticNoEligibleKeysError (Some e) then ctx\<lparr>cx_SilentLog := Some True\<rparr> else ctx)"

text \<open>How the worker's answer leaves the attempt. When the caller is gone the post-hooks do not run here.\<close>

definition settle_worker ::
  "('w, 'a) core \<Rightarrow> stamp \<Rightarrow> schedule \<Rightarrow> int \<Rightarrow> 'w pipe \<Rightarrow> brequest \<Rightarrow> 'a worker_reply \<Rightarrow>
   'w pipe \<times> 'a bresponse option \<times> bifrost_error option" where
  "settle_worker co sm sd n p req reply =
     (case reply of
        Replied result \<Rightarrow>
          (case finish co sm n p result None of
             (p', resp, None) \<Rightarrow> (p', map_option (drop_raw_resp (pp_ctx p')) resp, None)
           | (p', _, Some e) \<Rightarrow> (p', None, Some e))
      | WorkerFailed err \<Rightarrow>
          (case finish co sm n (p\<lparr>pp_ctx := silence err (pp_ctx p)\<rparr>) None (Some err) of
             (p', resp, None) \<Rightarrow> (p', map_option (drop_raw_resp (pp_ctx p')) resp, None)
           | (p', _, Some e) \<Rightarrow> (p', None, Some (drop_raw_err (pp_ctx p') e)))
      | CallerGone \<Rightarrow>
          (p, None, Some (stamp_err (sm\<lparr>sm_Provider := req_provider req, sm_Model := req_model req\<rparr>)
             (newBifrostCtxDoneError (sd_timedOut sd) (sd_ctxText sd) ''waiting for provider response''))))"

definition enqueue_and_wait ::
  "('w, 'a) core \<Rightarrow> string \<Rightarrow> 'w pipe \<Rightarrow> brequest \<Rightarrow> 'w pipe \<times> brequest \<times> 'a bresponse option \<times> bifrost_error option" where
  "enqueue_and_wait co rt p req =
     (let sm = \<lparr>sm_RequestType = rt, sm_Provider = req_provider req, sm_Model = req_model req\<rparr>;
          sd = co_schedule co (pp_world p)
      in case enqueue sd of
           Some e \<Rightarrow> (p, req, None, Some (stamp_err sm e))
         | None \<Rightarrow>
             (case co_worker co (pp_world p) (pp_ctx p) req of
                (w, ctx, req', reply) \<Rightarrow>
                  (case settle_worker co sm sd (co_pluginCount co (pp_world p)) (p\<lparr>pp_world := w, pp_ctx := ctx\<rparr>) req' reply of
                     (p', resp, err) \<Rightarrow> (p', req', resp, err))))"

text \<open>A short-circuit ends the attempt when it carries a response or an error; \<open>None\<close> when it carries neither.\<close>

definition short_result ::
  "('w, 'a) core \<Rightarrow> stamp \<Rightarrow> nat \<Rightarrow> 'w pipe \<Rightarrow> 'a short_circuit \<Rightarrow> ('w pipe \<times> 'a bresponse option \<times> bifrost_error option) option" where
  "short_result co sm n p sc =
     (case sc_Response sc of
        Some r \<Rightarrow> Some (finish co sm (int n) p (Some (stamp_resp sm r)) None)
      | None \<Rightarrow>
          (case sc_Error sc of
             Some e \<Rightarrow> Some (finish co sm (int n) p None (Some (stamp_err sm e)))
           | None \<Rightarrow> None))"

definition mark_silent :: "'a short_circuit option \<Rightarrow> bctx \<Rightarrow> bctx" where
  "mark_silent sc ctx = (case sc of Some s \<Rightarrow> if sc_Silent s then ctx\<lparr>cx_SilentLog := Some True\<rparr> else ctx | None \<Rightarrow> ctx)"

definition nil_request :: "string \<Rightarrow> bifrost_error" where
  "nil_request phase = newBifrostErrorFromMsg (''bifrost request after '' @ phase @ '' cannot be nil'')"

section \<open>One attempt\<close>

text \<open>After the pre-hooks of the provider phase.\<close>

definition try_llm_phase ::
  "('w, 'a) core \<Rightarrow> stamp \<Rightarrow> 'w pipe \<Rightarrow> brequest \<Rightarrow> 'w pipe \<times> brequest \<times> 'a bresponse option \<times> bifrost_error option" where
  "try_llm_phase co sm p req =
     (case RunLLMPreHooks (co_plugins co) p (Some req) of
        (p1, req1, sc, n) \<Rightarrow>
          (case Option.bind sc (short_result co sm n p1) of
             Some (p2, resp, err) \<Rightarrow> (p2, (case req1 of Some r \<Rightarrow> r | None \<Rightarrow> req), resp, err)
           | None \<Rightarrow>
               (case req1 of
                  None \<Rightarrow> (p1, req, None, Some (stamp_err sm (nil_request ''plugin hooks'')))
                | Some r \<Rightarrow> enqueue_and_wait co (sm_RequestType sm) p1 r)))"

definition tryRequest ::
  "('w, 'a) core \<Rightarrow> 'w \<Rightarrow> bctx \<Rightarrow> brequest \<Rightarrow> 'w pipe \<times> brequest \<times> 'a bresponse option \<times> bifrost_error option" where
  "tryRequest co w ctx req =
     (let provider = req_provider req; model = req_model req;
          sm0 = \<lparr>sm_RequestType = br_RequestType req, sm_Provider = provider, sm_Model = model\<rparr>
      in case co_queue co w provider of
           (w1, Some e) \<Rightarrow> (fresh_pipe w1 ctx, req, None, Some (stamp_err sm0 (newBifrostError e)))
         | (w1, None) \<Rightarrow>
             (let req1 = (case co_tools co of Some add \<Rightarrow> add w1 ctx req | None \<Rightarrow> req);
                  sm = \<lparr>sm_RequestType = br_RequestType req1, sm_Provider = provider, sm_Model = model\<rparr>
              in if \<not> co_tracer co then (fresh_pipe w1 ctx, req1, None, Some (stamp_err sm (newBifrostErrorFromMsg ''tracer not found in context'')))
                 else
                   (case RunPreProviderHooks (co_config co) (co_plugins co)
                           (fresh_pipe w1 (stampProviderKeysOnContext (co_keys co) (ctx\<lparr>cx_Tracer := True\<rparr>) provider)) (Some req1) of
                      (p, req2, sc, n) \<Rightarrow>
                        (let p1 = p\<lparr>pp_ctx := mark_silent sc (pp_ctx p)\<rparr>
                         in case Option.bind sc (short_result co sm n p1) of
                              Some (p2, resp, err) \<Rightarrow> (p2, (case req2 of Some r \<Rightarrow> r | None \<Rightarrow> req1), resp, err)
                            | None \<Rightarrow>
                                (case req2 of
                                   None \<Rightarrow> (p1, req1, None, Some (stamp_err sm (nil_request ''PreProviderHook'')))
                                 | Some r \<Rightarrow> try_llm_phase co (sm\<lparr>sm_RequestType := br_RequestType r\<rparr>) p1 r)))))"

section \<open>One streaming attempt\<close>

definition newBifrostMessageChan :: "'a bresponse option \<Rightarrow> 'a stream" where
  "newBifrostMessageChan message = (case message of Some r \<Rightarrow> Chan [(Some r, None)] | None \<Rightarrow> Crashing)"

text \<open>A chunk as the client sees it: without the raw payloads that are kept for the log only.\<close>

definition BuildClientStreamChunk ::
  "bctx \<Rightarrow> 'a bresponse option \<Rightarrow> bifrost_error option \<Rightarrow> 'a bresponse option \<times> bifrost_error option" where
  "BuildClientStreamChunk ctx resp err = (map_option (drop_raw_resp ctx) resp, map_option (drop_raw_err ctx) err)"

text \<open>The chunks of a plugin's own stream go through the post-hooks one by one.\<close>

fun hook_chunks ::
  "('w, 'a) core \<Rightarrow> stamp \<Rightarrow> int \<Rightarrow> 'w pipe \<Rightarrow> ('a bresponse \<times> bifrost_error option) list \<Rightarrow>
   'w pipe \<times> ('a bresponse option \<times> bifrost_error option) list" where
  "hook_chunks co sm n p [] = (p, [])"
| "hook_chunks co sm n p ((r, e) # cs) =
     (case finish co sm n p (Some (stamp_resp sm r)) (map_option (stamp_err sm) e) of
        (p1, resp, err) \<Rightarrow>
          (case hook_chunks co sm n p1 cs of (p2, out) \<Rightarrow> (p2, BuildClientStreamChunk (pp_ctx p1) resp err # out)))"

definition settle_stream ::
  "('w, 'a) core \<Rightarrow> stamp \<Rightarrow> schedule \<Rightarrow> int \<Rightarrow> 'w pipe \<Rightarrow> 'a stream_reply \<Rightarrow> 'w pipe \<times> 'a stream \<times> bifrost_error option" where
  "settle_stream co sm sd n p reply =
     (case reply of
        StreamReplied str \<Rightarrow> (p, str, None)
      | StreamFailed err \<Rightarrow>
          (case finish co sm n (p\<lparr>pp_ctx := (silence err (pp_ctx p))\<lparr>cx_StreamEndIndicator := Some True\<rparr>\<rparr>) None (Some err) of
             (p', _, Some e) \<Rightarrow> (p', NilChan, Some e)
           | (p', Some r, None) \<Rightarrow> (p', newBifrostMessageChan (Some r), None)
           | (p', None, None) \<Rightarrow> (p', NilChan, Some err))
      | StreamCallerGone \<Rightarrow>
          (p, NilChan, Some (newBifrostCtxDoneError (sd_timedOut sd) (sd_ctxText sd) ''while waiting for stream response'')))"

definition enqueue_and_stream ::
  "('w, 'a) core \<Rightarrow> string \<Rightarrow> 'w pipe \<Rightarrow> brequest \<Rightarrow> 'w pipe \<times> brequest \<times> 'a stream \<times> bifrost_error option" where
  "enqueue_and_stream co rt p req =
     (let sm = \<lparr>sm_RequestType = rt, sm_Provider = req_provider req, sm_Model = req_model req\<rparr>;
          sd = co_schedule co (pp_world p)
      in case enqueue sd of
           Some e \<Rightarrow> (p, req, NilChan, Some (stamp_err sm e))
         | None \<Rightarrow>
             (case co_streamWorker co (pp_world p) (pp_ctx p) req of
                (w, ctx, req', reply) \<Rightarrow>
                  (case settle_stream co sm sd (co_pluginCount co w) (p\<lparr>pp_world := w, pp_ctx := ctx\<rparr>) reply of
                     (p', str, err) \<Rightarrow> (p', req', str, err))))"

text \<open>A provider-phase short-circuit. A recovered error yields neither a stream nor an error.\<close>

definition stream_provider_short ::
  "('w, 'a) core \<Rightarrow> stamp \<Rightarrow> nat \<Rightarrow> 'w pipe \<Rightarrow> 'a short_circuit \<Rightarrow> ('w pipe \<times> 'a stream \<times> bifrost_error option) option" where
  "stream_provider_short co sm n p sc =
     (case short_result co sm n p sc of
        None \<Rightarrow> None
      | Some (p', resp, Some e) \<Rightarrow> Some (p', NilChan, Some e)
      | Some (p', resp, None) \<Rightarrow>
          Some (p', (if sc_Response sc \<noteq> None then newBifrostMessageChan resp else NilChan), None))"

definition stream_llm_short ::
  "('w, 'a) core \<Rightarrow> stamp \<Rightarrow> nat \<Rightarrow> 'w pipe \<Rightarrow> 'a short_circuit \<Rightarrow> ('w pipe \<times> 'a stream \<times> bifrost_error option) option" where
  "stream_llm_short co sm n p sc =
     (case (sc_Response sc, sc_Stream sc) of
        (None, Some cs) \<Rightarrow> (case hook_chunks co sm (int n) p cs of (p', out) \<Rightarrow> Some (p', Chan out, None))
      | _ \<Rightarrow>
          (case short_result co sm n p sc of
             None \<Rightarrow> None
           | Some (p', resp, Some e) \<Rightarrow> Some (p', NilChan, Some e)
           | Some (p', resp, None) \<Rightarrow> Some (p', newBifrostMessageChan resp, None)))"

definition try_stream_llm_phase ::
  "('w, 'a) core \<Rightarrow> stamp \<Rightarrow> 'w pipe \<Rightarrow> brequest \<Rightarrow> 'w pipe \<times> brequest \<times> 'a stream \<times> bifrost_error option" where
  "try_stream_llm_phase co sm p req =
     (case RunLLMPreHooks (co_plugins co) p (Some req) of
        (p1, req1, sc, n) \<Rightarrow>
          (case Option.bind sc (stream_llm_short co sm n p1) of
             Some (p2, str, err) \<Rightarrow> (p2, (case req1 of Some r \<Rightarrow> r | None \<Rightarrow> req), str, err)
           | None \<Rightarrow>
               (case req1 of
                  None \<Rightarrow> (p1, req, NilChan, Some (stamp_err sm (nil_request ''plugin hooks'')))
                | Some r \<Rightarrow> enqueue_and_stream co (sm_RequestType sm) p1 r)))"

definition tryStreamRequest ::
  "('w, 'a) core \<Rightarrow> 'w \<Rightarrow> bctx \<Rightarrow> brequest \<Rightarrow> 'w pipe \<times> brequest \<times> 'a stream \<times> bifrost_error option" where
  "tryStreamRequest co w ctx req =
     (let provider = req_provider req; model = req_model req;
          sm0 = \<lparr>sm_RequestType = br_RequestType req, sm_Provider = provider, sm_Model = model\<rparr>
      in case co_queue co w provider of
           (w1, Some e) \<Rightarrow> (fresh_pipe w1 ctx, req, NilChan, Some (stamp_err sm0 (newBifrostError e)))
         | (w1, None) \<Rightarrow>
             (let req1 = (case co_tools co of
                     Some add \<Rightarrow> if br_RequestType req \<in> {''speech_stream'', ''transcription_stream''} then req else add w1 ctx req
                   | None \<Rightarrow> req);
                  sm = \<lparr>sm_RequestType = br_RequestType req1, sm_Provider = provider, sm_Model = model\<rparr>
              in if \<not> co_tracer co then (fresh_pipe w1 ctx, req1, NilChan, Some (stamp_err sm (newBifrostErrorFromMsg ''tracer not found in context'')))
                 else
                   (case RunPreProviderHooks (co_config co) (co_plugins co)
                           (fresh_pipe w1 (stampProviderKeysOnContext (co_keys co) (ctx\<lparr>cx_Tracer := True\<rparr>) provider)) (Some req1) of
                      (p, req2, sc, n) \<Rightarrow>
                        (let p1 = p\<lparr>pp_ctx := mark_silent sc (pp_ctx p)\<rparr>; r = (case req2 of Some r \<Rightarrow> r | None \<Rightarrow> req1)
                         in case Option.bind sc (stream_provider_short co sm n p1) of
                              Some (p2, str, err) \<Rightarrow> (p2, r, str, err)
                            | None \<Rightarrow> try_stream_llm_phase co (sm\<lparr>sm_RequestType := br_RequestType r\<rparr>) p1 r))))"


section \<open>Which hooks run\<close>

lemma finish_trace:
  assumes "finish co sm n p resp err = (p', resp', err')" and "\<not> skips_pipeline (pp_ctx p)"
  shows "pp_trace p' = pp_trace p @ map PostLLMRan (rev [0..<nat (min n (int (length (co_plugins co))))])"
    and "err' = None \<or> resp' = None"
proof -
  obtain q r e where run: "RunPostLLMHooks (co_plugins co) p resp err n = (q, r, e)" by (rule prod_cases3)
  show "pp_trace p' = pp_trace p @ map PostLLMRan (rev [0..<nat (min n (int (length (co_plugins co))))])"
    using assms post_hooks_run(1) [OF run] by (auto simp: finish_def run split: option.splits)
  show "err' = None \<or> resp' = None" using assms(1) by (auto simp: finish_def run split: option.splits)
qed

lemma short_result_decisive:
  assumes "sc_Response x \<noteq> None \<or> sc_Error x \<noteq> None"
  obtains p' resp err where "short_result co sm n p x = Some (p', resp, err)"
  using assms by (cases "short_result co sm n p x") (auto simp: short_result_def split: option.splits)

lemma short_result_trace:
  assumes "short_result co sm n p sc = Some (p', resp, err)" and "\<not> skips_pipeline (pp_ctx p)" and "n \<le> length (co_plugins co)"
  shows "pp_trace p' = pp_trace p @ map PostLLMRan (rev [0..<n])"
  using assms finish_trace(1) [of co sm "int n" p _ _ p' resp err] by (auto simp: short_result_def split: option.splits)

text \<open>A gateway whose plugins and worker leave the pipeline switched on, whose plugins short-circuit with a
  response or an error, and whose plugin list is not replaced during the attempt.\<close>

definition steady :: "('w, 'a) core \<Rightarrow> bool" where
  "steady co \<longleftrightarrow> list_all keeps_skip (co_plugins co) \<and> list_all decisive (co_plugins co) \<and>
     (\<forall>w. co_pluginCount co w = int (length (co_plugins co))) \<and>
     (\<forall>w c r. cx_SkipPluginPipeline (fst (snd (co_worker co w c r))) = cx_SkipPluginPipeline c)"

lemma settle_trace:
  assumes "settle_worker co sm sd (int (length (co_plugins co))) p req reply = (p', resp, err)" and "\<not> skips_pipeline (pp_ctx p)"
  shows "pp_trace p' = pp_trace p @ (if reply = CallerGone then [] else map PostLLMRan (rev [0..<length (co_plugins co)]))"
    and "reply = CallerGone \<longrightarrow> resp = None \<and> err \<noteq> None"
proof -
  have sil: "skips_pipeline (silence e (pp_ctx p)) = skips_pipeline (pp_ctx p)" for e
    by (simp add: silence_def skips_pipeline_def)
  have f: "pp_trace q = pp_trace p @ map PostLLMRan (rev [0..<length (co_plugins co)])"
    if "finish co sm (int (length (co_plugins co))) p0 a b = (q, c, d)" "pp_trace p0 = pp_trace p" "\<not> skips_pipeline (pp_ctx p0)"
    for p0 a b q c d using finish_trace(1) [OF that(1,3)] that(2) by simp
  show "pp_trace p' = pp_trace p @ (if reply = CallerGone then [] else map PostLLMRan (rev [0..<length (co_plugins co)]))"
    using assms by (cases reply) (auto simp: settle_worker_def sil split: prod.splits option.splits dest!: f)
  show "reply = CallerGone \<longrightarrow> resp = None \<and> err \<noteq> None" using assms(1) by (auto simp: settle_worker_def)
qed

lemma worker_trace:
  assumes "enqueue_and_wait co rt p req = (p', req', resp, err)" and "steady co" and "\<not> skips_pipeline (pp_ctx p)"
  shows "pp_trace p' = pp_trace p @ map PostLLMRan (rev [0..<length (co_plugins co)]) \<or>
    pp_trace p' = pp_trace p \<and> resp = None \<and> err \<noteq> None"
proof (cases "enqueue (co_schedule co (pp_world p))")
  case (Some e)
  then show ?thesis using assms(1) by (auto simp: enqueue_and_wait_def Let_def)
next
  case None
  obtain w c r reply where k: "co_worker co (pp_world p) (pp_ctx p) req = (w, c, r, reply)" by (rule prod_cases4)
  have "\<not> skips_pipeline c" using assms(2,3) k unfolding steady_def skips_pipeline_def by (metis fst_conv snd_conv)
  then show ?thesis using assms(1,2) None k
    settle_trace [of co _ _ "p\<lparr>pp_world := w, pp_ctx := c\<rparr>" r reply p' resp err]
    by (auto simp: enqueue_and_wait_def Let_def steady_def split: prod.splits if_splits)
qed

lemma llm_phase_trace:
  assumes "try_llm_phase co sm p req = (p', req', resp, err)" and "steady co" and "\<not> skips_pipeline (pp_ctx p)"
    and "pp_executedPreHooks p = 0"
  shows "\<exists>m k. pp_trace p' = pp_trace p @ map PreLLMRan [0..<m] @ map PostLLMRan (rev [0..<k]) \<and> m \<le> length (co_plugins co) \<and>
    (m = 0 \<longrightarrow> co_plugins co = []) \<and> (k = m \<or> k = 0 \<and> resp = None \<and> err \<noteq> None)"
proof -
  obtain p1 req1 sc n where l: "RunLLMPreHooks (co_plugins co) p (Some req) = (p1, req1, sc, n)" by (rule prod_cases4)
  note r = llm_hooks_run [OF l assms(3,4)]
  have on: "\<not> skips_pipeline (pp_ctx p1)" using r(6) assms(2) by (simp add: steady_def)
  show ?thesis
  proof (cases sc)
    case (Some x)
    then obtain q a b where short: "short_result co sm n p1 x = Some (q, a, b)"
      using r(7) assms(2) short_result_decisive by (metis steady_def)
    then have "p' = q" "resp = a" "err = b" using assms(1) Some l by (auto simp: try_llm_phase_def)
    then show ?thesis using short_result_trace [OF short on r(1)] r(1,2,4) Some by (intro exI [of _ n]) auto
  next
    case None
    then have n: "n = length (co_plugins co)" using r(3) by simp
    show ?thesis
    proof (cases req1)
      case None
      then show ?thesis using assms(1) \<open>sc = None\<close> l n r(2) by (rule_tac exI [of _ n], rule_tac exI [of _ 0]) (auto simp: try_llm_phase_def)
    next
      case (Some x)
      then have "enqueue_and_wait co (sm_RequestType sm) p1 x = (p', req', resp, err)"
        using assms(1) None l by (simp add: try_llm_phase_def)
      from worker_trace [OF this assms(2) on] show ?thesis
      proof
        assume "pp_trace p' = pp_trace p1 @ map PostLLMRan (rev [0..<length (co_plugins co)])"
        then show ?thesis using n r(1,2) by (intro exI [of _ n]) auto
      next
        assume "pp_trace p' = pp_trace p1 \<and> resp = None \<and> err \<noteq> None"
        then show ?thesis using n r(1,2) by (rule_tac exI [of _ n], rule_tac exI [of _ 0]) auto
      qed
    qed
  qed
qed

lemma tryRequest_cases:
  assumes "tryRequest co w ctx req = (p, req', resp, err)"
  obtains (early) "pp_trace p = []" "resp = None" "err \<noteq> None"
    | (hooks) w1 req1 sm p1 req2 sc n where
        "RunPreProviderHooks (co_config co) (co_plugins co)
          (fresh_pipe w1 (stampProviderKeysOnContext (co_keys co) (ctx\<lparr>cx_Tracer := True\<rparr>) (req_provider req))) (Some req1) = (p1, req2, sc, n)"
        "(p, req', resp, err) =
          (case Option.bind sc (short_result co sm n (p1\<lparr>pp_ctx := mark_silent sc (pp_ctx p1)\<rparr>)) of
             Some (p2, a, b) \<Rightarrow> (p2, (case req2 of Some r \<Rightarrow> r | None \<Rightarrow> req1), a, b)
           | None \<Rightarrow>
               (case req2 of
                  None \<Rightarrow> (p1\<lparr>pp_ctx := mark_silent sc (pp_ctx p1)\<rparr>, req1, None, Some (stamp_err sm (nil_request ''PreProviderHook'')))
                | Some r \<Rightarrow> try_llm_phase co (sm\<lparr>sm_RequestType := br_RequestType r\<rparr>) (p1\<lparr>pp_ctx := mark_silent sc (pp_ctx p1)\<rparr>) r))"
proof -
  obtain w1 qe where q: "co_queue co w (req_provider req) = (w1, qe)" by (cases "co_queue co w (req_provider req)")
  define req1 where "req1 = (case co_tools co of Some add \<Rightarrow> add w1 ctx req | None \<Rightarrow> req)"
  obtain p1 req2 sc n where l: "RunPreProviderHooks (co_config co) (co_plugins co)
      (fresh_pipe w1 (stampProviderKeysOnContext (co_keys co) (ctx\<lparr>cx_Tracer := True\<rparr>) (req_provider req))) (Some req1) = (p1, req2, sc, n)"
    by (rule prod_cases4)
  show thesis
  proof (cases "qe \<noteq> None \<or> \<not> co_tracer co")
    case True
    then show thesis using assms early by (auto simp: tryRequest_def q fresh_pipe_def Let_def split: option.splits)
  next
    case False
    let ?sm = "\<lparr>sm_RequestType = br_RequestType req1, sm_Provider = req_provider req, sm_Model = req_model req\<rparr>"
    show thesis
    proof (rule hooks [OF l, of ?sm])
      show "(p, req', resp, err) =
          (case Option.bind sc (short_result co ?sm n (p1\<lparr>pp_ctx := mark_silent sc (pp_ctx p1)\<rparr>)) of
             Some (p2, a, b) \<Rightarrow> (p2, (case req2 of Some r \<Rightarrow> r | None \<Rightarrow> req1), a, b)
           | None \<Rightarrow>
               (case req2 of
                  None \<Rightarrow> (p1\<lparr>pp_ctx := mark_silent sc (pp_ctx p1)\<rparr>, req1, None, Some (stamp_err ?sm (nil_request ''PreProviderHook'')))
                | Some r \<Rightarrow> try_llm_phase co (?sm\<lparr>sm_RequestType := br_RequestType r\<rparr>) (p1\<lparr>pp_ctx := mark_silent sc (pp_ctx p1)\<rparr>) r))"
        using assms False l unfolding tryRequest_def Let_def q req1_def by (auto split: option.splits)
    qed
  qed
qed

section \<open>Properties\<close>


text \<open>A small gateway for the examples: one pass-through plugin, an idle queue, and a worker that answers.\<close>

definition plain_response :: "string \<Rightarrow> string bresponse" where
  "plain_response x = \<lparr>rp_Active = True, rp_Payload = x, rp_RequestType = [], rp_Provider = [], rp_OriginalModelRequested = [],
     rp_ResolvedModelUsed = [], rp_RoutingInfo = zero_routing_info, rp_RawRequest = None, rp_RawResponse = None\<rparr>"

definition pass_plugin :: "('w, 'a) plugin" where
  "pass_plugin = \<lparr>pg_Name = ''pass'', pg_PreRequestHook = (\<lambda>w c r. (w, c, r, None)),
     pg_PreProviderHook = (\<lambda>w c r. (w, c, r, None, None)), pg_PreLLMHook = (\<lambda>w c r. (w, c, r, None, None)),
     pg_PostLLMHook = (\<lambda>w c resp err. (w, c, resp, err, None))\<rparr>"

definition idle_schedule :: schedule where
  "idle_schedule = \<lparr>sd_closing = False, sd_rerouted = False, sd_send = Some Sent, sd_dropExcess = False,
     sd_closingAgain = False, sd_blockedSend = Sent, sd_timedOut = False, sd_ctxText = []\<rparr>"

definition small_core :: "('w, string) plugin list \<Rightarrow> schedule \<Rightarrow> ('w, string) core" where
  "small_core plugins sd =
     \<lparr>co_plugins = plugins, co_pluginCount = (\<lambda>_. int (length plugins)), co_config = (\<lambda>_. Inr None), co_keys = (\<lambda>_. Inr []),
       co_queue = (\<lambda>w _. (w, None)), co_tools = None, co_tracer = True, co_schedule = (\<lambda>_. sd),
       co_worker = (\<lambda>w c r. (w, c, r, Replied (Some (plain_response ''hi'')))),
       co_streamWorker = (\<lambda>w c r. (w, c, r, StreamReplied (Chan [(Some (plain_response ''hi''), None)])))\<rparr>"

definition chat_request :: "fallback list \<Rightarrow> brequest" where
  "chat_request fbs = \<lparr>br_RequestType = ''chat_completion'',
     br_subs = [(''ChatRequest'', \<lparr>sq_Provider = P_OpenAI, sq_Model = Some ''gpt'', sq_Fallbacks = fbs, sq_Input = [], sq_RawRequestBody = [], sq_KeyID = None\<rparr>)]\<rparr>"

lemma steady_small: "steady (small_core [pass_plugin] sd)"
  by (simp add: steady_def small_core_def keeps_skip_def decisive_def pass_plugin_def)


text \<open>Pairing has a gap. When the provider's queue is full and excess requests are dropped, the pre-hooks have run
  and no post-hook follows, although the plugin documentation promises one for every pre-hook that ran.\<close>

lemma dropped_request_unpaired:
  "let (p, _, resp, err) = tryRequest (small_core [pass_plugin] (idle_schedule\<lparr>sd_send := None, sd_dropExcess := True\<rparr>)) () empty_ctx (chat_request [])
   in pp_trace p = [PreProviderRan 0, PreLLMRan 0] \<and> resp = None \<and> map_option be_StatusCode err = Some (Some 503)"
  by code_simp

text \<open>A recovered streaming request is lost. When a plugin short-circuits the provider phase with an error and a
  post-hook recovers from it with a response, the unary attempt returns that response, but the streaming
  attempt returns a nil channel and no error.\<close>

definition veto_plugin :: "(unit, string) plugin" where
  "veto_plugin = pass_plugin\<lparr>
     pg_PreProviderHook := (\<lambda>w c r. (w, c, r, Some \<lparr>sc_Response = None, sc_Stream = None, sc_Error = Some (failure 429), sc_Silent = False\<rparr>, None)),
     pg_PostLLMHook := (\<lambda>w c resp err. (w, c, Some (plain_response ''cached''), None, None))\<rparr>"

lemma stream_recovery_lost:
  "(let (_, _, resp, err) = tryRequest (small_core [veto_plugin] idle_schedule) () empty_ctx (chat_request [])
    in map_option rp_Payload resp = Some ''cached'' \<and> err = None) \<and>
   (let (_, _, str, err) = tryStreamRequest (small_core [veto_plugin] idle_schedule) () empty_ctx (chat_request [])
    in str = NilChan \<and> err = None)"
  by code_simp

end
