(* ===== verification/Fallback.thy ===== *)
theory Fallback
  imports Dispatch
begin

text \<open>
  The top of a request: \<open>handleRequest\<close> and \<open>handleStreamRequest\<close> of \<open>core/bifrost.go\<close>. After the
  per-request hooks the primary provider is tried; if it fails in a way that permits it, the configured
  fallbacks are tried in order until one serves the request or forbids to go on.

  The two functions are copies of each other that differ in the attempt they make and in where they record
  that a fallback served the request. The record \<open>chain\<close> holds these differences and \<open>handle\<close> is
  the common text. Local variables are the record \<open>hstate\<close>; its field \<open>hs_tries\<close> is not in the code and
  records the attempts. A nil dereference is the outcome \<open>Panicked\<close>. Latency accounting and tracing
  are left out, and the context is never nil.
\<close>

section \<open>Decisions\<close>

definition halts :: "bifrost_error \<Rightarrow> bool" where
  "halts e \<longleftrightarrow> err_type e = Some RequestCancelled \<or> be_AllowFallbacks e = Some False"

definition shouldTryFallbacks :: "brequest \<Rightarrow> bifrost_error option \<Rightarrow> bool" where
  "shouldTryFallbacks req primaryErr =
     (case primaryErr of
        None \<Rightarrow> False
      | Some e \<Rightarrow>
          if err_type e = Some RequestCancelled then False
          else if be_AllowFallbacks e = Some False then False
          else req_fallbacks req \<noteq> [])"

text \<open>\<open>None\<close> is the panic on an error without an error field.\<close>

definition shouldContinueWithFallbacks :: "bifrost_error \<Rightarrow> bool option" where
  "shouldContinueWithFallbacks e =
     (case be_Error e of
        None \<Rightarrow> None
      | Some f \<Rightarrow>
          if ef_Type f = Some RequestCancelled then Some False
          else if be_AllowFallbacks e = Some False then Some False
          else Some True)"

text \<open>The request structs that a fallback request gets its own copy of.\<close>

definition fallback_fields :: "string list" where
  "fallback_fields =
    [''TextCompletionRequest'', ''ChatRequest'', ''ResponsesRequest'', ''CountTokensRequest'', ''CompactionRequest'',
     ''EmbeddingRequest'', ''RerankRequest'', ''OCRRequest'', ''SpeechRequest'', ''TranscriptionRequest'',
     ''ImageGenerationRequest'', ''VideoGenerationRequest'']"

definition readdress :: "fallback \<Rightarrow> string \<times> subreq \<Rightarrow> string \<times> subreq" where
  "readdress fb f =
     (case f of (n, q) \<Rightarrow>
        (n, if n \<in> set fallback_fields then q\<lparr>sq_Provider := fb_Provider fb, sq_Model := Some (fb_Model fb)\<rparr> else q))"

definition prepareFallbackRequest :: "(provider \<Rightarrow> string + provider_config option) \<Rightarrow> brequest \<Rightarrow> fallback \<Rightarrow> brequest option" where
  "prepareFallbackRequest get_config req fb =
     (case get_config (fb_Provider fb) of
        Inl _ \<Rightarrow> None
      | Inr _ \<Rightarrow> Some (req\<lparr>br_subs := map (readdress fb) (br_subs req)\<rparr>))"

text \<open>What the original request keeps of an attempt on a fallback request: changes to the structs the two
  share.\<close>

definition merge_shared :: "brequest \<Rightarrow> brequest \<Rightarrow> brequest" where
  "merge_shared old new =
     old\<lparr>br_subs := map (\<lambda>(n, q).
           (n, if n \<in> set fallback_fields then q else (case gm_get (br_subs new) n of Some q' \<Rightarrow> q' | None \<Rightarrow> q))) (br_subs old)\<rparr>"

definition validateRequestAfterPreRequestHooks :: "brequest \<Rightarrow> bifrost_error option" where
  "validateRequestAfterPreRequestHooks req =
     (if req_provider req = [] then
        Some (newBifrostErrorFromMsg ''could not auto resolve a provider for the request, please specify a provider explicitly'')
      else if isModelRequired (br_RequestType req) \<and> req_model req = [] then
        Some (newBifrostErrorFromMsg ''could not auto resolve a model for the request, please specify a model explicitly'')
      else None)"

definition clearCtxForFallback :: "bctx \<Rightarrow> bctx" where
  "clearCtxForFallback ctx =
     ctx\<lparr>cx_APIKeyID := None, cx_APIKeyName := None, cx_GovernanceIncludeOnlyKeys := None, cx_ChangeRequestType := None,
       cx_AttemptTrail := None, cx_StreamEndIndicator := None, cx_ConnectionClosed := None,
       cx_SupportsAssistantPrefill := None, cx_SilentLog := None, cx_RetryAfterSeconds := None\<rparr>"

section \<open>The chain\<close>

record ('w, 's) chain =
  ch_attempt :: "'w \<Rightarrow> bctx \<Rightarrow> brequest \<Rightarrow> 'w \<times> bctx \<times> brequest \<times> 's \<times> bifrost_error option"
  ch_config :: "provider \<Rightarrow> string + provider_config option"
  ch_nothing :: 's
  ch_served :: "provider \<Rightarrow> string \<Rightarrow> 's \<Rightarrow> 's"
  ch_servedCtx :: "provider \<Rightarrow> string \<Rightarrow> bctx \<Rightarrow> bctx"
  ch_newID :: "nat \<Rightarrow> string"

record 's attempt_log =
  al_index :: nat
  al_req :: brequest
  al_ctx :: bctx
  al_result :: 's
  al_error :: "bifrost_error option"

record ('w, 's) hstate =
  hs_world :: 'w
  hs_ctx :: bctx
  hs_req :: brequest
  hs_provider :: provider
  hs_model :: string
  hs_fallbacks :: "fallback list"
  hs_tries :: "'s attempt_log list"

datatype 's outcome = Returned 's "bifrost_error option" | Panicked

definition core_log :: "log_level \<Rightarrow> string \<Rightarrow> ('w, 's) hstate \<Rightarrow> ('w, 's) hstate" where
  "core_log level text s = s\<lparr>hs_ctx := AppendRoutingEngineLog (hs_ctx s) RoutingEngineCore level text\<rparr>"

definition make_attempt :: "('w, 's) chain \<Rightarrow> nat \<Rightarrow> brequest \<Rightarrow> ('w, 's) hstate \<Rightarrow> ('w, 's) hstate \<times> brequest \<times> 's \<times> bifrost_error option" where
  "make_attempt ch i req s =
     (case ch_attempt ch (hs_world s) (hs_ctx s) req of
        (w, ctx, req', res, err) \<Rightarrow>
          (s\<lparr>hs_world := w, hs_ctx := ctx,
             hs_tries := hs_tries s @ [\<lparr>al_index = i, al_req = req, al_ctx = hs_ctx s, al_result = res, al_error = err\<rparr>]\<rparr>,
           req', res, err))"

definition slash :: "provider \<Rightarrow> string \<Rightarrow> string" where
  "slash p m = p @ ''/'' @ m"

text \<open>The context of the \<open>i\<close>-th fallback attempt.\<close>

definition enter_fallback :: "('w, 's) chain \<Rightarrow> nat \<Rightarrow> fallback \<Rightarrow> bifrost_error \<Rightarrow> ('w, 's) hstate \<Rightarrow> ('w, 's) hstate" where
  "enter_fallback ch i fb lastErr s =
     (let s1 = core_log LevelInfo
            (''Trying fallback '' @ itoa (int i) @ ''/'' @ itoa (int (length (hs_fallbacks s))) @ '': '' @
             slash (fb_Provider fb) (fb_Model fb) @ '' (previous attempt failed: '' @ routingErrorSummary (Some lastErr) @ '')'')
            (s\<lparr>hs_ctx := (hs_ctx s)\<lparr>cx_FallbackIndex := Some (int i)\<rparr>\<rparr>)
      in s1\<lparr>hs_ctx := clearCtxForFallback ((hs_ctx s1)\<lparr>cx_FallbackRequestID := Some (ch_newID ch i)\<rparr>)\<rparr>)"

definition serve_fallback :: "('w, 's) chain \<Rightarrow> nat \<Rightarrow> fallback \<Rightarrow> ('w, 's) hstate \<Rightarrow> ('w, 's) hstate" where
  "serve_fallback ch i fb s =
     core_log LevelInfo
       (''Request served by fallback '' @ slash (fb_Provider fb) (fb_Model fb) @ '' (attempt '' @ itoa (int i) @ ''/'' @
        itoa (int (length (hs_fallbacks s))) @ '')'')
       (s\<lparr>hs_ctx := ch_servedCtx ch (hs_provider s) (hs_model s) (hs_ctx s)\<rparr>)"

text \<open>The loop over the fallbacks, of which \<open>i - 1\<close> have been dealt with; \<open>None\<close> when they are
  exhausted.\<close>

fun try_fallbacks ::
  "('w, 's) chain \<Rightarrow> nat \<Rightarrow> fallback list \<Rightarrow> bifrost_error \<Rightarrow> ('w, 's) hstate \<Rightarrow> ('w, 's) hstate \<times> 's outcome option" where
  "try_fallbacks ch i [] lastErr s = (s, None)"
| "try_fallbacks ch i (fb # fbs) lastErr s =
     (let s1 = enter_fallback ch i fb lastErr s
      in case prepareFallbackRequest (ch_config ch) (hs_req s) fb of
           None \<Rightarrow>
             try_fallbacks ch (Suc i) fbs lastErr
               (core_log LevelWarn (''Fallback '' @ slash (fb_Provider fb) (fb_Model fb) @ '' skipped: missing provider config'') s1)
         | Some req \<Rightarrow>
             (case make_attempt ch i req s1 of
                (s2, req', res, None) \<Rightarrow>
                  (serve_fallback ch i fb (s2\<lparr>hs_req := merge_shared (hs_req s2) req'\<rparr>),
                   Some (Returned (ch_served ch (hs_provider s) (hs_model s) res) None))
              | (s2, req', res, Some e) \<Rightarrow>
                  (let e' = err_SetFallbackRoutingInfo e (hs_provider s) (hs_model s);
                       s3 = s2\<lparr>hs_req := merge_shared (hs_req s2) req'\<rparr>
                   in case shouldContinueWithFallbacks e' of
                        None \<Rightarrow> (s3, Some Panicked)
                      | Some False \<Rightarrow>
                          (core_log LevelError (''Fallback '' @ slash (fb_Provider fb) (fb_Model fb) @ '' failed ('' @
                             routingErrorSummary (Some e') @ ''); halting further fallbacks'') s3,
                           Some (Returned (ch_nothing ch) (Some e')))
                      | Some True \<Rightarrow> try_fallbacks ch (Suc i) fbs e' s3)))"

definition announce_fallbacks :: "bifrost_error \<Rightarrow> ('w, 's) hstate \<Rightarrow> ('w, 's) hstate" where
  "announce_fallbacks e s =
     core_log LevelInfo (''Primary '' @ slash (hs_provider s) (hs_model s) @ '' failed ('' @ routingErrorSummary (Some e) @
       ''); evaluating '' @ itoa (int (length (hs_fallbacks s))) @ '' configured fallback(s)'')
       (s\<lparr>hs_ctx := use_core_engine (hs_ctx s)\<rparr>)"

definition run_chain :: "('w, 's) chain \<Rightarrow> ('w, 's) hstate \<Rightarrow> ('w, 's) hstate \<times> 's outcome" where
  "run_chain ch s =
     (case make_attempt ch 0 (hs_req s) s of
        (s1, req', res, err) \<Rightarrow>
          (let s2 = s1\<lparr>hs_req := req'\<rparr>
           in case err of
                None \<Rightarrow> (s2, Returned res None)
              | Some e \<Rightarrow>
                  if \<not> shouldTryFallbacks req' (Some e) then (s2, Returned res (Some e))
                  else
                    (case try_fallbacks ch 1 (hs_fallbacks s) e (announce_fallbacks e s2) of
                       (s3, Some out) \<Rightarrow> (s3, out)
                     | (s3, None) \<Rightarrow>
                         (core_log LevelError (''All '' @ itoa (int (length (hs_fallbacks s))) @ '' fallback(s) exhausted; returning primary error ('' @
                            routingErrorSummary (Some e) @ '')'') s3,
                          Returned (ch_nothing ch) (Some e)))))"

definition begin_request :: "('w, 's) chain \<Rightarrow> bctx \<Rightarrow> bctx" where
  "begin_request ch ctx =
     ctx\<lparr>cx_FallbackIndex := Some 0, cx_RequestID := (case cx_RequestID ctx of Some i \<Rightarrow> Some i | None \<Rightarrow> Some (ch_newID ch 0))\<rparr>"

definition handle :: "('w, 's) chain \<Rightarrow> ('w, 'a) plugin list \<Rightarrow> 'w \<Rightarrow> bctx \<Rightarrow> brequest \<Rightarrow> ('w, 's) hstate \<times> 's outcome" where
  "handle ch plugins w ctx req =
     (case RunPreRequestHooks plugins (fresh_pipe w (begin_request ch ctx)) req of
        (p, req1) \<Rightarrow>
          (let s = \<lparr>hs_world = pp_world p, hs_ctx = pp_ctx p, hs_req = req1, hs_provider = req_provider req1,
                 hs_model = req_model req1, hs_fallbacks = req_fallbacks req1, hs_tries = []\<rparr>
           in case validateRequestAfterPreRequestHooks req1 of
                Some e \<Rightarrow>
                  (s, Returned (ch_nothing ch) (Some (PopulateExtraFields e (br_RequestType req1) (req_provider req1) (req_model req1) (req_model req1))))
              | None \<Rightarrow> run_chain ch s))"

section \<open>The two entry points\<close>

definition request_chain :: "('w, 'a) core \<Rightarrow> (nat \<Rightarrow> string) \<Rightarrow> ('w, 'a bresponse option) chain" where
  "request_chain co newID =
     \<lparr>ch_attempt = (\<lambda>w c r. case tryRequest co w c r of (p, r', resp, err) \<Rightarrow> (pp_world p, pp_ctx p, r', resp, err)),
       ch_config = co_config co, ch_nothing = None,
       ch_served = (\<lambda>p m resp. map_option (\<lambda>r. resp_SetFallbackRoutingInfo r p m) resp),
       ch_servedCtx = (\<lambda>p m c. c), ch_newID = newID\<rparr>"

definition handleRequest ::
  "('w, 'a) core \<Rightarrow> (nat \<Rightarrow> string) \<Rightarrow> 'w \<Rightarrow> bctx \<Rightarrow> brequest \<Rightarrow> ('w, 'a bresponse option) hstate \<times> 'a bresponse option outcome" where
  "handleRequest co newID w ctx req = handle (request_chain co newID) (co_plugins co) w ctx req"

definition stream_chain :: "('w, 'a) core \<Rightarrow> (nat \<Rightarrow> string) \<Rightarrow> ('w, 'a stream) chain" where
  "stream_chain co newID =
     \<lparr>ch_attempt = (\<lambda>w c r. case tryStreamRequest co w c r of (p, r', str, err) \<Rightarrow> (pp_world p, pp_ctx p, r', str, err)),
       ch_config = co_config co, ch_nothing = NilChan, ch_served = (\<lambda>p m str. str),
       ch_servedCtx = (\<lambda>p m c. c\<lparr>cx_RoutingInfo := map_option (as_fallback p m) (cx_RoutingInfo c)\<rparr>), ch_newID = newID\<rparr>"

definition handleStreamRequest ::
  "('w, 'a) core \<Rightarrow> (nat \<Rightarrow> string) \<Rightarrow> 'w \<Rightarrow> bctx \<Rightarrow> brequest \<Rightarrow> ('w, 'a stream) hstate \<times> 'a stream outcome" where
  "handleStreamRequest co newID w ctx req = handle (stream_chain co newID) (co_plugins co) w ctx req"


section \<open>How the chain runs\<close>

lemma core_log_frame [simp]:
  "hs_tries (core_log l m s) = hs_tries s" "hs_provider (core_log l m s) = hs_provider s" "hs_model (core_log l m s) = hs_model s"
  "hs_fallbacks (core_log l m s) = hs_fallbacks s" "hs_req (core_log l m s) = hs_req s" "hs_world (core_log l m s) = hs_world s"
  by (simp_all add: core_log_def)

lemma enter_fallback_frame [simp]:
  "hs_tries (enter_fallback ch i fb e s) = hs_tries s" "hs_provider (enter_fallback ch i fb e s) = hs_provider s"
  "hs_model (enter_fallback ch i fb e s) = hs_model s" "hs_fallbacks (enter_fallback ch i fb e s) = hs_fallbacks s"
  "hs_req (enter_fallback ch i fb e s) = hs_req s" "hs_world (enter_fallback ch i fb e s) = hs_world s"
  by (simp_all add: enter_fallback_def Let_def)

lemma serve_fallback_frame [simp]:
  "hs_tries (serve_fallback ch i fb s) = hs_tries s" "hs_provider (serve_fallback ch i fb s) = hs_provider s"
  "hs_model (serve_fallback ch i fb s) = hs_model s" "hs_fallbacks (serve_fallback ch i fb s) = hs_fallbacks s"
  by (simp_all add: serve_fallback_def)

lemma announce_fallbacks_frame [simp]:
  "hs_tries (announce_fallbacks e s) = hs_tries s" "hs_provider (announce_fallbacks e s) = hs_provider s"
  "hs_model (announce_fallbacks e s) = hs_model s" "hs_fallbacks (announce_fallbacks e s) = hs_fallbacks s"
  "hs_req (announce_fallbacks e s) = hs_req s"
  by (simp_all add: announce_fallbacks_def)

lemma make_attempt_frame:
  assumes "make_attempt ch i req s = (s', req', res, err)"
  shows "hs_tries s' = hs_tries s @ [\<lparr>al_index = i, al_req = req, al_ctx = hs_ctx s, al_result = res, al_error = err\<rparr>]"
    and "hs_provider s' = hs_provider s" and "hs_model s' = hs_model s" and "hs_fallbacks s' = hs_fallbacks s" and "hs_req s' = hs_req s"
  using assms by (auto simp: make_attempt_def split: prod.splits)

lemma fallback_info_frame [simp]:
  "be_Error (err_SetFallbackRoutingInfo e p m) = be_Error e" "be_AllowFallbacks (err_SetFallbackRoutingInfo e p m) = be_AllowFallbacks e"
  by (simp_all add: err_SetFallbackRoutingInfo_def syncDeprecatedFromRoutingInfo_def Let_def)

lemma continue_iff:
  "shouldContinueWithFallbacks (err_SetFallbackRoutingInfo e p m) = (if be_Error e = None then None else Some (\<not> halts e))"
  by (simp add: shouldContinueWithFallbacks_def halts_def err_type_def split: option.splits)

lemma shouldTry_iff: "shouldTryFallbacks req (Some e) \<longleftrightarrow> \<not> halts e \<and> req_fallbacks req \<noteq> []"
  by (simp add: shouldTryFallbacks_def halts_def)

definition configured :: "('w, 's) chain \<Rightarrow> fallback \<Rightarrow> bool" where
  "configured ch fb \<longleftrightarrow> (case ch_config ch (fb_Provider fb) of Inl _ \<Rightarrow> False | Inr _ \<Rightarrow> True)"

lemma prepare_iff: "(prepareFallbackRequest (ch_config ch) r fb = None) = (\<not> configured ch fb)"
  by (simp add: prepareFallbackRequest_def configured_def split: sum.splits)

lemma merge_shared_names [simp]: "map fst (br_subs (merge_shared old new)) = map fst (br_subs old)"
  by (simp add: merge_shared_def split_def comp_def)

lemma readdress_names [simp]: "map fst (map (readdress fb) xs) = map fst xs"
  by (simp add: readdress_def split_def comp_def)

lemma serve_fallback_req [simp]: "hs_req (serve_fallback ch i fb s) = hs_req s"
  by (simp add: serve_fallback_def)

text \<open>The local variables of the request, and which of its structs are set.\<close>

abbreviation request_of :: "('w, 's) hstate \<Rightarrow> provider \<times> string \<times> fallback list \<times> string list" where
  "request_of s \<equiv> (hs_provider s, hs_model s, hs_fallbacks s, map fst (br_subs (hs_req s)))"

text \<open>One round of the loop.\<close>

lemma fallback_cases:
  assumes "try_fallbacks ch i (fb # fbs) e s = (s', out)"
  obtains (skipped) s1 where "\<not> configured ch fb" "try_fallbacks ch (Suc i) fbs e s1 = (s', out)"
      "s1 = core_log LevelWarn (''Fallback '' @ slash (fb_Provider fb) (fb_Model fb) @ '' skipped: missing provider config'') (enter_fallback ch i fb e s)"
    | (tried) req s2 req' res err where "configured ch fb" "prepareFallbackRequest (ch_config ch) (hs_req s) fb = Some req"
      "make_attempt ch i req (enter_fallback ch i fb e s) = (s2, req', res, err)"
      "case err of
         None \<Rightarrow> hs_tries s' = hs_tries s2 \<and> request_of s' = request_of s2 \<and> out = Some (Returned (ch_served ch (hs_provider s) (hs_model s) res) None)
       | Some e' \<Rightarrow>
           if be_Error e' = None then hs_tries s' = hs_tries s2 \<and> request_of s' = request_of s2 \<and> out = Some Panicked
           else if halts e' then
             hs_tries s' = hs_tries s2 \<and> request_of s' = request_of s2 \<and> out = Some (Returned (ch_nothing ch) (Some (err_SetFallbackRoutingInfo e' (hs_provider s) (hs_model s))))
           else try_fallbacks ch (Suc i) fbs (err_SetFallbackRoutingInfo e' (hs_provider s) (hs_model s))
                  (s2\<lparr>hs_req := merge_shared (hs_req s2) req'\<rparr>) = (s', out)"
proof (cases "configured ch fb")
  case False
  then show thesis using assms skipped prepare_iff [of ch "hs_req s" fb] by (simp add: Let_def)
next
  case True
  then obtain req where r: "prepareFallbackRequest (ch_config ch) (hs_req s) fb = Some req" using prepare_iff by fastforce
  obtain s2 req' res err where m: "make_attempt ch i req (enter_fallback ch i fb e s) = (s2, req', res, err)" by (rule prod_cases4)
  show thesis using assms by (intro tried [OF True r m]) (auto simp: r m Let_def continue_iff split: option.splits if_splits)
qed

definition went_on :: "'s attempt_log \<Rightarrow> bool" where
  "went_on t \<longleftrightarrow> (\<exists>e. al_error t = Some e \<and> \<not> halts e)"

text \<open>How a fallback attempt that ends the chain determines what the caller gets.\<close>

definition ends_with :: "('w, 's) chain \<Rightarrow> provider \<Rightarrow> string \<Rightarrow> 's attempt_log \<Rightarrow> 's \<Rightarrow> bifrost_error option \<Rightarrow> bool" where
  "ends_with ch prov model t res err =
     (case al_error t of
        None \<Rightarrow> err = None \<and> res = ch_served ch prov model (al_result t)
      | Some e \<Rightarrow> halts e \<and> res = ch_nothing ch \<and> err = Some (err_SetFallbackRoutingInfo e prov model))"

text \<open>The fallbacks tried among \<open>fbs\<close>, numbered from \<open>i\<close>.\<close>

definition tried_upto :: "('w, 's) chain \<Rightarrow> nat \<Rightarrow> fallback list \<Rightarrow> nat \<Rightarrow> nat list" where
  "tried_upto ch i fbs n = filter (\<lambda>j. configured ch (fbs ! (j - i))) [i..<n]"

lemma tried_upto_Cons:
  assumes "i < n"
  shows "tried_upto ch i (fb # fbs) n = (if configured ch fb then [i] else []) @ tried_upto ch (Suc i) fbs n"
proof -
  have "filter (\<lambda>j. configured ch ((fb # fbs) ! (j - i))) [Suc i..<n] = filter (\<lambda>j. configured ch (fbs ! (j - Suc i))) [Suc i..<n]"
    by (rule filter_cong) (auto simp: nth_Cons')
  then show ?thesis using assms by (simp add: tried_upto_def upt_conv_Cons)
qed

definition chain_run ::
  "('w, 's) chain \<Rightarrow> nat \<Rightarrow> fallback list \<Rightarrow> ('w, 's) hstate \<Rightarrow> 's attempt_log list \<Rightarrow> 's outcome option \<Rightarrow> bool" where
  "chain_run ch i fbs s ts out =
     (case out of
        None \<Rightarrow> map al_index ts = tried_upto ch i fbs (i + length fbs) \<and> list_all went_on ts
      | Some (Returned res err) \<Rightarrow>
          ts \<noteq> [] \<and> list_all went_on (butlast ts) \<and> i \<le> al_index (last ts) \<and> al_index (last ts) < i + length fbs \<and>
          map al_index ts = tried_upto ch i fbs (Suc (al_index (last ts))) \<and>
          ends_with ch (hs_provider s) (hs_model s) (last ts) res err
      | Some Panicked \<Rightarrow> ts \<noteq> [] \<and> (\<exists>e. al_error (last ts) = Some e \<and> be_Error e = None))"

lemma chain_run_Cons:
  assumes "chain_run ch (Suc i) fbs s ts out" and "configured ch fb \<Longrightarrow> al_index t = i \<and> went_on t"
  shows "chain_run ch i (fb # fbs) s (if configured ch fb then t # ts else ts) out"
  using assms by (auto simp: chain_run_def tried_upto_Cons split: option.splits outcome.splits)

lemma chain_run_frame: "hs_provider s1 = hs_provider s \<Longrightarrow> hs_model s1 = hs_model s \<Longrightarrow> chain_run ch i fbs s1 = chain_run ch i fbs s"
  by (intro ext) (auto simp: chain_run_def split: option.splits outcome.splits)

lemma try_fallbacks_run:
  assumes "try_fallbacks ch i fbs e s = (s', out)"
  shows "request_of s' = request_of s \<and> (\<exists>ts. hs_tries s' = hs_tries s @ ts \<and> chain_run ch i fbs s ts out)"
  using assms
proof (induction fbs arbitrary: i e s)
  case Nil
  then show ?case by (auto simp: chain_run_def tried_upto_def)
next
  case (Cons fb fbs)
  from Cons.prems show ?case
  proof (cases rule: fallback_cases)
    case (skipped s1)
    from Cons.IH [OF skipped(2)] obtain ts where "hs_tries s' = hs_tries s @ ts" "chain_run ch (Suc i) fbs s1 ts out" "request_of s' = request_of s"
      using skipped(3) by auto
    moreover have "chain_run ch (Suc i) fbs s1 = chain_run ch (Suc i) fbs s" using skipped(3) by (intro chain_run_frame) simp_all
    ultimately show ?thesis using chain_run_Cons [of ch i fbs s ts out fb] skipped(1) by auto
  next
    case (tried req s2 req' res err)
    let ?t = "\<lparr>al_index = i, al_req = req, al_ctx = hs_ctx (enter_fallback ch i fb e s), al_result = res, al_error = err\<rparr>"
    note f = make_attempt_frame [OF tried(3)]
    show ?thesis
    proof (cases err)
      case None
      then show ?thesis using tried f by (auto simp: chain_run_def ends_with_def tried_upto_Cons) (simp add: tried_upto_def)
    next
      case (Some e')
      consider "be_Error e' = None" | "be_Error e' \<noteq> None" "halts e'" | "be_Error e' \<noteq> None" "\<not> halts e'" by blast
      then show ?thesis
      proof cases
        case 3
        let ?s3 = "s2\<lparr>hs_req := merge_shared (hs_req s2) req'\<rparr>"
        from 3 tried(4) Some have "try_fallbacks ch (Suc i) fbs (err_SetFallbackRoutingInfo e' (hs_provider s) (hs_model s)) ?s3 = (s', out)"
          by simp
        from Cons.IH [OF this] obtain ts where ts: "hs_tries s' = hs_tries s2 @ ts" "chain_run ch (Suc i) fbs ?s3 ts out"
          "request_of s' = request_of s2" by auto
        have "chain_run ch (Suc i) fbs ?s3 = chain_run ch (Suc i) fbs s" using f by (intro chain_run_frame) simp_all
        then show ?thesis using ts f tried(1) Some 3 chain_run_Cons [of ch i fbs s ts out fb ?t] by (auto simp: went_on_def)
      qed (use Some tried f in \<open>auto simp: chain_run_def ends_with_def tried_upto_Cons\<close>, simp_all add: tried_upto_def)
    qed
  qed
qed

text \<open>The attempts do not change the list of fallbacks, nor which request structs are set.\<close>

definition keeps_fallbacks :: "('w, 's) chain \<Rightarrow> bool" where
  "keeps_fallbacks ch \<longleftrightarrow> (\<forall>w c r. req_fallbacks (fst (snd (snd (ch_attempt ch w c r)))) = req_fallbacks r \<and>
     map fst (br_subs (fst (snd (snd (ch_attempt ch w c r))))) = map fst (br_subs r))"

lemma run_chain_run:
  assumes "run_chain ch s = (s', out)" and "keeps_fallbacks ch" and "hs_tries s = []" and "hs_fallbacks s = req_fallbacks (hs_req s)"
  shows "request_of s' = request_of s \<and> (\<exists>t0 ts. hs_tries s' = t0 # ts \<and> al_index t0 = 0 \<and>
    (al_error t0 = None \<and> ts = [] \<and> out = Returned (al_result t0) None \<or>
     (\<exists>e. al_error t0 = Some e \<and> (halts e \<or> hs_fallbacks s = []) \<and> ts = [] \<and> out = Returned (al_result t0) (Some e)) \<or>
     (\<exists>e. al_error t0 = Some e \<and> \<not> halts e \<and>
        (chain_run ch 1 (hs_fallbacks s) s ts (Some out) \<or>
         chain_run ch 1 (hs_fallbacks s) s ts None \<and> out = Returned (ch_nothing ch) (Some e)))))"
proof -
  obtain s1 req' r1 e1 where m: "make_attempt ch 0 (hs_req s) s = (s1, req', r1, e1)" by (rule prod_cases4)
  note f = make_attempt_frame [OF m]
  have kf: "req_fallbacks req' = hs_fallbacks s" "map fst (br_subs req') = map fst (br_subs (hs_req s))"
    using m assms(2,4) unfolding keeps_fallbacks_def make_attempt_def by (auto split: prod.splits) (metis fst_conv snd_conv)+
  show ?thesis
  proof (cases e1)
    case None
    then show ?thesis using assms(1,3) m f kf by (auto simp: run_chain_def Let_def)
  next
    case (Some e)
    show ?thesis
    proof (cases "shouldTryFallbacks req' (Some e)")
      case False
      then show ?thesis using assms(1,3) m f Some kf by (auto simp: run_chain_def Let_def shouldTry_iff)
    next
      case True
      let ?s2 = "announce_fallbacks e (s1\<lparr>hs_req := req'\<rparr>)"
      obtain s3 out where t: "try_fallbacks ch 1 (hs_fallbacks s) e ?s2 = (s3, out)"
        by (cases "try_fallbacks ch 1 (hs_fallbacks s) e ?s2")
      from try_fallbacks_run [OF t] obtain ts where ts: "hs_tries s3 = hs_tries s1 @ ts" "chain_run ch 1 (hs_fallbacks s) ?s2 ts out"
        "request_of s3 = request_of s" using f kf(2) by auto
      have "chain_run ch 1 (hs_fallbacks s) ?s2 = chain_run ch 1 (hs_fallbacks s) s" using f by (intro chain_run_frame) simp_all
      with True ts show ?thesis using assms(1,3) m f Some t
        by (cases out) (auto simp: run_chain_def Let_def shouldTry_iff split: outcome.splits)
    qed
  qed
qed

section \<open>What a fallback attempt sees\<close>

text \<open>The address and the context a fallback attempt starts with.\<close>

definition fallback_start :: "('w, 's) chain \<Rightarrow> fallback list \<Rightarrow> 's attempt_log \<Rightarrow> bool" where
  "fallback_start ch fbs t \<longleftrightarrow>
     (let fb = fbs ! (al_index t - 1); c = al_ctx t
      in list_all (\<lambda>(n, q). n \<in> set fallback_fields \<longrightarrow> sq_Provider q = fb_Provider fb \<and> sq_Model q = Some (fb_Model fb)) (br_subs (al_req t)) \<and>
         cx_FallbackIndex c = Some (int (al_index t)) \<and> cx_FallbackRequestID c = Some (ch_newID ch (al_index t)) \<and>
         cx_APIKeyID c = None \<and> cx_APIKeyName c = None \<and> cx_GovernanceIncludeOnlyKeys c = None \<and> cx_AttemptTrail c = None \<and>
         cx_StreamEndIndicator c = None \<and> cx_ConnectionClosed c = None \<and> cx_SilentLog c = None \<and> cx_RetryAfterSeconds c = None)"

lemma entered_clean:
  "fallback_start ch fbs \<lparr>al_index = i, al_req = r\<lparr>br_subs := map (readdress (fbs ! (i - 1))) (br_subs r)\<rparr>,
     al_ctx = hs_ctx (enter_fallback ch i fb e s), al_result = res, al_error = err\<rparr>"
  by (auto simp: fallback_start_def Let_def readdress_def list_all_iff enter_fallback_def core_log_def clearCtxForFallback_def)

text \<open>A property of every attempt of the loop holds of all the attempts recorded.\<close>

lemma try_fallbacks_all:
  assumes "try_fallbacks ch i fbs e s = (s', out)" and "0 < i" and "drop (i - 1) all = fbs" and "list_all P (hs_tries s)"
    and "map fst (br_subs (hs_req s)) = ns"
    and step: "\<And>i fb e s req w ctx req' res err. prepareFallbackRequest (ch_config ch) (hs_req s) fb = Some req \<Longrightarrow> all ! (i - 1) = fb \<Longrightarrow>
      map fst (br_subs (hs_req s)) = ns \<Longrightarrow>
      ch_attempt ch (hs_world s) (hs_ctx (enter_fallback ch i fb e s)) req = (w, ctx, req', res, err) \<Longrightarrow>
      P \<lparr>al_index = i, al_req = req, al_ctx = hs_ctx (enter_fallback ch i fb e s), al_result = res, al_error = err\<rparr>"
  shows "list_all P (hs_tries s')"
  using assms(1-5)
proof (induction fbs arbitrary: i e s)
  case (Cons fb fbs)
  have n: "all ! (i - 1) = fb" using Cons.prems(3) by (rule nth_via_drop)
  have "drop (Suc (i - 1)) all = fbs" using Cons.prems(3) by (simp add: drop_Suc drop_tl)
  then have d: "drop i all = fbs" using Cons.prems(2) by simp
  from Cons.prems(1) show ?case
  proof (cases rule: fallback_cases)
    case (skipped s1)
    then show ?thesis using Cons.IH [OF skipped(2)] Cons.prems d by simp
  next
    case (tried req s2 req' res err)
    have "P (last (hs_tries s2))" using tried(3) step [OF tried(2) n Cons.prems(5), of e] by (auto simp: make_attempt_def split: prod.splits)
    then have new: "list_all P (hs_tries s2)" using Cons.prems(4) make_attempt_frame(1) [OF tried(3)] by simp
    show ?thesis
    proof (cases "hs_tries s' = hs_tries s2")
      case False
      then obtain e' where "try_fallbacks ch (Suc i) fbs e' (s2\<lparr>hs_req := merge_shared (hs_req s2) req'\<rparr>) = (s', out)"
        using tried(4) by (auto split: option.splits if_splits)
      from Cons.IH [OF this] show ?thesis using new d Cons.prems(5) make_attempt_frame(5) [OF tried(3)] by simp
    qed (use new in simp)
  qed
qed simp

text \<open>The record of an attempt tells what the attempt returned.\<close>

definition attempted :: "('w, 's) chain \<Rightarrow> 's attempt_log \<Rightarrow> bool" where
  "attempted ch t \<longleftrightarrow> (\<exists>w. snd (snd (snd (ch_attempt ch w (al_ctx t) (al_req t)))) = (al_result t, al_error t))"

lemma attempted_error:
  assumes "attempted ch t"
  obtains w where "snd (snd (snd (snd (ch_attempt ch w (al_ctx t) (al_req t))))) = al_error t"
  using assms unfolding attempted_def by (metis snd_conv)

lemma handle_runs:
  assumes "handle ch plugins w ctx req = (s, out)" and "hs_tries s \<noteq> []"
  obtains s0 where "run_chain ch s0 = (s, out)" "hs_tries s0 = []" "hs_fallbacks s0 = req_fallbacks (hs_req s0)"
  using assms by (force simp: handle_def Let_def split: option.splits prod.splits)

lemma run_chain_tries:
  assumes "run_chain ch s0 = (s, out)" and "hs_tries s0 = []"
  shows "list_all (\<lambda>t. attempted ch t \<and> (0 < al_index t \<longrightarrow> fallback_start ch (hs_fallbacks s) t \<and>
    map fst (br_subs (al_req t)) = map fst (br_subs (hs_req s)))) (hs_tries s)"
proof -
  obtain s1 r1 x1 e1 where m: "make_attempt ch 0 (hs_req s0) s0 = (s1, r1, x1, e1)" by (rule prod_cases4)
  note f = make_attempt_frame [OF m]
  let ?P = "\<lambda>t. attempted ch t \<and> (0 < al_index t \<longrightarrow> fallback_start ch (hs_fallbacks s0) t \<and>
    map fst (br_subs (al_req t)) = map fst (br_subs r1))"
  have first: "list_all ?P (hs_tries s1)"
    using f(1) m assms(2) by (auto simp: attempted_def make_attempt_def split: prod.splits intro!: exI [of _ "hs_world s0"])
  show ?thesis
  proof (cases "hs_tries s = hs_tries s1 \<and> hs_fallbacks s = hs_fallbacks s1 \<and> hs_req s = r1")
    case True
    then show ?thesis using first f(4) by simp
  next
    case False
    then obtain e s3 o3 where t: "try_fallbacks ch 1 (hs_fallbacks s0) e (announce_fallbacks e (s1\<lparr>hs_req := r1\<rparr>)) = (s3, o3)"
      and s3: "hs_tries s = hs_tries s3" "hs_fallbacks s = hs_fallbacks s3" "hs_req s = hs_req s3"
      using assms(1) m by (auto simp: run_chain_def Let_def split: option.splits if_splits prod.splits)
    have "list_all ?P (hs_tries s3)"
    proof (rule try_fallbacks_all [OF t, of "hs_fallbacks s0"])
      fix i fb e s req w ctx req' res err
      assume a: "prepareFallbackRequest (ch_config ch) (hs_req s) fb = Some req" "hs_fallbacks s0 ! (i - 1) = fb"
        and names: "map fst (br_subs (hs_req s)) = map fst (br_subs r1)" and c:
        "ch_attempt ch (hs_world s) (hs_ctx (enter_fallback ch i fb e s)) req = (w, ctx, req', res, err)"
      let ?t = "\<lparr>al_index = i, al_req = req, al_ctx = hs_ctx (enter_fallback ch i fb e s), al_result = res, al_error = err\<rparr>"
      have "attempted ch ?t" using c by (auto simp: attempted_def intro!: exI [of _ "hs_world s"])
      moreover have "map fst (br_subs (al_req ?t)) = map fst (br_subs r1)"
        using a(1) names by (auto simp: prepareFallbackRequest_def simp del: map_map split: sum.splits)
      moreover have "fallback_start ch (hs_fallbacks s0) ?t"
        using a(1,2) entered_clean [of ch "hs_fallbacks s0" i "hs_req s" fb e s res err]
        by (auto simp: prepareFallbackRequest_def split: sum.splits)
      ultimately show "?P ?t" by simp
    qed (use first in simp_all)
    then show ?thesis using s3 try_fallbacks_run [OF t] f(4) by auto
  qed
qed

section \<open>Properties\<close>

text \<open>C1: the fallback chain. An attempt is made at the primary provider, then at each fallback whose provider is
  configured, in the configured order and without gaps, up to a fallback \<open>N\<close>. Every attempt but the last failed
  with an error that permits to go on. If the last attempt succeeded it is number \<open>N\<close> and the caller gets its
  result; if it failed with an error that forbids to go on (a cancellation, or fallbacks disallowed) it is
  number \<open>N\<close> and the caller gets this error, marked as a fallback's; otherwise all the fallbacks were used and
  the caller gets the primary's error. This holds for unary and streaming requests alike.\<close>

theorem fallback_outcome:
  assumes "handle ch plugins w ctx req = (s, Returned res err)" and "keeps_fallbacks ch" and "hs_tries s \<noteq> []"
  shows "\<exists>N \<le> length (hs_fallbacks s).
    map al_index (hs_tries s) = 0 # filter (\<lambda>j. configured ch (hs_fallbacks s ! (j - 1))) [1..<Suc N] \<and>
    list_all (\<lambda>t. \<exists>e. al_error t = Some e \<and> \<not> halts e) (butlast (hs_tries s)) \<and>
    (case al_error (last (hs_tries s)) of
       None \<Rightarrow> al_index (last (hs_tries s)) = N \<and> err = None \<and>
         res = (if N = 0 then al_result (last (hs_tries s)) else ch_served ch (hs_provider s) (hs_model s) (al_result (last (hs_tries s))))
     | Some e \<Rightarrow>
         if halts e then al_index (last (hs_tries s)) = N \<and>
           err = Some (if N = 0 then e else err_SetFallbackRoutingInfo e (hs_provider s) (hs_model s))
         else N = length (hs_fallbacks s) \<and> err = al_error (hd (hs_tries s)))"
proof -
  let ?F = "hs_fallbacks s"
  obtain s0 where run: "run_chain ch s0 = (s, Returned res err)" and start: "hs_tries s0 = []" "hs_fallbacks s0 = req_fallbacks (hs_req s0)"
    using handle_runs [OF assms(1,3)] by blast
  note rr = run_chain_run [OF run assms(2) start]
  have loc: "hs_provider s0 = hs_provider s" "hs_model s0 = hs_model s" "hs_fallbacks s0 = ?F" using rr by auto
  from rr obtain t0 ts where t: "hs_tries s = t0 # ts" "al_index t0 = 0"
    and c: "al_error t0 = None \<and> ts = [] \<and> err = None \<and> res = al_result t0 \<or>
     (\<exists>e. al_error t0 = Some e \<and> (halts e \<or> ?F = []) \<and> ts = [] \<and> err = Some e) \<or>
     (\<exists>e. al_error t0 = Some e \<and> \<not> halts e \<and> (chain_run ch 1 ?F s ts (Some (Returned res err)) \<or> chain_run ch 1 ?F s ts None \<and> err = Some e))"
    unfolding loc(3) chain_run_frame [OF loc(1,2)] by auto
  from c consider (alone) "ts = []" "al_error t0 = None \<and> err = None \<and> res = al_result t0 \<or> (\<exists>e. al_error t0 = Some e \<and> (halts e \<or> ?F = []) \<and> err = Some e)"
    | (stopped) e where "al_error t0 = Some e" "\<not> halts e" "chain_run ch 1 ?F s ts (Some (Returned res err))"
    | (exhausted) e where "al_error t0 = Some e" "\<not> halts e" "chain_run ch 1 ?F s ts None" "err = Some e" by blast
  then show ?thesis
  proof cases
    case alone
    then show ?thesis using t by (intro exI [of _ 0]) auto
  next
    case stopped
    then show ?thesis using t
      by (intro exI [of _ "al_index (last ts)"]) (auto simp: chain_run_def ends_with_def tried_upto_def went_on_def [abs_def] split: option.splits)
  next
    case exhausted
    then have "list_all went_on (t0 # ts)" by (simp add: chain_run_def went_on_def)
    then have "went_on (last (t0 # ts))" "list_all went_on (butlast (t0 # ts))"
      by (auto simp: list_all_iff dest: in_set_butlastD)
    with exhausted show ?thesis using t
      by (intro exI [of _ "length ?F"]) (auto simp: chain_run_def tried_upto_def went_on_def [abs_def] split: if_splits)
  qed
qed


text \<open>A request of the kinds that are readdressed, and one that is addressed to a fallback.\<close>

definition only_copied :: "brequest \<Rightarrow> bool" where
  "only_copied r \<longleftrightarrow> br_subs r \<noteq> [] \<and> set (map fst (br_subs r)) \<subseteq> set fallback_fields"

definition addressed_to :: "fallback \<Rightarrow> brequest \<Rightarrow> bool" where
  "addressed_to fb r \<longleftrightarrow> only_copied r \<and> list_all (\<lambda>(_, q). sq_Provider q = fb_Provider fb \<and> sq_Model q = Some (fb_Model fb)) (br_subs r)"

lemma addressed_by_start:
  assumes "fallback_start ch fbs t" and "map fst (br_subs (al_req t)) = map fst (br_subs r)" and "only_copied r" and "fbs ! (al_index t - 1) = fb"
  shows "addressed_to fb (al_req t)"
proof -
  have oc: "only_copied (al_req t)" using assms(2,3) unfolding only_copied_def by (metis list.map_disc_iff)
  have "sq_Provider q = fb_Provider fb \<and> sq_Model q = Some (fb_Model fb)" if "(n, q) \<in> set (br_subs (al_req t))" for n q
    using that oc assms(1,4) by (force simp: fallback_start_def Let_def list_all_iff only_copied_def)
  then show ?thesis using oc by (auto simp: addressed_to_def list_all_iff)
qed

text \<open>C19: a request is served if a fallback can serve it. When no attempt fails with an error that forbids to go on, and
  one of the configured fallbacks serves every request addressed to it, a valid request (of the kinds a
  fallback readdresses) is served.\<close>

theorem fallback_serves:
  assumes "handle ch plugins w ctx req = (s, out)" and "keeps_fallbacks ch" and "hs_tries s \<noteq> []" and "only_copied (hs_req s)"
    and "\<forall>w c r e. snd (snd (snd (snd (ch_attempt ch w c r)))) = Some e \<longrightarrow> be_Error e \<noteq> None \<and> \<not> halts e"
    and "fb \<in> set (hs_fallbacks s)" and "configured ch fb"
    and "\<forall>w c r. addressed_to fb r \<longrightarrow> snd (snd (snd (snd (ch_attempt ch w c r)))) = None"
  shows "\<exists>res. out = Returned res None"
proof -
  let ?F = "hs_fallbacks s"
  obtain s0 where run: "run_chain ch s0 = (s, out)" and start: "hs_tries s0 = []" "hs_fallbacks s0 = req_fallbacks (hs_req s0)"
    using handle_runs [OF assms(1,3)] by blast
  have tries: "attempted ch t" "0 < al_index t \<Longrightarrow> fallback_start ch ?F t"
      "0 < al_index t \<Longrightarrow> map fst (br_subs (al_req t)) = map fst (br_subs (hs_req s))" if "t \<in> set (hs_tries s)" for t
    using run_chain_tries [OF run start(1)] that by (auto simp: list_all_iff)
  have benign: "be_Error e \<noteq> None \<and> \<not> halts e" if m: "t \<in> set (hs_tries s)" "al_error t = Some e" for t e
  proof -
    obtain w where "snd (snd (snd (snd (ch_attempt ch w (al_ctx t) (al_req t))))) = al_error t"
      using attempted_error [OF tries(1) [OF m(1)]] .
    then show ?thesis using assms(5) m(2) by simp
  qed
  have served: "al_error t = None" if m: "t \<in> set (hs_tries s)" "0 < al_index t" "?F ! (al_index t - 1) = fb" for t
  proof -
    obtain w where "snd (snd (snd (snd (ch_attempt ch w (al_ctx t) (al_req t))))) = al_error t"
      using attempted_error [OF tries(1) [OF m(1)]] .
    moreover have "addressed_to fb (al_req t)"
      using tries(2,3) [OF m(1,2)] m(3) assms(4) addressed_by_start by blast
    ultimately show ?thesis using assms(8) by simp
  qed
  obtain j where j: "j < length ?F" "?F ! j = fb" using assms(6) by (auto simp: in_set_conv_nth)
  note rr = run_chain_run [OF run assms(2) start]
  have F: "hs_fallbacks s0 = ?F" using conjunct1 [OF rr] by simp
  from conjunct2 [OF rr] obtain t0 ts where t: "hs_tries s = t0 # ts"
    and c: "al_error t0 = None \<and> out = Returned (al_result t0) None \<or> (\<exists>e. al_error t0 = Some e \<and> (halts e \<or> ?F = [])) \<or>
      chain_run ch 1 ?F s0 ts (Some out) \<or> chain_run ch 1 ?F s0 ts None" unfolding F by blast
  have t0: "t0 \<in> set (hs_tries s)" and ts: "\<And>x. x \<in> set ts \<Longrightarrow> x \<in> set (hs_tries s)" by (simp_all add: t)
  from c show ?thesis
  proof (elim disjE exE conjE)
    assume n: "chain_run ch 1 ?F s0 ts None"
    have "Suc j \<in> set (tried_upto ch 1 ?F (1 + length ?F))" using j assms(7) by (simp add: tried_upto_def del: upt_Suc)
    then have "Suc j \<in> set (map al_index ts)" using n by (simp add: chain_run_def)
    then obtain t1 where t1: "t1 \<in> set ts" "al_index t1 = Suc j" by auto
    then have "went_on t1" using n by (simp add: chain_run_def list_all_iff)
    then show ?thesis using served [OF ts [OF t1(1)]] t1(2) j(2) by (simp add: went_on_def)
  next
    assume n: "chain_run ch 1 ?F s0 ts (Some out)"
    then have "ts \<noteq> []" by (simp add: chain_run_def split: outcome.splits)
    then have l: "last ts \<in> set (hs_tries s)" using ts by simp
    show ?thesis
    proof (cases out)
      case (Returned res err)
      then have "ends_with ch (hs_provider s0) (hs_model s0) (last ts) res err" using n by (simp add: chain_run_def)
      then show ?thesis using benign [OF l] Returned by (simp add: ends_with_def split: option.splits)
    next
      case Panicked
      then show ?thesis using n benign [OF l] by (auto simp: chain_run_def)
    qed
  next
    fix e assume "al_error t0 = Some e" "halts e"
    then show ?thesis using benign [OF t0] by simp
  next
    fix e assume "?F = []"
    then show ?thesis using j(1) by simp
  qed simp
qed

text \<open>A request with one struct set has that struct's fields.\<close>

lemma get_fields_single:
  assumes "(n, k) \<in> set fs" and "distinct (map fst fs)"
  shows "get_fields [(n, q)] fs =
    (case k of NoModel \<Rightarrow> (sq_Provider q, [], []) | ModelAndFallbacks \<Rightarrow> (sq_Provider q, model_of q, sq_Fallbacks q)
     | ModelOnly \<Rightarrow> (sq_Provider q, model_of q, []) | OptModel \<Rightarrow> (sq_Provider q, model_of q, []))"
  using assms by (induction fs) (force split: prod.splits field_kind.splits)+

lemma copied_fields:
  "(n, ModelAndFallbacks) \<in> set request_fields \<Longrightarrow> n \<in> set fallback_fields \<longleftrightarrow> n \<noteq> ''ImageEditRequest'' \<and> n \<noteq> ''ImageVariationRequest''"
proof -
  have "list_all (\<lambda>(n, k). k = ModelAndFallbacks \<longrightarrow> (n \<in> set fallback_fields \<longleftrightarrow> n \<noteq> ''ImageEditRequest'' \<and> n \<noteq> ''ImageVariationRequest'')) request_fields"
    by code_simp
  then show "(n, ModelAndFallbacks) \<in> set request_fields \<Longrightarrow> ?thesis" by (auto simp: list_all_iff)
qed

lemma request_fields_distinct: "distinct (map fst request_fields)"
  by code_simp

text \<open>Where a fallback request goes. A request with one request struct is readdressed to the fallback, unless it is an
  image edit or an image variation: these have fallbacks too, but the struct is neither copied nor changed, and
  the fallback attempt goes to the primary provider again.\<close>

lemma fallback_request_address:
  assumes "br_subs r = [(n, q)]" and "(n, ModelAndFallbacks) \<in> set request_fields" and "prepareFallbackRequest cfg r fb = Some r'"
  shows "GetRequestFields r' = (if n = ''ImageEditRequest'' \<or> n = ''ImageVariationRequest'' then GetRequestFields r
    else (fb_Provider fb, fb_Model fb, sq_Fallbacks q))"
proof -
  have r': "br_subs r' = [readdress fb (n, q)]" using assms(1,3) by (auto simp: prepareFallbackRequest_def split: sum.splits)
  show ?thesis using assms(1) r' copied_fields [OF assms(2)]
    by (auto simp: GetRequestFields_def readdress_def get_fields_single [OF assms(2) request_fields_distinct] model_of_def)
qed

section \<open>Examples\<close>

text \<open>A gateway whose provider \<open>openai\<close> is down, with the error \<open>e\<close>.\<close>

definition flaky_core :: "bifrost_error \<Rightarrow> (unit, string) core" where
  "flaky_core e = (small_core [pass_plugin] idle_schedule)\<lparr>co_worker :=
     (\<lambda>w c r. (w, c, r, if req_provider r = P_OpenAI then WorkerFailed e else Replied (Some (plain_response ''hi''))))\<rparr>"

lemma flaky_attempt:
  "tryRequest (flaky_core e) w c r = (p, r', resp, err) \<Longrightarrow> r' = r \<and>
   (if req_provider r = P_OpenAI then \<exists>e'. err = Some e' \<and> be_Error e' = be_Error e \<and> be_AllowFallbacks e' = be_AllowFallbacks e else err = None)"
  by (auto simp: flaky_core_def small_core_def tryRequest_def RunPreProviderHooks_def RunLLMPreHooks_def RunPostLLMHooks_def pass_plugin_def
    try_llm_phase_def enqueue_and_wait_def settle_worker_def finish_def enqueue_def idle_schedule_def sent_or_error_def Let_def fresh_pipe_def
    drop_raw_err_def stamp_err_def PopulateExtraFields_def numeral_eq_Suc split: if_splits option.splits)

abbreviation to_claude :: fallback where
  "to_claude \<equiv> \<lparr>fb_Provider = P_Anthropic, fb_Model = ''claude''\<rparr>"

abbreviation flaky_chain :: "bifrost_error \<Rightarrow> (unit, string bresponse option) chain" where
  "flaky_chain e \<equiv> request_chain (flaky_core e) (\<lambda>_. ''id'')"

abbreviation flaky_run :: "(unit, string bresponse option) hstate \<times> string bresponse option outcome" where
  "flaky_run \<equiv> handle (flaky_chain (failure 500)) [pass_plugin :: (unit, string) plugin] () empty_ctx (chat_request [to_claude])"

lemma flaky_result:
  "fst (snd (tryRequest (flaky_core e) w c r)) = r"
  "snd (snd (snd (tryRequest (flaky_core e) w c r))) = Some e' \<Longrightarrow> be_Error e' = be_Error e \<and> be_AllowFallbacks e' = be_AllowFallbacks e"
  "req_provider r \<noteq> P_OpenAI \<Longrightarrow> snd (snd (snd (tryRequest (flaky_core e) w c r))) = None"
  using flaky_attempt [of e w c r] by (cases "tryRequest (flaky_core e) w c r"; auto split: if_splits)+

lemma flaky_keeps: "keeps_fallbacks (flaky_chain e)"
  by (auto simp: keeps_fallbacks_def request_chain_def split: prod.splits dest!: flaky_attempt)

text \<open>A request addressed to a fallback names its provider.\<close>

lemma get_fields_provider:
  assumes "\<And>n q. (n, q) \<in> set subs \<Longrightarrow> sq_Provider q = p" and "fst ` set subs \<inter> fst ` set fs \<noteq> {}"
  shows "fst (get_fields subs fs) = p"
  using assms(2)
proof (induction fs)
  case (Cons f fs)
  obtain n k where f: "f = (n, k)" by (cases f)
  show ?case
  proof (cases "gm_get subs n")
    case None
    then have "n \<notin> fst ` set subs" by (simp add: map_of_eq_None_iff)
    then show ?thesis using Cons None f by auto
  next
    case (Some q)
    then show ?thesis using assms(1) [OF map_of_SomeD [OF Some]] f by (cases k) simp_all
  qed
qed simp

lemma addressed_provider:
  assumes "addressed_to fb r"
  shows "req_provider r = fb_Provider fb"
proof -
  have sub: "set fallback_fields \<subseteq> fst ` set request_fields" by code_simp
  have "fst (hd (br_subs r)) \<in> fst ` set (br_subs r) \<inter> fst ` set request_fields"
    using assms sub by (cases "br_subs r") (auto simp: addressed_to_def only_copied_def)
  then show ?thesis unfolding GetRequestFields_def
    using assms by (intro get_fields_provider) (auto simp: addressed_to_def list_all_iff)
qed

lemma flaky_facts:
  "map al_index (hs_tries (fst flaky_run)) = [0, 1]" "hs_fallbacks (fst flaky_run) = [to_claude]"
  "map fst (br_subs (hs_req (fst flaky_run))) = [''ChatRequest'']"
  by code_simp+

lemma flaky_returns: "case snd flaky_run of Returned res err \<Rightarrow> err = None | Panicked \<Rightarrow> False"
  by code_simp

theorem fallback_outcome_witness:
  "\<exists>res. snd flaky_run = Returned res None \<and> al_index (last (hs_tries (fst flaky_run))) \<le> 1"
proof -
  obtain s out where run: "flaky_run = (s, out)" by (cases flaky_run)
  then obtain res where out: "out = Returned res None" using flaky_returns by (cases out) auto
  have "hs_tries s \<noteq> []" "hs_fallbacks s = [to_claude]" using flaky_facts(1,2) unfolding run by auto
  then have "al_index (last (hs_tries s)) \<le> 1"
    using fallback_outcome [OF run [unfolded out] flaky_keeps] flaky_facts(1) unfolding run
    by (auto split: option.splits if_splits)
  then show ?thesis using out run by simp
qed


theorem fallback_serves_witness: "\<exists>res. snd flaky_run = Returned res None"
proof -
  let ?ch = "flaky_chain (failure 500)"
  obtain s out where run: "flaky_run = (s, out)" by (cases flaky_run)
  have f: "hs_tries s \<noteq> []" "hs_fallbacks s = [to_claude]" "map fst (br_subs (hs_req s)) = [''ChatRequest'']"
    using flaky_facts unfolding run by auto
  have oc: "only_copied (hs_req s)" using f(3) by (cases "br_subs (hs_req s)") (simp_all add: only_copied_def fallback_fields_def)
  have att: "snd (snd (snd (snd (ch_attempt ?ch w c r)))) = snd (snd (snd (tryRequest (flaky_core (failure 500)) w c r)))" for w c r
    by (simp add: request_chain_def split: prod.splits)
  have "be_Error (failure 500) \<noteq> None" "be_AllowFallbacks (failure 500) = None" "err_type (failure 500) = None"
    by (simp_all add: failure_def zero_error_def err_type_def)
  then have benign: "\<forall>w c r e. snd (snd (snd (snd (ch_attempt ?ch w c r)))) = Some e \<longrightarrow> be_Error e \<noteq> None \<and> \<not> halts e"
    unfolding att by (auto simp: halts_def err_type_def dest: flaky_result(2))
  have serves: "\<forall>w c r. addressed_to to_claude r \<longrightarrow> snd (snd (snd (snd (ch_attempt ?ch w c r)))) = None"
    unfolding att by (auto intro!: flaky_result(3) simp: addressed_provider)
  have "configured ?ch to_claude" by (simp add: configured_def request_chain_def flaky_core_def small_core_def)
  then show ?thesis using fallback_serves [OF run flaky_keeps f(1) oc benign, of to_claude] serves f(2) run by simp
qed

text \<open>An error without details crashes the fallback loop. When a fallback attempt fails with an error that has no
  error field (a plugin may return one), deciding whether to go on dereferences nil, although the same
  error from the primary provider is handled.\<close>

lemma fallback_panics_without_detail:
  "snd (handleRequest (flaky_core zero_error) (\<lambda>_. ''id'') () empty_ctx (chat_request [\<lparr>fb_Provider = P_OpenAI, fb_Model = ''o1''\<rparr>])) = Panicked \<and>
   snd (handleRequest (flaky_core zero_error) (\<lambda>_. ''id'') () empty_ctx (chat_request [])) =
     Returned None (Some (PopulateExtraFields zero_error ''chat_completion'' P_OpenAI ''gpt'' ''gpt''))"
  by code_simp

end
