(* ===== verification/Aliases.thy ===== *)
theory Aliases
  imports Schemas
begin

text \<open>
  Model aliases of a key: the alias half of \<open>core/schemas/account.go\<close> and the model families of
  \<open>core/schemas/utils.go\<close>. A key maps the model names its clients use to upstream model identifiers.
  The core resolves the requested model for every attempt, because another key may map it differently, and
  leaves the match in the context, where the provider adapters ask for the family.

  A Go map is iterated in an unspecified order. Here a map is a list of entries in the order of one
  iteration, and \<open>alias_order_irrelevant\<close> says that for a validated map the order does not matter.
\<close>

section \<open>Model families\<close>

definition ModelFamilies :: "string list" where
  "ModelFamilies =
    [''anthropic'', ''openai'', ''mistral'', ''cohere'', ''gemini'', ''gemma'', ''llama'', ''imagen'', ''veo'',
     ''nova'', ''titan'']"

definition family_IsValid :: "string option \<Rightarrow> bool" where
  "family_IsValid mf = (case mf of None \<Rightarrow> False | Some f \<Rightarrow> f \<in> set ModelFamilies)"

text \<open>The part of a name after the last slash or colon.\<close>

definition last_segment :: "string \<Rightarrow> string" where
  "last_segment s = rev (takeWhile (\<lambda>c. c \<noteq> CHR ''/'' \<and> c \<noteq> CHR '':'') (rev s))"

definition isOpenAIReasoningModel :: "string \<Rightarrow> bool" where
  "isOpenAIReasoningModel model =
     (case last_segment model of
        a # b # rest \<Rightarrow> a = CHR ''o'' \<and> is_digit b \<and> (case rest of [] \<Rightarrow> True | c # _ \<Rightarrow> c = CHR ''-'')
      | _ \<Rightarrow> False)"

definition IsAnthropicModel :: "string \<Rightarrow> bool" where
  "IsAnthropicModel m \<longleftrightarrow> str_contains m ''anthropic.'' \<or> str_contains m ''claude''"

definition IsOpenAIModel :: "string \<Rightarrow> bool" where
  "IsOpenAIModel m \<longleftrightarrow> str_contains m ''gpt-'' \<or> str_contains m ''text-embedding-'' \<or> isOpenAIReasoningModel m"

definition IsMistralModel :: "string \<Rightarrow> bool" where
  "IsMistralModel m \<longleftrightarrow> str_contains m ''mistral'' \<or> str_contains m ''codestral''"

definition IsImagenModel :: "string \<Rightarrow> bool" where
  "IsImagenModel m \<longleftrightarrow> str_contains (to_lower m) ''imagen''"

text \<open>The cases of the switch in \<open>ResolveFamily\<close>, in order.\<close>

definition family_cases :: "((string \<Rightarrow> bool) \<times> string) list" where
  "family_cases =
    [(IsAnthropicModel, ''anthropic''), (IsOpenAIModel, ''openai''), (IsMistralModel, ''mistral''),
     (IsImagenModel, ''imagen''), (\<lambda>m. str_contains m ''veo'', ''veo''), (\<lambda>m. str_contains m ''gemini'', ''gemini''),
     (\<lambda>m. str_contains m ''gemma'', ''gemma''), (\<lambda>m. str_contains m ''llama'', ''llama''),
     (\<lambda>m. str_contains m ''nova'', ''nova''), (\<lambda>m. str_contains m ''titan'', ''titan''),
     (\<lambda>m. str_contains m ''cohere'', ''cohere'')]"

definition family_of :: "string \<Rightarrow> string option" where
  "family_of m = map_option snd (List.find (\<lambda>(test, f). test m) family_cases)"

fun first_family :: "string list \<Rightarrow> string" where
  "first_family [] = []"
| "first_family (s # ss) = (case family_of s of Some f \<Rightarrow> f | None \<Rightarrow> first_family ss)"

section \<open>Resolution\<close>

definition GetResolvedAlias :: "bctx \<Rightarrow> resolved_alias option" where
  "GetResolvedAlias ctx = cx_ResolvedAlias ctx"

definition ResolveFamily :: "bctx \<Rightarrow> string \<Rightarrow> string" where
  "ResolveFamily ctx fallbackModel =
     (case GetResolvedAlias ctx of
        None \<Rightarrow> first_family [fallbackModel]
      | Some ra \<Rightarrow>
          (let candidates = (case ac_ModelName (ra_Config ra) of Some n \<Rightarrow> [n] | None \<Rightarrow> []) @
                 [ac_ModelID (ra_Config ra), ra_Key ra]
           in case ac_ModelFamily (ra_Config ra) of
                Some f \<Rightarrow> if f \<noteq> [] then f else first_family candidates
              | None \<Rightarrow> first_family candidates))"

definition ResolveCanonicalModel :: "bctx \<Rightarrow> string \<Rightarrow> string" where
  "ResolveCanonicalModel ctx fallbackModel =
     (case GetResolvedAlias ctx of
        None \<Rightarrow> fallbackModel
      | Some ra \<Rightarrow>
          (let wire = (if ac_ModelID (ra_Config ra) \<noteq> [] then ac_ModelID (ra_Config ra) else fallbackModel)
           in case ac_ModelName (ra_Config ra) of
                Some n \<Rightarrow> if n \<noteq> [] then n else wire
              | None \<Rightarrow> wire))"

definition ResolveBaseProvider :: "bctx \<Rightarrow> provider \<Rightarrow> provider" where
  "ResolveBaseProvider ctx p =
     (case cx_BaseProviderType ctx of Some base \<Rightarrow> if base \<noteq> [] then base else p | None \<Rightarrow> p)"

definition ResolveConfig :: "(string, alias_config) gomap \<Rightarrow> string \<Rightarrow> alias_config option" where
  "ResolveConfig ka model =
     (case gm_get ka model of
        Some ac \<Rightarrow> Some ac
      | None \<Rightarrow> map_option snd (List.find (\<lambda>(k, v). equal_fold k model) ka))"

definition alias_Resolve :: "(string, alias_config) gomap \<Rightarrow> string \<Rightarrow> string" where
  "alias_Resolve ka model = (case ResolveConfig ka model of Some ac \<Rightarrow> ac_ModelID ac | None \<Rightarrow> model)"

definition BuildRoutingInfo :: "bctx \<Rightarrow> provider \<Rightarrow> string \<Rightarrow> key \<Rightarrow> routing_info" where
  "BuildRoutingInfo ctx attemptProvider attemptModel attemptKey =
     zero_routing_info\<lparr>ri_Provider := attemptProvider, ri_Model := attemptModel, ri_Key := key_Name attemptKey,
       ri_ResolvedAlias := map_option (\<lambda>ra. \<lparr>rk_ModelID = ac_ModelID (ra_Config ra),
         rk_ModelName = ac_ModelName (ra_Config ra), rk_ModelFamily = ac_ModelFamily (ra_Config ra)\<rparr>)
         (GetResolvedAlias ctx)\<rparr>"

section \<open>Validation\<close>

datatype alias_error =
    EmptySource
  | EmptyModelID string
  | UntrimmedSource string
  | UntrimmedModelID string
  | UntrimmedModelName string
  | InvalidFamily string
  | WrongProvider string provider
  | DuplicateSource string

definition entry_error :: "provider \<Rightarrow> string \<Rightarrow> alias_config \<Rightarrow> alias_error option" where
  "entry_error p from ac =
     (if trim_space from = [] then Some EmptySource
      else if trim_space (ac_ModelID ac) = [] then Some (EmptyModelID from)
      else if trim_space from \<noteq> from then Some (UntrimmedSource from)
      else if trim_space (ac_ModelID ac) \<noteq> ac_ModelID ac then Some (UntrimmedModelID from)
      else if (case ac_ModelName ac of Some n \<Rightarrow> trim_space n \<noteq> n | None \<Rightarrow> False) then Some (UntrimmedModelName from)
      else if ac_ModelFamily ac \<noteq> None \<and> \<not> family_IsValid (ac_ModelFamily ac) then Some (InvalidFamily from)
      else if ac_Azure ac \<and> p \<noteq> P_Azure then Some (WrongProvider from P_Azure)
      else if ac_Vertex ac \<and> p \<noteq> P_Vertex then Some (WrongProvider from P_Vertex)
      else if ac_Bedrock ac \<and> p \<noteq> P_Bedrock then Some (WrongProvider from P_Bedrock)
      else if ac_Replicate ac \<and> p \<noteq> ''replicate'' then Some (WrongProvider from ''replicate'')
      else None)"

fun validate_aliases :: "provider \<Rightarrow> string list \<Rightarrow> (string, alias_config) gomap \<Rightarrow> alias_error option" where
  "validate_aliases p seen [] = None"
| "validate_aliases p seen ((from, ac) # ka) =
     (case entry_error p from ac of
        Some e \<Rightarrow> Some e
      | None \<Rightarrow>
          if to_lower from \<in> set seen then Some (DuplicateSource from)
          else validate_aliases p (to_lower from # seen) ka)"

definition alias_Validate :: "(string, alias_config) gomap \<Rightarrow> provider \<Rightarrow> alias_error option" where
  "alias_Validate ka p = validate_aliases p [] ka"

section \<open>What validation guarantees\<close>

lemma validate_aliases_None:
  "validate_aliases p seen ka = None \<longleftrightarrow>
     distinct (map (to_lower \<circ> fst) ka) \<and> set (map (to_lower \<circ> fst) ka) \<inter> set seen = {} \<and>
     (\<forall>(from, ac) \<in> set ka. entry_error p from ac = None)"
proof (induction ka arbitrary: seen)
  case (Cons e ka)
  obtain src ac where [simp]: "e = (src, ac)" by fastforce
  show ?case using Cons.IH [of "to_lower src # seen"] by (cases "entry_error p src ac") auto
qed simp

lemma alias_Validate_None:
  "alias_Validate ka p = None \<longleftrightarrow>
     distinct (map (to_lower \<circ> fst) ka) \<and> (\<forall>(from, ac) \<in> set ka. entry_error p from ac = None)"
  by (simp add: alias_Validate_def validate_aliases_None)

lemma folded_entry_unique:
  assumes "distinct (map (to_lower \<circ> fst) ka)" and "(k, v) \<in> set ka" and "(k', v') \<in> set ka" and "to_lower k = to_lower k'"
  shows "k = k'" and "v = v'"
  using assms by (induction ka) (force simp: image_iff)+

text \<open>With case-insensitively distinct sources the exact lookup and the search agree with a lookup by the
  folded name.\<close>

lemma ResolveConfig_iff:
  assumes "distinct (map (to_lower \<circ> fst) ka)"
  shows "ResolveConfig ka m = Some v \<longleftrightarrow> (\<exists>k. (k, v) \<in> set ka \<and> equal_fold k m)"
proof
  assume "ResolveConfig ka m = Some v"
  then show "\<exists>k. (k, v) \<in> set ka \<and> equal_fold k m"
    by (auto simp: ResolveConfig_def equal_fold_def find_Some_iff dest: map_of_SomeD split: option.splits)
       (use nth_mem in fastforce)
next
  assume "\<exists>k. (k, v) \<in> set ka \<and> equal_fold k m"
  then obtain k where k: "(k, v) \<in> set ka" "to_lower k = to_lower m" by (auto simp: equal_fold_def)
  show "ResolveConfig ka m = Some v"
  proof (cases "gm_get ka m")
    case (Some v')
    then have "v' = v" using folded_entry_unique [OF assms k(1) _ k(2)] map_of_SomeD by fastforce
    then show ?thesis by (simp add: ResolveConfig_def Some)
  next
    case None
    have "List.find (\<lambda>(k, v). equal_fold k m) ka \<noteq> None" using k by (auto simp: find_None_iff equal_fold_def)
    then obtain k' v' where f: "List.find (\<lambda>(k, v). equal_fold k m) ka = Some (k', v')" by auto
    then have "(k', v') \<in> set ka" "to_lower k' = to_lower m"
      by (auto simp: find_Some_iff equal_fold_def) (metis nth_mem)
    then have "v' = v" using folded_entry_unique(2) [OF assms, of k' v' k v] k by auto
    then show ?thesis by (simp add: ResolveConfig_def None f)
  qed
qed

lemma alias_Validate_order:
  assumes "mset ka = mset ka'"
  shows "alias_Validate ka p = None \<longleftrightarrow> alias_Validate ka' p = None"
proof -
  have "mset (map (to_lower \<circ> fst) ka) = mset (map (to_lower \<circ> fst) ka')" using assms by (simp add: multiset.map_comp)
  then have "distinct (map (to_lower \<circ> fst) ka) = distinct (map (to_lower \<circ> fst) ka')" by (rule mset_eq_imp_distinct_iff)
  then show ?thesis using mset_eq_setD [OF assms] by (simp add: alias_Validate_None)
qed

section \<open>Properties\<close>

text \<open>The order in which the alias map is iterated does not matter. Whether a map is accepted does not
  depend on it, an accepted map resolves every model to the same configuration under every iteration order,
  whatever the case of the model's name, and what a model resolves to is never an empty or padded identifier.\<close>

lemma alias_order_irrelevant:
  assumes "mset ka = mset ka'"
  shows "(alias_Validate ka p = None \<longleftrightarrow> alias_Validate ka' p = None) \<and>
    (alias_Validate ka p = None \<longrightarrow> equal_fold m m' \<longrightarrow> ResolveConfig ka m = ResolveConfig ka' m') \<and>
    (alias_Validate ka p = None \<longrightarrow> ResolveConfig ka m = Some ac \<longrightarrow>
       ac_ModelID ac \<noteq> [] \<and> trim_space (ac_ModelID ac) = ac_ModelID ac)"
proof (intro conjI impI)
  show "alias_Validate ka p = None \<longleftrightarrow> alias_Validate ka' p = None" by (rule alias_Validate_order [OF assms])
next
  assume v: "alias_Validate ka p = None" and m: "equal_fold m m'"
  then have d: "distinct (map (to_lower \<circ> fst) ka)" and d': "distinct (map (to_lower \<circ> fst) ka')"
    using alias_Validate_order [OF assms, of p] by (auto simp: alias_Validate_None)
  have "ResolveConfig ka m = Some x \<longleftrightarrow> ResolveConfig ka' m' = Some x" for x
    using m mset_eq_setD [OF assms] by (simp add: ResolveConfig_iff [OF d] ResolveConfig_iff [OF d'] equal_fold_def)
  then show "ResolveConfig ka m = ResolveConfig ka' m'" by (metis option.exhaust)
next
  assume v: "alias_Validate ka p = None" and r: "ResolveConfig ka m = Some ac"
  then obtain k where "entry_error p k ac = None"
    by (fastforce simp: alias_Validate_None ResolveConfig_iff)
  then show "ac_ModelID ac \<noteq> []" "trim_space (ac_ModelID ac) = ac_ModelID ac"
    by (auto simp: entry_error_def trim_space_def split: if_splits)
qed

definition two_aliases :: "(string, alias_config) gomap" where
  "two_aliases =
    [(''fast'', \<lparr>ac_ModelID = ''gpt-5-mini'', ac_ModelName = None, ac_ModelFamily = None, ac_Azure = False,
       ac_Vertex = False, ac_Bedrock = False, ac_Replicate = False\<rparr>),
     (''Best'', \<lparr>ac_ModelID = ''deployment-7'', ac_ModelName = Some ''claude-opus'', ac_ModelFamily = Some ''anthropic'',
       ac_Azure = True, ac_Vertex = False, ac_Bedrock = False, ac_Replicate = False\<rparr>)]"

lemma two_aliases_facts:
  "alias_Validate two_aliases P_Azure = None" "map_option ac_ModelID (ResolveConfig two_aliases ''best'') = Some ''deployment-7''"
  "equal_fold ''best'' ''BEST''"
  by code_simp+

end
