(* ===== verification/Worker.thy ===== *)
theory Worker
  imports Dispatch Aliases
begin

text \<open>
  The provider worker: what \<open>requestWorkerServe\<close> of \<open>core/bifrost.go\<close> does with one message of its queue.
  It stamps the context of the attempt, decides which raw payloads to capture, builds the key pool or key
  list, runs the retry loop with a handler that resolves the model alias of each key, stamps the outcome and
  hands it to the caller, or bills it when the caller has gone.

  The record \<open>worker\<close> holds what the goroutine closes over. The provider adapter is its field
  \<open>wk_call\<close> for unary and \<open>wk_stream\<close> for streaming requests; the latter is handed the function that runs
  the post-hooks on a chunk. The variables the handlers of all attempts share are the record \<open>wlocal\<close>,
  which wraps the world of the retry loop. Tracing spans and the pools of pipelines are left out.
\<close>

section \<open>The context of an attempt\<close>

definition StandardProviders :: "provider list" where
  "StandardProviders =
    [''anthropic'', ''azure'', ''bedrock'', ''bedrock_mantle'', ''cerebras'', ''cohere'', ''deepseek'', ''gemini'', ''groq'',
     ''mistral'', ''ollama'', ''opencode'', ''opencode-go'', ''opencode-zen'', ''openai'', ''parasail'', ''perplexity'', ''sgl'',
     ''vertex'', ''openrouter'', ''elevenlabs'', ''huggingface'', ''nebius'', ''xai'', ''replicate'', ''vllm'', ''runway'',
     ''runware'', ''fireworks'', ''sarvam'', ''wafer'', ''alibaba'', ''alibaba_tokenplan'', ''minimax'', ''moonshot'',
     ''siliconflow'', ''volcengine'', ''zhipu'', ''tencent'', ''baidu'', ''sensenova'', ''baichuan'', ''iflytek'', ''stepfun'',
     ''xiaomi_mimo'', ''modelscope'', ''coze'', ''coze_cn'', ''gmicloud'', ''360ai'', ''internlm'', ''antling'', ''yi'',
     ''qwencloud'', ''byteplus'', ''qiniu'', ''zai'', ''together'', ''nvidia'', ''sambanova'', ''deepinfra'', ''hyperbolic'',
     ''azure_ai'', ''watsonx'', ''minimax_cn'', ''snowflake'', ''databricks'', ''oci'', ''sap'', ''modal'', ''baseten'', ''longcat'']"

definition IsStandardProvider :: "provider \<Rightarrow> bool" where
  "IsStandardProvider p \<longleftrightarrow> p \<in> set StandardProviders"

definition SupportedBaseProviders :: "provider list" where
  "SupportedBaseProviders =
    [''anthropic'', ''bedrock'', ''cohere'', ''gemini'', ''openai'', ''huggingface'', ''replicate'']"

definition IsSupportedBaseProvider :: "provider \<Rightarrow> bool" where
  "IsSupportedBaseProvider p \<longleftrightarrow> p \<in> set SupportedBaseProviders"

text \<open>The check of a custom provider when its adapter is created.\<close>

definition custom_provider_ok :: "provider_config \<Rightarrow> bool" where
  "custom_provider_ok cfg =
     (case pc_Custom cfg of None \<Rightarrow> True | Some (_, base) \<Rightarrow> base \<noteq> [] \<and> IsSupportedBaseProvider base)"

definition clearAnthropicPassthroughForNonNativeProvider :: "bctx \<Rightarrow> provider \<Rightarrow> bctx" where
  "clearAnthropicPassthroughForNonNativeProvider ctx base =
     (if cx_IntegrationType ctx \<noteq> Some ''anthropic'' then ctx
      else if base \<in> set [P_Anthropic, P_Vertex, P_Azure, P_BedrockMantle] then ctx
      else ctx\<lparr>cx_UseRawRequestBody := Some False, cx_SendBackRawResponse := Some False,
             cx_PassthroughOverridesPresent := Some False\<rparr>)"

text \<open>What of the raw payloads is captured, sent back and stored: the provider's configuration, overridden by
  the request where that is allowed.\<close>

definition overridden :: "bool \<Rightarrow> bool option \<Rightarrow> bool \<Rightarrow> bool" where
  "overridden allowed override dflt = (case override of Some b \<Rightarrow> if allowed then b else dflt | None \<Rightarrow> dflt)"

definition raw_override_allowed :: "bctx \<Rightarrow> bool" where
  "raw_override_allowed ctx \<longleftrightarrow> cx_AllowPerRequestRawOverride ctx = Some True \<or> cx_PassthroughOverridesPresent ctx = Some True"

definition effectiveSendBackReq :: "provider_config \<Rightarrow> bctx \<Rightarrow> bool" where
  "effectiveSendBackReq cfg ctx = overridden (raw_override_allowed ctx) (cx_SendBackRawRequest ctx) (pc_SendBackRawRequest cfg)"

definition effectiveSendBackResp :: "provider_config \<Rightarrow> bctx \<Rightarrow> bool" where
  "effectiveSendBackResp cfg ctx = overridden (raw_override_allowed ctx) (cx_SendBackRawResponse ctx) (pc_SendBackRawResponse cfg)"

definition effectiveStore :: "provider_config \<Rightarrow> bctx \<Rightarrow> bool" where
  "effectiveStore cfg ctx =
     overridden (cx_AllowPerRequestStorageOverride ctx = Some True) (cx_StoreRawRequestResponse ctx) (pc_StoreRawRequestResponse cfg)"

definition raw_flags :: "provider_config \<Rightarrow> bctx \<Rightarrow> bctx" where
  "raw_flags cfg ctx =
     (let sendReq = effectiveSendBackReq cfg ctx; sendResp = effectiveSendBackResp cfg ctx; store = effectiveStore cfg ctx
      in ctx\<lparr>cx_CaptureRawRequest := Some (sendReq \<or> store), cx_CaptureRawResponse := Some (sendResp \<or> store),
           cx_DropRawRequestFromClient := Some (store \<and> \<not> sendReq), cx_DropRawResponseFromClient := Some (store \<and> \<not> sendResp),
           cx_ShouldStoreRawInLogs := Some store\<rparr>)"

definition base_provider :: "provider \<Rightarrow> provider_config \<Rightarrow> provider" where
  "base_provider p cfg = (case pc_Custom cfg of Some (_, base) \<Rightarrow> if base \<noteq> [] then base else p | None \<Rightarrow> p)"

definition stamp_attempt :: "provider \<Rightarrow> provider_config \<Rightarrow> bctx \<Rightarrow> bctx" where
  "stamp_attempt p cfg ctx =
     (let base = base_provider p cfg
      in raw_flags cfg (clearAnthropicPassthroughForNonNativeProvider
           (ctx\<lparr>cx_IsCustomProvider := Some (\<not> IsStandardProvider base), cx_BaseProviderType := Some base\<rparr>) base))"

text \<open>What a provider adapter attaches to its errors (\<open>EnrichError\<close> of \<open>core/providers/utils/utils.go\<close>);
  \<open>squeeze\<close> removes insignificant white space.\<close>

definition ShouldSendBackRawRequest :: "bctx \<Rightarrow> bool \<Rightarrow> bool" where
  "ShouldSendBackRawRequest ctx dflt = (case cx_CaptureRawRequest ctx of Some c \<Rightarrow> c | None \<Rightarrow> dflt)"

definition ShouldSendBackRawResponse :: "bctx \<Rightarrow> bool \<Rightarrow> bool" where
  "ShouldSendBackRawResponse ctx dflt = (case cx_CaptureRawResponse ctx of Some c \<Rightarrow> c | None \<Rightarrow> dflt)"

definition EnrichError ::
  "(string \<Rightarrow> string) \<Rightarrow> bctx \<Rightarrow> bifrost_error \<Rightarrow> string \<Rightarrow> string \<Rightarrow> bool \<Rightarrow> bool \<Rightarrow> bifrost_error" where
  "EnrichError squeeze ctx e requestBody responseBody sendReq sendResp =
     (let e1 = e\<lparr>be_RawRequest := (if ShouldSendBackRawRequest ctx sendReq \<and> requestBody \<noteq> [] then Some (squeeze requestBody) else None)\<rparr>
      in if ShouldSendBackRawResponse ctx sendResp
         then (if responseBody \<noteq> [] then e1\<lparr>be_RawResponse := Some (squeeze responseBody)\<rparr> else e1)
         else e1\<lparr>be_RawResponse := None\<rparr>)"

section \<open>The worker\<close>

datatype delivery = Delivered | SawCallerGone | SendTimedOut | NobodyReads

type_synonym ('w, 'a) chunk_hook =
  "'w pipe \<Rightarrow> 'a bresponse option \<Rightarrow> bifrost_error option \<Rightarrow> 'w pipe \<times> 'a bresponse option \<times> bifrost_error option"

record ('w, 'a) worker =
  wk_provider :: provider
  wk_config :: provider_config
  wk_gateway :: "'w gateway"
  wk_clock :: "'w \<Rightarrow> nat \<Rightarrow> int"
  wk_selector :: "'w selector_hook"
  wk_filter :: "'w filter_hook option"
  wk_marker :: "'w marker_hook option"
  wk_plugins :: "('w, 'a) plugin list"
  wk_call :: "'w \<Rightarrow> bctx \<Rightarrow> brequest \<Rightarrow> key \<Rightarrow> key list \<Rightarrow> 'w \<times> bctx \<times> brequest \<times> 'a bresponse option \<times> bifrost_error option"
  wk_stream :: "('w, 'a) chunk_hook \<Rightarrow> 'w pipe \<Rightarrow> brequest \<Rightarrow> key \<Rightarrow>
    'w pipe \<times> brequest \<times> 'a bresponse option chunk list \<times> bifrost_error option"
  wk_json :: json_ops
  wk_rand :: "int \<Rightarrow> int"
  wk_delivery :: "'w \<Rightarrow> delivery"

record 'w wlocal =
  wl_world :: 'w
  wl_resolved :: string
  wl_info :: routing_info

definition lift_filter :: "'w filter_hook \<Rightarrow> 'w wlocal filter_hook" where
  "lift_filter f wl ctx p model keys =
     (case f (wl_world wl) ctx p model keys of (w, ctx', r) \<Rightarrow> (wl\<lparr>wl_world := w\<rparr>, ctx', r))"

definition lift_selector :: "'w selector_hook \<Rightarrow> 'w wlocal selector_hook" where
  "lift_selector sel wl ctx keys p model =
     (case sel (wl_world wl) ctx keys p model of (w, r) \<Rightarrow> (wl\<lparr>wl_world := w\<rparr>, r))"

definition lift_marker :: "'w marker_hook \<Rightarrow> 'w wlocal marker_hook" where
  "lift_marker mark wl ctx p keyID keyName model e =
     (case mark (wl_world wl) ctx p keyID keyName model e of (w, ctx') \<Rightarrow> (wl\<lparr>wl_world := w\<rparr>, ctx'))"

subsection \<open>Keys\<close>

text \<open>Go's quoted form of a string, for identifiers of printable characters.\<close>

definition go_quote :: "string \<Rightarrow> string" where
  "go_quote s = [CHR 0x22] @ concat (map (\<lambda>c. if c = CHR 0x22 \<or> c = CHR 0x5C then [CHR 0x5C, c] else [c]) s) @ [CHR 0x22]"

definition pool_error_text :: "pool_error \<Rightarrow> string" where
  "pool_error_text e =
     (case e of
        AccountError m \<Rightarrow> m
      | NoKeysFound p \<Rightarrow> ''no keys found for provider: '' @ p
      | NoValidKeys p \<Rightarrow> ''no valid keys found for provider: '' @ p
      | NoKeysForModel p m \<Rightarrow> ''no keys found for provider: '' @ p @ '' and model: '' @ m
      | NoBatchKeysForModel p m \<Rightarrow> ''no batch-enabled keys found for provider: '' @ p @ '' and model: '' @ m
      | NoBatchConfig p \<Rightarrow> ''no config found for batch apis; enable '' @ [CHR 0x27] @ ''Use for Batch APIs'' @ [CHR 0x27] @
          '' on at least one key for provider: '' @ p
      | NoKeysSupportModel m \<Rightarrow> ''no keys found that support model: '' @ m
      | NoKeyWithID i p m \<Rightarrow> ''no supported key found with id '' @ go_quote i @ '' for provider: '' @ p @ '' and model: '' @ m
      | NoKeyWithName n p m \<Rightarrow> ''no supported key found with name '' @ go_quote n @ '' for provider: '' @ p @ '' and model: '' @ m
      | SelectorFailed m \<Rightarrow> m)"

text \<open>The error sent back when no key can be found; only a wrapped Go error keeps its cause.\<close>

definition refusal :: "provider \<Rightarrow> string \<Rightarrow> string \<Rightarrow> string \<Rightarrow> string option \<Rightarrow> bifrost_error" where
  "refusal p requestType model message cause =
     zero_error\<lparr>be_Error := Some \<lparr>ef_Type = None, ef_Code = None, ef_Message = message, ef_Error = cause\<rparr>,
       be_Provider := p, be_RequestType := requestType, be_OriginalModelRequested := model, be_ResolvedModelUsed := model\<rparr>"

definition multi_key_op :: "string \<Rightarrow> bool" where
  "multi_key_op t \<longleftrightarrow>
     isBatchRequestType t \<and> t \<noteq> ''batch_create'' \<or> isFileRequestType t \<and> t \<noteq> ''file_upload'' \<or>
     isContainerRequestType t \<and> t \<noteq> ''container_create'' \<and> t \<noteq> ''container_file_create'' \<or>
     isCachedContentRequestType t \<and> t \<noteq> ''cached_content_create''"

text \<open>Where the keys of a request come from: no key at all, a list the adapter manages itself, one fixed key, or
  a pool to rotate through.\<close>

datatype key_source = NoKey | KeyList "key list" | FixedKey key | RotatingKeys "key list"

definition pool_gateway :: "('w, 'a) worker \<Rightarrow> 'w \<Rightarrow> bctx \<Rightarrow> string \<Rightarrow> 'w gateway" where
  "pool_gateway wk w ctx model =
     (wk_gateway wk)\<lparr>gw_selector := (\<lambda>ks. snd (wk_selector wk w ctx ks (wk_provider wk) model))\<rparr>"

definition list_models_keys :: "('w, 'a) worker \<Rightarrow> bctx \<Rightarrow> brequest \<Rightarrow> bifrost_error + key_source" where
  "list_models_keys wk ctx req =
     (let p = wk_provider wk; model = req_model req; t = br_RequestType req
      in case getAllSupportedKeys (gw_keys (wk_gateway wk)) ctx p (base_provider p (wk_config wk)) of
           Inl e \<Rightarrow> Inl (refusal p t model (pool_error_text e) (Some (pool_error_text e)))
         | Inr keys \<Rightarrow>
             (case Option.bind (gm_get (br_subs req) ''ListModelsRequest'') sq_KeyID of
                None \<Rightarrow> Inr (KeyList keys)
              | Some target \<Rightarrow>
                  if filterKeysByID keys target = []
                  then Inl (refusal p t model (''no key found with id '' @ go_quote target @ '' for provider '' @ p) None)
                  else Inr (KeyList (filterKeysByID keys target))))"

definition multi_op_keys :: "('w, 'a) worker \<Rightarrow> bctx \<Rightarrow> brequest \<Rightarrow> bifrost_error + key_source" where
  "multi_op_keys wk ctx req =
     (let p = wk_provider wk; model = req_model req; t = br_RequestType req
      in case getKeysForBatchAndFileOps (gw_keys (wk_gateway wk)) ctx p (base_provider p (wk_config wk))
                (if model \<noteq> [] then Some model else None) (isBatchRequestType t \<and> t \<noteq> ''batch_create'') of
           Inl e \<Rightarrow> Inl (refusal p t model (pool_error_text e) (Some (pool_error_text e)))
         | Inr keys \<Rightarrow> Inr (KeyList keys))"

definition pool_keys :: "('w, 'a) worker \<Rightarrow> 'w \<Rightarrow> bctx \<Rightarrow> brequest \<Rightarrow> 'w \<times> (bifrost_error + key_source)" where
  "pool_keys wk w ctx req =
     (let p = wk_provider wk; model = req_model req; t = br_RequestType req
      in case selectKeyFromProviderForModelWithPool (pool_gateway wk w ctx model) (wk_clock wk w) w ctx t p model
                (base_provider p (wk_config wk)) of
           (w', Inl e) \<Rightarrow> (w', Inl (refusal p t model (pool_error_text e) (Some (pool_error_text e))))
         | (w', Inr (supported, canRotate)) \<Rightarrow>
             (w', Inr (if supported = [] then NoKey else if \<not> canRotate then FixedKey (hd supported) else RotatingKeys supported)))"

definition choose_keys :: "('w, 'a) worker \<Rightarrow> 'w \<Rightarrow> bctx \<Rightarrow> brequest \<Rightarrow> 'w \<times> (bifrost_error + key_source)" where
  "choose_keys wk w ctx req =
     (if \<not> providerRequiresKey (pc_Custom (wk_config wk)) then (w, Inr NoKey)
      else if br_RequestType req = ''list_models'' then (w, list_models_keys wk ctx req)
      else if multi_key_op (br_RequestType req) then (w, multi_op_keys wk ctx req)
      else pool_keys wk w ctx req)"

text \<open>The key provider of the retry loop, \<open>None\<close> for the first two sources, and the key list of the adapter.\<close>

definition source_provider :: "('w, 'a) worker \<Rightarrow> string \<Rightarrow> key_source \<Rightarrow> 'w wlocal key_provider_fn option" where
  "source_provider wk model src =
     (case src of
        NoKey \<Rightarrow> None
      | KeyList _ \<Rightarrow> None
      | FixedKey k \<Rightarrow> Some (newFixedKeyProvider (map_option lift_filter (wk_filter wk)) (wk_provider wk) model k)
      | RotatingKeys pool \<Rightarrow>
          Some (rotatingKeyProvider (map_option lift_filter (wk_filter wk)) (lift_selector (wk_selector wk)) (wk_provider wk) model pool))"

definition source_keys :: "key_source \<Rightarrow> key list" where
  "source_keys src = (case src of KeyList ks \<Rightarrow> ks | _ \<Rightarrow> [])"

definition source_dead_text :: "provider \<Rightarrow> key_source \<Rightarrow> string" where
  "source_dead_text p src = (case src of RotatingKeys _ \<Rightarrow> rotating_dead_text p | _ \<Rightarrow> errAllKeysDead)"

subsection \<open>One attempt\<close>

text \<open>The model of an attempt is what the key's alias makes of the requested one.\<close>

definition resolve_alias :: "string \<Rightarrow> key \<Rightarrow> bctx \<Rightarrow> brequest \<Rightarrow> bctx \<times> brequest \<times> string" where
  "resolve_alias original k ctx req =
     (case ResolveConfig (key_Aliases k) original of
        Some ac \<Rightarrow> (ctx\<lparr>cx_ResolvedAlias := Some \<lparr>ra_Key = original, ra_Config = ac\<rparr>\<rparr>, SetModel req (ac_ModelID ac), ac_ModelID ac)
      | None \<Rightarrow> (ctx\<lparr>cx_ResolvedAlias := None\<rparr>, SetModel req original, original))"

text \<open>The loop always passes the request on; \<open>None\<close> does not occur.\<close>

definition unary_handler ::
  "('w, 'a) worker \<Rightarrow> string \<Rightarrow> key list \<Rightarrow> 'w wlocal \<Rightarrow> bctx \<Rightarrow> brequest option \<Rightarrow> key \<Rightarrow>
   'w wlocal \<times> bctx \<times> brequest option \<times> 'a bresponse option reply \<times> bifrost_error option" where
  "unary_handler wk original keys wl ctx req k =
     (case req of
        None \<Rightarrow> (wl, ctx, None, Response None, None)
      | Some r \<Rightarrow>
          (case resolve_alias original k ctx r of
             (ctx1, r1, resolved) \<Rightarrow>
               (case wk_call wk (wl_world wl) ctx1 r1 k keys of
                  (w, ctx2, r2, resp, err) \<Rightarrow>
                    (\<lparr>wl_world = w, wl_resolved = resolved, wl_info = BuildRoutingInfo ctx1 (wk_provider wk) original k\<rparr>,
                     ctx2, Some r2, Response resp, err))))"

text \<open>A streaming fallback names its primary: the one the previous attempt carried, or that attempt itself.\<close>

definition layer_fallback :: "bctx \<Rightarrow> routing_info \<Rightarrow> routing_info" where
  "layer_fallback ctx info =
     (case cx_FallbackIndex ctx of
        Some i \<Rightarrow>
          if i > 0 then
            (let info1 = info\<lparr>ri_IsFallback := True\<rparr>
             in case cx_RoutingInfo ctx of
                  None \<Rightarrow> info1
                | Some prev \<Rightarrow>
                    if ri_IsFallback prev \<and> ri_PrimaryProvider prev \<noteq> None
                    then info1\<lparr>ri_PrimaryProvider := ri_PrimaryProvider prev, ri_PrimaryModel := ri_PrimaryModel prev\<rparr>
                    else if ri_Provider prev \<noteq> []
                    then info1\<lparr>ri_PrimaryProvider := Some (ri_Provider prev), ri_PrimaryModel := Some (ri_Model prev)\<rparr>
                    else info1)
          else info
      | None \<Rightarrow> info)"

definition label_resp :: "string \<Rightarrow> provider \<Rightarrow> string \<Rightarrow> string \<Rightarrow> routing_info \<Rightarrow> 'a bresponse \<Rightarrow> 'a bresponse" where
  "label_resp t p original resolved info r =
     resp_PopulateRoutingInfo (resp_PopulateExtraFields r t p original resolved) info"

definition label_err :: "string \<Rightarrow> provider \<Rightarrow> string \<Rightarrow> string \<Rightarrow> routing_info \<Rightarrow> bifrost_error \<Rightarrow> bifrost_error" where
  "label_err t p original resolved info e =
     err_PopulateRoutingInfo (PopulateExtraFields e t p original resolved) info"

definition postHookRunner :: "('w, 'a) worker \<Rightarrow> string \<Rightarrow> string \<Rightarrow> string \<Rightarrow> routing_info \<Rightarrow> ('w, 'a) chunk_hook" where
  "postHookRunner wk t original resolved info p resp err =
     (let lr = label_resp t (wk_provider wk) original resolved info; le = label_err t (wk_provider wk) original resolved info
      in case RunPostLLMHooks (wk_plugins wk) p (map_option lr resp) (map_option le err) (int (length (wk_plugins wk))) of
           (p', resp', err') \<Rightarrow>
             (case err' of
                Some e \<Rightarrow> (p', None, Some (le e))
              | None \<Rightarrow> (p', map_option lr resp', None)))"

definition stream_handler ::
  "('w, 'a) worker \<Rightarrow> string \<Rightarrow> 'w wlocal \<Rightarrow> bctx \<Rightarrow> brequest option \<Rightarrow> key \<Rightarrow>
   'w wlocal \<times> bctx \<times> brequest option \<times> 'a bresponse option reply \<times> bifrost_error option" where
  "stream_handler wk original wl ctx req k =
     (case req of
        None \<Rightarrow> (wl, ctx, None, StreamOf [], None)
      | Some r \<Rightarrow>
          (case resolve_alias original k ctx r of
             (ctx1, r1, resolved) \<Rightarrow>
               (let info = layer_fallback ctx1 (BuildRoutingInfo ctx1 (wk_provider wk) original k)
                in case wk_stream wk (postHookRunner wk (br_RequestType r1) original resolved info)
                          (fresh_pipe (wl_world wl) (ctx1\<lparr>cx_RoutingInfo := Some info\<rparr>)) r1 k of
                     (p, r2, chunks, err) \<Rightarrow>
                       (\<lparr>wl_world = pp_world p, wl_resolved = resolved, wl_info = info\<rparr>,
                        pp_ctx p, Some r2, StreamOf chunks, err))))"

subsection \<open>One message\<close>

text \<open>What the worker has to send: a refusal before any call, an answer, or the error of the last attempt.\<close>

datatype 'x served = Refused bifrost_error | Answered 'x | Failed bifrost_error

definition worker_env ::
  "('w, 'a) worker \<Rightarrow> brequest \<Rightarrow> key_source \<Rightarrow> 'a bresponse option reply \<Rightarrow>
   ('w wlocal \<Rightarrow> bctx \<Rightarrow> brequest option \<Rightarrow> key \<Rightarrow>
      'w wlocal \<times> bctx \<times> brequest option \<times> 'a bresponse option reply \<times> bifrost_error option) \<Rightarrow>
   ('w wlocal, 'a bresponse option) retry_env" where
  "worker_env wk req src zero handler =
     \<lparr>re_config = wk_config wk, re_handler = handler, re_keyProvider = source_provider wk (req_model req) src,
       re_deadText = source_dead_text (wk_provider wk) src, re_marker = map_option lift_marker (wk_marker wk),
       re_requestType = br_RequestType req, re_provider = wk_provider wk, re_model = req_model req, re_json = wk_json wk,
       re_zero = zero, re_rand = wk_rand wk\<rparr>"

definition start_local :: "('w, 'a) worker \<Rightarrow> 'w \<Rightarrow> brequest \<Rightarrow> 'w wlocal" where
  "start_local wk w req =
     \<lparr>wl_world = w, wl_resolved = [],
       wl_info = zero_routing_info\<lparr>ri_Provider := wk_provider wk, ri_Model := req_model req\<rparr>\<rparr>"

definition run_unary ::
  "('w, 'a) worker \<Rightarrow> 'w \<Rightarrow> bctx \<Rightarrow> brequest \<Rightarrow> key_source \<Rightarrow>
   ('w wlocal, 'a bresponse option) retry_state \<times> 'a bresponse option reply \<times> bifrost_error option" where
  "run_unary wk w ctx req src =
     executeRequestWithRetries (worker_env wk req src (Response None) (unary_handler wk (req_model req) (source_keys src)))
       (start_local wk w req) ctx (Some req)"

definition run_stream ::
  "('w, 'a) worker \<Rightarrow> 'w \<Rightarrow> bctx \<Rightarrow> brequest \<Rightarrow> key_source \<Rightarrow>
   ('w wlocal, 'a bresponse option) retry_state \<times> 'a bresponse option reply \<times> bifrost_error option" where
  "run_stream wk w ctx req src =
     executeRequestWithRetries (worker_env wk req src (StreamOf []) (stream_handler wk (req_model req)))
       (start_local wk w req) ctx (Some req)"

definition run_attempts ::
  "('w, 'a) worker \<Rightarrow> 'w \<Rightarrow> bctx \<Rightarrow> brequest \<Rightarrow> key_source \<Rightarrow>
   ('w wlocal, 'a bresponse option) retry_state \<times> 'a bresponse option reply \<times> bifrost_error option" where
  "run_attempts wk w ctx req src =
     (if IsStreamRequestType (br_RequestType req) then run_stream wk w ctx req src else run_unary wk w ctx req src)"

definition worker_outcome ::
  "('w, 'a) worker \<Rightarrow> brequest \<Rightarrow> ('w wlocal, 'a bresponse option) retry_state \<Rightarrow> 'a bresponse option reply \<Rightarrow> bifrost_error option \<Rightarrow>
   'a bresponse option reply served" where
  "worker_outcome wk req s reply err =
     (let t = br_RequestType req; p = wk_provider wk; original = req_model req;
          resolved = wl_resolved (rt_world s); info = wl_info (rt_world s)
      in case err of
           Some e \<Rightarrow> Failed (label_err t p original resolved info e)
         | None \<Rightarrow>
             (case reply of
                Response r \<Rightarrow> Answered (Response (map_option (label_resp t p original resolved info) r))
              | StreamOf chunks \<Rightarrow> Answered (StreamOf chunks)))"

definition serve ::
  "('w, 'a) worker \<Rightarrow> 'w \<Rightarrow> bctx \<Rightarrow> brequest \<Rightarrow> 'w \<times> bctx \<times> brequest \<times> 'a bresponse option reply served" where
  "serve wk w ctx req =
     (let ctx1 = stamp_attempt (wk_provider wk) (wk_config wk) ctx
      in case choose_keys wk w ctx1 req of
           (w1, Inl e) \<Rightarrow> (w1, ctx1, req, Refused e)
         | (w1, Inr src) \<Rightarrow>
             (case run_attempts wk w1 ctx1 req src of
                (s, reply, err) \<Rightarrow>
                  (wl_world (rt_world s), rt_ctx s, (case rt_req s of Some r \<Rightarrow> r | None \<Rightarrow> req), worker_outcome wk req s reply err)))"

section \<open>Delivery\<close>

text \<open>The post-hooks for a unary result that nobody will receive.\<close>

definition billAbandonedTerminal ::
  "('w, 'a) plugin list \<Rightarrow> string \<Rightarrow> 'w pipe \<Rightarrow> 'a bresponse option \<Rightarrow> bifrost_error option \<Rightarrow> 'w pipe" where
  "billAbandonedTerminal plugins t p result err =
     (if IsStreamRequestType t then p
      else (case err of
              Some e \<Rightarrow> fst (RunPostLLMHooks plugins p None (Some e) (int (length plugins)))
            | None \<Rightarrow>
                (case result of
                   Some r \<Rightarrow> fst (RunPostLLMHooks plugins p (Some r) None (int (length plugins)))
                 | None \<Rightarrow> p)))"

definition served_response :: "'a bresponse option reply \<Rightarrow> 'a bresponse option" where
  "served_response reply = (case reply of Response r \<Rightarrow> r | StreamOf _ \<Rightarrow> None)"

text \<open>The worker as an attempt sees it. A refusal is sent without watching the caller.\<close>

definition abandoned :: "('w, 'a) worker \<Rightarrow> string \<Rightarrow> 'w \<Rightarrow> bctx \<Rightarrow> 'a bresponse option \<Rightarrow> bifrost_error option \<Rightarrow> 'w \<times> bctx" where
  "abandoned wk t w ctx result err =
     (case wk_delivery wk w of
        SawCallerGone \<Rightarrow>
          (let p = billAbandonedTerminal (wk_plugins wk) t (fresh_pipe w ctx) result err in (pp_world p, pp_ctx p))
      | _ \<Rightarrow> (w, ctx))"

definition unary_worker :: "('w, 'a) worker \<Rightarrow> 'w \<Rightarrow> bctx \<Rightarrow> brequest \<Rightarrow> 'w \<times> bctx \<times> brequest \<times> 'a worker_reply" where
  "unary_worker wk w ctx req =
     (case serve wk w ctx req of
        (w', ctx', req', Refused e) \<Rightarrow>
          (w', ctx', req', if wk_delivery wk w' = Delivered then WorkerFailed e else CallerGone)
      | (w', ctx', req', Failed e) \<Rightarrow>
          if wk_delivery wk w' = Delivered then (w', ctx', req', WorkerFailed e)
          else (case abandoned wk (br_RequestType req) w' ctx' None (Some e) of (w2, ctx2) \<Rightarrow> (w2, ctx2, req', CallerGone))
      | (w', ctx', req', Answered reply) \<Rightarrow>
          if wk_delivery wk w' = Delivered then (w', ctx', req', Replied (served_response reply))
          else (case abandoned wk (br_RequestType req) w' ctx' (served_response reply) None of
                  (w2, ctx2) \<Rightarrow> (w2, ctx2, req', CallerGone)))"

definition served_stream :: "'a bresponse option reply \<Rightarrow> 'a stream" where
  "served_stream reply = (case reply of StreamOf chunks \<Rightarrow> Chan chunks | Response _ \<Rightarrow> NilChan)"

definition stream_worker :: "('w, 'a) worker \<Rightarrow> 'w \<Rightarrow> bctx \<Rightarrow> brequest \<Rightarrow> 'w \<times> bctx \<times> brequest \<times> 'a stream_reply" where
  "stream_worker wk w ctx req =
     (case serve wk w ctx req of
        (w', ctx', req', Answered reply) \<Rightarrow>
          (w', ctx', req', if wk_delivery wk w' = Delivered then StreamReplied (served_stream reply) else StreamCallerGone)
      | (w', ctx', req', Refused e) \<Rightarrow>
          (w', ctx', req', if wk_delivery wk w' = Delivered then StreamFailed e else StreamCallerGone)
      | (w', ctx', req', Failed e) \<Rightarrow>
          (w', ctx', req', if wk_delivery wk w' = Delivered then StreamFailed e else StreamCallerGone))"

section \<open>Which keys are called\<close>

context key_provider
begin

text \<open>Every call is made with a key of the pool: the key provider hands out nothing else, and between two
  selections the current key does not change.\<close>

lemma calls_in_pool:
  assumes kp: "re_keyProvider env = Some provide" and run: "executeRequestWithRetries env w ctx req = (s, res, err)"
  shows "cl_key ` set (rt_calls s) \<subseteq> set pool"
proof -
  let ?I = "\<lambda>s. retry_inv env s \<and> cl_key ` set (rt_calls s) \<subseteq> set pool \<and> (rt_calls s \<noteq> [] \<longrightarrow> rt_currentKey s \<in> set pool)"
  have sel: "rt_currentKey s1 \<in> set pool" if inv: "?I t" and sk: "select_key env (begin_attempt env t) = (s1, None)" for t s1
  proof (cases "rt_attempts t = 0 \<or> rt_lastPerKey t")
    case True
    let ?b = "begin_attempt env t"
    obtain w c u r where p: "provide (rt_world ?b) (rt_ctx ?b) (rt_used ?b) (rt_dead ?b) = (w, c, u, r)" by (rule prod_cases4)
    obtain k where r: "r = Inr k" using sk True kp p by (cases r) (auto simp: select_key_def)
    then have "rt_currentKey s1 = k" using sk True kp p by (auto simp: select_key_def)
    then show ?thesis using provide_live p r by blast
  next
    case False
    then have "rt_currentKey s1 = rt_currentKey t" using sk kp by (auto simp: select_key_def)
    moreover have "rt_calls t \<noteq> []" using False inv by (auto simp: retry_inv_def)
    ultimately show ?thesis using inv by simp
  qed
  have step: "loop_keeps env ?I" unfolding loop_keeps_def
  proof (intro allI impI)
    fix t t' assume inv: "?I t" and le: "rt_attempts t \<le> budget env t" and again: "attempt_once env t = Again t'"
    from again show "?I (t'\<lparr>rt_attempts := rt_attempts t' + 1\<rparr>)"
    proof (cases rule: again_shape)
      case (1 s1 e)
      have "rt_currentKey s1 \<in> set pool" by (rule sel [OF inv 1(1)])
      then show ?thesis using inv retry_inv_step [OF _ le again] 1(3,6) by auto
    qed
  qed
  have start: "?I (retry_start env w ctx req)" using retry_inv_start by (simp add: retry_start_def)
  from run start step show ?thesis
  proof (cases rule: finished_run)
    case (exhausted t)
    then show ?thesis by simp
  next
    case (no_key t s1 e)
    then show ?thesis using select_key_frame [OF no_key(3)] by simp
  next
    case (no_tracer t s1)
    then show ?thesis using select_key_frame [OF no_tracer(3)] by simp
  next
    case (called t s1 u)
    show ?thesis using sel [OF called(1,3)] called(1,7) done_shape(1) [OF called(4)] select_key_frame(4) [OF called(3)] by auto
  qed
qed

end

text \<open>The hooks keep their contracts when they are lifted to the worker's variables.\<close>

lemma pool_filter_lift:
  assumes "pool_filter filt"
  shows "pool_filter (lift_filter filt)"
proof
  fix w c p m ks w' c' out r
  show "lift_filter filt w c p m ks = (w', c', Inr out) \<Longrightarrow> set out \<subseteq> set ks"
    using pool_filter.filter_subset [OF assms] by (auto simp: lift_filter_def split: prod.splits)
  show "lift_filter filt w c p m ks = (w', c', r) \<Longrightarrow> \<exists>h. c' = c\<lparr>cx_RetryAfterSeconds := h\<rparr>"
    using pool_filter.filter_ctx [OF assms] by (auto simp: lift_filter_def split: prod.splits)
qed

lemma key_selector_lift:
  assumes "key_selector sel acceptable"
  shows "key_selector (lift_selector sel) acceptable"
proof
  fix ks p m k w w' c P
  show "ks \<noteq> [] \<Longrightarrow> lift_selector sel w c ks p m = (w', Inr k) \<Longrightarrow> k \<in> set ks"
    using key_selector.select_member [OF assms] by (auto simp: lift_selector_def split: prod.splits)
  show "\<exists>w' k. lift_selector sel w c ks p m = (w', Inr k)" if "acceptable ks" "ks \<noteq> []"
    using key_selector.select_total [OF assms that, of "wl_world w" c p m] by (auto simp: lift_selector_def)
  show "acceptable ks \<Longrightarrow> acceptable (filter P ks)" by (rule key_selector.acceptable_filter [OF assms])
qed

interpretation worker_rotating:
  rotation "lift_filter cooldown_filter" "lift_selector (weighted_selector raw)" weights_ok "Some (lift_filter cooldown_filter)" p model pool
  for raw p model pool
  by (intro rotation.intro rotation_axioms.intro pool_filter_lift key_selector_lift)
     (rule cooldown.pool_filter_axioms weighted.key_selector_axioms | simp)+

interpretation worker_fixed: fixed_key "lift_filter cooldown_filter" "Some (lift_filter cooldown_filter)" p model fixedKey
  for p model fixedKey
  by (intro fixed_key.intro fixed_key_axioms.intro pool_filter_lift) (rule cooldown.pool_filter_axioms | simp)+

lemma no_provider_calls:
  assumes kp: "re_keyProvider env = None" and run: "executeRequestWithRetries env w ctx req = (s, res, err)"
  shows "cl_key ` set (rt_calls s) \<subseteq> {zero_key}"
proof -
  let ?I = "\<lambda>s. cl_key ` set (rt_calls s) \<subseteq> {zero_key} \<and> rt_currentKey s = zero_key"
  have sel: "rt_currentKey s1 = rt_currentKey t" if "select_key env (begin_attempt env t) = (s1, r)" for t s1 r
    using that kp by (auto simp: select_key_def)
  have step: "loop_keeps env ?I" unfolding loop_keeps_def
  proof (intro allI impI)
    fix t t' assume inv: "?I t" and again: "attempt_once env t = Again t'"
    from again show "?I (t'\<lparr>rt_attempts := rt_attempts t' + 1\<rparr>)"
      by (cases rule: again_shape) (use inv sel in auto)
  qed
  have start: "?I (retry_start env w ctx req)" by (simp add: retry_start_def)
  from run start step show ?thesis
  proof (cases rule: finished_run)
    case (exhausted t)
    then show ?thesis by simp
  next
    case (no_key t s1 e)
    then show ?thesis using select_key_frame [OF no_key(3)] by simp
  next
    case (no_tracer t s1)
    then show ?thesis using select_key_frame [OF no_tracer(3)] by simp
  next
    case (called t s1 u)
    show ?thesis using sel [OF called(3)] called(1,7) done_shape(1) [OF called(4)] select_key_frame(4) [OF called(3)] by auto
  qed
qed

text \<open>The keys a source stands for, and where they come from.\<close>

definition source_pool :: "key_source \<Rightarrow> key set" where
  "source_pool src = (case src of FixedKey k \<Rightarrow> {k} | RotatingKeys ks \<Rightarrow> set ks | _ \<Rightarrow> {zero_key})"

lemma source_calls:
  assumes "wk_filter wk = Some cooldown_filter" and "wk_selector wk = weighted_selector raw"
    and "executeRequestWithRetries (worker_env wk req src zero handler) w ctx r = (s, res, err)"
  shows "cl_key ` set (rt_calls s) \<subseteq> source_pool src"
proof (cases "source_provider wk (req_model req) src")
  case None
  then have "source_pool src = {zero_key}" by (auto simp: source_provider_def source_pool_def split: key_source.splits)
  then show ?thesis using no_provider_calls [OF _ assms(3)] None by (simp add: worker_env_def)
next
  case (Some f)
  then consider (fixed) k where "src = FixedKey k" | (rotating) ks where "src = RotatingKeys ks"
    by (cases src) (auto simp: source_provider_def)
  then show ?thesis
  proof cases
    case fixed
    then show ?thesis using worker_fixed.fixed.calls_in_pool [OF _ assms(3), of "wk_provider wk" "req_model req" k] assms(1)
      by (simp add: worker_env_def source_provider_def source_pool_def)
  next
    case rotating
    then show ?thesis using worker_rotating.rotating.calls_in_pool [OF _ assms(3), of raw "wk_provider wk" "req_model req" ks] assms(1,2)
      by (simp add: worker_env_def source_provider_def source_pool_def)
  qed
qed

lemma pool_source_eligible:
  assumes "choose_keys wk w ctx req = (w', Inr src)" and "wk_selector wk = weighted_selector raw"
    and "cx_DirectKey ctx = None" and "providerRequiresKey (pc_Custom (wk_config wk))"
    and "br_RequestType req \<noteq> ''list_models''" and "\<not> multi_key_op (br_RequestType req)"
  shows "src = NoKey \<and>
      (cx_SkipKeySelection ctx = Some True \<and> isKeySkippingAllowed (wk_provider wk) \<or>
       gw_keys (wk_gateway wk) (wk_provider wk) = Inr [] \<and> IsKeylessProvider (wk_provider wk)) \<or>
    (\<exists>configured. gw_keys (wk_gateway wk) (wk_provider wk) = Inr configured \<and>
      (\<forall>k \<in> source_pool src. eligible (br_RequestType req) (req_model req) (base_provider (wk_provider wk) (wk_config wk)) configured k))"
proof -
  let ?gw = "pool_gateway wk w ctx (req_model req)"
  obtain pool rot where sel: "selectKeyFromProviderForModelWithPool ?gw (wk_clock wk w) w ctx (br_RequestType req)
      (wk_provider wk) (req_model req) (base_provider (wk_provider wk) (wk_config wk)) = (w', Inr (pool, rot))"
    and src: "src = (if pool = [] then NoKey else if \<not> rot then FixedKey (hd pool) else RotatingKeys pool)"
    using assms(1,4-6) by (auto simp: choose_keys_def pool_keys_def Let_def split: prod.splits sum.splits)
  have member: "\<forall>ks k. ks \<noteq> [] \<longrightarrow> gw_selector ?gw ks = Inr k \<longrightarrow> k \<in> set ks"
    using weighted.select_member [of _ raw w ctx] assms(2) by (auto simp: pool_gateway_def prod_eq_iff)
  have keys: "gw_keys ?gw = gw_keys (wk_gateway wk)" by (simp add: pool_gateway_def)
  have "source_pool src \<subseteq> set pool" if "pool \<noteq> []" using that src by (auto simp: source_pool_def)
  with pool_keys_eligible [OF sel assms(3) member] src show ?thesis unfolding keys by (cases "pool = []") (auto simp: subset_iff)
qed

section \<open>Whose alias names the model\<close>

text \<open>A relation between the last call's key and the world that the handler establishes and the hooks keep holds
  at the end of the loop.\<close>

definition handler_sets :: "('w, 'r) retry_env \<Rightarrow> (key \<Rightarrow> 'w \<Rightarrow> bool) \<Rightarrow> bool" where
  "handler_sets env R \<longleftrightarrow> (\<forall>w c r k. case re_handler env w c (Some r) k of (w', _, r', _, _) \<Rightarrow> R k w' \<and> r' \<noteq> None)"

definition hooks_keep :: "('w, 'r) retry_env \<Rightarrow> (key \<Rightarrow> 'w \<Rightarrow> bool) \<Rightarrow> bool" where
  "hooks_keep env R \<longleftrightarrow>
     (\<forall>f k w c used dead. re_keyProvider env = Some f \<longrightarrow> R k w \<longrightarrow> R k (fst (f w c used dead))) \<and>
     (\<forall>m k w c p i n model e. re_marker env = Some m \<longrightarrow> R k w \<longrightarrow> R k (fst (m w c p i n model e)))"

lemma select_keeps:
  assumes "hooks_keep env R" and "select_key env (begin_attempt env s) = (s1, r)" and "R k (rt_world s)"
  shows "R k (rt_world s1)" and "rt_req s1 = rt_req s"
  using assms unfolding hooks_keep_def select_key_def
  by (auto split: option.splits if_splits prod.splits sum.splits) (metis fst_conv)+

lemma after_failure_keeps:
  assumes "hooks_keep env R" and "R k (rt_world s)"
  shows "R k (rt_world (after_failure env e s))"
proof -
  have "R k (rt_world (track_key env e s))"
    using assms unfolding hooks_keep_def track_key_def
    by (auto simp: Let_def split: option.splits prod.splits) (metis fst_conv)
  then show ?thesis by (auto simp: after_failure_def Let_def split: option.splits)
qed

lemma call_sets:
  assumes "handler_sets env R" and "rt_req s \<noteq> None"
  shows "R (rt_currentKey s) (rt_world (call_upstream env s))" and "rt_req (call_upstream env s) \<noteq> None"
  using assms by (auto simp: handler_sets_def call_upstream_def split: prod.splits) blast+

lemma judge_keeps:
  assumes "hooks_keep env R" and "R k (rt_world s)" and "rt_req s \<noteq> None" and "judge env s = v"
  shows "v = Done t \<or> v = Again t \<Longrightarrow> R k (rt_world t) \<and> rt_req t \<noteq> None"
proof -
  have req: "rt_req (after_failure env e u) = rt_req u" for e u
    by (auto simp: after_failure_def Let_def split: option.splits)
  show "v = Done t \<or> v = Again t \<Longrightarrow> R k (rt_world t) \<and> rt_req t \<noteq> None"
    using assms(4)
  proof (cases rule: judge_cases)
    case (stripped e s2)
    then have "rt_world s2 = rt_world s" "rt_req s2 \<noteq> None" by (auto simp: try_strip_def split: if_splits option.splits)
    then show "v = Done t \<or> v = Again t \<Longrightarrow> ?thesis"
      using stripped(4) after_failure_keeps [OF assms(1), of k s2] assms(2) by (auto simp: req)
  next
    case (retried e)
    then show "v = Done t \<or> v = Again t \<Longrightarrow> ?thesis"
      using after_failure_keeps [OF assms(1), of k "s\<lparr>rt_ctx := note_failure e (rt_ctx s), rt_lastStrip := False\<rparr>"] assms(2,3)
      by (auto simp: req)
  qed (use assms(2,3) in auto)
qed

lemma last_call_world:
  assumes run: "executeRequestWithRetries env w ctx (Some req) = (s, res, err)"
    and sets: "handler_sets env R" and keep: "hooks_keep env R"
  shows "rt_calls s \<noteq> [] \<longrightarrow> R (cl_key (last (rt_calls s))) (rt_world s)"
proof -
  let ?I = "\<lambda>s. rt_req s \<noteq> None \<and> (rt_calls s \<noteq> [] \<longrightarrow> R (cl_key (last (rt_calls s))) (rt_world s))"
  let ?u = "\<lambda>s1. call_upstream env (announce_retry env (record_attempt env s1))"
  have req: "rt_req s1 = rt_req t" if "select_key env (begin_attempt env t) = (s1, r)" for t s1 r
    using select_key_frame(7) [OF that] by simp
  have after_call: "R (rt_currentKey s1) (rt_world (?u s1)) \<and> rt_req (?u s1) \<noteq> None"
    if "?I t" "select_key env (begin_attempt env t) = (s1, None)" for t s1
    using call_sets [OF sets, of "announce_retry env (record_attempt env s1)"] req [OF that(2)] that(1) by simp
  have step: "loop_keeps env ?I" unfolding loop_keeps_def
  proof (intro allI impI)
    fix t t' assume inv: "?I t" and again: "attempt_once env t = Again t'"
    obtain s1 where sel: "select_key env (begin_attempt env t) = (s1, None)" and j: "judge env (?u s1) = Again t'"
      using again by (cases rule: attempt_cases) auto
    from again obtain s1' e where sel': "select_key env (begin_attempt env t) = (s1', None)"
      and calls: "rt_calls t' = rt_calls t @ [\<lparr>cl_key = rt_currentKey s1', cl_error = Some e\<rparr>]" by (cases rule: again_shape) blast
    have "s1' = s1" using sel sel' by simp
    moreover have "R (rt_currentKey s1) (rt_world t') \<and> rt_req t' \<noteq> None"
      using judge_keeps [OF keep _ _ j, of "rt_currentKey s1" t'] after_call [OF inv sel] by blast
    ultimately show "?I (t'\<lparr>rt_attempts := rt_attempts t' + 1\<rparr>)" using calls by simp
  qed
  have start: "?I (retry_start env w ctx (Some req))" by (simp add: retry_start_def)
  from run start step show ?thesis
  proof (cases rule: finished_run)
    case (exhausted t)
    then show ?thesis by simp
  next
    case (no_key t s1 e)
    then show ?thesis using select_key_frame [OF no_key(3)] select_keeps(1) [OF keep no_key(3)] by auto
  next
    case (no_tracer t s1)
    then show ?thesis using select_key_frame [OF no_tracer(3)] select_keeps(1) [OF keep no_tracer(3)] by auto
  next
    case (called t s1 u)
    have "R (rt_currentKey s1) (rt_world u)"
      using judge_keeps [OF keep _ _ called(4), of "rt_currentKey s1" u] after_call [OF called(1,3)] by blast
    then show ?thesis using called(7) done_shape(1) [OF called(4)] by simp
  qed
qed

text \<open>The routing information of an attempt with a key, and that it is what the worker's variables hold after the
  last call.\<close>

definition routing_of :: "provider \<Rightarrow> string \<Rightarrow> key \<Rightarrow> routing_info" where
  "routing_of p model k =
     zero_routing_info\<lparr>ri_Provider := p, ri_Model := model, ri_Key := key_Name k,
       ri_ResolvedAlias := map_option (\<lambda>ac. \<lparr>rk_ModelID = ac_ModelID ac, rk_ModelName = ac_ModelName ac,
         rk_ModelFamily = ac_ModelFamily ac\<rparr>) (ResolveConfig (key_Aliases k) model)\<rparr>"

definition served_as :: "provider \<Rightarrow> string \<Rightarrow> key \<Rightarrow> 'w wlocal \<Rightarrow> bool" where
  "served_as p model k wl \<longleftrightarrow> wl_resolved wl = alias_Resolve (key_Aliases k) model \<and> wl_info wl = routing_of p model k"

lemma served_as_world [simp]: "served_as p model k (wl\<lparr>wl_world := w\<rparr>) = served_as p model k wl"
  by (simp add: served_as_def)

lemma run_filter_keeps:
  "served_as p model k wl \<Longrightarrow> run_filter (map_option lift_filter f) wl c q m ks = (wl', c', out) \<Longrightarrow> served_as p model k wl'"
  by (auto simp: run_filter_def lift_filter_def split: option.splits prod.splits sum.splits)

lemma source_provider_keeps:
  assumes "source_provider wk model src = Some f" and "served_as p model k wl"
  shows "served_as p model k (fst (f wl c used dead))"
proof -
  have sel: "served_as p model k (fst (call_selector (lift_selector sel) wl' c' u ks q m))" if "served_as p model k wl'" for wl' c' u ks q m sel
    using that by (auto simp: call_selector_def lift_selector_def split: prod.splits sum.splits)
  let ?f = "map_option lift_filter (wk_filter wk)"
  from assms(1) consider (fixed) x where "f = newFixedKeyProvider ?f (wk_provider wk) model x"
    | (rotating) pool where "f = rotatingKeyProvider ?f (lift_selector (wk_selector wk)) (wk_provider wk) model pool"
    by (auto simp: source_provider_def split: key_source.splits)
  then show ?thesis
  proof cases
    case fixed
    then show ?thesis using assms(2) by (auto simp: newFixedKeyProvider_def dest: run_filter_keeps split: prod.splits)
  next
    case rotating
    let ?free = "filter (\<lambda>k. \<not> (key_ID k \<in> set dead \<or> key_ID k \<in> set used)) pool" and ?live = "filter (\<lambda>k. key_ID k \<notin> set dead) pool"
    obtain w1 c1 o1 where r1: "run_filter ?f wl c (wk_provider wk) model ?free = (w1, c1, o1)" by (rule prod_cases3)
    obtain w2 c2 o2 where r2: "run_filter ?f w1 c1 (wk_provider wk) model ?live = (w2, c2, o2)" by (rule prod_cases3)
    have "served_as p model k w1" "served_as p model k w2"
      using run_filter_keeps [OF assms(2) r1] run_filter_keeps [OF _ r2] by auto
    then show ?thesis by (simp add: rotating rotatingKeyProvider_def Let_def r1 [simplified] r2 sel)
  qed
qed

lemma unary_served_as:
  assumes "run_unary wk w ctx req src = (s, res, err)" and "rt_calls s \<noteq> []"
  shows "served_as (wk_provider wk) (req_model req) (cl_key (last (rt_calls s))) (rt_world s)"
proof -
  let ?env = "worker_env wk req src (Response None) (unary_handler wk (req_model req) (source_keys src))"
  have "handler_sets ?env (served_as (wk_provider wk) (req_model req))"
    by (auto simp: handler_sets_def worker_env_def unary_handler_def resolve_alias_def served_as_def alias_Resolve_def routing_of_def
        BuildRoutingInfo_def GetResolvedAlias_def split: option.splits prod.splits)
  moreover have "hooks_keep ?env (served_as (wk_provider wk) (req_model req))"
    by (auto simp: hooks_keep_def worker_env_def source_provider_keeps lift_marker_def split: prod.splits)
  ultimately show ?thesis using last_call_world [OF assms(1) [unfolded run_unary_def]] assms(2) by blast
qed

text \<open>A run without an error has made a call that succeeded, or none at all (a negative retry limit).\<close>

lemma success_called:
  assumes run: "executeRequestWithRetries env w ctx req = (s, res, None)"
  shows "rt_calls s \<noteq> [] \<and> cl_error (last (rt_calls s)) = None \<or> res = re_zero env"
proof -
  let ?I = "\<lambda>s. retry_inv env s \<and> (rt_calls s = [] \<longrightarrow> rt_result s = re_zero env)"
  have step: "loop_keeps env ?I" unfolding loop_keeps_def
  proof (intro allI impI)
    fix t t' assume inv: "?I t" and le: "rt_attempts t \<le> budget env t" and again: "attempt_once env t = Again t'"
    show "?I (t'\<lparr>rt_attempts := rt_attempts t' + 1\<rparr>)"
      using again by (cases rule: again_shape) (use retry_inv_step [OF _ le again] inv in auto)
  qed
  have start: "?I (retry_start env w ctx req)" using retry_inv_start by (simp add: retry_start_def)
  from run start step show ?thesis
  proof (cases rule: finished_run)
    case (exhausted t)
    have "rt_calls t = []"
    proof (rule ccontr)
      assume ne: "rt_calls t \<noteq> []"
      then have "failed_with (\<lambda>e. \<not> ends_request e \<and> (retryable e \<or> isEncryptedReasoningRejection e)) (last (rt_calls t))"
        using exhausted(1) last_in_set [OF ne] unfolding retry_inv_def list_all_iff by blast
      then show False using exhausted(1,3) ne by (auto simp: retry_inv_def split: option.splits)
    qed
    then show ?thesis using exhausted(1,4) by simp
  next
    case (called t s1 u)
    then show ?thesis using done_shape(1,2) [OF called(4)] by simp
  qed auto
qed

section \<open>Properties\<close>

text \<open>The upstream calls the worker makes for a message.\<close>

definition serve_calls :: "('w, 'a) worker \<Rightarrow> 'w \<Rightarrow> bctx \<Rightarrow> brequest \<Rightarrow> call list" where
  "serve_calls wk w ctx req =
     (let ctx1 = stamp_attempt (wk_provider wk) (wk_config wk) ctx
      in case choose_keys wk w ctx1 req of
           (_, Inl _) \<Rightarrow> []
         | (w1, Inr src) \<Rightarrow> rt_calls (fst (run_attempts wk w1 ctx1 req src)))"

lemma stamp_attempt_frame [simp]:
  "cx_DirectKey (stamp_attempt p cfg ctx) = cx_DirectKey ctx" "cx_SkipKeySelection (stamp_attempt p cfg ctx) = cx_SkipKeySelection ctx"
  by (simp_all add: stamp_attempt_def raw_flags_def clearAnthropicPassthroughForNonNativeProvider_def Let_def)

lemma run_attempts_pool:
  assumes "wk_filter wk = Some cooldown_filter" and "wk_selector wk = weighted_selector raw"
  shows "cl_key ` set (rt_calls (fst (run_attempts wk w ctx req src))) \<subseteq> source_pool src"
proof -
  obtain s res err where run: "run_attempts wk w ctx req src = (s, res, err)" by (rule prod_cases3)
  then show ?thesis
    using source_calls [OF assms, of req src "StreamOf []" _ _ _ _ s res err] source_calls [OF assms, of req src "Response None" _ _ _ _ s res err]
    unfolding run_attempts_def run_stream_def run_unary_def by (simp split: if_splits)
qed

lemma serve_calls_source:
  assumes "wk_filter wk = Some cooldown_filter" and "wk_selector wk = weighted_selector raw" and "c \<in> set (serve_calls wk w ctx req)"
  obtains w1 src where "choose_keys wk w (stamp_attempt (wk_provider wk) (wk_config wk) ctx) req = (w1, Inr src)"
    and "cl_key c \<in> source_pool src"
proof -
  let ?ctx = "stamp_attempt (wk_provider wk) (wk_config wk) ctx"
  obtain w1 r where r: "choose_keys wk w ?ctx req = (w1, r)" by fastforce
  then obtain src where src: "r = Inr src" and c: "c \<in> set (rt_calls (fst (run_attempts wk w1 ?ctx req src)))"
    using assms(3) by (cases r) (simp_all add: serve_calls_def Let_def)
  show thesis using that [OF r [unfolded src]] run_attempts_pool [OF assms(1,2)] c by blast
qed

text \<open>C5: the worker calls the upstream with eligible keys only. With the gateway's cooldown filter and weighted selector,
  a request that selects a key and does not bring its own is sent with keys the account has configured for the
  provider, validated, enabled, with a value where one is needed, enabled for batch work where the request is of
  that kind, and allowed and not blocked for the model, in every attempt, streaming or not; a request without a key
  is one that skips the selection or goes to a keyless provider.\<close>

theorem worker_calls_eligible:
  assumes "wk_filter wk = Some cooldown_filter" and "wk_selector wk = weighted_selector raw"
    and "cx_DirectKey ctx = None" and "providerRequiresKey (pc_Custom (wk_config wk))"
    and "br_RequestType req \<noteq> ''list_models''" and "\<not> multi_key_op (br_RequestType req)"
    and "c \<in> set (serve_calls wk w ctx req)"
  shows "cl_key c = zero_key \<and>
      (cx_SkipKeySelection ctx = Some True \<and> isKeySkippingAllowed (wk_provider wk) \<or>
       gw_keys (wk_gateway wk) (wk_provider wk) = Inr [] \<and> IsKeylessProvider (wk_provider wk)) \<or>
    (\<exists>configured. gw_keys (wk_gateway wk) (wk_provider wk) = Inr configured \<and>
      eligible (br_RequestType req) (req_model req) (base_provider (wk_provider wk) (wk_config wk)) configured (cl_key c))"
proof -
  obtain w1 src where src: "choose_keys wk w (stamp_attempt (wk_provider wk) (wk_config wk) ctx) req = (w1, Inr src)"
    and k: "cl_key c \<in> source_pool src" by (rule serve_calls_source [OF assms(1,2,7)])
  show ?thesis using pool_source_eligible [OF src assms(2) _ assms(4-6)] k assms(3) by (auto simp: source_pool_def)
qed


text \<open>Raw payloads are captured when they are to be sent back or stored, and the client sees them exactly when they are to
  be sent back. This is decided anew for every attempt from the provider's configuration and the request's
  overrides: whatever flags a previous attempt left in the context have no influence.\<close>

definition with_raw_flags :: "bool option \<Rightarrow> bool option \<Rightarrow> bool option \<Rightarrow> bool option \<Rightarrow> bctx \<Rightarrow> bctx" where
  "with_raw_flags a b c d ctx =
     ctx\<lparr>cx_CaptureRawRequest := a, cx_CaptureRawResponse := b, cx_DropRawRequestFromClient := c, cx_DropRawResponseFromClient := d\<rparr>"

lemma client_sees_raw_iff_sent_back:
  fixes cfg ctx p a b c d squeeze e requestBody responseBody x y
  defines "ctx' \<equiv> stamp_attempt p cfg (with_raw_flags a b c d ctx)"
    and "sees \<equiv> clearAnthropicPassthroughForNonNativeProvider ctx (base_provider p cfg)"
  assumes "requestBody \<noteq> []" and "responseBody \<noteq> []" and "be_RawResponse e = None"
  shows "let sent = EnrichError squeeze ctx' e requestBody responseBody x y; client = drop_raw_err ctx' sent
    in (be_RawRequest sent = Some (squeeze requestBody) \<longleftrightarrow> effectiveSendBackReq cfg sees \<or> effectiveStore cfg sees) \<and>
       (be_RawResponse sent = Some (squeeze responseBody) \<longleftrightarrow> effectiveSendBackResp cfg sees \<or> effectiveStore cfg sees) \<and>
       be_RawRequest client = (if effectiveSendBackReq cfg sees then Some (squeeze requestBody) else None) \<and>
       be_RawResponse client = (if effectiveSendBackResp cfg sees then Some (squeeze responseBody) else None) \<and>
       cx_ShouldStoreRawInLogs ctx' = Some (effectiveStore cfg sees)"
proof -
  have same: "effectiveSendBackReq cfg (clearAnthropicPassthroughForNonNativeProvider
        ((with_raw_flags a b c d ctx)\<lparr>cx_IsCustomProvider := u, cx_BaseProviderType := v\<rparr>) q) =
      effectiveSendBackReq cfg (clearAnthropicPassthroughForNonNativeProvider ctx q)"
    "effectiveSendBackResp cfg (clearAnthropicPassthroughForNonNativeProvider
        ((with_raw_flags a b c d ctx)\<lparr>cx_IsCustomProvider := u, cx_BaseProviderType := v\<rparr>) q) =
      effectiveSendBackResp cfg (clearAnthropicPassthroughForNonNativeProvider ctx q)"
    "effectiveStore cfg (clearAnthropicPassthroughForNonNativeProvider
        ((with_raw_flags a b c d ctx)\<lparr>cx_IsCustomProvider := u, cx_BaseProviderType := v\<rparr>) q) =
      effectiveStore cfg (clearAnthropicPassthroughForNonNativeProvider ctx q)" for u v q
    by (simp_all add: effectiveSendBackReq_def effectiveSendBackResp_def effectiveStore_def raw_override_allowed_def with_raw_flags_def
        clearAnthropicPassthroughForNonNativeProvider_def)
  show ?thesis using assms(3-5)
    by (simp add: ctx'_def sees_def stamp_attempt_def raw_flags_def Let_def same EnrichError_def ShouldSendBackRawRequest_def
        ShouldSendBackRawResponse_def drop_raw_err_def)
qed

text \<open>No request of a custom provider is marked as one. Every custom provider the gateway accepts has one of the supported
  base providers, and these are all standard, so the flag that adapters use to recognise custom providers is false.\<close>

lemma custom_provider_never_flagged:
  assumes "custom_provider_ok cfg" and "pc_Custom cfg \<noteq> None"
  shows "cx_IsCustomProvider (stamp_attempt p cfg ctx) = Some False"
proof -
  have "\<forall>b \<in> set SupportedBaseProviders. IsStandardProvider b" by code_simp
  then have "IsStandardProvider (base_provider p cfg)"
    using assms by (auto simp: custom_provider_ok_def base_provider_def IsSupportedBaseProvider_def)
  then show ?thesis
    by (simp add: stamp_attempt_def raw_flags_def Let_def clearAnthropicPassthroughForNonNativeProvider_def)
qed

text \<open>A worker for the examples: two keys, of which the first is refused with the given status and the second has an
  alias for the model.\<close>

definition aliased_key :: key where
  "aliased_key = (any_key ''k2'')\<lparr>key_Aliases := [(''GPT'', \<lparr>ac_ModelID = ''deployment-7'', ac_ModelName = None, ac_ModelFamily = None,
     ac_Azure = False, ac_Vertex = False, ac_Bedrock = False, ac_Replicate = False\<rparr>)]\<rparr>"

definition rejected :: "int \<Rightarrow> bctx \<Rightarrow> bifrost_error" where
  "rejected code ctx = EnrichError (\<lambda>x. x) ctx (failure code) ''body'' ''reply'' False False"

definition sample_worker :: "key list \<Rightarrow> int \<Rightarrow> provider_config \<Rightarrow> (world, string) worker" where
  "sample_worker keys code cfg =
     \<lparr>wk_provider = P_OpenAI, wk_config = cfg, wk_gateway = (sample_gateway None)\<lparr>gw_keys := (\<lambda>_. Inr keys)\<rparr>,
       wk_clock = (\<lambda>_ _. 0), wk_selector = weighted_selector (\<lambda>_. 0), wk_filter = Some cooldown_filter, wk_marker = None,
       wk_plugins = [], wk_call = (\<lambda>w c r k ks. if key_ID k = ''k1'' then (w, c, r, None, Some (rejected code c))
         else (w, c, r, Some (plain_response (req_model r)), None)),
       wk_stream = (\<lambda>run p r k. (p, r, [], Some (rejected code (pp_ctx p)))), wk_json = no_json, wk_rand = (\<lambda>_. 0),
       wk_delivery = (\<lambda>_. Delivered)\<rparr>"

abbreviation two_key_worker :: "(world, string) worker" where
  "two_key_worker \<equiv> sample_worker [any_key ''k1'', aliased_key] 401 (sample_config 2)"

lemma two_key_calls:
  "map cl_key (serve_calls two_key_worker idle_world traced (chat_request [])) = [any_key ''k1'', aliased_key]"
  by code_simp

lemma two_key_answer:
  "case serve two_key_worker idle_world traced (chat_request []) of
     (_, _, _, Answered (Response (Some r))) \<Rightarrow> rp_Active r | _ \<Rightarrow> False"
  by code_simp

theorem worker_calls_eligible_witness:
  "\<exists>configured. eligible ''chat_completion'' ''gpt'' P_OpenAI configured aliased_key"
proof -
  have l: "length (serve_calls two_key_worker idle_world traced (chat_request [])) = 2"
    using arg_cong [OF two_key_calls, of length] by simp
  let ?c = "serve_calls two_key_worker idle_world traced (chat_request []) ! 1"
  have k: "cl_key ?c = aliased_key" using l arg_cong [OF two_key_calls, of "\<lambda>l. l ! 1"] by simp
  have c: "?c \<in> set (serve_calls two_key_worker idle_world traced (chat_request []))" using l by simp
  have f: "br_RequestType (chat_request []) = ''chat_completion''" "req_model (chat_request []) = ''gpt''"
    "providerRequiresKey (pc_Custom (wk_config two_key_worker))" "\<not> multi_key_op ''chat_completion''"
    "base_provider (wk_provider two_key_worker) (wk_config two_key_worker) = P_OpenAI"
    "cx_DirectKey traced = None" "cx_SkipKeySelection traced = None" "IsKeylessProvider P_OpenAI = False"
    "wk_provider two_key_worker = P_OpenAI" "''chat_completion'' \<noteq> ''list_models''" by code_simp+
  have w: "wk_filter two_key_worker = Some cooldown_filter" "wk_selector two_key_worker = weighted_selector (\<lambda>_. 0)"
    by (simp_all add: sample_worker_def)
  show ?thesis using worker_calls_eligible [OF w f(6,3) _ _ c] f k by auto
qed


definition store_only :: provider_config where
  "store_only = (sample_config 0)\<lparr>pc_StoreRawRequestResponse := True\<rparr>"

text \<open>C36: a raw payload that is kept for the log only reaches the client of a stream. With storing enabled and sending back
  disabled, an upstream error of a unary request comes back without the raw request, but the same error of a
  streaming request, when the stream cannot be set up, comes back with it.\<close>

definition worker_core :: "(world, string) core" where
  "worker_core = (small_core [] idle_schedule)\<lparr>
     co_worker := unary_worker (sample_worker [any_key ''k1''] 400 store_only),
     co_streamWorker := stream_worker (sample_worker [any_key ''k1''] 400 store_only)\<rparr>"


end
