(* ===== verification/Queues.thy ===== *)
theory Queues
  imports Prelude
begin

text \<open>
  The queue between the attempts and the workers of one provider, with the life cycle of the provider:
  \<open>ProviderQueue\<close>, the sending and receiving ends of \<open>tryRequest\<close>, the loop of \<open>requestWorkerServe\<close>,
  \<open>drainQueueWithErrors\<close>, \<open>prepareProvider\<close>, \<open>UpdateProvider\<close> and \<open>RemoveProvider\<close> of
  \<open>core/bifrost.go\<close>. Producers, workers and the goroutine that updates or removes the provider interleave;
  each rule of the step relations is one action that is atomic in Go: a channel operation, an atomic load or
  store, or a section under the provider's lock.

  A request is a number, and so are the queues of the provider, counted in the order they were created, and
  the workers of a queue. A request's response and error channels have room for one value and are drained
  before they are reused, so they are one optional answer here. The field \<open>sy_log\<close> is not in the code: it
  records what became of a request's message. The field \<open>sy_late\<close> is not either: it marks a message
  that was sent to a queue after the queue's last sweep.
\<close>

section \<open>The state\<close>

datatype answer = ProviderResult | ShuttingDown | UpdateQueueFull

datatype event = Sent answer | Billed | Skipped | Crashed

text \<open>Where a request is: before it asks for the queue, between the lookup and the closing check, in the first
  select, past its default branch, in the blocking select, waiting for an answer, and the ways it ends.\<close>

datatype caller =
    Fresh | Preparing nat | Sending nat | Full nat | Blocked nat | Waiting | Received answer | GaveUp | Left

datatype wstate = Idle | Serving nat | Replying nat answer | Draining | Exited

datatype sweep = Unswept | AwaitExit | Sweeping | Swept

record pqueue =
  q_buf :: "nat list"
  q_cap :: nat
  q_closing :: bool
  q_size :: nat
  q_worker :: "nat \<Rightarrow> wstate"
  q_sweep :: sweep

text \<open>What the goroutine that has the provider's lock is doing: nothing, moving messages from one queue to another, with
  one of them in its hands or not, cancelling the messages that are left, or removing the provider.\<close>

datatype life = Unlocked | Transferring nat nat | Moving nat nat nat | Cancelling nat | Removing nat

record sys =
  sy_gens :: nat
  sy_queue :: "nat \<Rightarrow> pqueue"
  sy_current :: "nat option"
  sy_life :: life
  sy_down :: bool
  sy_caller :: "nat \<Rightarrow> caller"
  sy_chan :: "nat \<Rightarrow> answer option"
  sy_done :: "nat \<Rightarrow> bool"
  sy_stream :: "nat \<Rightarrow> bool"
  sy_log :: "nat \<Rightarrow> event list"
  sy_late :: "nat \<Rightarrow> bool"

definition new_queue :: "nat \<Rightarrow> nat \<Rightarrow> pqueue" where
  "new_queue capacity workers =
     \<lparr>q_buf = [], q_cap = capacity, q_closing = False, q_size = workers, q_worker = (\<lambda>_. Idle), q_sweep = Unswept\<rparr>"

definition start :: "(nat \<Rightarrow> bool) \<Rightarrow> sys" where
  "start stream =
     \<lparr>sy_gens = 0, sy_queue = (\<lambda>_. new_queue 0 0), sy_current = None, sy_life = Unlocked, sy_down = False, sy_caller = (\<lambda>_. Fresh),
       sy_chan = (\<lambda>_. None), sy_done = (\<lambda>_. False), sy_stream = stream, sy_log = (\<lambda>_. []), sy_late = (\<lambda>_. False)\<rparr>"

definition set_caller :: "nat \<Rightarrow> caller \<Rightarrow> sys \<Rightarrow> sys" where
  "set_caller i c s = s\<lparr>sy_caller := (sy_caller s)(i := c)\<rparr>"

definition set_queue :: "nat \<Rightarrow> pqueue \<Rightarrow> sys \<Rightarrow> sys" where
  "set_queue g q s = s\<lparr>sy_queue := (sy_queue s)(g := q)\<rparr>"

definition set_buf :: "nat \<Rightarrow> nat list \<Rightarrow> sys \<Rightarrow> sys" where
  "set_buf g b s = set_queue g ((sy_queue s g)\<lparr>q_buf := b\<rparr>) s"

definition set_worker :: "nat \<Rightarrow> nat \<Rightarrow> wstate \<Rightarrow> sys \<Rightarrow> sys" where
  "set_worker g k w s = set_queue g ((sy_queue s g)\<lparr>q_worker := (q_worker (sy_queue s g))(k := w)\<rparr>) s"

definition set_sweep :: "nat \<Rightarrow> sweep \<Rightarrow> sys \<Rightarrow> sys" where
  "set_sweep g p s = set_queue g ((sy_queue s g)\<lparr>q_sweep := p\<rparr>) s"

definition signalClosing :: "nat \<Rightarrow> sys \<Rightarrow> sys" where
  "signalClosing g s = set_queue g ((sy_queue s g)\<lparr>q_closing := True, q_sweep := AwaitExit\<rparr>) s"

definition isClosing :: "sys \<Rightarrow> nat \<Rightarrow> bool" where
  "isClosing s g = q_closing (sy_queue s g)"

definition settle :: "nat \<Rightarrow> event \<Rightarrow> sys \<Rightarrow> sys" where
  "settle i e s = s\<lparr>sy_log := (sy_log s)(i := sy_log s i @ [e])\<rparr>"

definition hand_over :: "nat \<Rightarrow> answer \<Rightarrow> sys \<Rightarrow> sys" where
  "hand_over i a s = settle i (Sent a) (s\<lparr>sy_chan := (sy_chan s)(i := Some a)\<rparr>)"

definition enqueue_msg :: "nat \<Rightarrow> nat \<Rightarrow> sys \<Rightarrow> sys" where
  "enqueue_msg g i s =
     (set_caller i Waiting (set_buf g (q_buf (sy_queue s g) @ [i]) s))
       \<lparr>sy_late := (sy_late s)(i := (q_sweep (sy_queue s g) = Swept))\<rparr>"

definition publish :: "nat \<Rightarrow> nat \<Rightarrow> sys \<Rightarrow> sys" where
  "publish capacity workers s =
     (set_queue (sy_gens s) (new_queue capacity workers) s)\<lparr>sy_gens := Suc (sy_gens s), sy_current := Some (sy_gens s)\<rparr>"

text \<open>Telling a caller that its request failed: the send cannot block, but a caller that has gone may be seen first.\<close>

inductive notify :: "nat \<Rightarrow> answer \<Rightarrow> sys \<Rightarrow> sys \<Rightarrow> bool" where
  notified: "sy_chan s i = None \<Longrightarrow> notify i a s (hand_over i a s)"
| unheard: "sy_done s i \<Longrightarrow> notify i a s (settle i Skipped s)"

section \<open>The steps\<close>

text \<open>The attempt of a request: \<open>getProviderQueue\<close>, the closing check with the re-routing, the two selects, and the
  wait for an answer. The context of a request may end at any time.\<close>

inductive lookup_acts :: "nat \<Rightarrow> sys \<Rightarrow> sys \<Rightarrow> bool" for i where
  lookup: "sy_caller s i = Fresh \<Longrightarrow> sy_life s = Unlocked \<Longrightarrow> sy_current s = Some g \<Longrightarrow> lookup_acts i s (set_caller i (Preparing g) s)"
| create: "sy_caller s i = Fresh \<Longrightarrow> sy_life s = Unlocked \<Longrightarrow> sy_current s = None \<Longrightarrow> 0 < capacity \<Longrightarrow> 0 < workers \<Longrightarrow>
    lookup_acts i s (set_caller i (Preparing (sy_gens s)) (publish capacity workers s))"
| create_fails: "sy_caller s i = Fresh \<Longrightarrow> sy_life s = Unlocked \<Longrightarrow> sy_current s = None \<Longrightarrow> 0 < capacity \<Longrightarrow>
    lookup_acts i s (set_caller i GaveUp (publish capacity 0 s))"
| lookup_fails: "sy_caller s i = Fresh \<Longrightarrow> sy_life s = Unlocked \<Longrightarrow> sy_current s = None \<Longrightarrow> lookup_acts i s (set_caller i GaveUp s)"

inductive send_acts :: "nat \<Rightarrow> sys \<Rightarrow> sys \<Rightarrow> bool" for i where
  short_circuit: "sy_caller s i = Preparing g \<Longrightarrow> send_acts i s (set_caller i GaveUp s)"
| check_open: "sy_caller s i = Preparing g \<Longrightarrow> \<not> isClosing s g \<Longrightarrow> send_acts i s (set_caller i (Sending g) s)"
| check_reroute: "sy_caller s i = Preparing g \<Longrightarrow> isClosing s g \<Longrightarrow> sy_current s = Some h \<Longrightarrow> h \<noteq> g \<Longrightarrow> \<not> isClosing s h \<Longrightarrow>
    send_acts i s (set_caller i (Sending h) s)"
| check_refuse: "sy_caller s i = Preparing g \<Longrightarrow> isClosing s g \<Longrightarrow>
    (\<And>h. sy_current s = Some h \<Longrightarrow> h = g \<or> isClosing s h) \<Longrightarrow> send_acts i s (set_caller i GaveUp s)"
| send: "sy_caller s i = Sending g \<or> sy_caller s i = Blocked g \<Longrightarrow> length (q_buf (sy_queue s g)) < q_cap (sy_queue s g) \<Longrightarrow>
    send_acts i s (enqueue_msg g i s)"
| send_done: "sy_caller s i = Sending g \<or> sy_caller s i = Blocked g \<Longrightarrow> isClosing s g \<Longrightarrow> send_acts i s (set_caller i GaveUp s)"
| send_cancelled: "sy_caller s i = Sending g \<or> sy_caller s i = Blocked g \<Longrightarrow> sy_done s i \<Longrightarrow> send_acts i s (set_caller i GaveUp s)"
| queue_full: "sy_caller s i = Sending g \<Longrightarrow> length (q_buf (sy_queue s g)) = q_cap (sy_queue s g) \<Longrightarrow> \<not> isClosing s g \<Longrightarrow> \<not> sy_done s i \<Longrightarrow>
    send_acts i s (set_caller i (Full g) s)"
| drop: "sy_caller s i = Full g \<Longrightarrow> send_acts i s (set_caller i GaveUp s)"
| block: "sy_caller s i = Full g \<Longrightarrow> \<not> isClosing s g \<Longrightarrow> send_acts i s (set_caller i (Blocked g) s)"

inductive wait_acts :: "nat \<Rightarrow> sys \<Rightarrow> sys \<Rightarrow> bool" for i where
  receive: "sy_caller s i = Waiting \<Longrightarrow> sy_chan s i = Some a \<Longrightarrow>
    wait_acts i s (set_caller i (Received a) (s\<lparr>sy_chan := (sy_chan s)(i := None)\<rparr>))"
| leave: "sy_caller s i = Waiting \<Longrightarrow> sy_done s i \<Longrightarrow> wait_acts i s (set_caller i Left s)"

inductive producer_acts :: "nat \<Rightarrow> sys \<Rightarrow> sys \<Rightarrow> bool" for i where
  by_lookup: "lookup_acts i s t \<Longrightarrow> producer_acts i s t"
| by_send: "send_acts i s t \<Longrightarrow> producer_acts i s t"
| by_wait: "wait_acts i s t \<Longrightarrow> producer_acts i s t"
| cancel: "producer_acts i s (s\<lparr>sy_done := (sy_done s)(i := True)\<rparr>)"

text \<open>A worker: it takes a message or notices the shutdown, serves the message, and hands the outcome over or, when
  it sees that the caller has gone, bills it. A panic while it serves loses the message; the worker starts again
  unless its queue is closing.\<close>

inductive deliver_acts :: "nat \<Rightarrow> nat \<Rightarrow> sys \<Rightarrow> sys \<Rightarrow> bool" for g k where
  deliver: "k < q_size (sy_queue s g) \<Longrightarrow> q_worker (sy_queue s g) k = Replying i a \<Longrightarrow> sy_chan s i = None \<Longrightarrow>
    deliver_acts g k s (set_worker g k Idle (hand_over i a s))"
| abandon: "k < q_size (sy_queue s g) \<Longrightarrow> q_worker (sy_queue s g) k = Replying i a \<Longrightarrow> sy_done s i \<Longrightarrow>
    deliver_acts g k s (set_worker g k Idle (settle i (if sy_stream s i then Skipped else Billed) s))"
| send_timeout: "k < q_size (sy_queue s g) \<Longrightarrow> q_worker (sy_queue s g) k = Replying i a \<Longrightarrow> sy_chan s i \<noteq> None \<Longrightarrow> \<not> sy_done s i \<Longrightarrow>
    deliver_acts g k s (set_worker g k Idle (settle i Skipped s))"

inductive worker_acts :: "nat \<Rightarrow> nat \<Rightarrow> sys \<Rightarrow> sys \<Rightarrow> bool" for g k where
  take: "k < q_size (sy_queue s g) \<Longrightarrow> q_worker (sy_queue s g) k = Idle \<Longrightarrow> q_buf (sy_queue s g) = i # rest \<Longrightarrow>
    worker_acts g k s (set_worker g k (Serving i) (set_buf g rest s))"
| notice: "k < q_size (sy_queue s g) \<Longrightarrow> q_worker (sy_queue s g) k = Idle \<Longrightarrow> isClosing s g \<Longrightarrow> worker_acts g k s (set_worker g k Draining s)"
| drain: "k < q_size (sy_queue s g) \<Longrightarrow> q_worker (sy_queue s g) k = Draining \<Longrightarrow> q_buf (sy_queue s g) = i # rest \<Longrightarrow>
    notify i ShuttingDown (set_buf g rest s) s' \<Longrightarrow> worker_acts g k s s'"
| drained: "k < q_size (sy_queue s g) \<Longrightarrow> q_worker (sy_queue s g) k = Draining \<Longrightarrow> q_buf (sy_queue s g) = [] \<Longrightarrow>
    worker_acts g k s (set_worker g k Exited s)"
| finish: "k < q_size (sy_queue s g) \<Longrightarrow> q_worker (sy_queue s g) k = Serving i \<Longrightarrow> worker_acts g k s (set_worker g k (Replying i ProviderResult) s)"
| panic: "k < q_size (sy_queue s g) \<Longrightarrow> q_worker (sy_queue s g) k = Serving i \<Longrightarrow>
    worker_acts g k s (set_worker g k (if isClosing s g then Exited else Idle) (settle i Crashed s))"
| by_deliver: "deliver_acts g k s t \<Longrightarrow> worker_acts g k s t"

text \<open>The provider's life cycle. An update publishes a new queue with its workers, moves the waiting messages over, as
  far as they fit, and closes the old queue; a removal and the shutdown of the gateway close the queue at once. In each
  case the queue is swept once its workers have exited. A provider whose adapter cannot be created
  leaves a published queue without workers behind.\<close>

inductive prepare_acts :: "sys \<Rightarrow> sys \<Rightarrow> bool" where
  prepare: "sy_life s = Unlocked \<Longrightarrow> \<not> sy_down s \<Longrightarrow> sy_current s = None \<Longrightarrow> 0 < capacity \<Longrightarrow> 0 < workers \<Longrightarrow> prepare_acts s (publish capacity workers s)"
| prepare_fails: "sy_life s = Unlocked \<Longrightarrow> \<not> sy_down s \<Longrightarrow> sy_current s = None \<Longrightarrow> 0 < capacity \<Longrightarrow> prepare_acts s (publish capacity 0 s)"

inductive update_acts :: "sys \<Rightarrow> sys \<Rightarrow> bool" where
  update: "sy_life s = Unlocked \<Longrightarrow> \<not> sy_down s \<Longrightarrow> sy_current s = Some g \<Longrightarrow> 0 < capacity \<Longrightarrow> 0 < workers \<Longrightarrow>
    update_acts s ((publish capacity workers s)\<lparr>sy_life := Transferring g (sy_gens s)\<rparr>)"
| pick: "sy_life s = Transferring g h \<Longrightarrow> q_buf (sy_queue s g) = i # rest \<Longrightarrow> update_acts s ((set_buf g rest s)\<lparr>sy_life := Moving g h i\<rparr>)"
| put: "sy_life s = Moving g h i \<Longrightarrow> length (q_buf (sy_queue s h)) < q_cap (sy_queue s h) \<Longrightarrow>
    update_acts s ((set_buf h (q_buf (sy_queue s h) @ [i]) s)\<lparr>sy_life := Transferring g h\<rparr>)"
| overflow: "sy_life s = Moving g h i \<Longrightarrow> length (q_buf (sy_queue s h)) = q_cap (sy_queue s h) \<Longrightarrow>
    notify i UpdateQueueFull (s\<lparr>sy_life := Cancelling g\<rparr>) s' \<Longrightarrow> update_acts s s'"
| cancel_rest: "sy_life s = Cancelling g \<Longrightarrow> q_buf (sy_queue s g) = i # rest \<Longrightarrow> notify i UpdateQueueFull (set_buf g rest s) s' \<Longrightarrow> update_acts s s'"
| close_old: "sy_life s = Transferring g h \<or> sy_life s = Cancelling g \<Longrightarrow> q_buf (sy_queue s g) = [] \<Longrightarrow>
    update_acts s ((signalClosing g s)\<lparr>sy_life := Unlocked\<rparr>)"

inductive remove_acts :: "sys \<Rightarrow> sys \<Rightarrow> bool" where
  remove: "sy_life s = Unlocked \<Longrightarrow> sy_current s = Some g \<Longrightarrow> remove_acts s ((signalClosing g s)\<lparr>sy_life := Removing g\<rparr>)"
| removed: "sy_life s = Removing g \<Longrightarrow> (\<And>h. h < sy_gens s \<Longrightarrow> q_sweep (sy_queue s h) = Swept) \<Longrightarrow>
    remove_acts s (s\<lparr>sy_life := Unlocked, sy_current := None\<rparr>)"

inductive shutdown_acts :: "sys \<Rightarrow> sys \<Rightarrow> bool" where
  shutdown: "sy_life s = Unlocked \<or> sy_life s = Removing h \<Longrightarrow> sy_current s = Some g \<Longrightarrow> shutdown_acts s ((signalClosing g s)\<lparr>sy_down := True\<rparr>)"
| shutdown_idle: "sy_life s = Unlocked \<Longrightarrow> sy_current s = None \<Longrightarrow> shutdown_acts s (s\<lparr>sy_down := True\<rparr>)"

inductive sweep_acts :: "sys \<Rightarrow> sys \<Rightarrow> bool" where
  begin_sweep: "q_sweep (sy_queue s g) = AwaitExit \<Longrightarrow> (\<And>k. k < q_size (sy_queue s g) \<Longrightarrow> q_worker (sy_queue s g) k = Exited) \<Longrightarrow>
    sweep_acts s (set_sweep g Sweeping s)"
| sweep: "q_sweep (sy_queue s g) = Sweeping \<Longrightarrow> q_buf (sy_queue s g) = i # rest \<Longrightarrow> notify i ShuttingDown (set_buf g rest s) s' \<Longrightarrow> sweep_acts s s'"
| end_sweep: "q_sweep (sy_queue s g) = Sweeping \<Longrightarrow> q_buf (sy_queue s g) = [] \<Longrightarrow> sweep_acts s (set_sweep g Swept s)"

inductive manager_acts :: "sys \<Rightarrow> sys \<Rightarrow> bool" where
  by_prepare: "prepare_acts s t \<Longrightarrow> manager_acts s t"
| by_update: "update_acts s t \<Longrightarrow> manager_acts s t"
| by_remove: "remove_acts s t \<Longrightarrow> manager_acts s t"
| by_shutdown: "shutdown_acts s t \<Longrightarrow> manager_acts s t"
| by_sweep: "sweep_acts s t \<Longrightarrow> manager_acts s t"

inductive step :: "sys \<Rightarrow> sys \<Rightarrow> bool" where
  by_producer: "producer_acts i s s' \<Longrightarrow> step s s'"
| by_worker: "worker_acts g k s s' \<Longrightarrow> step s s'"
| by_manager: "manager_acts s s' \<Longrightarrow> step s s'"

abbreviation reachable :: "sys \<Rightarrow> bool" where
  "reachable s \<equiv> \<exists>stream. step\<^sup>*\<^sup>* (start stream) s"

section \<open>Who holds a message\<close>

datatype place = InQueue nat | AtWorker nat nat | InTransfer

fun carries :: "wstate \<Rightarrow> nat \<Rightarrow> bool" where
  "carries (Serving j) i = (j = i)"
| "carries (Replying j a) i = (j = i)"
| "carries _ i = False"

fun moving :: "life \<Rightarrow> nat \<Rightarrow> bool" where
  "moving (Moving g h j) i = (j = i)"
| "moving _ i = False"

fun holds :: "sys \<Rightarrow> place \<Rightarrow> nat \<Rightarrow> bool" where
  "holds s (InQueue g) i = (i \<in> set (q_buf (sy_queue s g)))"
| "holds s (AtWorker g k) i = carries (q_worker (sy_queue s g) k) i"
| "holds s InTransfer i = moving (sy_life s) i"

fun unsent :: "caller \<Rightarrow> bool" where
  "unsent Waiting = False"
| "unsent (Received a) = False"
| "unsent Left = False"
| "unsent _ = True"

lemma holds_frame [simp]:
  "holds (set_caller i c s) p j = holds s p j"
  "holds (settle i e s) p j = holds s p j"
  "holds (hand_over i a s) p j = holds s p j"
  "holds (s\<lparr>sy_life := l\<rparr>) p j = (if p = InTransfer then moving l j else holds s p j)"
  "holds (s\<lparr>sy_current := cu\<rparr>) p j = holds s p j"
  "holds (s\<lparr>sy_chan := ch\<rparr>) p j = holds s p j"
  "holds (s\<lparr>sy_done := d\<rparr>) p j = holds s p j"
  "holds (s\<lparr>sy_late := la\<rparr>) p j = holds s p j"
  "holds (s\<lparr>sy_down := b\<rparr>) p j = holds s p j"
  "holds (set_sweep g w s) p j = holds s p j"
  "holds (signalClosing g s) p j = holds s p j"
  by (cases p; simp add: set_caller_def settle_def hand_over_def set_sweep_def signalClosing_def set_queue_def split: life.splits)+

lemma holds_set_buf: "holds (set_buf g b s) p j = (if p = InQueue g then j \<in> set b else holds s p j)"
  by (cases p) (simp_all add: set_buf_def set_queue_def)

lemma holds_set_worker [simp]: "holds (set_worker g k w s) p j = (if p = AtWorker g k then carries w j else holds s p j)"
  by (cases p) (simp_all add: set_worker_def set_queue_def)

lemma holds_in_queue: "holds s (InQueue g) i \<longleftrightarrow> i \<in> set (q_buf (sy_queue s g))"
  by simp

lemma holds_at_worker: "holds s (AtWorker g k) i \<longleftrightarrow> carries (q_worker (sy_queue s g) k) i"
  by simp

lemma holds_in_transfer: "holds s InTransfer i \<longleftrightarrow> moving (sy_life s) i"
  by simp

lemma holds_start [simp]: "holds (start st) p i = False"
  by (cases p) (simp_all add: start_def new_queue_def)

declare holds.simps [simp del]

lemma fields_frame [simp]:
  "sy_caller (set_caller i c s) = (sy_caller s)(i := c)" "sy_chan (set_caller i c s) = sy_chan s"
  "sy_log (set_caller i c s) = sy_log s" "sy_done (set_caller i c s) = sy_done s" "sy_queue (set_caller i c s) = sy_queue s"
  "sy_gens (set_caller i c s) = sy_gens s" "sy_current (set_caller i c s) = sy_current s" "sy_life (set_caller i c s) = sy_life s"
  "sy_late (set_caller i c s) = sy_late s" "sy_stream (set_caller i c s) = sy_stream s"
  by (simp_all add: set_caller_def)

lemma queue_frame [simp]:
  "sy_caller (set_queue g q s) = sy_caller s" "sy_chan (set_queue g q s) = sy_chan s" "sy_log (set_queue g q s) = sy_log s"
  "sy_done (set_queue g q s) = sy_done s" "sy_gens (set_queue g q s) = sy_gens s" "sy_current (set_queue g q s) = sy_current s"
  "sy_life (set_queue g q s) = sy_life s" "sy_late (set_queue g q s) = sy_late s" "sy_stream (set_queue g q s) = sy_stream s"
  "sy_queue (set_queue g q s) = (sy_queue s)(g := q)"
  by (simp_all add: set_queue_def)

lemma settle_frame [simp]:
  "sy_caller (settle i e s) = sy_caller s" "sy_chan (settle i e s) = sy_chan s" "sy_log (settle i e s) = (sy_log s)(i := sy_log s i @ [e])"
  "sy_done (settle i e s) = sy_done s" "sy_queue (settle i e s) = sy_queue s" "sy_gens (settle i e s) = sy_gens s"
  "sy_current (settle i e s) = sy_current s" "sy_life (settle i e s) = sy_life s" "sy_late (settle i e s) = sy_late s"
  "sy_stream (settle i e s) = sy_stream s"
  by (simp_all add: settle_def)

lemma hand_over_frame [simp]:
  "sy_caller (hand_over i a s) = sy_caller s" "sy_chan (hand_over i a s) = (sy_chan s)(i := Some a)"
  "sy_log (hand_over i a s) = (sy_log s)(i := sy_log s i @ [Sent a])"
  "sy_done (hand_over i a s) = sy_done s" "sy_queue (hand_over i a s) = sy_queue s" "sy_gens (hand_over i a s) = sy_gens s"
  "sy_current (hand_over i a s) = sy_current s" "sy_life (hand_over i a s) = sy_life s" "sy_late (hand_over i a s) = sy_late s"
  "sy_stream (hand_over i a s) = sy_stream s"
  by (simp_all add: hand_over_def)

lemma part_frame [simp]:
  "sy_queue (set_buf g b s) = (sy_queue s)(g := (sy_queue s g)\<lparr>q_buf := b\<rparr>)"
  "sy_queue (set_worker g k w s) = (sy_queue s)(g := (sy_queue s g)\<lparr>q_worker := (q_worker (sy_queue s g))(k := w)\<rparr>)"
  "sy_queue (set_sweep g p s) = (sy_queue s)(g := (sy_queue s g)\<lparr>q_sweep := p\<rparr>)"
  "sy_queue (signalClosing g s) = (sy_queue s)(g := (sy_queue s g)\<lparr>q_closing := True, q_sweep := AwaitExit\<rparr>)"
  by (simp_all add: set_buf_def set_worker_def set_sweep_def signalClosing_def)

lemma part_rest [simp]:
  "sy_caller (set_buf g b s) = sy_caller s" "sy_chan (set_buf g b s) = sy_chan s" "sy_log (set_buf g b s) = sy_log s" "sy_done (set_buf g b s) = sy_done s" "sy_gens (set_buf g b s) = sy_gens s" "sy_current (set_buf g b s) = sy_current s" "sy_life (set_buf g b s) = sy_life s" "sy_late (set_buf g b s) = sy_late s" "sy_stream (set_buf g b s) = sy_stream s"
  "sy_caller (set_worker g k w s) = sy_caller s" "sy_chan (set_worker g k w s) = sy_chan s" "sy_log (set_worker g k w s) = sy_log s" "sy_done (set_worker g k w s) = sy_done s" "sy_gens (set_worker g k w s) = sy_gens s" "sy_current (set_worker g k w s) = sy_current s" "sy_life (set_worker g k w s) = sy_life s" "sy_late (set_worker g k w s) = sy_late s" "sy_stream (set_worker g k w s) = sy_stream s"
  "sy_caller (set_sweep g p s) = sy_caller s" "sy_chan (set_sweep g p s) = sy_chan s" "sy_log (set_sweep g p s) = sy_log s" "sy_done (set_sweep g p s) = sy_done s" "sy_gens (set_sweep g p s) = sy_gens s" "sy_current (set_sweep g p s) = sy_current s" "sy_life (set_sweep g p s) = sy_life s" "sy_late (set_sweep g p s) = sy_late s" "sy_stream (set_sweep g p s) = sy_stream s"
  "sy_caller (signalClosing g s) = sy_caller s" "sy_chan (signalClosing g s) = sy_chan s" "sy_log (signalClosing g s) = sy_log s" "sy_done (signalClosing g s) = sy_done s" "sy_gens (signalClosing g s) = sy_gens s" "sy_current (signalClosing g s) = sy_current s" "sy_life (signalClosing g s) = sy_life s" "sy_late (signalClosing g s) = sy_late s" "sy_stream (signalClosing g s) = sy_stream s"
  by (simp_all add: set_buf_def set_worker_def set_sweep_def signalClosing_def)

subsection \<open>Ownership\<close>

text \<open>The five things that can be true of a request: it has not sent its message; its message is in one place; an answer
  lies in its channel; it has received the answer; or nobody will answer it any more. \<open>H\<close> are the places that hold
  the message.\<close>

inductive message_ok :: "(place \<Rightarrow> bool) \<Rightarrow> caller \<Rightarrow> event list \<Rightarrow> answer option \<Rightarrow> bool \<Rightarrow> bool" where
  not_sent: "unsent c \<Longrightarrow> message_ok (\<lambda>_. False) c [] None d"
| held: "c = Waiting \<or> c = Left \<and> d \<Longrightarrow> message_ok (\<lambda>q. q = p) c [] None d"
| answered: "c = Waiting \<or> c = Left \<and> d \<Longrightarrow> message_ok (\<lambda>_. False) c [Sent a] (Some a) d"
| received: "message_ok (\<lambda>_. False) (Received a) [Sent a] None d"
| given_up: "c = Waiting \<or> c = Left \<and> d \<Longrightarrow> e = Crashed \<or> (e = Billed \<or> e = Skipped) \<and> d \<Longrightarrow> message_ok (\<lambda>_. False) c [e] None d"

definition owned :: "sys \<Rightarrow> bool" where
  "owned s \<longleftrightarrow> (\<forall>g. distinct (q_buf (sy_queue s g))) \<and>
     (\<forall>i. message_ok (\<lambda>p. holds s p i) (sy_caller s i) (sy_log s i) (sy_chan s i) (sy_done s i))"

lemma owned_start: "owned (start st)"
  by (simp add: owned_def) (simp add: start_def new_queue_def not_sent)

lemma ownedD: "owned s \<Longrightarrow> message_ok (\<lambda>p. holds s p i) (sy_caller s i) (sy_log s i) (sy_chan s i) (sy_done s i)"
  by (simp add: owned_def)

lemma owned_distinct: "owned s \<Longrightarrow> distinct (q_buf (sy_queue s g))"
  by (simp add: owned_def)

lemma message_held:
  assumes "message_ok H c l ch d" and "H p"
  shows "H = (\<lambda>q. q = p)" and "l = []" and "ch = None" and "c = Waiting \<or> c = Left \<and> d"
  using assms by (cases rule: message_ok.cases; auto)+

lemma message_unsent:
  assumes "message_ok H c l ch d" and "unsent c"
  shows "H = (\<lambda>_. False)" and "l = []" and "ch = None"
  using assms by (cases rule: message_ok.cases; auto)+

text \<open>A step changes one message at most: it keeps the invariant if it leaves the others alone and that one in order.\<close>

lemma owned_step:
  assumes "owned s" and "\<And>g. distinct (q_buf (sy_queue t g))"
    and "\<And>p j. j \<noteq> i \<Longrightarrow> holds t p j = holds s p j" and "\<And>j. j \<noteq> i \<Longrightarrow> sy_caller t j = sy_caller s j"
    and "\<And>j. j \<noteq> i \<Longrightarrow> sy_log t j = sy_log s j" and "\<And>j. j \<noteq> i \<Longrightarrow> sy_chan t j = sy_chan s j" and "\<And>j. j \<noteq> i \<Longrightarrow> sy_done t j = sy_done s j"
    and "message_ok (\<lambda>p. holds t p i) (sy_caller t i) (sy_log t i) (sy_chan t i) (sy_done t i)"
  shows "owned t"
  unfolding owned_def
proof (intro conjI allI)
  fix j
  show "message_ok (\<lambda>p. holds t p j) (sy_caller t j) (sy_log t j) (sy_chan t j) (sy_done t j)"
    using assms(3-8) ownedD [OF assms(1), of j] by (cases "j = i") auto
qed (rule assms(2))

lemma owned_same:
  assumes "owned s" and "\<And>p j. holds t p j = holds s p j" and "\<And>g. q_buf (sy_queue t g) = q_buf (sy_queue s g)"
    and "sy_caller t = sy_caller s" and "sy_log t = sy_log s" and "sy_chan t = sy_chan s" and "sy_done t = sy_done s"
  shows "owned t"
  using assms unfolding owned_def by simp

lemma owned_caller:
  assumes "owned s" and "unsent (sy_caller s i)" and "unsent c"
  shows "owned (set_caller i c s)"
  using assms(1) by (rule owned_step [where i = i])
    (use assms message_unsent [OF ownedD [OF assms(1)] assms(2)] in \<open>auto simp: owned_distinct not_sent\<close>)

lemma holds_enqueue: "holds (enqueue_msg g i s) p j = (holds s p j \<or> p = InQueue g \<and> j = i)"
  by (cases "p = InQueue g") (auto simp: enqueue_msg_def holds_set_buf holds_in_queue)

lemma enqueue_frame [simp]:
  "sy_caller (enqueue_msg g i s) = (sy_caller s)(i := Waiting)" "sy_log (enqueue_msg g i s) = sy_log s"
  "sy_chan (enqueue_msg g i s) = sy_chan s" "sy_done (enqueue_msg g i s) = sy_done s"
  "sy_queue (enqueue_msg g i s) = (sy_queue s)(g := (sy_queue s g)\<lparr>q_buf := q_buf (sy_queue s g) @ [i]\<rparr>)"
  "sy_gens (enqueue_msg g i s) = sy_gens s" "sy_current (enqueue_msg g i s) = sy_current s" "sy_life (enqueue_msg g i s) = sy_life s"
  "sy_late (enqueue_msg g i s) = (sy_late s)(i := (q_sweep (sy_queue s g) = Swept))"
  by (simp_all add: enqueue_msg_def)

lemma owned_enqueue:
  assumes "owned s" and "unsent (sy_caller s i)"
  shows "owned (enqueue_msg g i s)"
proof -
  note u = message_unsent [OF ownedD [OF assms(1)] assms(2)]
  have h: "\<not> holds s p i" for p using fun_cong [OF u(1)] by simp
  then have "i \<notin> set (q_buf (sy_queue s g))" using holds_in_queue by blast
  then have d: "distinct (q_buf (sy_queue (enqueue_msg g i s) x))" for x using owned_distinct [OF assms(1)] by simp
  have m: "message_ok (\<lambda>p. holds (enqueue_msg g i s) p i) (sy_caller (enqueue_msg g i s) i) (sy_log (enqueue_msg g i s) i)
      (sy_chan (enqueue_msg g i s) i) (sy_done (enqueue_msg g i s) i)"
    using u(2,3) by (simp add: holds_enqueue h held)
  show ?thesis by (rule owned_step [OF assms(1) d _ _ _ _ _ m]) (simp_all add: holds_enqueue)
qed

text \<open>What taking the first message out of a queue leaves behind.\<close>

lemma owned_pop:
  assumes "owned s" and "q_buf (sy_queue s g) = i # rest"
  shows "holds s q i = (q = InQueue g)" and "holds (set_buf g rest s) q j = (j \<noteq> i \<and> holds s q j)" and "distinct rest" and "i \<notin> set rest"
    and "sy_log s i = []" and "sy_chan s i = None" and "sy_caller s i = Waiting \<or> sy_caller s i = Left \<and> sy_done s i"
proof -
  have "holds s (InQueue g) i" using assms(2) by (simp add: holds_in_queue)
  note m = message_held [OF ownedD [OF assms(1)] this]
  show u: "holds s q i = (q = InQueue g)" for q using fun_cong [OF m(1)] by simp
  show "distinct rest" "i \<notin> set rest" using owned_distinct [OF assms(1), of g] assms(2) by simp_all
  then show "holds (set_buf g rest s) q j = (j \<noteq> i \<and> holds s q j)"
    using u [of q] assms(2) by (auto simp: holds_set_buf holds_in_queue)
  show "sy_log s i = []" "sy_chan s i = None" "sy_caller s i = Waiting \<or> sy_caller s i = Left \<and> sy_done s i" using m(2-4) by simp_all
qed

lemma owned_worker:
  assumes "owned s" and "\<And>j. carries w j = holds s (AtWorker g k) j"
  shows "owned (set_worker g k w s)"
  using assms(1) by (rule owned_same) (auto simp: assms(2))

lemma owned_take:
  assumes "owned s" and "\<And>j. \<not> holds s (AtWorker g k) j" and "q_buf (sy_queue s g) = i # rest"
  shows "owned (set_worker g k (Serving i) (set_buf g rest s))"
proof -
  note m = owned_pop [OF assms(1,3)]
  have "(\<lambda>p. holds (set_worker g k (Serving i) (set_buf g rest s)) p i) = (\<lambda>p. p = AtWorker g k)" by (auto simp: m(2))
  then show ?thesis using m(3,5-7) assms(2) owned_distinct [OF assms(1)]
    by (intro owned_step [OF assms(1), where i = i]) (auto simp: m(2) held)
qed

text \<open>Whoever has taken a message away settles it by telling the caller.\<close>

lemma owned_notify:
  assumes "notify i a u t" and "owned s" and "holds s q i" and gone: "\<And>p j. holds u p j = (j \<noteq> i \<and> holds s p j)"
    and "\<And>g. distinct (q_buf (sy_queue u g))" and "sy_caller u = sy_caller s" "sy_log u = sy_log s" "sy_chan u = sy_chan s" "sy_done u = sy_done s"
  shows "owned t"
proof -
  note m = message_held [OF ownedD [OF assms(2)] assms(3)]
  from assms(1) show ?thesis
  proof cases
    case notified
    then show ?thesis using m assms(5-) by (intro owned_step [OF assms(2), where i = i]) (auto simp: gone answered)
  next
    case unheard
    then show ?thesis using m assms(5-) by (intro owned_step [OF assms(2), where i = i]) (auto simp: gone given_up)
  qed
qed

lemma owned_notify_pop:
  assumes "notify i a (set_buf g rest s) t" and "owned s" and "q_buf (sy_queue s g) = i # rest"
  shows "owned t"
  using assms(1,2) by (rule owned_notify [where q = "InQueue g"])
    (use owned_pop [OF assms(2,3)] owned_distinct [OF assms(2)] in auto)

text \<open>What a worker that holds a message knows of it.\<close>

lemma owned_hand:
  assumes "owned s" and "carries (q_worker (sy_queue s g) k) i"
  shows "holds s q i = (q = AtWorker g k)" and "sy_log s i = []" and "sy_chan s i = None" and "sy_caller s i = Waiting \<or> sy_caller s i = Left \<and> sy_done s i"
    and "\<not> carries w i \<Longrightarrow> \<not> holds (set_worker g k w s) q i"
proof -
  have "holds s (AtWorker g k) i" using assms(2) by (simp add: holds_at_worker)
  note m = message_held [OF ownedD [OF assms(1)] this]
  show u: "holds s q i = (q = AtWorker g k)" for q using fun_cong [OF m(1)] by simp
  show "sy_log s i = []" "sy_chan s i = None" "sy_caller s i = Waiting \<or> sy_caller s i = Left \<and> sy_done s i" using m(2-4) by simp_all
  show "\<not> holds (set_worker g k w s) q i" if "\<not> carries w i" using that u by simp
qed

lemma carries_unique: "carries w i \<Longrightarrow> carries w j \<Longrightarrow> i = j"
  by (cases w) auto

text \<open>A worker lets go of its message, and an entry in the request's log says how.\<close>

lemma owned_release:
  assumes "owned s" and c: "carries (q_worker (sy_queue s g) k) i" and "w = Idle \<or> w = Exited"
    and t: "t = set_worker g k w u" and u: "u = hand_over i a s \<or> u = settle i e s \<and> (e = Crashed \<or> (e = Billed \<or> e = Skipped) \<and> sy_done s i)"
  shows "owned t"
proof -
  note m = owned_hand [OF assms(1) c]
  have w: "\<not> carries w j" for j using assms(3) by auto
  have q: "sy_queue u = sy_queue s" "\<And>p j. holds u p j = holds s p j" using u by auto
  have gone: "holds t p i = False" for p using m(1) w by (simp add: t q)
  have keep: "holds t p j = holds s p j" if "j \<noteq> i" for p j
    using carries_unique [OF c] that w by (auto simp: t q holds_at_worker)
  have d: "distinct (q_buf (sy_queue t x))" for x using owned_distinct [OF assms(1)] by (simp add: t q)
  have r: "message_ok (\<lambda>p. holds t p i) (sy_caller t i) (sy_log t i) (sy_chan t i) (sy_done t i)"
    unfolding gone using u m(2-4) by (auto simp: t intro!: answered given_up)
  show ?thesis using u by (intro owned_step [OF assms(1) d keep _ _ _ _ r]) (auto simp: t)
qed

lemma owned_pick:
  assumes "owned s" and "q_buf (sy_queue s g) = i # rest" and "\<And>j. \<not> moving (sy_life s) j"
  shows "owned ((set_buf g rest s)\<lparr>sy_life := Moving g h i\<rparr>)" (is "owned ?t")
proof -
  note m = owned_pop [OF assms(1,2)]
  have k: "holds ?t p j = (j \<noteq> i \<and> holds s p j \<or> j = i \<and> p = InTransfer)" for p j
    using m(2) [of p j] assms(3) by (auto simp: holds_in_transfer)
  then have e: "(\<lambda>p. holds ?t p i) = (\<lambda>p. p = InTransfer)" and keep: "\<And>p j. j \<noteq> i \<Longrightarrow> holds ?t p j = holds s p j" by blast+
  have d: "distinct (q_buf (sy_queue ?t x))" for x using owned_distinct [OF assms(1)] m(3) by simp
  have r: "message_ok (\<lambda>p. holds ?t p i) (sy_caller ?t i) (sy_log ?t i) (sy_chan ?t i) (sy_done ?t i)"
    unfolding e using m(5-7) by (simp add: held)
  show ?thesis by (rule owned_step [OF assms(1) d keep _ _ _ _ r]) simp_all
qed

lemma owned_moving:
  assumes "owned s" and "moving (sy_life s) i"
  shows "holds s q i = (q = InTransfer)" and "sy_log s i = []" and "sy_chan s i = None" and "sy_caller s i = Waiting \<or> sy_caller s i = Left \<and> sy_done s i"
proof -
  have "holds s InTransfer i" using assms(2) by (simp add: holds_in_transfer)
  note m = message_held [OF ownedD [OF assms(1)] this]
  show "holds s q i = (q = InTransfer)" using fun_cong [OF m(1)] by simp
  show "sy_log s i = []" "sy_chan s i = None" "sy_caller s i = Waiting \<or> sy_caller s i = Left \<and> sy_done s i" using m(2-4) by simp_all
qed

lemma moving_other: "moving l i \<Longrightarrow> j \<noteq> i \<Longrightarrow> \<not> moving l j"
  by (cases l) auto

lemma owned_put:
  assumes "owned s" and "sy_life s = Moving g h i"
  shows "owned ((set_buf h (q_buf (sy_queue s h) @ [i]) s)\<lparr>sy_life := Transferring g h\<rparr>)" (is "owned ?t")
proof -
  have mv: "moving (sy_life s) i" using assms(2) by simp
  note m = owned_moving [OF assms(1) mv]
  have no: "i \<notin> set (q_buf (sy_queue s h))" using m(1) [of "InQueue h"] by (simp add: holds_in_queue)
  have k: "holds ?t p j = (j \<noteq> i \<and> holds s p j \<or> j = i \<and> p = InQueue h)" for p j
    using m(1) [of p] moving_other [OF mv] by (cases "j = i") (auto simp: holds_set_buf holds_in_queue holds_in_transfer)
  then have e: "(\<lambda>p. holds ?t p i) = (\<lambda>p. p = InQueue h)" and keep: "\<And>p j. j \<noteq> i \<Longrightarrow> holds ?t p j = holds s p j" by blast+
  have d: "distinct (q_buf (sy_queue ?t x))" for x using owned_distinct [OF assms(1)] no by simp
  have r: "message_ok (\<lambda>p. holds ?t p i) (sy_caller ?t i) (sy_log ?t i) (sy_chan ?t i) (sy_done ?t i)"
    unfolding e using m(2-4) by (simp add: held)
  show ?thesis by (rule owned_step [OF assms(1) d keep _ _ _ _ r]) simp_all
qed

lemma owned_overflow:
  assumes "notify i a (s\<lparr>sy_life := Cancelling g\<rparr>) t" and "owned s" and "sy_life s = Moving g h i"
  shows "owned t"
proof -
  have mv: "moving (sy_life s) i" using assms(3) by simp
  have "holds (s\<lparr>sy_life := Cancelling g\<rparr>) p j = (j \<noteq> i \<and> holds s p j)" for p j
    using owned_moving(1) [OF assms(2) mv, of p] moving_other [OF mv] by (cases "j = i") (auto simp: holds_in_transfer)
  then show ?thesis
    using owned_notify [OF assms(1,2), of InTransfer] mv owned_distinct [OF assms(2)] by (simp add: holds_in_transfer)
qed

section \<open>The life cycle of the queues\<close>

text \<open>Queues that have not been created are empty and without workers; the current queue and those of an update
  under way exist, and the new queue of an update is open.\<close>

fun life_ok :: "sys \<Rightarrow> life \<Rightarrow> bool" where
  "life_ok s (Transferring g h) = (g < sy_gens s \<and> h < sy_gens s \<and> g \<noteq> h \<and> q_sweep (sy_queue s h) = Unswept)"
| "life_ok s (Moving g h i) = (g < sy_gens s \<and> h < sy_gens s \<and> g \<noteq> h \<and> q_sweep (sy_queue s h) = Unswept)"
| "life_ok s (Cancelling g) = (g < sy_gens s)"
| "life_ok s _ = True"

definition wf_queues :: "sys \<Rightarrow> bool" where
  "wf_queues s \<longleftrightarrow> (\<forall>g\<ge>sy_gens s. sy_queue s g = new_queue 0 0) \<and> (\<forall>g. sy_current s = Some g \<longrightarrow> g < sy_gens s) \<and> life_ok s (sy_life s)"

text \<open>One queue at a time: its buffer is not overfull, it is swept only when it is closing, only a closing queue loses
  workers, and what lies in it after the sweep came late.\<close>

definition queue_ok :: "(nat \<Rightarrow> bool) \<Rightarrow> pqueue \<Rightarrow> bool" where
  "queue_ok late q \<longleftrightarrow> length (q_buf q) \<le> q_cap q \<and> (q_closing q \<longleftrightarrow> q_sweep q \<noteq> Unswept) \<and>
     (\<forall>k. q_worker q k = Exited \<or> q_worker q k = Draining \<longrightarrow> q_closing q) \<and> (\<forall>k\<ge>q_size q. q_worker q k = Idle) \<and> (q_sweep q = Swept \<longrightarrow> (\<forall>i\<in>set (q_buf q). late i))"

definition inv :: "sys \<Rightarrow> bool" where
  "inv s \<longleftrightarrow> owned s \<and> wf_queues s \<and> (\<forall>g. queue_ok (sy_late s) (sy_queue s g))"

lemma holds_publish:
  assumes "wf_queues s"
  shows "holds (publish cap n s) p j = holds s p j"
  using assms by (cases p) (auto simp: publish_def wf_queues_def new_queue_def holds_in_queue holds_at_worker holds_in_transfer)

lemma publish_frame [simp]:
  "sy_caller (publish cap n s) = sy_caller s" "sy_chan (publish cap n s) = sy_chan s" "sy_log (publish cap n s) = sy_log s"
  "sy_done (publish cap n s) = sy_done s" "sy_late (publish cap n s) = sy_late s" "sy_gens (publish cap n s) = Suc (sy_gens s)"
  "sy_current (publish cap n s) = Some (sy_gens s)" "sy_life (publish cap n s) = sy_life s"
  "sy_queue (publish cap n s) = (sy_queue s)(sy_gens s := new_queue cap n)"
  by (simp_all add: publish_def)

lemma owned_publish:
  assumes "owned s" and "wf_queues s"
  shows "owned (publish cap n s)"
  using assms by (intro owned_same [OF assms(1) holds_publish [OF assms(2)]]) (auto simp: wf_queues_def new_queue_def)

lemma owned_life:
  assumes "owned s" and "\<And>j. \<not> moving (sy_life s) j" and "\<And>j. \<not> moving l j"
  shows "owned (s\<lparr>sy_life := l\<rparr>)"
proof (rule owned_same [OF assms(1)])
  show "holds (s\<lparr>sy_life := l\<rparr>) p j = holds s p j" for p j using assms(2,3) by (cases p) (auto simp: holds_in_transfer)
qed simp_all

lemma owned_flags: "owned (s\<lparr>sy_down := b\<rparr>) = owned s" "owned (s\<lparr>sy_current := x\<rparr>) = owned s"
  by (simp_all add: owned_def)

lemma owned_sweep: "owned (signalClosing g s) = owned s" "owned (set_sweep g p s) = owned s"
  by (auto simp: owned_def)

lemma owned_lookup:
  assumes "lookup_acts i s t" and "owned s" and "wf_queues s"
  shows "owned t"
  using assms by (auto elim!: lookup_acts.cases intro!: owned_caller owned_publish)

lemma owned_send:
  assumes "send_acts i s t" and "owned s"
  shows "owned t"
  using assms by (auto elim!: send_acts.cases intro!: owned_caller owned_enqueue)

lemma owned_producer:
  assumes "producer_acts i s t" and "owned s" and "wf_queues s"
  shows "owned t"
  using assms(1)
proof cases
  case by_wait
  then show ?thesis
  proof cases
    case (receive a)
    then have "message_ok (\<lambda>p. holds s p i) Waiting (sy_log s i) (Some a) (sy_done s i)" using ownedD [OF assms(2), of i] by auto
    then have "(\<lambda>p. holds s p i) = (\<lambda>_. False)" "sy_log s i = [Sent a]" by (auto elim: message_ok.cases)
    then show ?thesis using receive
      by (intro owned_step [OF assms(2), where i = i]) (auto simp: owned_distinct [OF assms(2)] message_ok.received)
  next
    case leave
    have "message_ok (\<lambda>p. holds s p i) caller.Left (sy_log s i) (sy_chan s i) (sy_done s i)"
      using ownedD [OF assms(2), of i] leave by (auto elim!: message_ok.cases intro: message_ok.intros)
    then show ?thesis using leave by (intro owned_step [OF assms(2), where i = i]) (auto simp: owned_distinct [OF assms(2)])
  qed
next
  case cancel
  have "message_ok (\<lambda>p. holds s p i) (sy_caller s i) (sy_log s i) (sy_chan s i) True"
    using ownedD [OF assms(2), of i] by (auto elim!: message_ok.cases intro: message_ok.intros)
  then show ?thesis using cancel by (intro owned_step [OF assms(2), where i = i]) (auto simp: owned_distinct [OF assms(2)])
qed (use assms(2,3) owned_lookup owned_send in blast)+

lemma owned_deliver:
  assumes "deliver_acts g k s t" and "owned s"
  shows "owned t"
  using assms(1)
proof cases
  case (send_timeout i a)
  then show ?thesis using owned_hand(3) [OF assms(2), of g k i] by simp
next
  case (abandon i a)
  show ?thesis
    by (rule owned_release [OF assms(2) _ _ abandon(1), where i = i and e = "if sy_stream s i then Skipped else Billed"]) (use abandon in auto)
next
  case (deliver i a)
  show ?thesis by (rule owned_release [OF assms(2) _ _ deliver(1) disjI1]) (use deliver in auto)
qed

lemma owned_worker_step:
  assumes "worker_acts g k s t" and "owned s"
  shows "owned t"
  using assms(1)
proof cases
  case (take i rest)
  then show ?thesis using assms(2) by (auto simp: holds_at_worker intro: owned_take)
next
  case (drain i rest)
  then show ?thesis using assms(2) by (auto intro: owned_notify_pop)
next
  case (panic i)
  show ?thesis by (rule owned_release [OF assms(2) _ _ panic(1) disjI2]) (use panic in auto)
next
  case by_deliver
  then show ?thesis using owned_deliver assms(2) by blast
qed (use assms(2) in \<open>auto simp: holds_at_worker intro: owned_worker\<close>)

lemma owned_update:
  assumes "update_acts s t" and "owned s" and "wf_queues s"
  shows "owned t"
  using assms(1)
proof cases
  case (update g c n)
  then show ?thesis using owned_publish [OF assms(2,3)] by (auto intro: owned_life)
next
  case (pick g h i rest)
  then show ?thesis using assms(2) by (auto intro: owned_pick)
next
  case (put g h i)
  then show ?thesis using assms(2) by (auto intro: owned_put)
next
  case (overflow g h i)
  then show ?thesis using assms(2) owned_overflow by blast
next
  case (cancel_rest g i rest)
  then show ?thesis using assms(2) by (auto intro: owned_notify_pop)
next
  case (close_old g h)
  then show ?thesis using assms(2) by (auto simp: owned_sweep intro!: owned_life)
qed

lemma owned_manager:
  assumes "manager_acts s t" and "owned s" and "wf_queues s"
  shows "owned t"
  using assms(1)
proof cases
  case by_prepare
  then show ?thesis using owned_publish [OF assms(2,3)] by (auto elim: prepare_acts.cases)
next
  case by_remove
  then show ?thesis using assms(2) by (auto simp: owned_sweep owned_flags elim!: remove_acts.cases intro!: owned_life)
next
  case by_shutdown
  then show ?thesis using assms(2) by (auto simp: owned_sweep owned_flags elim!: shutdown_acts.cases)
next
  case by_sweep
  then show ?thesis using assms(2) by (auto simp: owned_sweep elim!: sweep_acts.cases intro: owned_notify_pop)
qed (use assms(2,3) owned_update in blast)

lemma life_ok_cong:
  "sy_gens t = sy_gens s \<Longrightarrow> (\<And>h. q_sweep (sy_queue t h) = q_sweep (sy_queue s h)) \<Longrightarrow> life_ok t l = life_ok s l"
  by (cases l) simp_all

lemma wf_frame:
  assumes "wf_queues s" and "sy_gens t = sy_gens s" and "sy_current t = sy_current s" and "sy_life t = sy_life s"
    and "\<And>h. q_sweep (sy_queue t h) = q_sweep (sy_queue s h)" and "\<And>h. sy_gens s \<le> h \<Longrightarrow> sy_queue t h = sy_queue s h"
  shows "wf_queues t"
  using assms life_ok_cong [OF assms(2,5)] by (simp add: wf_queues_def)

lemma wf_fresh: "wf_queues s \<Longrightarrow> sy_gens s \<le> g \<Longrightarrow> sy_queue s g = new_queue 0 0"
  by (simp add: wf_queues_def)

lemma wf_made:
  assumes "wf_queues s"
  shows "q_buf (sy_queue s g) \<noteq> [] \<Longrightarrow> g < sy_gens s" and "length (q_buf (sy_queue s g)) < q_cap (sy_queue s g) \<Longrightarrow> g < sy_gens s"
    and "k < q_size (sy_queue s g) \<Longrightarrow> g < sy_gens s" and "q_sweep (sy_queue s g) \<noteq> Unswept \<Longrightarrow> g < sy_gens s"
  by (rule ccontr, use wf_fresh [OF assms, of g] in \<open>simp add: new_queue_def\<close>)+

lemma wf_publish:
  assumes "wf_queues s" and "sy_life s = Unlocked"
  shows "wf_queues (publish cap n s)"
  using assms by (simp add: wf_queues_def)

lemma notify_frame:
  assumes "notify i a s t"
  shows "sy_gens t = sy_gens s" and "sy_current t = sy_current s" and "sy_life t = sy_life s" and "sy_queue t = sy_queue s" and "sy_late t = sy_late s"
  using assms by (auto elim: notify.cases)

lemma wf_notify:
  assumes "notify i a (set_buf g rest s) t" and "wf_queues s" and "q_buf (sy_queue s g) \<noteq> []"
  shows "wf_queues t"
  using wf_made(1) [OF assms(2,3)] by (intro wf_frame [OF assms(2)]) (simp_all add: notify_frame [OF assms(1)])

lemma wf_lookup:
  assumes "lookup_acts i s t" and "wf_queues s"
  shows "wf_queues t"
  using assms(1)
proof cases
  case (create c n)
  show ?thesis unfolding create(1) using create by (intro wf_frame [OF wf_publish [OF assms(2)]]) auto
next
  case (create_fails c)
  show ?thesis unfolding create_fails(1) using create_fails by (intro wf_frame [OF wf_publish [OF assms(2)]]) auto
qed (auto intro: wf_frame [OF assms(2)])

lemma wf_send:
  assumes "send_acts i s t" and "wf_queues s"
  shows "wf_queues t"
  using assms(1)
proof cases
  case (send g)
  then show ?thesis using wf_made(2) [OF assms(2), of g] by (intro wf_frame [OF assms(2)]) auto
qed (auto intro: wf_frame [OF assms(2)])

lemma wf_producer:
  assumes "producer_acts i s t" and "wf_queues s"
  shows "wf_queues t"
  using assms(1)
proof cases
  case by_wait
  then show ?thesis by cases (auto intro: wf_frame [OF assms(2)])
next
  case cancel
  then show ?thesis by (auto intro: wf_frame [OF assms(2)])
qed (use assms(2) wf_lookup wf_send in blast)+

lemma wf_worker:
  assumes "worker_acts g k s t" and "wf_queues s"
  shows "wf_queues t"
proof -
  have g: "g < sy_gens s" using assms(1) wf_made(3) [OF assms(2)] by (auto elim!: worker_acts.cases deliver_acts.cases)
  show ?thesis using assms(1)
  proof cases
    case (drain i rest)
    then show ?thesis using wf_notify assms(2) by auto
  next
    case by_deliver
    then show ?thesis using g by cases (auto intro: wf_frame [OF assms(2)])
  qed (use g in \<open>auto intro: wf_frame [OF assms(2)]\<close>)
qed

lemma wf_update:
  assumes "update_acts s t" and "wf_queues s"
  shows "wf_queues t"
  using assms(1)
proof cases
  case (overflow g h i)
  then show ?thesis using assms(2) notify_frame(1-4) [OF overflow(3)] by (auto simp: wf_queues_def)
next
  case (cancel_rest g i rest)
  then show ?thesis using assms(2) wf_notify by auto
qed (use assms(2) in \<open>auto simp: wf_queues_def new_queue_def\<close>)

lemma wf_sweep:
  assumes "sweep_acts s t" and "wf_queues s"
  shows "wf_queues t"
  using assms(1)
proof cases
  case (sweep g i rest)
  then show ?thesis using assms(2) wf_notify by auto
next
  case (begin_sweep g)
  then have "g < sy_gens s" using wf_made(4) [OF assms(2), of g] by simp
  then show ?thesis using begin_sweep assms(2) by (cases "sy_life s") (auto simp: wf_queues_def)
next
  case (end_sweep g)
  then have "g < sy_gens s" using wf_made(4) [OF assms(2), of g] by simp
  then show ?thesis using end_sweep assms(2) by (cases "sy_life s") (auto simp: wf_queues_def)
qed

lemma wf_manager:
  assumes "manager_acts s t" and "wf_queues s"
  shows "wf_queues t"
  using assms(1)
proof cases
  case by_prepare
  then show ?thesis using wf_publish [OF assms(2)] by (auto elim: prepare_acts.cases)
next
  case by_remove
  then show ?thesis using assms(2) by cases (auto simp: wf_queues_def)
next
  case by_shutdown
  then show ?thesis using assms(2) by cases (auto simp: wf_queues_def)
qed (use assms(2) wf_update wf_sweep in blast)+

lemma queue_ok_new: "queue_ok late (new_queue cap n)"
  by (simp add: queue_ok_def new_queue_def)

lemma queue_ok_buf:
  assumes "queue_ok late q" and "length b \<le> q_cap q" and "q_sweep q = Swept \<Longrightarrow> \<forall>i\<in>set b. late' i"
  shows "queue_ok late' (q\<lparr>q_buf := b\<rparr>)"
  using assms by (auto simp: queue_ok_def)

lemma queue_ok_tail: "queue_ok late q \<Longrightarrow> q_buf q = i # rest \<Longrightarrow> queue_ok late (q\<lparr>q_buf := rest\<rparr>)"
  by (auto simp: queue_ok_def)

lemma queue_ok_late:
  assumes "queue_ok late q" and "i \<notin> set (q_buf q)"
  shows "queue_ok (late(i := b)) q"
  using assms by (auto simp: queue_ok_def)

lemma queue_ok_worker:
  assumes "queue_ok late q" and "k < q_size q" and "w = Exited \<or> w = Draining \<Longrightarrow> q_closing q"
  shows "queue_ok late (q\<lparr>q_worker := (q_worker q)(k := w)\<rparr>)"
  using assms by (auto simp: queue_ok_def)

lemma queue_ok_sweep:
  assumes "queue_ok late q"
  shows "queue_ok late (q\<lparr>q_closing := True, q_sweep := AwaitExit\<rparr>)"
    and "q_sweep q \<noteq> Unswept \<Longrightarrow> queue_ok late (q\<lparr>q_sweep := Sweeping\<rparr>)"
    and "q_sweep q \<noteq> Unswept \<Longrightarrow> q_buf q = [] \<Longrightarrow> queue_ok late (q\<lparr>q_sweep := Swept\<rparr>)"
  using assms by (auto simp: queue_ok_def)

lemma queue_ok_send:
  assumes "send_acts i s t" and "owned s" and q: "\<And>g. queue_ok (sy_late s) (sy_queue s g)"
  shows "queue_ok (sy_late t) (sy_queue t h)"
  using assms(1)
proof cases
  case (send g)
  then have "unsent (sy_caller s i)" by auto
  then have "\<not> holds s p i" for p using fun_cong [OF message_unsent(1) [OF ownedD [OF assms(2)]]] by blast
  then have "i \<notin> set (q_buf (sy_queue s x))" for x using holds_in_queue by blast
  then have l: "queue_ok ((sy_late s)(i := b)) (sy_queue s x)" for x b using queue_ok_late [OF q] by blast
  have "queue_ok (sy_late t) (sy_queue s g\<lparr>q_buf := q_buf (sy_queue s g) @ [i]\<rparr>)"
    using send q [of g] by (intro queue_ok_buf [OF q]) (auto simp: queue_ok_def)
  then show ?thesis using l by (simp add: send(1))
qed (use q in auto)

lemma inv_producer:
  assumes "producer_acts i s t" and "inv s"
  shows "inv t"
proof -
  have o: "owned s" and w: "wf_queues s" and q: "\<And>g. queue_ok (sy_late s) (sy_queue s g)" using assms(2) by (auto simp: inv_def)
  have "queue_ok (sy_late t) (sy_queue t h)" for h
    using assms(1)
  proof cases
    case by_send
    then show ?thesis using queue_ok_send o q by blast
  next
    case by_lookup
    then show ?thesis using q by cases (auto simp: queue_ok_new)
  next
    case by_wait
    then show ?thesis using q by cases auto
  qed (use q in auto)
  then show ?thesis using owned_producer [OF assms(1) o w] wf_producer [OF assms(1) w] by (simp add: inv_def)
qed

lemma inv_worker:
  assumes "worker_acts g k s t" and "inv s"
  shows "inv t"
proof -
  have o: "owned s" and w: "wf_queues s" and q: "\<And>g. queue_ok (sy_late s) (sy_queue s g)" using assms(2) by (auto simp: inv_def)
  have "queue_ok (sy_late t) (sy_queue t h)" for h
    using assms(1)
  proof cases
    case (drain i rest)
    then show ?thesis using q queue_ok_tail [OF q, of g i rest] by (simp add: notify_frame [OF drain(4)])
  next
    case (take i rest)
    have "queue_ok (sy_late s) (sy_queue s g\<lparr>q_buf := rest, q_worker := (q_worker (sy_queue s g\<lparr>q_buf := rest\<rparr>))(k := Serving i)\<rparr>)"
      by (rule queue_ok_worker [OF queue_ok_tail [OF q take(4)]]) (use take in simp_all)
    then show ?thesis using q by (simp add: take(1))
  next
    case drained
    have "q_closing (sy_queue s g)" using drained q [of g] by (auto simp: queue_ok_def)
    then show ?thesis using q queue_ok_worker [OF q drained(2)] by (simp add: drained(1))
  next
    case by_deliver
    then show ?thesis using q by cases (auto intro!: queue_ok_worker)
  qed (use q in \<open>auto simp: isClosing_def intro!: queue_ok_worker\<close>)
  then show ?thesis using owned_worker_step [OF assms(1) o] wf_worker [OF assms(1) w] by (simp add: inv_def)
qed

lemma queue_ok_update:
  assumes "update_acts s t" and w: "wf_queues s" and q: "\<And>g. queue_ok (sy_late s) (sy_queue s g)"
  shows "queue_ok (sy_late t) (sy_queue t x)"
  using assms(1)
proof cases
  case (pick g h i rest)
  then show ?thesis using q queue_ok_tail [OF q, of g i rest] by simp
next
  case (put g h i)
  then have "q_sweep (sy_queue s h) = Unswept" using w by (simp add: wf_queues_def)
  then have "queue_ok (sy_late s) (sy_queue s h\<lparr>q_buf := q_buf (sy_queue s h) @ [i]\<rparr>)" using q [of h] put by (auto simp: queue_ok_def)
  then show ?thesis using put q by simp
next
  case (overflow g h i)
  then show ?thesis using q by (simp add: notify_frame [OF overflow(3)])
next
  case (cancel_rest g i rest)
  then show ?thesis using q queue_ok_tail [OF q, of g i rest] by (simp add: notify_frame [OF cancel_rest(3)])
qed (use q in \<open>auto simp: queue_ok_new queue_ok_sweep\<close>)

lemma inv_manager:
  assumes "manager_acts s t" and "inv s"
  shows "inv t"
proof -
  have o: "owned s" and w: "wf_queues s" and q: "\<And>g. queue_ok (sy_late s) (sy_queue s g)" using assms(2) by (auto simp: inv_def)
  have "queue_ok (sy_late t) (sy_queue t x)" for x
    using assms(1)
  proof cases
    case by_update
    then show ?thesis using queue_ok_update w q by blast
  next
    case by_sweep
    then show ?thesis
    proof cases
      case (sweep g i rest)
      then show ?thesis using q queue_ok_tail [OF q, of g i rest] by (simp add: notify_frame [OF sweep(3)])
    qed (use q in \<open>auto simp: queue_ok_sweep\<close>)
  next
    case by_prepare
    then show ?thesis using q by cases (auto simp: queue_ok_new)
  next
    case by_remove
    then show ?thesis using q by cases (auto simp: queue_ok_sweep)
  next
    case by_shutdown
    then show ?thesis using q by cases (auto simp: queue_ok_sweep)
  qed
  then show ?thesis using owned_manager [OF assms(1) o w] wf_manager [OF assms(1) w] by (simp add: inv_def)
qed

lemma inv_start: "inv (start st)"
  by (simp add: inv_def owned_start wf_queues_def queue_ok_def) (simp add: start_def new_queue_def)

lemma inv_reachable:
  assumes "step\<^sup>*\<^sup>* (start stream) s"
  shows "inv s"
  using assms by (induction rule: rtranclp_induct) (auto simp: inv_start elim!: step.cases intro: inv_producer inv_worker inv_manager)

section \<open>What the invariant gives\<close>

lemma notify_free: "sy_chan s i = None \<Longrightarrow> \<exists>t. notify i a s t"
  by (blast intro: notified)

lemma worker_enabled:
  assumes "inv s" and "k < q_size (sy_queue s g)" and "q_worker (sy_queue s g) k \<noteq> Exited"
    and "q_worker (sy_queue s g) k = Idle \<Longrightarrow> q_buf (sy_queue s g) \<noteq> []"
  shows "\<exists>t. worker_acts g k s t"
proof (cases "q_worker (sy_queue s g) k")
  case Idle
  then obtain i rest where "q_buf (sy_queue s g) = i # rest" using assms(4) by (auto simp: neq_Nil_conv)
  then show ?thesis using take assms(2) Idle by blast
next
  case (Replying i a)
  have "sy_chan s i = None" using owned_hand(3) [of s g k i] assms(1) Replying by (simp add: inv_def)
  then show ?thesis using by_deliver [OF deliver] assms(2) Replying by blast
next
  case Draining
  show ?thesis
  proof (cases "q_buf (sy_queue s g)")
    case (Cons i rest)
    then have "sy_chan (set_buf g rest s) i = None" using owned_pop(6) assms(1) by (simp add: inv_def)
    then show ?thesis using notify_free drain [OF assms(2) Draining Cons] by blast
  qed (use drained assms(2) Draining in blast)
qed (use assms(2,3) finish in blast)+

lemma transfer_enabled:
  assumes "inv s" and "moving (sy_life s) i"
  shows "\<exists>t. update_acts s t"
proof -
  obtain g h where l: "sy_life s = Moving g h i" using assms(2) by (cases "sy_life s") auto
  have c: "sy_chan s i = None" using owned_moving(3) assms by (simp add: inv_def)
  have "length (q_buf (sy_queue s h)) \<le> q_cap (sy_queue s h)" using assms(1) by (simp add: inv_def queue_ok_def)
  then consider "length (q_buf (sy_queue s h)) < q_cap (sy_queue s h)" | "length (q_buf (sy_queue s h)) = q_cap (sy_queue s h)" by linarith
  then show ?thesis
  proof cases
    case 2
    then show ?thesis using overflow [OF l] notified [of "s\<lparr>sy_life := Cancelling g\<rparr>" i UpdateQueueFull] c by auto
  qed (use put [OF l] in blast)
qed

lemma waiting_where:
  assumes "message_ok H c l ch d" and "c = Waiting" and "\<not> d" and "l \<noteq> [Crashed]"
  shows "(\<exists>a. ch = Some a) \<or> (\<exists>p. H p)"
  using assms by cases auto

text \<open>A message that lies in a queue: somebody can act on the queue, or the message came after the sweep, or the queue
  never had workers.\<close>

lemma queued_progress:
  assumes "inv s" and "q_buf (sy_queue s g) = i # rest" and "q_sweep (sy_queue s g) \<noteq> Swept"
    and "q_sweep (sy_queue s g) = Unswept \<Longrightarrow> 0 < q_size (sy_queue s g)"
  shows "(\<exists>k t. worker_acts g k s t) \<or> (\<exists>t. sweep_acts s t)"
proof (cases "\<exists>k<q_size (sy_queue s g). q_worker (sy_queue s g) k \<noteq> Exited")
  case True
  then show ?thesis using worker_enabled [OF assms(1)] assms(2) by fastforce
next
  case False
  have "q_sweep (sy_queue s g) \<noteq> Unswept"
  proof
    assume u: "q_sweep (sy_queue s g) = Unswept"
    then have "q_worker (sy_queue s g) 0 = Exited" using False assms(4) by auto
    then show False using u assms(1) by (auto simp: inv_def queue_ok_def)
  qed
  moreover have "\<exists>t. sweep_acts s t"
  proof (cases "q_sweep (sy_queue s g)")
    case AwaitExit
    then show ?thesis using begin_sweep False by blast
  next
    case Sweeping
    have "sy_chan (set_buf g rest s) i = None" using owned_pop(6) assms(1,2) by (simp add: inv_def)
    then show ?thesis using notify_free sweep [OF Sweeping assms(2)] by blast
  qed (use calculation assms(3) in simp_all)
  ultimately show ?thesis by blast
qed

lemmas act_cases = step.cases producer_acts.cases lookup_acts.cases send_acts.cases wait_acts.cases worker_acts.cases deliver_acts.cases
  manager_acts.cases prepare_acts.cases update_acts.cases remove_acts.cases shutdown_acts.cases sweep_acts.cases notify.cases

lemma log_grows:
  assumes "step s t"
  shows "\<exists>l. sy_log t i = sy_log s i @ l"
  using assms by (auto elim!: act_cases simp: publish_def)

lemma log_final:
  assumes "step\<^sup>*\<^sup>* (start f) s" and "step\<^sup>*\<^sup>* s t" and "sy_log s i \<noteq> []"
  shows "sy_log t i = sy_log s i"
  using assms(2)
proof (induction rule: rtranclp_induct)
  case (step u v)
  then obtain l where l: "sy_log v i = sy_log s i @ l" using log_grows by metis
  have "step\<^sup>*\<^sup>* (start f) v" using assms(1) step(1,2) by (meson rtranclp.rtrancl_into_rtrancl rtranclp_trans)
  then have "message_ok (\<lambda>p. holds v p i) (sy_caller v i) (sy_log v i) (sy_chan v i) (sy_done v i)" using inv_reachable by (simp add: inv_def owned_def)
  then have "length (sy_log v i) \<le> 1" by cases simp_all
  then show ?case using l assms(3) by (cases "sy_log s i") auto
qed simp

section \<open>Runs\<close>

text \<open>A queue with one place and one worker serves the first request, whose context may end before the answer is ready.\<close>

definition serving_state :: "sys \<Rightarrow> sys" where
  "serving_state s =
     set_worker 0 0 (Serving 0) (set_buf 0 [] (enqueue_msg 0 0 (set_caller 0 (Sending 0) (set_caller 0 (Preparing 0) (publish 1 1 s)))))"

lemma start_fields [simp]:
  "sy_gens (start f) = 0" "sy_queue (start f) = (\<lambda>_. new_queue 0 0)" "sy_current (start f) = None" "sy_life (start f) = Unlocked"
  "\<not> sy_down (start f)" "sy_caller (start f) = (\<lambda>_. Fresh)" "sy_chan (start f) = (\<lambda>_. None)" "sy_log (start f) = (\<lambda>_. [])"
  by (simp_all add: start_def)

lemma new_queue_fields [simp]:
  "q_buf (new_queue c n) = []" "q_cap (new_queue c n) = c" "q_closing (new_queue c n) = False" "q_size (new_queue c n) = n"
  "q_worker (new_queue c n) = (\<lambda>_. Idle)" "q_sweep (new_queue c n) = Unswept"
  by (simp_all add: new_queue_def)

lemma step_by:
  "producer_acts i s t \<Longrightarrow> step\<^sup>*\<^sup>* t u \<Longrightarrow> step\<^sup>*\<^sup>* s u" "worker_acts g k s t \<Longrightarrow> step\<^sup>*\<^sup>* t u \<Longrightarrow> step\<^sup>*\<^sup>* s u" "manager_acts s t \<Longrightarrow> step\<^sup>*\<^sup>* t u \<Longrightarrow> step\<^sup>*\<^sup>* s u"
  by (auto intro: converse_rtranclp_into_rtranclp step.intros)

lemma serving_reachable: "step\<^sup>*\<^sup>* (start f) (serving_state (start f))"
proof -
  let ?a = "publish 1 1 (start f)"
  let ?b = "set_caller 0 (Preparing 0) ?a"
  let ?c = "set_caller 0 (Sending 0) ?b"
  let ?d = "enqueue_msg 0 0 ?c"
  have a: "manager_acts (start f) ?a" by (rule by_prepare, rule prepare) simp_all
  have b: "producer_acts 0 ?a ?b" by (rule by_lookup, rule lookup) simp_all
  have c: "producer_acts 0 ?b ?c" by (rule by_send, rule check_open) (simp_all add: isClosing_def)
  have d: "producer_acts 0 ?c ?d" by (rule by_send, rule send) simp_all
  have e: "worker_acts 0 0 ?d (serving_state (start f))" unfolding serving_state_def by (rule take) simp_all
  show ?thesis by (rule step_by(3) [OF a] step_by(1) [OF b] step_by(1) [OF c] step_by(1) [OF d] step_by(2) [OF e] rtranclp.rtrancl_refl)+
qed

lemma serving_fields:
  "sy_caller (serving_state (start f)) 0 = Waiting" "sy_log (serving_state (start f)) 0 = []" "sy_chan (serving_state (start f)) 0 = None"
  "q_worker (sy_queue (serving_state (start f)) 0) 0 = Serving 0" "q_size (sy_queue (serving_state (start f)) 0) = 1"
  by (simp_all add: serving_state_def)

text \<open>The request that is being served: its worker finishes and hands the result over, and the caller receives it, or
  has left when its context ended.\<close>

definition handed_state :: "sys \<Rightarrow> sys" where
  "handed_state s = set_worker 0 0 Idle (hand_over 0 ProviderResult (set_worker 0 0 (Replying 0 ProviderResult) s))"

lemma handed_reachable:
  assumes "q_worker (sy_queue s 0) 0 = Serving 0" and "0 < q_size (sy_queue s 0)" and "sy_chan s 0 = None"
  shows "step\<^sup>*\<^sup>* s (handed_state s)"
proof -
  let ?a = "set_worker 0 0 (Replying 0 ProviderResult) s"
  have a: "worker_acts 0 0 s ?a" using assms(1,2) by (intro finish) simp_all
  have b: "worker_acts 0 0 ?a (handed_state s)" unfolding handed_state_def using assms by (intro by_deliver deliver) simp_all
  show ?thesis by (rule step_by(2) [OF a] step_by(2) [OF b] rtranclp.rtrancl_refl)+
qed

lemma handed_fields [simp]:
  "sy_caller (handed_state s) = sy_caller s" "sy_log (handed_state s) 0 = sy_log s 0 @ [Sent ProviderResult]"
  "sy_chan (handed_state s) 0 = Some ProviderResult" "sy_stream (handed_state s) = sy_stream s"
  by (simp_all add: handed_state_def)

definition left_state :: "sys \<Rightarrow> sys" where
  "left_state s = set_caller 0 caller.Left (s\<lparr>sy_done := (sy_done s)(0 := True)\<rparr>)"

lemma left_reachable:
  assumes "sy_caller s 0 = Waiting"
  shows "step\<^sup>*\<^sup>* s (left_state s)"
proof -
  let ?a = "s\<lparr>sy_done := (sy_done s)(0 := True)\<rparr>"
  have b: "producer_acts 0 ?a (left_state s)" unfolding left_state_def using assms by (intro by_wait leave) simp_all
  show ?thesis by (rule step_by(1) [OF cancel step_by(1) [OF b rtranclp.rtrancl_refl]])
qed

lemma left_fields [simp]:
  "sy_caller (left_state s) 0 = caller.Left" "sy_log (left_state s) = sy_log s" "sy_chan (left_state s) = sy_chan s"
  "sy_queue (left_state s) = sy_queue s"
  by (simp_all add: left_state_def)

section \<open>Properties\<close>

text \<open>C7: In every state the gateway can reach, whatever the interleaving of callers, workers, updates, removals and
  shutdowns, a request that has not been queued is held by nobody; one that has been queued is either in
  exactly one place, a queue or the hands of a worker, with nothing done about it yet, or in no place, and
  exactly one thing was done about it. A caller that got an answer got the one that was sent. So no
  message is lost or duplicated when it moves between the queues, and no request is answered or billed twice.\<close>

theorem every_request_settled_once:
  assumes "step\<^sup>*\<^sup>* (start stream) s"
  shows "if unsent (sy_caller s i) then (\<forall>p. \<not> holds s p i) \<and> sy_log s i = []
     else (\<exists>!p. holds s p i) \<and> sy_log s i = [] \<or> (\<forall>p. \<not> holds s p i) \<and> (\<exists>e. sy_log s i = [e] \<and> (\<forall>a. sy_caller s i = Received a \<longrightarrow> e = Sent a))"
proof -
  have "message_ok (\<lambda>p. holds s p i) (sy_caller s i) (sy_log s i) (sy_chan s i) (sy_done s i)"
    using inv_reachable [OF assms] by (simp add: inv_def owned_def)
  then show ?thesis by cases (auto simp: fun_eq_iff)
qed

theorem every_request_settled_once_witness:
  "\<exists>s. step\<^sup>*\<^sup>* (start (\<lambda>_. False)) s \<and> sy_caller s 0 = Waiting \<and> (\<exists>!p. holds s p 0)"
proof (intro exI conjI)
  show r: "step\<^sup>*\<^sup>* (start (\<lambda>_. False)) (serving_state (start (\<lambda>_. False)))" by (rule serving_reachable)
  show "sy_caller (serving_state (start (\<lambda>_. False))) 0 = Waiting" by (rule serving_fields)
  then show "\<exists>!p. holds (serving_state (start (\<lambda>_. False))) p 0"
    using every_request_settled_once [OF r, of 0] serving_fields(2) by simp
qed

text \<open>C31: A caller that waits with a live context and whose message was neither lost in a panic, nor queued after the last
  sweep, nor queued where there are no workers, is not forgotten: its answer is ready, or a worker
  of the queue that has the message can act, or the sweep of that queue can.\<close>

theorem waiting_request_progresses:
  assumes "step\<^sup>*\<^sup>* (start stream) s" and "sy_caller s i = Waiting" and "\<not> sy_done s i" and "sy_log s i \<noteq> [Crashed]"
    and "\<And>g. i \<in> set (q_buf (sy_queue s g)) \<Longrightarrow> (q_sweep (sy_queue s g) = Swept \<longrightarrow> \<not> sy_late s i) \<and> (q_sweep (sy_queue s g) = Unswept \<longrightarrow> 0 < q_size (sy_queue s g))"
  shows "(\<exists>a t. producer_acts i s t \<and> sy_caller t i = Received a) \<or>
     (\<exists>g. (holds s (InQueue g) i \<or> (\<exists>k. holds s (AtWorker g k) i)) \<and>
        ((\<exists>k t. worker_acts g k s t) \<or> (\<exists>t. sweep_acts s t))) \<or>
     holds s InTransfer i \<and> (\<exists>t. update_acts s t)"
proof -
  have inv: "inv s" by (rule inv_reachable [OF assms(1)])
  then have m: "message_ok (\<lambda>p. holds s p i) (sy_caller s i) (sy_log s i) (sy_chan s i) (sy_done s i)" by (simp add: inv_def owned_def)
  consider (ready) a where "sy_chan s i = Some a" | (queue) g where "holds s (InQueue g) i" | (hands) g k where "holds s (AtWorker g k) i" | (moved) "holds s InTransfer i"
    using waiting_where [OF m assms(2-4)] by (metis place.exhaust)
  then show ?thesis
  proof cases
    case (ready a)
    have "producer_acts i s (set_caller i (Received a) (s\<lparr>sy_chan := (sy_chan s)(i := None)\<rparr>))" by (rule by_wait [OF receive [OF assms(2) ready]])
    then show ?thesis by fastforce
  next
    case (queue g)
    then have mem: "i \<in> set (q_buf (sy_queue s g))" by (simp add: holds_in_queue)
    then obtain j rest where b: "q_buf (sy_queue s g) = j # rest" by (cases "q_buf (sy_queue s g)") auto
    have "q_sweep (sy_queue s g) \<noteq> Swept" using assms(5) [OF mem] mem inv by (auto simp: inv_def queue_ok_def)
    then show ?thesis using queued_progress [OF inv b] assms(5) [OF mem] queue by blast
  next
    case (hands g k)
    then have c: "carries (q_worker (sy_queue s g) k) i" by (simp add: holds_at_worker)
    have "k < q_size (sy_queue s g)"
    proof (rule ccontr)
      assume "\<not> k < q_size (sy_queue s g)"
      then have "q_worker (sy_queue s g) k = Idle" using inv by (simp add: inv_def queue_ok_def)
      then show False using c by simp
    qed
    then have "\<exists>t. worker_acts g k s t" using worker_enabled [OF inv, of k g] c by fastforce
    then show ?thesis using hands by blast
  next
    case moved
    then show ?thesis using transfer_enabled [OF inv] by (simp add: holds_in_transfer)
  qed
qed

theorem waiting_request_progresses_witness:
  "\<exists>s t. step\<^sup>*\<^sup>* (start (\<lambda>_. False)) s \<and> sy_caller s 0 = Waiting \<and> step s t"
proof (intro exI conjI)
  let ?s = "serving_state (start (\<lambda>_. False))"
  show r: "step\<^sup>*\<^sup>* (start (\<lambda>_. False)) ?s" by (rule serving_reachable)
  show w: "sy_caller ?s 0 = Waiting" by (rule serving_fields)
  have "\<not> sy_done ?s 0" "\<And>g. 0 \<notin> set (q_buf (sy_queue ?s g))" by (auto simp: serving_state_def start_def)
  then have "(\<exists>a t. producer_acts 0 ?s t \<and> sy_caller t 0 = Received a) \<or>
     (\<exists>g. (holds ?s (InQueue g) 0 \<or> (\<exists>k. holds ?s (AtWorker g k) 0)) \<and> ((\<exists>k t. worker_acts g k ?s t) \<or> (\<exists>t. sweep_acts ?s t))) \<or>
     holds ?s InTransfer 0 \<and> (\<exists>t. update_acts ?s t)"
    using serving_fields(2) by (intro waiting_request_progresses [OF r w]) simp_all
  then have "\<exists>t. step ?s t" by (blast intro: step.intros manager_acts.intros)
  then show "step ?s (SOME t. step ?s t)" by (rule someI_ex)
qed

text \<open>Every queue of every reachable state is well formed: it holds no more messages than its capacity and none twice, only
  its own workers are busy, it is being swept exactly if it was told to close, no worker of an
  open queue stops, and the messages left in a swept queue are those that were sent after its sweep. Queues that were not created are empty.\<close>

lemma queues_well_formed:
  assumes "step\<^sup>*\<^sup>* (start stream) s"
  shows "queue_ok (sy_late s) (sy_queue s g) \<and> distinct (q_buf (sy_queue s g)) \<and> (sy_gens s \<le> g \<longrightarrow> sy_queue s g = new_queue 0 0)"
  using inv_reachable [OF assms] by (simp add: inv_def wf_queues_def owned_def)

text \<open>A request is not billed although the provider answered it: the caller leaves when its context ends, the worker then
  puts the result into the caller's channel, which has room for it, and from there on nobody receives it and
  nothing more is done about it. So that the worker can send does not mean that the caller received.\<close>

lemma abandoned_result_unbilled:
  "\<exists>s. step\<^sup>*\<^sup>* (start (\<lambda>_. False)) s \<and> sy_caller s 0 = caller.Left \<and> {sy_log t 0 |t. step\<^sup>*\<^sup>* s t} = {[Sent ProviderResult]}"
proof (intro exI conjI)
  let ?a = "serving_state (start (\<lambda>_. False))"
  let ?s = "handed_state (left_state ?a)"
  have "step\<^sup>*\<^sup>* (left_state ?a) ?s" by (rule handed_reachable) (simp_all add: serving_fields)
  then show r: "step\<^sup>*\<^sup>* (start (\<lambda>_. False)) ?s"
    using serving_reachable left_reachable [OF serving_fields(1)] by (meson rtranclp_trans)
  have l: "sy_log ?s 0 = [Sent ProviderResult]" by (simp add: serving_fields)
  show "sy_caller ?s 0 = caller.Left" by simp
  show "{sy_log t 0 |t. step\<^sup>*\<^sup>* ?s t} = {[Sent ProviderResult]}"
    using log_final [OF r, of _ 0] l by (auto simp: serving_fields intro!: exI [of _ ?s])
qed

text \<open>When the adapter of a provider cannot be created, the queue that was published before stays behind: later requests
  find it, pass the closing check and queue up, although it has no worker and never will.\<close>

lemma failed_start_strands_requests:
  "\<exists>s. step\<^sup>*\<^sup>* (start (\<lambda>_. False)) s \<and> sy_caller s 0 = GaveUp \<and> sy_caller s 1 = Waiting \<and> holds s (InQueue 0) 1 \<and>
     sy_current s = Some 0 \<and> \<not> isClosing s 0 \<and> (\<forall>k t. \<not> worker_acts 0 k s t)"
proof (intro exI conjI)
  let ?a = "set_caller 0 GaveUp (publish 1 0 (start (\<lambda>_. False)))"
  let ?b = "set_caller 1 (Preparing 0) ?a"
  let ?c = "set_caller 1 (Sending 0) ?b"
  let ?d = "enqueue_msg 0 1 ?c"
  have a: "producer_acts 0 (start (\<lambda>_. False)) ?a" by (rule by_lookup, rule create_fails) simp_all
  have b: "producer_acts 1 ?a ?b" by (rule by_lookup, rule lookup) simp_all
  have c: "producer_acts 1 ?b ?c" by (rule by_send, rule check_open) (simp_all add: isClosing_def)
  have d: "producer_acts 1 ?c ?d" by (rule by_send, rule send) simp_all
  show "step\<^sup>*\<^sup>* (start (\<lambda>_. False)) ?d"
    by (rule step_by(1) [OF a] step_by(1) [OF b] step_by(1) [OF c] step_by(1) [OF d] rtranclp.rtrancl_refl)+
  show "\<forall>k t. \<not> worker_acts 0 k ?d t" by (auto elim!: worker_acts.cases deliver_acts.cases)
qed (simp_all add: holds_in_queue isClosing_def)

end
