(* ===== verification/Windows.thy ===== *)
theory Windows
  imports Floats
begin

text \<open>
  The reset windows of budgets and rate limits (\<open>framework/configstore/tables/utils.go\<close>): durations, the calendar
  period a moment lies in, rolling windows, and the number of periods between two moments. A moment is a count
  of nanoseconds since 1 January 1970, UTC. The calendar is the proleptic Gregorian one of Go's package
  \<open>time\<close>, which is modelled here as far as the code uses it.

  All kinds of windows are instances of one locale, a \<open>grid\<close>: numbered windows that cover the time axis without gaps
  or overlaps.
\<close>

section \<open>Go's calendar\<close>

definition hour_ns :: int where
  "hour_ns = 3600 * second_ns"

definition day_ns :: int where
  "day_ns = 24 * hour_ns"

text \<open>Days are counted from 1 January of the year 1, the zero value of \<open>time.Time\<close>.\<close>

definition epoch_day :: int where
  "epoch_day = 719162"

definition zero_time :: int where
  "zero_time = - epoch_day * day_ns"

definition day_of :: "int \<Rightarrow> int" where
  "day_of t = t div day_ns + epoch_day"

definition day_start :: "int \<Rightarrow> int" where
  "day_start n = (n - epoch_day) * day_ns"

definition days_before_year :: "int \<Rightarrow> int" where
  "days_before_year y = 365 * (y - 1) + (y - 1) div 4 - (y - 1) div 100 + (y - 1) div 400"

definition is_leap :: "int \<Rightarrow> bool" where
  "is_leap y \<longleftrightarrow> 4 dvd y \<and> (\<not> 100 dvd y \<or> 400 dvd y)"

definition days_before_month :: "int \<Rightarrow> int \<Rightarrow> int" where
  "days_before_month y m =
     [0, 31, 59, 90, 120, 151, 181, 212, 243, 273, 304, 334] ! nat (m - 1) + (if is_leap y \<and> 2 < m then 1 else 0)"

text \<open>\<open>Time.Year\<close> and \<open>Time.Month\<close>: whole cycles of 400, 100, 4 and 1 years are taken out, where the last
  century and the last year of a cycle are longer.\<close>

definition year_of_day :: "int \<Rightarrow> int" where
  "year_of_day n =
     (let n400 = n div 146097; r = n mod 146097;
          n100 = min 3 (r div 36524); r = r - 36524 * n100;
          n4 = r div 1461; r = r mod 1461;
          n1 = min 3 (r div 365)
      in 400 * n400 + 100 * n100 + 4 * n4 + n1 + 1)"

definition month_of_day :: "int \<Rightarrow> int" where
  "month_of_day n =
     (let y = year_of_day n; yday = n - days_before_year y
      in int (length (filter (\<lambda>m. days_before_month y m \<le> yday) [1..12])))"

definition time_Year :: "int \<Rightarrow> int" where
  "time_Year t = year_of_day (day_of t)"

definition time_Month :: "int \<Rightarrow> int" where
  "time_Month t = month_of_day (day_of t)"

text \<open>\<open>Time.Weekday\<close>: 1 January of the year 1 was a Monday; Sunday is 0.\<close>

definition time_Weekday :: "int \<Rightarrow> int" where
  "time_Weekday t = (day_of t + 1) mod 7"

text \<open>Midnight of a day, and of the first day of a month, as \<open>time.Date\<close> gives them.\<close>

definition midnight :: "int \<Rightarrow> int" where
  "midnight t = day_start (day_of t)"

definition first_of_month :: "int \<Rightarrow> int \<Rightarrow> int" where
  "first_of_month y m = day_start (days_before_year y + days_before_month y m)"

section \<open>The grid of windows\<close>

locale grid =
  fixes start :: "int \<Rightarrow> int" and idx :: "int \<Rightarrow> int"
  assumes covers: "start (idx t) \<le> t" "t < start (idx t + 1)"
    and step: "start k < start (k + 1)"
begin

lemma start_mono: "j < k \<Longrightarrow> start j < start k"
proof (induction k rule: int_gr_induct)
  case base
  show ?case by (rule step)
next
  case (step i)
  then show ?case using grid.step [OF grid_axioms, of i] by simp
qed

lemma start_less [simp]: "start j < start k \<longleftrightarrow> j < k"
  using start_mono by (metis less_asym not_less_iff_gr_or_eq)

lemma start_le [simp]: "start j \<le> start k \<longleftrightarrow> j \<le> k"
  by (simp add: not_less [symmetric] del: not_less)

lemma start_gap: "j \<le> k \<Longrightarrow> start j + (k - j) \<le> start k"
proof (induction k rule: int_ge_induct)
  case (step i)
  then show ?case using grid.step [OF grid_axioms, of i] by linarith
qed simp

lemma idx_unique: "start k \<le> t \<Longrightarrow> t < start (k + 1) \<Longrightarrow> idx t = k"
  using covers [of t] start_less [of k "idx t + 1"] start_less [of "idx t" "k + 1"] by linarith

lemma idx_start [simp]: "idx (start k) = k"
  by (rule idx_unique) (simp_all add: step)

lemma idx_mono: "t \<le> u \<Longrightarrow> idx t \<le> idx u"
  using covers [of t] covers [of u] start_less [of "idx t" "idx u + 1"] by linarith

lemma idx_ge: "k \<le> idx t \<longleftrightarrow> start k \<le> t"
  using covers(1) [of t] start_le [of k "idx t"] idx_mono [of "start k" t] by (metis idx_start order_trans)

text \<open>The start of the window of a moment: it is not later than the moment, it is the start of its own window, and
  nothing lies between.\<close>

lemma snap_idem: "start (idx (start (idx t))) = start (idx t)"
  by simp

lemma snap_mono: "t \<le> u \<Longrightarrow> start (idx t) \<le> start (idx u)"
  by (simp add: idx_mono)

lemma snap_later: "start (idx u) > t \<longleftrightarrow> idx u > idx t"
  using idx_ge [of "idx u" t] by linarith

lemma boundary: "start (idx b) = b \<longleftrightarrow> (\<exists>k. b = start k)"
  by (metis idx_start)

text \<open>The number of boundaries after one moment and up to another.\<close>

lemma boundary_count:
  assumes "t \<le> u"
  shows "int (card {b. t < b \<and> b \<le> u \<and> start (idx b) = b}) = idx u - idx t"
proof -
  have "{b. t < b \<and> b \<le> u \<and> start (idx b) = b} = start ` {idx t <.. idx u}"
  proof (intro set_eqI iffI)
    fix b assume "b \<in> {b. t < b \<and> b \<le> u \<and> start (idx b) = b}"
    then have b: "t < b" "b \<le> u" "start (idx b) = b" by auto
    then have "idx t < idx b" using idx_ge [of "idx b" t] by linarith
    moreover have "idx b \<le> idx u" using b(2) by (rule idx_mono)
    ultimately show "b \<in> start ` {idx t <.. idx u}" using b(3) by (intro image_eqI [of _ _ "idx b"]) auto
  next
    fix b assume "b \<in> start ` {idx t <.. idx u}"
    then obtain k where k: "b = start k" "idx t < k" "k \<le> idx u" by auto
    then show "b \<in> {b. t < b \<and> b \<le> u \<and> start (idx b) = b}" using idx_ge [of k t] idx_ge [of k u] by auto
  qed
  moreover have "inj start" by (rule injI) (metis less_irrefl not_less_iff_gr_or_eq start_mono)
  ultimately show ?thesis using idx_mono [OF assms] by (simp add: card_image inj_on_subset)
qed

end

section \<open>Days, weeks, months and years\<close>

lemma day_ns_pos [simp]: "0 < day_ns" "day_ns \<noteq> 0" "0 \<le> day_ns"
  by (simp_all add: day_ns_def hour_ns_def second_ns_def)

lemma day_start_le: "day_start n \<le> t \<longleftrightarrow> n \<le> day_of t"
proof -
  have t: "t div day_ns * day_ns = t - t mod day_ns" "0 \<le> t mod day_ns" "t mod day_ns < day_ns" by (simp_all add: minus_mod_eq_div_mult)
  have "(n - epoch_day) * day_ns \<le> t \<longleftrightarrow> n - epoch_day \<le> t div day_ns"
  proof
    assume "n - epoch_day \<le> t div day_ns"
    then have "(n - epoch_day) * day_ns \<le> t div day_ns * day_ns" by (rule mult_right_mono) simp
    then show "(n - epoch_day) * day_ns \<le> t" using t by linarith
  next
    assume l: "(n - epoch_day) * day_ns \<le> t"
    show "n - epoch_day \<le> t div day_ns"
    proof (rule ccontr)
      assume "\<not> ?thesis"
      then have "(t div day_ns + 1) * day_ns \<le> (n - epoch_day) * day_ns" by (intro mult_right_mono) simp_all
      then have "t div day_ns * day_ns + day_ns \<le> (n - epoch_day) * day_ns" by (simp only: distrib_right mult_1)
      then show False using l t by linarith
    qed
  qed
  then show ?thesis by (simp add: day_start_def day_of_def algebra_simps)
qed

lemma day_of_start [simp]: "day_of (day_start n) = n"
  by (simp add: day_start_def day_of_def)

lemma day_start_less [simp]: "day_start m < day_start n \<longleftrightarrow> m < n"
  by (simp add: day_start_def)

lemma grid_day: "grid day_start day_of"
proof
  fix t k
  show "day_start (day_of t) \<le> t" "t < day_start (day_of t + 1)" "day_start k < day_start (k + 1)"
    by (simp_all add: day_start_le not_le [symmetric] del: not_le)
qed

text \<open>A grid on the windows of another grid.\<close>

lemma grid_comp:
  assumes "grid s i" and "grid s' i'"
  shows "grid (\<lambda>k. s (s' k)) (\<lambda>t. i' (i t))"
proof
  fix t k
  have c: "s' (i' (i t)) \<le> i t" "i t < s' (i' (i t) + 1)" by (rule grid.covers [OF assms(2)])+
  show "s (s' (i' (i t))) \<le> t" using c(1) grid.idx_ge [OF assms(1)] by simp
  show "t < s (s' (i' (i t) + 1))" using c(2) grid.idx_ge [OF assms(1)] by (simp add: not_le [symmetric] del: not_le)
  show "s (s' k) < s (s' (k + 1))" using grid.step [OF assms(2)] grid.start_less [OF assms(1)] by simp
qed

lemma grid_div:
  fixes d c :: int
  assumes "0 < d"
  shows "grid (\<lambda>k. c + k * d) (\<lambda>t. (t - c) div d)"
proof
  fix t k
  have "(t - c) div d * d = (t - c) - (t - c) mod d" "0 \<le> (t - c) mod d" "(t - c) mod d < d" using assms by (simp_all add: minus_mod_eq_div_mult)
  then show "c + (t - c) div d * d \<le> t" "t < c + ((t - c) div d + 1) * d" by (simp_all add: distrib_right)
  show "c + k * d < c + (k + 1) * d" using assms by (simp add: distrib_right)
qed

subsection \<open>Years\<close>

text \<open>A year as a number of whole cycles.\<close>

lemma days_before_cycles:
  fixes a b c d :: int
  assumes "0 \<le> b" "b \<le> 3" "0 \<le> c" "c \<le> 24" "0 \<le> d" "d \<le> 3"
  shows "days_before_year (400 * a + 100 * b + 4 * c + d + 1) = 146097 * a + 36524 * b + 1461 * c + 365 * d"
proof -
  have "(400 * a + 100 * b + 4 * c + d) div 4 = 100 * a + 25 * b + c" "(400 * a + 100 * b + 4 * c + d) div 100 = 4 * a + b"
    "(400 * a + 100 * b + 4 * c + d) div 400 = a"
    using assms int_div_pos_eq [of "400 * a + 100 * b + 4 * c + d" 4 "100 * a + 25 * b + c" d]
      int_div_pos_eq [of "400 * a + 100 * b + 4 * c + d" 100 "4 * a + b" "4 * c + d"]
      int_div_pos_eq [of "400 * a + 100 * b + 4 * c + d" 400 a "100 * b + 4 * c + d"] by linarith+
  then show ?thesis by (simp add: days_before_year_def)
qed

lemma year_cycles:
  obtains a b c d :: int where "year_of_day n = 400 * a + 100 * b + 4 * c + d + 1"
    and "0 \<le> b" "b \<le> 3" "0 \<le> c" "c \<le> 24" "0 \<le> d" "d \<le> 3"
    and "146097 * a + 36524 * b + 1461 * c + 365 * d \<le> n"
    and "n < 146097 * a + 36524 * b + 1461 * c + 365 * d + 365 \<or>
      d = 3 \<and> n < 146097 * a + 36524 * b + 1461 * c + 365 * d + 366 \<and> (c = 24 \<longrightarrow> b = 3)"
proof -
  define a where "a = n div 146097"
  define r where "r = n mod 146097"
  define b where "b = min 3 (r div 36524)"
  define u where "u = r - 36524 * b"
  define c where "c = u div 1461"
  define v where "v = u mod 1461"
  define d where "d = min 3 (v div 365)"
  have n: "n = 146097 * a + r" and r: "0 \<le> r" "r < 146097" by (simp_all add: a_def r_def)
  have "r = 36524 * (r div 36524) + r mod 36524" "0 \<le> r mod 36524" "r mod 36524 < 36524" by simp_all
  with r have b: "0 \<le> b" "b \<le> 3" "0 \<le> u" "u < 36524 \<or> b = 3 \<and> u \<le> 36524" unfolding u_def b_def min_def by (auto split: if_splits)
  have c: "u = 1461 * c + v" "0 \<le> v" "v < 1461" unfolding c_def v_def by simp_all
  have c': "0 \<le> c" "c \<le> 24" using b(3,4) c by linarith+
  have "v = 365 * (v div 365) + v mod 365" "0 \<le> v mod 365" "v mod 365 < 365" by simp_all
  with c have d: "0 \<le> d" "d \<le> 3" "365 * d \<le> v" "v < 365 * d + 365 \<or> d = 3" unfolding d_def min_def by (auto split: if_splits)
  have y: "year_of_day n = 400 * a + 100 * b + 4 * c + d + 1"
    by (simp add: year_of_day_def Let_def a_def b_def c_def d_def r_def u_def v_def)
  show thesis
  proof (rule that [of a b c d])
    show "146097 * a + 36524 * b + 1461 * c + 365 * d \<le> n" using n c d u_def by linarith
    show "n < 146097 * a + 36524 * b + 1461 * c + 365 * d + 365 \<or>
      d = 3 \<and> n < 146097 * a + 36524 * b + 1461 * c + 365 * d + 366 \<and> (c = 24 \<longrightarrow> b = 3)"
    proof (cases "v < 365 * d + 365")
      case True
      then show ?thesis using n c u_def by linarith
    next
      case False
      then have "d = 3" using d(4) by simp
      moreover have "c = 24 \<longrightarrow> b = 3" using b c False \<open>d = 3\<close> by linarith
      ultimately show ?thesis using n c u_def by linarith
    qed
  qed (use y b c' d in simp_all)
qed

lemma days_before_next:
  fixes a b c d :: int
  assumes "0 \<le> b" "b \<le> 3" "0 \<le> c" "c \<le> 24" "0 \<le> d" "d \<le> 3"
  shows "days_before_year (400 * a + 100 * b + 4 * c + d + 1 + 1) =
     146097 * a + 36524 * b + 1461 * c + 365 * d + (if d = 3 \<and> (c = 24 \<longrightarrow> b = 3) then 366 else 365)"
proof (cases "d < 3")
  case True
  then show ?thesis using days_before_cycles [of b c "d + 1" a] assms by simp
next
  case False
  then have d: "d = 3" using assms by simp
  consider "c < 24" | "c = 24" "b < 3" | "c = 24" "b = 3" using assms by linarith
  then show ?thesis
  proof cases
    case 1
    then show ?thesis using days_before_cycles [of b "c + 1" 0 a] assms d by simp
  next
    case 2
    then show ?thesis using days_before_cycles [of "b + 1" 0 0 a] assms d by simp
  next
    case 3
    then show ?thesis using days_before_cycles [of 0 0 0 "a + 1"] d by simp
  qed
qed

lemma year_covers: "days_before_year (year_of_day n) \<le> n" "n < days_before_year (year_of_day n + 1)"
proof -
  obtain a b c d :: int where y: "year_of_day n = 400 * a + 100 * b + 4 * c + d + 1"
    and k: "0 \<le> b" "b \<le> 3" "0 \<le> c" "c \<le> 24" "0 \<le> d" "d \<le> 3"
    and n: "146097 * a + 36524 * b + 1461 * c + 365 * d \<le> n"
      "n < 146097 * a + 36524 * b + 1461 * c + 365 * d + 365 \<or>
        d = 3 \<and> n < 146097 * a + 36524 * b + 1461 * c + 365 * d + 366 \<and> (c = 24 \<longrightarrow> b = 3)"
    by (rule year_cycles)
  show "days_before_year (year_of_day n) \<le> n" unfolding y days_before_cycles [OF k] by (rule n)
  show "n < days_before_year (year_of_day n + 1)" unfolding y days_before_next [OF k] using n(2) by auto
qed

lemma div_pred:
  fixes y k :: int
  assumes "0 < k"
  shows "y div k - (y - 1) div k = (if k dvd y then 1 else 0)"
proof (cases "k dvd y")
  case True
  then obtain q where "y = k * q" by (auto elim: dvdE)
  then have "y div k = q" "(y - 1) div k = q - 1" using assms int_div_pos_eq [of "y - 1" k "q - 1" "k - 1"] by (simp_all add: algebra_simps)
  then show ?thesis using True by simp
next
  case False
  then have "0 < y mod k" "y mod k < k" using assms pos_mod_sign [of k y] pos_mod_bound [of k y] by (simp_all add: dvd_eq_mod_eq_0 order_less_le)
  then have "(y - 1) div k = y div k" using int_div_pos_eq [of "y - 1" k "y div k" "y mod k - 1"] by (simp add: algebra_simps)
  then show ?thesis using False by simp
qed

lemma leap_sum:
  "(c \<longrightarrow> b) \<Longrightarrow> (b \<longrightarrow> a) \<Longrightarrow>
    365 + (if a then 1 else 0) - (if b then 1 else 0) + (if c then 1 else 0) = (if a \<and> (\<not> b \<or> c) then 366 else (365 :: int))"
  by (cases a; cases b; cases c) simp_all

lemma days_of_year: "days_before_year (y + 1) - days_before_year y = (if is_leap y then 366 else 365)"
proof -
  have d: "400 dvd y \<longrightarrow> 100 dvd y" "100 dvd y \<longrightarrow> 4 dvd y" using dvd_trans [of 100 400 y] dvd_trans [of 4 100 y] by simp_all
  have "days_before_year (y + 1) - days_before_year y =
      365 + (y div 4 - (y - 1) div 4) - (y div 100 - (y - 1) div 100) + (y div 400 - (y - 1) div 400)"
    by (simp add: days_before_year_def)
  also have "\<dots> = 365 + (if 4 dvd y then 1 else 0) - (if 100 dvd y then 1 else 0) + (if 400 dvd y then 1 else 0)"
    by (simp only: div_pred zero_less_numeral)
  also have "\<dots> = (if is_leap y then 366 else 365)" unfolding is_leap_def by (rule leap_sum [OF d])
  finally show ?thesis .
qed

lemma grid_years: "grid days_before_year year_of_day"
proof
  fix n y
  show "days_before_year (year_of_day n) \<le> n" "n < days_before_year (year_of_day n + 1)" by (rule year_covers)+
  show "days_before_year y < days_before_year (y + 1)" using days_of_year [of y] by (auto split: if_splits)
qed

subsection \<open>Months\<close>

text \<open>Months are numbered from the January of the year 0.\<close>

definition month_start :: "int \<Rightarrow> int" where
  "month_start k = days_before_year (k div 12) + days_before_month (k div 12) (k mod 12 + 1)"

definition month_index :: "int \<Rightarrow> int" where
  "month_index n = 12 * year_of_day n + month_of_day n - 1"

lemma twelve: "0 \<le> (k::int) \<Longrightarrow> k < 12 \<Longrightarrow> k = 0 \<or> k = 1 \<or> k = 2 \<or> k = 3 \<or> k = 4 \<or> k = 5 \<or> k = 6 \<or> k = 7 \<or> k = 8 \<or> k = 9 \<or> k = 10 \<or> k = 11"
  by presburger

lemma month_start_step: "month_start k < month_start (k + 1)"
proof -
  define y where "y = k div 12"
  define m where "m = k mod 12"
  have k: "k = 12 * y + m" "0 \<le> m" "m < 12" by (simp_all add: y_def m_def)
  show ?thesis
  proof (cases "m = 11")
    case True
    then have "(k + 1) div 12 = y + 1" "(k + 1) mod 12 = 0" using k by simp_all
    then show ?thesis using True days_of_year [of y] by (simp add: month_start_def y_def [symmetric] m_def [symmetric] days_before_month_def split: if_splits)
  next
    case False
    then have "(k + 1) div 12 = y" "(k + 1) mod 12 = m + 1" using k by (simp_all add: int_div_pos_eq [of _ 12 y "m + 1"] int_mod_pos_eq [of _ 12 y "m + 1"])
    then show ?thesis using twelve [OF k(2,3)] False
      by (auto simp: month_start_def y_def [symmetric] m_def [symmetric] days_before_month_def)
  qed
qed

lemma month_of_yday:
  fixes x :: int
  assumes "0 \<le> x" and "x < (if is_leap y then 366 else 365)" and "m = int (length (filter (\<lambda>m. days_before_month y m \<le> x) [1..12]))"
  shows "1 \<le> m \<and> m \<le> 12 \<and> days_before_month y m \<le> x \<and> (m < 12 \<longrightarrow> x < days_before_month y (m + 1))"
proof -
  have l: "[1..12] = [1, 2, 3, 4, 5, 6, 7, 8, 9, 10, 11, 12 :: int]" by (simp add: upto_rec1)
  show ?thesis
  proof (cases "is_leap y")
    case True
    consider "x < 31" | "31 \<le> x" "x < 60" | "60 \<le> x" "x < 91" | "91 \<le> x" "x < 121" | "121 \<le> x" "x < 152" | "152 \<le> x" "x < 182"
      | "182 \<le> x" "x < 213" | "213 \<le> x" "x < 244" | "244 \<le> x" "x < 274" | "274 \<le> x" "x < 305" | "305 \<le> x" "x < 335" | "335 \<le> x" by linarith
    then show ?thesis using assms True unfolding l by cases (simp_all add: days_before_month_def)
  next
    case False
    consider "x < 31" | "31 \<le> x" "x < 59" | "59 \<le> x" "x < 90" | "90 \<le> x" "x < 120" | "120 \<le> x" "x < 151" | "151 \<le> x" "x < 181"
      | "181 \<le> x" "x < 212" | "212 \<le> x" "x < 243" | "243 \<le> x" "x < 273" | "273 \<le> x" "x < 304" | "304 \<le> x" "x < 334" | "334 \<le> x" by linarith
    then show ?thesis using assms False unfolding l by cases (simp_all add: days_before_month_def)
  qed
qed

lemma month_of_day_range: "1 \<le> month_of_day n" "month_of_day n \<le> 12"
  and month_of_day_covers: "days_before_month (year_of_day n) (month_of_day n) \<le> n - days_before_year (year_of_day n)"
    "month_of_day n < 12 \<Longrightarrow> n - days_before_year (year_of_day n) < days_before_month (year_of_day n) (month_of_day n + 1)"
  using month_of_yday [of "n - days_before_year (year_of_day n)" "year_of_day n" "month_of_day n"] year_covers [of n]
    days_of_year [of "year_of_day n"] by (auto simp: month_of_day_def Let_def split: if_splits)

lemma month_index_div [simp]: "month_index n div 12 = year_of_day n" "month_index n mod 12 = month_of_day n - 1"
  using month_of_day_range [of n] int_div_pos_eq [of "month_index n" 12 "year_of_day n" "month_of_day n - 1"]
    int_mod_pos_eq [of "month_index n" 12 "year_of_day n" "month_of_day n - 1"] by (simp_all add: month_index_def)

lemma grid_months: "grid month_start month_index"
proof
  fix n k
  show "month_start k < month_start (k + 1)" by (rule month_start_step)
  show "month_start (month_index n) \<le> n" using month_of_day_covers(1) [of n] by (simp add: month_start_def)
  show "n < month_start (month_index n + 1)"
  proof (cases "month_of_day n = 12")
    case True
    then have "(month_index n + 1) div 12 = year_of_day n + 1" "(month_index n + 1) mod 12 = 0" by (simp_all add: month_index_def)
    then show ?thesis using year_covers(2) [of n] by (simp add: month_start_def days_before_month_def)
  next
    case False
    have "(month_index n + 1) div 12 = year_of_day n" "(month_index n + 1) mod 12 = month_of_day n"
      using False month_of_day_range [of n] int_div_pos_eq [of "month_index n + 1" 12 "year_of_day n" "month_of_day n"]
        int_mod_pos_eq [of "month_index n + 1" 12 "year_of_day n" "month_of_day n"] by (simp_all add: month_index_def)
    then show ?thesis using month_of_day_covers(2) [of n] month_of_day_range [of n] False by (simp add: month_start_def)
  qed
qed

section \<open>Durations\<close>

text \<open>\<open>time.ParseDuration\<close>. A number is accumulated in \<open>uint64\<close> and must not exceed \<open>2^63\<close>; a fraction is
  cut off where one more digit would not fit, and scaled in \<open>float64\<close>.\<close>

definition float_div :: "float64 \<Rightarrow> float64 \<Rightarrow> float64" where
  "float_div a b =
     (let s = bit_length (nat (fst b)) + 55; n = fst a * 2 ^ s
      in round53 (2 * (n div fst b) + (if n mod fst b = 0 then 0 else 1), snd a - snd b - int s - 1))"

definition digit_val :: "char \<Rightarrow> int" where
  "digit_val c = of_char c - 48"

fun leadingInt :: "int \<Rightarrow> string \<Rightarrow> (int \<times> string) option" where
  "leadingInt x [] = Some (x, [])"
| "leadingInt x (c # s) =
     (if \<not> is_digit c then Some (x, c # s)
      else if 2 ^ 63 div 10 < x then None
      else let x' = x * 10 + digit_val c in if 2 ^ 63 < x' then None else leadingInt x' s)"

fun leadingFraction :: "int \<Rightarrow> float64 \<Rightarrow> bool \<Rightarrow> string \<Rightarrow> int \<times> float64 \<times> string" where
  "leadingFraction x scale overflow [] = (x, scale, [])"
| "leadingFraction x scale overflow (c # s) =
     (if \<not> is_digit c then (x, scale, c # s)
      else if overflow then leadingFraction x scale overflow s
      else if (2 ^ 63 - 1) div 10 < x then leadingFraction x scale True s
      else let y = x * 10 + digit_val c
           in if 2 ^ 63 < y then leadingFraction x scale True s
              else leadingFraction y (float_mul scale (10, 0)) overflow s)"

lemma leadingInt_length: "leadingInt x s = Some (v, r) \<Longrightarrow> length r \<le> length s"
  by (induction x s rule: leadingInt.induct) (auto simp: Let_def split: if_splits)

lemma leadingFraction_length: "leadingFraction x sc ov s = (v, sc', r) \<Longrightarrow> length r \<le> length s"
  by (induction x sc ov s rule: leadingFraction.induct) (auto simp: Let_def split: if_splits)

text \<open>The micro sign and the Greek letter are two bytes each.\<close>

definition unitMap :: "string \<Rightarrow> int option" where
  "unitMap u =
     map_of [(''ns'', 1), (''us'', 10 ^ 3), ([CHR 0xC2, CHR 0xB5, CHR ''s''], 10 ^ 3), ([CHR 0xCE, CHR 0xBC, CHR ''s''], 10 ^ 3),
       (''ms'', 10 ^ 6), (''s'', 10 ^ 9), (''m'', 60 * 10 ^ 9), (''h'', 3600 * 10 ^ 9)] u"

definition is_unit_char :: "char \<Rightarrow> bool" where
  "is_unit_char c \<longleftrightarrow> c \<noteq> CHR ''.'' \<and> \<not> is_digit c"

definition parse_number :: "string \<Rightarrow> (int \<times> int \<times> float64 \<times> string) option" where
  "parse_number s =
     (if s = [] \<or> is_unit_char (hd s) then None
      else case leadingInt 0 s of
        None \<Rightarrow> None
      | Some (v, s1) \<Rightarrow>
          if s1 \<noteq> [] \<and> hd s1 = CHR ''.'' then
            (case leadingFraction 0 (1, 0) False (tl s1) of
               (f, scale, s2) \<Rightarrow> if length s1 = length s \<and> length s2 = length (tl s1) then None else Some (v, f, scale, s2))
          else if length s1 = length s then None else Some (v, 0, (1, 0), s1))"

definition scaled :: "int \<Rightarrow> int \<Rightarrow> float64 \<Rightarrow> int \<Rightarrow> int option" where
  "scaled v f scale unit =
     (if 2 ^ 63 div unit < v then None
      else if f = 0 then Some (v * unit)
      else let w = v * unit + float_trunc (float_mul (float_of_int f) (float_div (float_of_int unit) scale))
           in if 2 ^ 63 < w then None else Some w)"

lemma parse_number_length: "parse_number s = Some (v, f, scale, r) \<Longrightarrow> length r \<le> length s"
  by (auto simp: parse_number_def split: if_splits option.splits prod.splits dest!: leadingInt_length leadingFraction_length)

function parse_units :: "int \<Rightarrow> string \<Rightarrow> int option" where
  "parse_units d s =
     (if s = [] then Some d
      else case parse_number s of
        None \<Rightarrow> None
      | Some (v, f, scale, s2) \<Rightarrow>
          let u = takeWhile is_unit_char s2; s3 = dropWhile is_unit_char s2
          in if u = [] then None
             else case unitMap u of
               None \<Rightarrow> None
             | Some unit \<Rightarrow>
                 (case scaled v f scale unit of
                    None \<Rightarrow> None
                  | Some w \<Rightarrow> let d' = (d + w) mod 2 ^ 64 in if 2 ^ 63 < d' then None else parse_units d' s3))"
  by pat_completeness auto

termination
proof (relation "measure (\<lambda>(d, s). length s)"; (simp; fail)?)
  fix d :: int and s :: string and x2 x xa y xb ya xc yb u s3 unit w d'
  assume "parse_number s = Some x2" "(x, xa) = x2" "(xb, y) = xa" "(ya, xc) = y" and u: "u = takeWhile is_unit_char xc" "s3 = dropWhile is_unit_char xc" "u \<noteq> []"
  then have "length xc \<le> length s" using parse_number_length by blast
  moreover have "length xc = length u + length s3" using u by (metis length_append takeWhile_dropWhile_id)
  ultimately show "((d', s3), d, s) \<in> measure (\<lambda>(d, s). length s)" using u(3) by (cases u) simp_all
qed

declare parse_units.simps [simp del]

definition go_ParseDuration :: "string \<Rightarrow> int option" where
  "go_ParseDuration s =
     (let neg = (s \<noteq> [] \<and> hd s = CHR ''-''); s = (if s \<noteq> [] \<and> (hd s = CHR ''-'' \<or> hd s = CHR ''+'') then tl s else s)
      in if s = ''0'' then Some 0
         else if s = [] then None
         else case parse_units 0 s of
           None \<Rightarrow> None
         | Some d \<Rightarrow> if neg then Some (- d) else if 2 ^ 63 - 1 < d then None else Some d)"

text \<open>\<open>ParseDuration\<close> of the tables: days, weeks, months, quarters and years are parsed as hours and multiplied, without
  a check for overflow.\<close>

definition ParseDuration :: "string \<Rightarrow> int option" where
  "ParseDuration duration =
     (if duration = [] then None
      else let n = butlast duration; hours = (\<lambda>k. map_option (\<lambda>d. wrap64 (d * k)) (go_ParseDuration (n @ ''h'')))
           in if last duration = CHR ''d'' then hours 24
              else if last duration = CHR ''w'' then hours (24 * 7)
              else if last duration = CHR ''M'' then hours (24 * 30)
              else if last duration = CHR ''Q'' then hours (24 * 90)
              else if last duration = CHR ''Y'' then hours (24 * 365)
              else go_ParseDuration duration)"

section \<open>Windows\<close>

definition QuarterStartNotApplicable :: int where
  "QuarterStartNotApplicable = 1"

definition IsCalendarAlignableDuration :: "string \<Rightarrow> bool" where
  "IsCalendarAlignableDuration duration \<longleftrightarrow> duration \<noteq> [] \<and> last duration \<in> set ''dwMQY''"

definition quarterStartAt :: "int \<Rightarrow> int \<Rightarrow> int" where
  "quarterStartAt t quarterStart =
     (let quarterStart = (if quarterStart < 1 \<or> 12 < quarterStart then 1 else quarterStart);
          absoluteMonth = time_Year t * 12 + time_Month t - 1;
          monthsIntoQuarter = go_mod (go_mod (absoluteMonth - (quarterStart - 1)) 3 + 3) 3;
          start = absoluteMonth - monthsIntoQuarter
      in first_of_month (go_div start 12) (go_mod start 12 + 1))"

definition GetCalendarPeriodStart :: "string \<Rightarrow> int \<Rightarrow> int \<Rightarrow> int" where
  "GetCalendarPeriodStart duration t quarterStart =
     (if duration = [] then t
      else let suffix = last duration
           in if suffix = CHR ''d'' then midnight t
              else if suffix = CHR ''w'' then midnight (t - go_mod (time_Weekday t + 6) 7 * day_ns)
              else if suffix = CHR ''M'' then first_of_month (time_Year t) (time_Month t)
              else if suffix = CHR ''Q'' then quarterStartAt t quarterStart
              else if suffix = CHR ''Y'' then first_of_month (time_Year t) 1
              else t)"

definition RollingWindowStart :: "int \<Rightarrow> int \<Rightarrow> int \<Rightarrow> int" where
  "RollingWindowStart anchor duration now =
     (if duration \<le> 0 then anchor
      else let elapsed = time_sub now anchor
           in if elapsed < 0 then anchor else anchor + go_div elapsed duration * duration)"

definition CountCalendarPeriods :: "string \<Rightarrow> int \<Rightarrow> int \<Rightarrow> int \<Rightarrow> int" where
  "CountCalendarPeriods duration frm til quarterStart =
     (if duration = [] \<or> til \<le> frm then 0
      else let suffix = last duration
           in if suffix = CHR ''d'' then go_div (time_sub (midnight til) (midnight frm)) day_ns
              else if suffix = CHR ''w'' then
                go_div (time_sub (GetCalendarPeriodStart ''1w'' til QuarterStartNotApplicable)
                          (GetCalendarPeriodStart ''1w'' frm QuarterStartNotApplicable)) (7 * day_ns)
              else if suffix = CHR ''M'' then (time_Year til - time_Year frm) * 12 + time_Month til - time_Month frm
              else if suffix = CHR ''Q'' then
                (let fromQuarter = quarterStartAt frm quarterStart; toQuarter = quarterStartAt til quarterStart
                 in go_div ((time_Year toQuarter - time_Year fromQuarter) * 12 + time_Month toQuarter - time_Month fromQuarter) 3)
              else if suffix = CHR ''Y'' then time_Year til - time_Year frm
              else 0)"

subsection \<open>They are grids\<close>

lemma midnight_days: "midnight (t - k * day_ns) = day_start (day_of t - k)"
proof -
  have "(t - k * day_ns) div day_ns = t div day_ns - k" using div_mult_self1 [of day_ns t "- k"] by simp
  then have "day_of (t - k * day_ns) = day_of t - k" by (simp add: day_of_def)
  then show ?thesis by (simp add: midnight_def)
qed

lemma week_start: "midnight (t - go_mod (time_Weekday t + 6) 7 * day_ns) = day_start (0 + day_of t div 7 * 7)"
proof -
  have "go_mod (time_Weekday t + 6) 7 = day_of t mod 7" unfolding time_Weekday_def by (subst go_mod_nonneg) presburger+
  then show ?thesis by (simp add: midnight_days minus_mod_eq_div_mult)
qed

lemma month_first: "first_of_month (time_Year t) (time_Month t) = day_start (month_start (month_index (day_of t)))"
  by (simp add: first_of_month_def time_Year_def time_Month_def month_start_def)

lemma first_month: "0 \<le> k \<Longrightarrow> first_of_month (go_div k 12) (go_mod k 12 + 1) = day_start (month_start k)"
  by (simp add: first_of_month_def month_start_def go_div_nonneg go_mod_nonneg)

lemma year_positive:
  assumes "zero_time \<le> t"
  shows "1 \<le> year_of_day (day_of t)"
proof -
  have "day_start 0 \<le> t" using assms by (simp add: zero_time_def day_start_def)
  then have "0 \<le> day_of t" by (simp add: day_start_le)
  moreover have "year_of_day 0 = 1" by (simp add: year_of_day_def)
  ultimately show ?thesis using grid.idx_mono [OF grid_years, of 0 "day_of t"] by simp
qed

definition quarter_offset :: "int \<Rightarrow> int" where
  "quarter_offset q = (if q < 1 \<or> 12 < q then 0 else (q - 1) mod 3)"

lemma quarter_start:
  assumes "zero_time \<le> t"
  shows "quarterStartAt t q = day_start (month_start (quarter_offset q + (month_index (day_of t) - quarter_offset q) div 3 * 3))"
proof -
  define m where "m = month_index (day_of t)"
  define p where "p = (if q < 1 \<or> 12 < q then 1 else q)"
  have m: "time_Year t * 12 + time_Month t - 1 = m" by (simp add: m_def month_index_def time_Year_def time_Month_def)
  have pos: "12 \<le> m" using year_positive [OF assms] month_of_day_range [of "day_of t"] by (simp add: m_def month_index_def)
  have p: "1 \<le> p" "p \<le> 12" "quarter_offset q = (p - 1) mod 3" by (auto simp: p_def quarter_offset_def)
  have i: "go_mod (go_mod (m - (p - 1)) 3 + 3) 3 = (m - quarter_offset q) mod 3"
    using pos p by (subst go_mod_nonneg; simp add: go_mod_nonneg) presburger+
  have s: "m - (m - quarter_offset q) mod 3 = quarter_offset q + (m - quarter_offset q) div 3 * 3" by (simp add: minus_mod_eq_div_mult [symmetric])
  have z: "0 \<le> m - (m - quarter_offset q) mod 3" using pos pos_mod_bound [of 3 "m - quarter_offset q"] by linarith
  show ?thesis unfolding quarterStartAt_def Let_def p_def [symmetric] m i first_month [OF z] unfolding s by (simp only: m_def)
qed

interpretation days: grid day_start day_of
  by (rule grid_day)

interpretation weeks: grid "\<lambda>k. day_start (0 + k * 7)" "\<lambda>t. (day_of t - 0) div 7"
  using grid_comp [OF grid_day grid_div [of 7 0]] by simp

interpretation months: grid "\<lambda>k. day_start (month_start k)" "\<lambda>t. month_index (day_of t)"
  by (rule grid_comp [OF grid_day grid_months])

interpretation years: grid "\<lambda>k. day_start (days_before_year k)" "\<lambda>t. year_of_day (day_of t)"
  by (rule grid_comp [OF grid_day grid_years])

lemma grid_quarters:
  "grid (\<lambda>k. day_start (month_start (quarter_offset q + k * 3))) (\<lambda>t. (month_index (day_of t) - quarter_offset q) div 3)"
  using grid_comp [OF months.grid_axioms grid_div [of 3 "quarter_offset q"]] by simp

lemma month_diff: "(time_Year u - time_Year t) * 12 + time_Month u - time_Month t = month_index (day_of u) - month_index (day_of t)"
  by (simp add: month_index_def time_Year_def time_Month_def)

text \<open>Whole days between two midnights.\<close>

lemma day_diff:
  assumes "0 < k" and "k \<le> 7" and "day_start (m * k) \<le> a" and "a < day_start (m * k + k)" and "day_start (n * k) \<le> b" and "b < day_start (n * k + k)"
    and "a < b" and "b - a \<le> 2 ^ 62"
  shows "go_div (time_sub (day_start (n * k)) (day_start (m * k))) (k * day_ns) = n - m"
proof -
  have e: "day_start (n * k) - day_start (m * k) = (n - m) * (k * day_ns)" by (simp add: day_start_def algebra_simps)
  have w: "day_start (m * k + k) = day_start (m * k) + k * day_ns" by (simp add: day_start_def algebra_simps)
  have "k * day_ns \<le> 7 * day_ns" using assms(2) by (intro mult_right_mono) simp_all
  then have k: "k * day_ns \<le> 604800000000000" by (simp add: day_ns_def hour_ns_def second_ns_def)
  have mn: "m \<le> n"
  proof (rule ccontr)
    assume "\<not> m \<le> n"
    then have "n * k + k \<le> m * k" using assms(1) mult_right_mono [of "n + 1" m k] by (simp add: distrib_right)
    then have "day_start (n * k + k) \<le> day_start (m * k)" using days.start_le by blast
    then show False using assms(3,6,7) by linarith
  qed
  have "(2::int) ^ 62 + 604800000000000 < 2 ^ 63" by simp
  then have "day_start (n * k) - day_start (m * k) < 2 ^ 63" using assms(4,5,8) k unfolding w by linarith
  moreover have "0 \<le> (n - m) * (k * day_ns)" using mn assms(1) by simp
  ultimately have "time_sub (day_start (n * k)) (day_start (m * k)) = (n - m) * (k * day_ns)"
    using e by (subst time_sub_exact) (simp_all add: int64_range_def)
  then show ?thesis using \<open>0 \<le> (n - m) * (k * day_ns)\<close> assms(1) by (simp add: go_div_nonneg)
qed

lemma count_days:
  assumes "a < b" and "b - a \<le> 2 ^ 62"
  shows "go_div (time_sub (midnight b) (midnight a)) day_ns = day_of b - day_of a"
  using day_diff [of 1 "day_of a" a "day_of b" b] days.covers [of a] days.covers [of b] assms by (simp add: midnight_def)

lemma count_weeks:
  assumes "a < b" and "b - a \<le> 2 ^ 62"
  shows "go_div (time_sub (day_start (0 + day_of b div 7 * 7)) (day_start (0 + day_of a div 7 * 7))) (7 * day_ns) = day_of b div 7 - day_of a div 7"
  using day_diff [of 7 "day_of a div 7" a "day_of b div 7" b] weeks.covers [of a] weeks.covers [of b] assms by (simp add: distrib_right)

lemma count_quarters:
  assumes "zero_time \<le> a" and "a \<le> b"
  shows "go_div ((time_Year (quarterStartAt b q) - time_Year (quarterStartAt a q)) * 12 + time_Month (quarterStartAt b q) - time_Month (quarterStartAt a q)) 3 =
    (month_index (day_of b) - quarter_offset q) div 3 - (month_index (day_of a) - quarter_offset q) div 3"
proof -
  have b: "zero_time \<le> b" using assms by simp
  have m: "month_index (day_of (quarterStartAt t q)) = quarter_offset q + (month_index (day_of t) - quarter_offset q) div 3 * 3" if "zero_time \<le> t" for t
    using months.idx_start unfolding quarter_start [OF that] .
  have "(month_index (day_of a) - quarter_offset q) div 3 \<le> (month_index (day_of b) - quarter_offset q) div 3"
    by (rule grid.idx_mono [OF grid_quarters assms(2)])
  then show ?thesis unfolding month_diff m [OF assms(1)] m [OF b] by (subst go_div_nonneg) simp_all
qed

lemma whole_days: "m < n \<Longrightarrow> day_start m + day_ns \<le> day_start n"
  using mult_right_mono [of "m + 1" n day_ns] by (simp add: day_start_def distrib_right left_diff_distrib)

text \<open>Each suffix has its grid, with windows of a day at least: the period start of the code is the start of the window, and the code's count is the
  difference of two window numbers.\<close>

lemma period_grid:
  assumes "IsCalendarAlignableDuration dur"
  obtains start idx where "grid start idx" and "\<forall>k. start k + day_ns \<le> start (k + 1)"
    and "\<forall>t\<ge>zero_time. GetCalendarPeriodStart dur t q = start (idx t)"
    and "\<forall>a\<ge>zero_time. \<forall>b>a. b - a \<le> 2 ^ 62 \<longrightarrow> CountCalendarPeriods dur a b q = idx b - idx a"
proof -
  have "dur \<noteq> []" and "last dur = CHR ''d'' \<or> last dur = CHR ''w'' \<or> last dur = CHR ''M'' \<or> last dur = CHR ''Q'' \<or> last dur = CHR ''Y''"
    using assms by (auto simp: IsCalendarAlignableDuration_def)
  then consider (d) "last dur = CHR ''d''" | (w) "last dur = CHR ''w''" | (M) "last dur = CHR ''M''" | (Q) "last dur = CHR ''Q''" | (Y) "last dur = CHR ''Y''"
    by blast
  then show thesis
  proof cases
    case d
    show thesis by (rule that [OF days.grid_axioms]) (use d \<open>dur \<noteq> []\<close> count_days in \<open>simp_all add: whole_days GetCalendarPeriodStart_def CountCalendarPeriods_def midnight_def\<close>)
  next
    case w
    show thesis by (rule that [OF weeks.grid_axioms])
      (use w \<open>dur \<noteq> []\<close> count_weeks in \<open>simp_all add: whole_days GetCalendarPeriodStart_def CountCalendarPeriods_def week_start\<close>)
  next
    case M
    show thesis by (rule that [OF months.grid_axioms])
      (use M \<open>dur \<noteq> []\<close> month_diff month_start_step in \<open>simp_all add: whole_days GetCalendarPeriodStart_def CountCalendarPeriods_def month_first del: left_diff_distrib_numeral right_diff_distrib_numeral\<close>)
  next
    case Q
    show thesis by (rule that [OF grid_quarters [of q]])
      (use Q \<open>dur \<noteq> []\<close> count_quarters grid.step [OF grid_comp [OF grid_months grid_div [of 3 "quarter_offset q"]]] in \<open>simp_all add: whole_days GetCalendarPeriodStart_def CountCalendarPeriods_def quarter_start Let_def\<close>)
  next
    case Y
    show thesis by (rule that [OF years.grid_axioms])
      (use Y \<open>dur \<noteq> []\<close> grid.step [OF grid_years] in \<open>simp_all add: whole_days GetCalendarPeriodStart_def CountCalendarPeriods_def first_of_month_def days_before_month_def time_Year_def\<close>)
  qed
qed

text \<open>So is a rolling window, as long as the time since its anchor fits a duration.\<close>

lemma rolling_grid:
  assumes "0 < d" and "anchor \<le> t" and "t - anchor < 2 ^ 63"
  shows "RollingWindowStart anchor d t = anchor + (t - anchor) div d * d"
  using assms by (simp add: RollingWindowStart_def Let_def time_sub_exact int64_range_def go_div_nonneg)

subsection \<open>What the code promises of its windows\<close>

lemma period_start_le:
  assumes "IsCalendarAlignableDuration dur" and "zero_time \<le> t"
  shows "GetCalendarPeriodStart dur t q \<le> t"
proof -
  obtain start idx where g: "grid start idx" and e: "\<forall>t\<ge>zero_time. GetCalendarPeriodStart dur t q = start (idx t)"
    using period_grid [OF assms(1), of q] by metis
  show ?thesis using grid.covers(1) [OF g] e assms(2) by simp
qed

lemma period_start_mono:
  assumes "IsCalendarAlignableDuration dur" and "zero_time \<le> t" and "t \<le> u"
  shows "GetCalendarPeriodStart dur t q \<le> GetCalendarPeriodStart dur u q"
proof -
  obtain start idx where g: "grid start idx" and e: "\<forall>t\<ge>zero_time. GetCalendarPeriodStart dur t q = start (idx t)"
    using period_grid [OF assms(1), of q] by metis
  show ?thesis using grid.snap_mono [OF g assms(3)] e assms(2,3) by simp
qed

lemma rolling_start_le:
  assumes "anchor \<le> t"
  shows "RollingWindowStart anchor d t \<le> t"
proof (cases "0 < d")
  case True
  define e where "e = time_sub t anchor"
  have "0 \<le> e" "e \<le> t - anchor" using assms by (simp_all add: e_def time_sub_nonneg) (simp add: time_sub_def max_int64_def min_int64_def)
  moreover have "e div d * d \<le> e" using True minus_mod_eq_div_mult [of e d] pos_mod_sign [of d e] by linarith
  ultimately show ?thesis using True by (simp add: RollingWindowStart_def Let_def e_def [symmetric] go_div_nonneg)
qed (use assms in \<open>simp add: RollingWindowStart_def\<close>)

text \<open>C32: The number of calendar periods between two moments is the number of moments after the first and up to the second
  at which a period starts, for days, weeks, months, fiscal quarters and years alike: the count that spends the cycles
  of a budget override agrees with the boundaries at which the budget is reset.\<close>

theorem count_counts_boundaries:
  assumes "IsCalendarAlignableDuration dur" and "zero_time \<le> a" and "a \<le> b" and "b - a \<le> 2 ^ 62"
  shows "CountCalendarPeriods dur a b q = int (card {x. a < x \<and> x \<le> b \<and> GetCalendarPeriodStart dur x q = x})"
proof -
  obtain start idx where g: "grid start idx" and e: "\<forall>t\<ge>zero_time. GetCalendarPeriodStart dur t q = start (idx t)"
    and c: "\<forall>a\<ge>zero_time. \<forall>b>a. b - a \<le> 2 ^ 62 \<longrightarrow> CountCalendarPeriods dur a b q = idx b - idx a"
    using period_grid [OF assms(1), of q] by metis
  have "{x. a < x \<and> x \<le> b \<and> GetCalendarPeriodStart dur x q = x} = {x. a < x \<and> x \<le> b \<and> start (idx x) = x}" using e assms(2) by auto
  moreover have "CountCalendarPeriods dur a b q = idx b - idx a"
    using c assms(2-4) by (cases "a = b") (auto simp: CountCalendarPeriods_def)
  ultimately show ?thesis using grid.boundary_count [OF g assms(3)] by simp
qed

theorem count_counts_boundaries_witness:
  "int (card {x. 1700000000000000000 < x \<and> x \<le> 1720000000000000000 \<and> GetCalendarPeriodStart ''1Q'' x 2 = x}) = 2"
proof -
  have "CountCalendarPeriods ''1Q'' 1700000000000000000 1720000000000000000 2 = 2" by code_simp
  moreover have "IsCalendarAlignableDuration ''1Q''" "zero_time \<le> 1700000000000000000" by code_simp+
  ultimately show ?thesis using count_counts_boundaries [of "''1Q''" 1700000000000000000 1720000000000000000 2] by simp
qed

end
