(* ===== verification/Budgets.thy ===== *)
theory Budgets
  imports Windows
begin

text \<open>
  Budgets and rate limits of the governance plugin: the rows (\<open>framework/configstore/tables/budget.go\<close> and
  \<open>ratelimit.go\<close>) with their windows and overrides, and the in-memory store that charges, resets and checks
  them (\<open>plugins/governance/store.go\<close>).

  Amounts of money are finite \<open>float64\<close> values; not-a-number and infinities are not modelled. The store replaces a row by
  \<open>CompareAndSwap\<close> in a loop that starts again when another writer was faster; an operation is its last, successful
  round, and the section on interleaved updates shows that concurrent loops amount to such rounds one after the other.
  Time is an argument; an operation that reads the clock several times takes a clock.
\<close>

section \<open>Rows\<close>

definition float_le :: "float64 \<Rightarrow> float64 \<Rightarrow> bool" where
  "float_le a b =
     (let e = min (snd a) (snd b) in fst a * 2 ^ nat (snd a - e) \<le> fst b * 2 ^ nat (snd b - e))"

definition float_pos :: "float64 \<Rightarrow> bool" where
  "float_pos a \<longleftrightarrow> 0 < fst a"

abbreviation float_zero :: float64 where
  "float_zero \<equiv> (0, 0)"

definition BudgetOverrideModeNone :: string where
  "BudgetOverrideModeNone = []"

definition BudgetOverrideModeCycles :: string where
  "BudgetOverrideModeCycles = ''cycles''"

definition BudgetOverrideModeForever :: string where
  "BudgetOverrideModeForever = ''forever''"

record table_budget =
  b_ID :: string
  b_MaxLimit :: float64
  b_ResetDuration :: string
  b_LastReset :: int
  b_CurrentUsage :: float64
  b_OverrideAmount :: float64
  b_OverrideMode :: string
  b_OverrideCyclesRemaining :: int
  b_OverrideCyclesTotal :: int
  b_OverrideAnchorReset :: "int option"
  b_ResetConfig :: "int option"
  b_TeamID :: "string option"
  b_VirtualKeyID :: "string option"
  b_ProviderConfigID :: "int option"
  b_ModelConfigID :: "string option"
  b_CustomerID :: "string option"
  b_IsCalendarAligned :: bool
  b_CreatedAt :: int

record table_rate_limit =
  rl_ID :: string
  rl_TokenMaxLimit :: "int option"
  rl_TokenResetDuration :: "string option"
  rl_TokenCurrentUsage :: int
  rl_TokenLastReset :: int
  rl_RequestMaxLimit :: "int option"
  rl_RequestResetDuration :: "string option"
  rl_RequestCurrentUsage :: int
  rl_RequestLastReset :: int
  rl_IsCalendarAligned :: bool
  rl_CreatedAt :: int

subsection \<open>Windows of a budget\<close>

definition QuarterStart :: "int option \<Rightarrow> int" where
  "QuarterStart c = (case c of None \<Rightarrow> 1 | Some m \<Rightarrow> if m < 1 \<or> 12 < m then 1 else m)"

definition QuarterStartMonth :: "table_budget \<Rightarrow> int" where
  "QuarterStartMonth b = QuarterStart (b_ResetConfig b)"

definition IsQuarterlyDuration :: "string \<Rightarrow> bool" where
  "IsQuarterlyDuration duration \<longleftrightarrow> duration \<noteq> [] \<and> last duration = CHR ''Q''"

definition WindowStart :: "table_budget \<Rightarrow> int \<Rightarrow> int" where
  "WindowStart b now =
     (if b_ResetDuration b = [] then b_LastReset b
      else if b_IsCalendarAligned b \<and> IsCalendarAlignableDuration (b_ResetDuration b) then
        GetCalendarPeriodStart (b_ResetDuration b) now (QuarterStartMonth b)
      else case ParseDuration (b_ResetDuration b) of
        None \<Rightarrow> b_LastReset b
      | Some duration \<Rightarrow>
          if duration \<le> 0 then b_LastReset b
          else RollingWindowStart (if b_CreatedAt b = zero_time then b_LastReset b else b_CreatedAt b) duration now)"

definition AdoptCalendarAlignment :: "table_budget \<Rightarrow> int \<Rightarrow> table_budget option" where
  "AdoptCalendarAlignment b now =
     (if \<not> b_IsCalendarAligned b \<or> \<not> IsCalendarAlignableDuration (b_ResetDuration b) then None
      else let start = WindowStart b now in if b_LastReset b < start then Some (b\<lparr>b_LastReset := start\<rparr>) else None)"

subsection \<open>Overrides\<close>

definition HasActiveOverride :: "table_budget \<Rightarrow> bool" where
  "HasActiveOverride b \<longleftrightarrow> float_pos (b_OverrideAmount b) \<and>
     (b_OverrideMode b = BudgetOverrideModeForever \<or>
      b_OverrideMode b = BudgetOverrideModeCycles \<and> 0 < b_OverrideCyclesRemaining b)"

definition EffectiveMaxLimit :: "table_budget \<Rightarrow> float64" where
  "EffectiveMaxLimit b =
     (if HasActiveOverride b then float_add (b_MaxLimit b) (b_OverrideAmount b) else b_MaxLimit b)"

definition ClearOverride :: "table_budget \<Rightarrow> table_budget" where
  "ClearOverride b =
     b\<lparr>b_OverrideAmount := float_zero, b_OverrideMode := [], b_OverrideCyclesRemaining := 0, b_OverrideCyclesTotal := 0,
       b_OverrideAnchorReset := None\<rparr>"

definition boundaryJitterTolerance :: int where
  "boundaryJitterTolerance = 1000000"

definition WindowsSinceAnchor :: "table_budget \<Rightarrow> int" where
  "WindowsSinceAnchor b =
     (case b_OverrideAnchorReset b of
        None \<Rightarrow> 0
      | Some anchor \<Rightarrow>
          if b_ResetDuration b = [] then 0
          else if b_LastReset b \<le> anchor + boundaryJitterTolerance then 0
          else if b_IsCalendarAligned b \<and> IsCalendarAlignableDuration (b_ResetDuration b) then
            CountCalendarPeriods (b_ResetDuration b) (anchor + boundaryJitterTolerance) (b_LastReset b + boundaryJitterTolerance)
              (QuarterStartMonth b)
          else case ParseDuration (b_ResetDuration b) of
            None \<Rightarrow> 0
          | Some duration \<Rightarrow>
              if duration \<le> 0 then 0
              else go_div (wrap64 (time_sub (b_LastReset b) anchor + boundaryJitterTolerance)) duration)"

definition RefreshOverrideCyclesRemaining :: "table_budget \<Rightarrow> table_budget" where
  "RefreshOverrideCyclesRemaining b =
     (if b_OverrideMode b \<noteq> BudgetOverrideModeCycles then b
      else let remaining = wrap64 (b_OverrideCyclesTotal b - WindowsSinceAnchor b)
           in if remaining \<le> 0 then ClearOverride b else b\<lparr>b_OverrideCyclesRemaining := remaining\<rparr>)"

datatype budget_error =
    OverrideModeMissing | GrantModeMissing | CyclesAmount | CyclesRemainingMissing | CyclesAnchorMissing | CyclesTotalTooSmall
  | ForeverAmount | ForeverCycles | ForeverGrant | InvalidOverrideMode string | ResetConfigNotQuarterly string | QuarterOutOfRange int
  | SeveralOwners | InvalidResetDuration string | NonPositiveResetDuration string | NegativeMaxLimit

definition validateOverride :: "table_budget \<Rightarrow> budget_error option" where
  "validateOverride b =
     (let amount = b_OverrideAmount b; remaining = b_OverrideCyclesRemaining b; total = b_OverrideCyclesTotal b;
          anchor = b_OverrideAnchorReset b
      in if b_OverrideMode b = [] then
           (if fst amount \<noteq> 0 \<or> remaining \<noteq> 0 then Some OverrideModeMissing
            else if total \<noteq> 0 \<or> anchor \<noteq> None then Some GrantModeMissing
            else None)
         else if b_OverrideMode b = BudgetOverrideModeCycles then
           (if \<not> float_pos amount then Some CyclesAmount
            else if remaining \<le> 0 then Some CyclesRemainingMissing
            else if anchor = None then Some CyclesAnchorMissing
            else if total < remaining then Some CyclesTotalTooSmall
            else None)
         else if b_OverrideMode b = BudgetOverrideModeForever then
           (if \<not> float_pos amount then Some ForeverAmount
            else if remaining \<noteq> 0 then Some ForeverCycles
            else if total \<noteq> 0 \<or> anchor \<noteq> None then Some ForeverGrant
            else None)
         else Some (InvalidOverrideMode (b_OverrideMode b)))"

definition SetOverrideAt :: "table_budget \<Rightarrow> float64 \<Rightarrow> string \<Rightarrow> int \<Rightarrow> int \<Rightarrow> budget_error + table_budget" where
  "SetOverrideAt b amount mode cyclesTotal anchor =
     (let cycles = (mode = BudgetOverrideModeCycles);
          b' = b\<lparr>b_OverrideAmount := amount, b_OverrideMode := mode, b_OverrideCyclesRemaining := cyclesTotal,
                 b_OverrideCyclesTotal := (if cycles then cyclesTotal else 0),
                 b_OverrideAnchorReset := (if cycles then Some anchor else None)\<rparr>
      in case validateOverride b' of Some e \<Rightarrow> Inl e | None \<Rightarrow> Inr b')"

definition SetOverride :: "table_budget \<Rightarrow> float64 \<Rightarrow> string \<Rightarrow> int \<Rightarrow> budget_error + table_budget" where
  "SetOverride b amount mode cyclesRemaining = SetOverrideAt b amount mode cyclesRemaining (b_LastReset b)"

definition validateResetConfig :: "table_budget \<Rightarrow> budget_error option" where
  "validateResetConfig b =
     (case b_ResetConfig b of
        None \<Rightarrow> None
      | Some month \<Rightarrow>
          if \<not> IsQuarterlyDuration (b_ResetDuration b) then Some (ResetConfigNotQuarterly (b_ResetDuration b))
          else if month \<noteq> 0 \<and> (month < 1 \<or> 12 < month) then Some (QuarterOutOfRange month)
          else None)"

definition budget_owners :: "table_budget \<Rightarrow> nat" where
  "budget_owners b =
     length (filter (\<lambda>x. x) [b_TeamID b \<noteq> None, b_VirtualKeyID b \<noteq> None, b_ProviderConfigID b \<noteq> None, b_ModelConfigID b \<noteq> None, b_CustomerID b \<noteq> None])"

definition budget_BeforeSave :: "table_budget \<Rightarrow> budget_error option" where
  "budget_BeforeSave b =
     (if 1 < budget_owners b then Some SeveralOwners
      else case ParseDuration (b_ResetDuration b) of
        None \<Rightarrow> Some (InvalidResetDuration (b_ResetDuration b))
      | Some d \<Rightarrow>
          if d \<le> 0 then Some (NonPositiveResetDuration (b_ResetDuration b))
          else if fst (b_MaxLimit b) < 0 then Some NegativeMaxLimit
          else case validateOverride b of Some e \<Rightarrow> Some e | None \<Rightarrow> validateResetConfig b)"

subsection \<open>Rate limits\<close>

datatype rate_limit_error =
    InvalidTokenDuration string | NonPositiveTokenDuration string | InvalidRequestDuration string | NonPositiveRequestDuration string
  | TokenDurationMissing | RequestDurationMissing | NonPositiveTokenLimit int | NonPositiveRequestLimit int

definition duration_error :: "(string \<Rightarrow> 'e) \<Rightarrow> (string \<Rightarrow> 'e) \<Rightarrow> string option \<Rightarrow> 'e option" where
  "duration_error invalid nonpos d =
     (case d of
        None \<Rightarrow> None
      | Some s \<Rightarrow> (case ParseDuration s of None \<Rightarrow> Some (invalid s) | Some n \<Rightarrow> if n \<le> 0 then Some (nonpos s) else None))"

definition rate_limit_BeforeSave :: "table_rate_limit \<Rightarrow> rate_limit_error option" where
  "rate_limit_BeforeSave rl =
     (case duration_error InvalidTokenDuration NonPositiveTokenDuration (rl_TokenResetDuration rl) of
        Some e \<Rightarrow> Some e
      | None \<Rightarrow>
        (case duration_error InvalidRequestDuration NonPositiveRequestDuration (rl_RequestResetDuration rl) of
           Some e \<Rightarrow> Some e
         | None \<Rightarrow>
             if rl_TokenMaxLimit rl \<noteq> None \<and> rl_TokenResetDuration rl = None then Some TokenDurationMissing
             else if rl_RequestMaxLimit rl \<noteq> None \<and> rl_RequestResetDuration rl = None then Some RequestDurationMissing
             else case rl_TokenMaxLimit rl of
               Some n \<Rightarrow>
                 if n \<le> 0 then Some (NonPositiveTokenLimit n)
                 else (case rl_RequestMaxLimit rl of Some m \<Rightarrow> if m \<le> 0 then Some (NonPositiveRequestLimit m) else None | None \<Rightarrow> None)
             | None \<Rightarrow> (case rl_RequestMaxLimit rl of Some m \<Rightarrow> if m \<le> 0 then Some (NonPositiveRequestLimit m) else None | None \<Rightarrow> None)))"

definition adopt :: "string option \<Rightarrow> int \<Rightarrow> int \<Rightarrow> int option" where
  "adopt duration lastReset now =
     (case duration of
        None \<Rightarrow> None
      | Some d \<Rightarrow>
          if \<not> IsCalendarAlignableDuration d then None
          else let start = GetCalendarPeriodStart d now QuarterStartNotApplicable in if lastReset < start then Some start else None)"

definition rl_AdoptCalendarAlignment :: "table_rate_limit \<Rightarrow> int \<Rightarrow> table_rate_limit option" where
  "rl_AdoptCalendarAlignment rl now =
     (if \<not> rl_IsCalendarAligned rl then None
      else let token = adopt (rl_TokenResetDuration rl) (rl_TokenLastReset rl) now;
               request = adopt (rl_RequestResetDuration rl) (rl_RequestLastReset rl) now
           in if token = None \<and> request = None then None
              else Some (rl\<lparr>rl_TokenLastReset := (case token of Some t \<Rightarrow> t | None \<Rightarrow> rl_TokenLastReset rl),
                            rl_RequestLastReset := (case request of Some t \<Rightarrow> t | None \<Rightarrow> rl_RequestLastReset rl)\<rparr>))"

section \<open>The store\<close>

record gstore =
  gs_budgets :: "(string, table_budget) gomap"
  gs_rateLimits :: "(string, table_rate_limit) gomap"
  gs_LastDBUsagesBudgets :: "(string, float64) gomap"
  gs_LastDBUsagesTokens :: "(string, int) gomap"
  gs_LastDBUsagesRequests :: "(string, int) gomap"
  gs_budgetResetGens :: "(string, 64 word) gomap"

definition LoadBudget :: "gstore \<Rightarrow> string \<Rightarrow> table_budget option" where
  "LoadBudget gs i = gm_get (gs_budgets gs) i"

definition put_budget :: "string \<Rightarrow> table_budget \<Rightarrow> gstore \<Rightarrow> gstore" where
  "put_budget i b gs = gs\<lparr>gs_budgets := gm_set i b (gs_budgets gs)\<rparr>"

definition storeBudget :: "string \<Rightarrow> table_budget \<Rightarrow> gstore \<Rightarrow> gstore" where
  "storeBudget i b gs = put_budget i (RefreshOverrideCyclesRemaining b) gs"

definition UpsertBudgetConfig :: "string \<Rightarrow> table_budget \<Rightarrow> gstore \<Rightarrow> gstore" where
  "UpsertBudgetConfig i config gs =
     (case LoadBudget gs i of
        None \<Rightarrow> put_budget i (RefreshOverrideCyclesRemaining config) gs
      | Some old \<Rightarrow>
          put_budget i (RefreshOverrideCyclesRemaining (config\<lparr>b_CurrentUsage := b_CurrentUsage old, b_LastReset := b_LastReset old\<rparr>)) gs)"

definition gen_of :: "gstore \<Rightarrow> string \<Rightarrow> 64 word" where
  "gen_of gs i = gm_get_or 0 (gs_budgetResetGens gs) i"

definition markBudgetResetLocked :: "string \<Rightarrow> gstore \<Rightarrow> gstore" where
  "markBudgetResetLocked i gs = gs\<lparr>gs_budgetResetGens := gm_set i (gen_of gs i + 1) (gs_budgetResetGens gs)\<rparr>"

definition SetBudgetDBBaseline :: "string \<Rightarrow> float64 \<Rightarrow> gstore \<Rightarrow> gstore" where
  "SetBudgetDBBaseline i u gs = gs\<lparr>gs_LastDBUsagesBudgets := gm_set i u (gs_LastDBUsagesBudgets gs)\<rparr>"

definition DeleteBudget :: "string \<Rightarrow> gstore \<Rightarrow> gstore" where
  "DeleteBudget i gs =
     markBudgetResetLocked i
       (gs\<lparr>gs_budgets := gm_del i (gs_budgets gs), gs_LastDBUsagesBudgets := gm_del i (gs_LastDBUsagesBudgets gs)\<rparr>)"

definition LoadRateLimit :: "gstore \<Rightarrow> string \<Rightarrow> table_rate_limit option" where
  "LoadRateLimit gs i = gm_get (gs_rateLimits gs) i"

definition put_rate_limit :: "string \<Rightarrow> table_rate_limit \<Rightarrow> gstore \<Rightarrow> gstore" where
  "put_rate_limit i rl gs = gs\<lparr>gs_rateLimits := gm_set i rl (gs_rateLimits gs)\<rparr>"

definition UpsertRateLimitConfig :: "string \<Rightarrow> table_rate_limit \<Rightarrow> gstore \<Rightarrow> gstore" where
  "UpsertRateLimitConfig i config gs =
     (case LoadRateLimit gs i of
        None \<Rightarrow> put_rate_limit i config gs
      | Some old \<Rightarrow>
          put_rate_limit i (config\<lparr>rl_TokenCurrentUsage := rl_TokenCurrentUsage old, rl_TokenLastReset := rl_TokenLastReset old,
              rl_RequestCurrentUsage := rl_RequestCurrentUsage old, rl_RequestLastReset := rl_RequestLastReset old\<rparr>) gs)"

definition SetRateLimitDBBaseline :: "string \<Rightarrow> int \<Rightarrow> int \<Rightarrow> gstore \<Rightarrow> gstore" where
  "SetRateLimitDBBaseline i tokens requests gs =
     gs\<lparr>gs_LastDBUsagesTokens := gm_set i tokens (gs_LastDBUsagesTokens gs), gs_LastDBUsagesRequests := gm_set i requests (gs_LastDBUsagesRequests gs)\<rparr>"

definition DeleteRateLimit :: "string \<Rightarrow> gstore \<Rightarrow> gstore" where
  "DeleteRateLimit i gs =
     gs\<lparr>gs_rateLimits := gm_del i (gs_rateLimits gs), gs_LastDBUsagesTokens := gm_del i (gs_LastDBUsagesTokens gs),
       gs_LastDBUsagesRequests := gm_del i (gs_LastDBUsagesRequests gs)\<rparr>"

subsection \<open>Resets\<close>

definition budgetResetTarget :: "table_budget \<Rightarrow> int \<Rightarrow> int option" where
  "budgetResetTarget b now =
     (if b_ResetDuration b = [] then None
      else if (\<not> b_IsCalendarAligned b \<or> \<not> IsCalendarAlignableDuration (b_ResetDuration b)) \<and>
          (case ParseDuration (b_ResetDuration b) of None \<Rightarrow> True | Some d \<Rightarrow> d \<le> 0) then None
      else let target = WindowStart b now in if b_LastReset b < target then Some target else None)"

definition ResetBudgetAt :: "string \<Rightarrow> int \<Rightarrow> gstore \<Rightarrow> gstore \<times> table_budget option" where
  "ResetBudgetAt i newLastReset gs =
     (case LoadBudget gs i of
        None \<Rightarrow> (gs, None)
      | Some old \<Rightarrow>
          if newLastReset \<le> b_LastReset old then (gs, None)
          else let new = RefreshOverrideCyclesRemaining (old\<lparr>b_CurrentUsage := float_zero, b_LastReset := newLastReset\<rparr>)
               in (put_budget i new gs, Some new))"

definition resetExpiredBudgetFromSnapshot :: "table_budget \<Rightarrow> int \<Rightarrow> gstore \<Rightarrow> gstore \<times> table_budget option" where
  "resetExpiredBudgetFromSnapshot b now gs =
     (case budgetResetTarget b now of
        None \<Rightarrow> (gs, None)
      | Some target \<Rightarrow>
          (case ResetBudgetAt (b_ID b) target gs of
             (gs, None) \<Rightarrow> (gs, None)
           | (gs, Some new) \<Rightarrow> (markBudgetResetLocked (b_ID new) (SetBudgetDBBaseline (b_ID new) float_zero gs), Some new)))"

text \<open>With no identifiers every budget is looked at, each at the snapshot the iteration delivers.\<close>

definition budget_snapshots :: "string list \<Rightarrow> gstore \<Rightarrow> table_budget list" where
  "budget_snapshots ids gs = (if ids = [] then map snd (gs_budgets gs) else List.map_filter (LoadBudget gs) ids)"

definition reset_one :: "int \<Rightarrow> table_budget \<Rightarrow> gstore \<times> table_budget list \<Rightarrow> gstore \<times> table_budget list" where
  "reset_one now b acc =
     (case resetExpiredBudgetFromSnapshot b now (fst acc) of
        (gs, None) \<Rightarrow> (gs, snd acc)
      | (gs, Some new) \<Rightarrow> (gs, snd acc @ [new]))"

definition ResetExpiredBudgetsInMemory :: "int \<Rightarrow> string list \<Rightarrow> gstore \<Rightarrow> gstore \<times> table_budget list" where
  "ResetExpiredBudgetsInMemory now ids gs = fold (reset_one now) (budget_snapshots ids gs) (gs, [])"

definition RebaseBudget :: "string \<Rightarrow> float64 \<Rightarrow> int option \<Rightarrow> gstore \<Rightarrow> gstore \<times> table_budget option" where
  "RebaseBudget i newUsage newLastReset gs =
     (case LoadBudget gs i of
        None \<Rightarrow> (gs, None)
      | Some old \<Rightarrow>
          (let new = RefreshOverrideCyclesRemaining
                 (old\<lparr>b_CurrentUsage := newUsage,
                      b_LastReset := (case newLastReset of Some t \<Rightarrow> max (b_LastReset old) t | None \<Rightarrow> b_LastReset old)\<rparr>)
           in (put_budget i new gs, Some new)))"

definition ResetBudgetUsageInMemory :: "string \<Rightarrow> gstore \<Rightarrow> gstore \<times> table_budget option" where
  "ResetBudgetUsageInMemory i gs =
     (case RebaseBudget i float_zero None gs of
        (gs, None) \<Rightarrow> (gs, None)
      | (gs, Some new) \<Rightarrow> (markBudgetResetLocked i (SetBudgetDBBaseline i float_zero gs), Some new))"

definition AdoptCalendarAlignmentInMemory :: "string \<Rightarrow> int \<Rightarrow> gstore \<Rightarrow> gstore \<times> bool" where
  "AdoptCalendarAlignmentInMemory i now gs =
     (case LoadBudget gs i of
        None \<Rightarrow> (gs, False)
      | Some old \<Rightarrow>
          (case AdoptCalendarAlignment (old\<lparr>b_IsCalendarAligned := True\<rparr>) now of
             None \<Rightarrow> (gs, False)
           | Some new \<Rightarrow> (put_budget i (RefreshOverrideCyclesRemaining new) gs, True)))"

definition rateLimitResetTarget :: "string option \<Rightarrow> bool \<Rightarrow> int \<Rightarrow> int \<Rightarrow> int \<Rightarrow> int option" where
  "rateLimitResetTarget resetDuration calendarAligned anchor lastReset now =
     (case resetDuration of
        None \<Rightarrow> None
      | Some d \<Rightarrow>
          if calendarAligned \<and> IsCalendarAlignableDuration d then
            (let period = GetCalendarPeriodStart d now QuarterStartNotApplicable in if lastReset < period then Some period else None)
          else case ParseDuration d of
            None \<Rightarrow> None
          | Some duration \<Rightarrow>
              if duration \<le> 0 then None
              else let target = RollingWindowStart (if anchor = zero_time then lastReset else anchor) duration now
                   in if lastReset < target then Some target else None)"

definition rateLimitResetTargets :: "table_rate_limit \<Rightarrow> int \<Rightarrow> int option \<times> int option" where
  "rateLimitResetTargets rl now =
     (rateLimitResetTarget (rl_TokenResetDuration rl) (rl_IsCalendarAligned rl) (rl_CreatedAt rl) (rl_TokenLastReset rl) now,
      rateLimitResetTarget (rl_RequestResetDuration rl) (rl_IsCalendarAligned rl) (rl_CreatedAt rl) (rl_RequestLastReset rl) now)"

definition later :: "int \<Rightarrow> int option \<Rightarrow> bool" where
  "later lastReset target = (case target of Some t \<Rightarrow> lastReset < t | None \<Rightarrow> False)"

definition ResetRateLimitAt :: "string \<Rightarrow> int option \<Rightarrow> int option \<Rightarrow> gstore \<Rightarrow> gstore \<times> table_rate_limit option" where
  "ResetRateLimitAt i token request gs =
     (if token = None \<and> request = None then (gs, None)
      else case LoadRateLimit gs i of
        None \<Rightarrow> (gs, None)
      | Some old \<Rightarrow>
          (let t = later (rl_TokenLastReset old) token; r = later (rl_RequestLastReset old) request;
               new = (if t then old\<lparr>rl_TokenCurrentUsage := 0, rl_TokenLastReset := the token\<rparr> else old);
               new = (if r then new\<lparr>rl_RequestCurrentUsage := 0, rl_RequestLastReset := the request\<rparr> else new)
           in if \<not> t \<and> \<not> r then (gs, None) else (put_rate_limit i new gs, Some new)))"

definition clear_baselines :: "string \<Rightarrow> int option \<Rightarrow> int option \<Rightarrow> gstore \<Rightarrow> gstore" where
  "clear_baselines i token request gs =
     gs\<lparr>gs_LastDBUsagesTokens := (if token \<noteq> None then gm_set i 0 (gs_LastDBUsagesTokens gs) else gs_LastDBUsagesTokens gs),
       gs_LastDBUsagesRequests := (if request \<noteq> None then gm_set i 0 (gs_LastDBUsagesRequests gs) else gs_LastDBUsagesRequests gs)\<rparr>"

definition resetExpiredRateLimitFromSnapshot :: "table_rate_limit \<Rightarrow> int \<Rightarrow> gstore \<Rightarrow> gstore \<times> table_rate_limit option" where
  "resetExpiredRateLimitFromSnapshot rl now gs =
     (case rateLimitResetTargets rl now of
        (token, request) \<Rightarrow>
          if token = None \<and> request = None then (gs, None)
          else case ResetRateLimitAt (rl_ID rl) token request gs of
            (gs, None) \<Rightarrow> (gs, None)
          | (gs, Some new) \<Rightarrow> (clear_baselines (rl_ID new) token request gs, Some new))"

definition rate_limit_snapshots :: "string list \<Rightarrow> gstore \<Rightarrow> table_rate_limit list" where
  "rate_limit_snapshots ids gs = (if ids = [] then map snd (gs_rateLimits gs) else List.map_filter (LoadRateLimit gs) ids)"

definition reset_one_limit :: "int \<Rightarrow> table_rate_limit \<Rightarrow> gstore \<times> table_rate_limit list \<Rightarrow> gstore \<times> table_rate_limit list" where
  "reset_one_limit now rl acc =
     (case resetExpiredRateLimitFromSnapshot rl now (fst acc) of
        (gs, None) \<Rightarrow> (gs, snd acc)
      | (gs, Some new) \<Rightarrow> (gs, snd acc @ [new]))"

definition ResetExpiredRateLimitsInMemory :: "int \<Rightarrow> string list \<Rightarrow> gstore \<Rightarrow> gstore \<times> table_rate_limit list" where
  "ResetExpiredRateLimitsInMemory now ids gs = fold (reset_one_limit now) (rate_limit_snapshots ids gs) (gs, [])"

definition RebaseRateLimit ::
  "string \<Rightarrow> int \<Rightarrow> int \<Rightarrow> int option \<Rightarrow> int option \<Rightarrow> gstore \<Rightarrow> gstore \<times> table_rate_limit option" where
  "RebaseRateLimit i tokens requests tokenReset requestReset gs =
     (case LoadRateLimit gs i of
        None \<Rightarrow> (gs, None)
      | Some old \<Rightarrow>
          (let new = old\<lparr>rl_TokenCurrentUsage := tokens, rl_RequestCurrentUsage := requests,
                 rl_TokenLastReset := (case tokenReset of Some t \<Rightarrow> max (rl_TokenLastReset old) t | None \<Rightarrow> rl_TokenLastReset old),
                 rl_RequestLastReset := (case requestReset of Some t \<Rightarrow> max (rl_RequestLastReset old) t | None \<Rightarrow> rl_RequestLastReset old)\<rparr>
           in (put_rate_limit i new gs, Some new)))"

definition AdoptRateLimitCalendarAlignmentInMemory :: "string \<Rightarrow> int \<Rightarrow> gstore \<Rightarrow> gstore \<times> bool" where
  "AdoptRateLimitCalendarAlignmentInMemory i now gs =
     (case LoadRateLimit gs i of
        None \<Rightarrow> (gs, False)
      | Some old \<Rightarrow>
          (case rl_AdoptCalendarAlignment (old\<lparr>rl_IsCalendarAligned := True\<rparr>) now of
             None \<Rightarrow> (gs, False)
           | Some new \<Rightarrow> (put_rate_limit i new gs, True)))"

subsection \<open>Charging\<close>

text \<open>A charge that finds the window closed leaves the reset to the shared path and starts again, a bounded number of
  times; after that it resets the row itself. The clock is read once per round and once more by the reset.\<close>

definition maxRequestTimeResetAttempts :: nat where
  "maxRequestTimeResetAttempts = 3"

fun bump_budget :: "nat \<Rightarrow> (nat \<Rightarrow> int) \<Rightarrow> string \<Rightarrow> float64 \<Rightarrow> gstore \<Rightarrow> gstore" where
  "bump_budget n clock i cost gs =
     (case LoadBudget gs i of
        None \<Rightarrow> gs
      | Some old \<Rightarrow>
          (case budgetResetTarget old (clock 0) of
             None \<Rightarrow> put_budget i (old\<lparr>b_CurrentUsage := float_add (b_CurrentUsage old) cost\<rparr>) gs
           | Some target \<Rightarrow>
               (case n of
                  Suc m \<Rightarrow> bump_budget m (\<lambda>k. clock (k + 2)) i cost (fst (ResetExpiredBudgetsInMemory (clock 1) [i] gs))
                | 0 \<Rightarrow>
                    (let new = RefreshOverrideCyclesRemaining (old\<lparr>b_CurrentUsage := float_zero, b_LastReset := target\<rparr>)
                     in put_budget i (new\<lparr>b_CurrentUsage := float_add (b_CurrentUsage new) cost\<rparr>)
                          (markBudgetResetLocked i (SetBudgetDBBaseline i float_zero gs))))))"

declare bump_budget.simps [simp del]

definition BumpBudgetUsage :: "(nat \<Rightarrow> int) \<Rightarrow> string \<Rightarrow> float64 \<Rightarrow> gstore \<Rightarrow> gstore" where
  "BumpBudgetUsage = bump_budget maxRequestTimeResetAttempts"

definition add_usage :: "int \<Rightarrow> bool \<Rightarrow> bool \<Rightarrow> table_rate_limit \<Rightarrow> table_rate_limit" where
  "add_usage tokensUsed tokens requests rl =
     rl\<lparr>rl_TokenCurrentUsage := (if tokens then wrap64 (rl_TokenCurrentUsage rl + tokensUsed) else rl_TokenCurrentUsage rl),
       rl_RequestCurrentUsage := (if requests then wrap64 (rl_RequestCurrentUsage rl + 1) else rl_RequestCurrentUsage rl)\<rparr>"

definition reset_clone :: "int option \<Rightarrow> int option \<Rightarrow> table_rate_limit \<Rightarrow> table_rate_limit" where
  "reset_clone token request rl =
     rl\<lparr>rl_TokenCurrentUsage := (if token \<noteq> None then 0 else rl_TokenCurrentUsage rl),
       rl_TokenLastReset := (case token of Some t \<Rightarrow> t | None \<Rightarrow> rl_TokenLastReset rl),
       rl_RequestCurrentUsage := (if request \<noteq> None then 0 else rl_RequestCurrentUsage rl),
       rl_RequestLastReset := (case request of Some t \<Rightarrow> t | None \<Rightarrow> rl_RequestLastReset rl)\<rparr>"

fun bump_rate_limit :: "nat \<Rightarrow> (nat \<Rightarrow> int) \<Rightarrow> string \<Rightarrow> int \<Rightarrow> bool \<Rightarrow> bool \<Rightarrow> gstore \<Rightarrow> gstore" where
  "bump_rate_limit n clock i tokensUsed tokens requests gs =
     (case LoadRateLimit gs i of
        None \<Rightarrow> gs
      | Some old \<Rightarrow>
          (case rateLimitResetTargets old (clock 0) of
             (token, request) \<Rightarrow>
               if token = None \<and> request = None then put_rate_limit i (add_usage tokensUsed tokens requests old) gs
               else case n of
                 Suc m \<Rightarrow> bump_rate_limit m (\<lambda>k. clock (k + 2)) i tokensUsed tokens requests (fst (ResetExpiredRateLimitsInMemory (clock 1) [i] gs))
               | 0 \<Rightarrow> put_rate_limit i (add_usage tokensUsed tokens requests (reset_clone token request old)) (clear_baselines i token request gs)))"

declare bump_rate_limit.simps [simp del]

definition BumpRateLimitUsage :: "(nat \<Rightarrow> int) \<Rightarrow> string \<Rightarrow> int \<Rightarrow> bool \<Rightarrow> bool \<Rightarrow> gstore \<Rightarrow> gstore" where
  "BumpRateLimitUsage = bump_rate_limit maxRequestTimeResetAttempts"

definition BumpRateLimitUsageBy :: "string \<Rightarrow> int \<Rightarrow> int \<Rightarrow> gstore \<Rightarrow> gstore" where
  "BumpRateLimitUsageBy i tokenDelta requestDelta gs =
     (if tokenDelta = 0 \<and> requestDelta = 0 then gs
      else case LoadRateLimit gs i of
        None \<Rightarrow> gs
      | Some old \<Rightarrow>
          put_rate_limit i (old\<lparr>rl_TokenCurrentUsage := wrap64 (rl_TokenCurrentUsage old + tokenDelta),
              rl_RequestCurrentUsage := wrap64 (rl_RequestCurrentUsage old + requestDelta)\<rparr>) gs)"

subsection \<open>Checking\<close>

datatype decision =
    DecisionAllow | DecisionVirtualKeyNotFound | DecisionVirtualKeyBlocked | DecisionRateLimited | DecisionBudgetExceeded
  | DecisionTokenLimited | DecisionRequestLimited | DecisionModelBlocked | DecisionProviderBlocked | DecisionMCPToolBlocked

text \<open>What goes with a decision other than \<open>DecisionAllow\<close>: the entity whose limit was reached, and for a rate limit
  which of its counters.\<close>

datatype check_error = BudgetError string | RateLimitError string bool bool

type_synonym verdict = "decision \<times> check_error option"

definition budget_exceeded :: "(string, float64) gomap \<Rightarrow> int \<Rightarrow> table_budget \<Rightarrow> bool" where
  "budget_exceeded baselines now b \<longleftrightarrow> budgetResetTarget b now = None \<and>
     float_le (EffectiveMaxLimit b) (float_add (b_CurrentUsage b) (gm_get_or float_zero baselines (b_ID b)))"

fun check_budgets :: "(string, float64) gomap \<Rightarrow> int \<Rightarrow> string \<Rightarrow> table_budget list \<Rightarrow> verdict option" where
  "check_budgets baselines now entity [] = None"
| "check_budgets baselines now entity (b # bs) =
     (if budget_exceeded baselines now b then Some (DecisionBudgetExceeded, Some (BudgetError entity))
      else check_budgets baselines now entity bs)"

fun CheckBudget :: "(string, float64) gomap \<Rightarrow> int \<Rightarrow> (string \<times> table_budget list) list \<Rightarrow> verdict" where
  "CheckBudget baselines now [] = (DecisionAllow, None)"
| "CheckBudget baselines now ((entity, budgets) # rest) =
     (case check_budgets baselines now entity budgets of Some v \<Rightarrow> v | None \<Rightarrow> CheckBudget baselines now rest)"

definition limit_expired :: "string option \<Rightarrow> int \<Rightarrow> int \<Rightarrow> bool" where
  "limit_expired resetDuration lastReset now =
     (case resetDuration of
        None \<Rightarrow> False
      | Some d \<Rightarrow> (case ParseDuration d of None \<Rightarrow> False | Some duration \<Rightarrow> duration \<le> time_sub now lastReset))"

definition limit_reached :: "int option \<Rightarrow> int \<Rightarrow> bool" where
  "limit_reached limit usage = (case limit of None \<Rightarrow> False | Some l \<Rightarrow> l \<le> usage)"

definition tokens_exceeded :: "(string, int) gomap \<Rightarrow> int \<Rightarrow> table_rate_limit \<Rightarrow> bool" where
  "tokens_exceeded baselines now rl \<longleftrightarrow>
     \<not> limit_expired (rl_TokenResetDuration rl) (rl_TokenLastReset rl) now \<and>
     limit_reached (rl_TokenMaxLimit rl) (wrap64 (rl_TokenCurrentUsage rl + gm_get_or 0 baselines (rl_ID rl)))"

definition requests_exceeded :: "(string, int) gomap \<Rightarrow> int \<Rightarrow> table_rate_limit \<Rightarrow> bool" where
  "requests_exceeded baselines now rl \<longleftrightarrow>
     \<not> limit_expired (rl_RequestResetDuration rl) (rl_RequestLastReset rl) now \<and>
     limit_reached (rl_RequestMaxLimit rl) (wrap64 (rl_RequestCurrentUsage rl + gm_get_or 0 baselines (rl_ID rl)))"

fun check_rate_limits :: "(string, int) gomap \<Rightarrow> (string, int) gomap \<Rightarrow> int \<Rightarrow> string \<Rightarrow> table_rate_limit list \<Rightarrow> verdict option" where
  "check_rate_limits tokenBase requestBase now entity [] = None"
| "check_rate_limits tokenBase requestBase now entity (rl # rls) =
     (let t = tokens_exceeded tokenBase now rl; r = requests_exceeded requestBase now rl
      in if t \<or> r then
           Some (if t \<and> r then DecisionRateLimited else if t then DecisionTokenLimited else DecisionRequestLimited,
             Some (RateLimitError entity t r))
         else check_rate_limits tokenBase requestBase now entity rls)"

fun CheckRateLimit :: "(string, int) gomap \<Rightarrow> (string, int) gomap \<Rightarrow> int \<Rightarrow> (string \<times> table_rate_limit list) list \<Rightarrow> verdict" where
  "CheckRateLimit tokenBase requestBase now [] = (DecisionAllow, None)"
| "CheckRateLimit tokenBase requestBase now ((entity, limits) # rest) =
     (case check_rate_limits tokenBase requestBase now entity limits of
        Some v \<Rightarrow> v
      | None \<Rightarrow> CheckRateLimit tokenBase requestBase now rest)"

section \<open>Lemmas\<close>

lemma refresh_frame [simp]:
  "b_ID (RefreshOverrideCyclesRemaining b) = b_ID b" "b_MaxLimit (RefreshOverrideCyclesRemaining b) = b_MaxLimit b"
  "b_ResetDuration (RefreshOverrideCyclesRemaining b) = b_ResetDuration b" "b_LastReset (RefreshOverrideCyclesRemaining b) = b_LastReset b"
  "b_CurrentUsage (RefreshOverrideCyclesRemaining b) = b_CurrentUsage b" "b_ResetConfig (RefreshOverrideCyclesRemaining b) = b_ResetConfig b"
  "b_IsCalendarAligned (RefreshOverrideCyclesRemaining b) = b_IsCalendarAligned b" "b_CreatedAt (RefreshOverrideCyclesRemaining b) = b_CreatedAt b"
  by (simp_all add: RefreshOverrideCyclesRemaining_def ClearOverride_def Let_def)

lemma load_put [simp]: "LoadBudget (put_budget i b gs) j = (if j = i then Some b else LoadBudget gs j)"
  by (simp add: LoadBudget_def put_budget_def)

lemma load_frame [simp]:
  "LoadBudget (markBudgetResetLocked i gs) j = LoadBudget gs j" "LoadBudget (SetBudgetDBBaseline i u gs) j = LoadBudget gs j"
  by (simp_all add: LoadBudget_def markBudgetResetLocked_def SetBudgetDBBaseline_def)

subsection \<open>Budgets with a window\<close>

text \<open>A budget whose windows are well defined from one moment to another: its duration is valid, and, if the windows are
  rolling ones, it has a creation time, not later than the first moment and at most 292 years before the last.\<close>

definition rolling :: "table_budget \<Rightarrow> bool" where
  "rolling b \<longleftrightarrow> \<not> (b_IsCalendarAligned b \<and> IsCalendarAlignableDuration (b_ResetDuration b))"

definition windowed :: "table_budget \<Rightarrow> int \<Rightarrow> int \<Rightarrow> bool" where
  "windowed b lo hi \<longleftrightarrow> b_ResetDuration b \<noteq> [] \<and> zero_time \<le> lo \<and>
     (rolling b \<longrightarrow>
        (case ParseDuration (b_ResetDuration b) of None \<Rightarrow> False | Some d \<Rightarrow> 0 < d) \<and>
        zero_time < b_CreatedAt b \<and> b_CreatedAt b \<le> lo \<and> hi - b_CreatedAt b < 2 ^ 63)"

text \<open>What its windows depend on.\<close>

definition same_window :: "table_budget \<Rightarrow> table_budget \<Rightarrow> bool" where
  "same_window b b' \<longleftrightarrow> b_ResetDuration b' = b_ResetDuration b \<and> b_IsCalendarAligned b' = b_IsCalendarAligned b \<and>
     b_ResetConfig b' = b_ResetConfig b \<and> b_CreatedAt b' = b_CreatedAt b"

lemma same_window_trans: "same_window a b \<Longrightarrow> same_window b c \<Longrightarrow> same_window a c"
  by (simp add: same_window_def)

lemma windowed_cong: "same_window b b' \<Longrightarrow> windowed b' lo hi = windowed b lo hi"
  by (simp add: same_window_def windowed_def rolling_def)

lemma window_cong:
  assumes "same_window b b'" and "windowed b lo hi"
  shows "WindowStart b' t = WindowStart b t"
  using assms by (auto simp: same_window_def windowed_def rolling_def WindowStart_def QuarterStartMonth_def split: option.splits)

lemma window_grid:
  assumes "windowed b lo hi"
  obtains start idx where "grid start idx" and "\<forall>t. lo \<le> t \<longrightarrow> t \<le> hi \<longrightarrow> WindowStart b t = start (idx t)"
proof (cases "rolling b")
  case True
  then obtain d where d: "ParseDuration (b_ResetDuration b) = Some d" "0 < d" "zero_time < b_CreatedAt b" "b_CreatedAt b \<le> lo" "hi - b_CreatedAt b < 2 ^ 63"
    using assms by (auto simp: windowed_def split: option.splits)
  have w: "WindowStart b t = b_CreatedAt b + (t - b_CreatedAt b) div d * d" if "lo \<le> t" "t \<le> hi" for t
    using that d True assms rolling_grid [of d "b_CreatedAt b" t] by (auto simp: WindowStart_def windowed_def rolling_def)
  show ?thesis by (rule that [OF grid_div [OF d(2), of "b_CreatedAt b"]]) (use w in blast)
next
  case False
  then have c: "b_IsCalendarAligned b" "IsCalendarAlignableDuration (b_ResetDuration b)" by (simp_all add: rolling_def)
  obtain start idx where g: "grid start idx" "\<forall>t\<ge>zero_time. GetCalendarPeriodStart (b_ResetDuration b) t (QuarterStartMonth b) = start (idx t)"
    using period_grid [OF c(2), of "QuarterStartMonth b"] by metis
  then have w: "WindowStart b t = start (idx t)" if "lo \<le> t" for t using that c assms by (simp add: WindowStart_def windowed_def)
  show ?thesis by (rule that [OF g(1)]) (use w in blast)
qed

lemma window_mono:
  assumes "windowed b lo hi" and "lo \<le> t" and "t \<le> u" and "u \<le> hi"
  shows "WindowStart b t \<le> WindowStart b u"
proof -
  obtain start idx where g: "grid start idx" "\<forall>t. lo \<le> t \<longrightarrow> t \<le> hi \<longrightarrow> WindowStart b t = start (idx t)" using window_grid [OF assms(1)] by metis
  then show ?thesis using grid.snap_mono [OF g(1) assms(3)] assms(2-4) by simp
qed

lemma window_le:
  assumes "windowed b lo hi" and "lo \<le> t" and "t \<le> hi"
  shows "WindowStart b t \<le> t"
proof -
  obtain start idx where g: "grid start idx" "\<forall>t. lo \<le> t \<longrightarrow> t \<le> hi \<longrightarrow> WindowStart b t = start (idx t)" using window_grid [OF assms(1)] by metis
  then show ?thesis using grid.covers(1) [OF g(1), of t] assms(2,3) by simp
qed

text \<open>A window that starts later than another starts after every moment of it.\<close>

lemma window_later:
  assumes "windowed b lo hi" and "lo \<le> t" and "t \<le> u" and "u \<le> hi" and "WindowStart b t < WindowStart b u"
  shows "t < WindowStart b u"
proof -
  obtain start idx where g: "grid start idx" "\<forall>t. lo \<le> t \<longrightarrow> t \<le> hi \<longrightarrow> WindowStart b t = start (idx t)" using window_grid [OF assms(1)] by metis
  then show ?thesis using grid.snap_later [OF g(1), of t u] grid.start_less [OF g(1)] assms(2-5) by simp
qed

lemma reset_target:
  assumes "windowed b lo hi"
  shows "budgetResetTarget b t = (if b_LastReset b < WindowStart b t then Some (WindowStart b t) else None)"
  using assms by (auto simp: budgetResetTarget_def windowed_def rolling_def Let_def split: option.splits)

subsection \<open>A charge\<close>

lemma reset_expired_one:
  assumes "LoadBudget gs i = Some b" and "b_ID b = i" and "windowed b lo hi" and "b_LastReset b < WindowStart b t"
  shows "LoadBudget (fst (ResetExpiredBudgetsInMemory t [i] gs)) i =
     Some (RefreshOverrideCyclesRemaining (b\<lparr>b_CurrentUsage := float_zero, b_LastReset := WindowStart b t\<rparr>))"
  using assms reset_target [OF assms(3), of t]
  by (simp add: ResetExpiredBudgetsInMemory_def budget_snapshots_def map_filter_simps reset_one_def resetExpiredBudgetFromSnapshot_def ResetBudgetAt_def Let_def)

lemma bump_at:
  assumes "LoadBudget gs i = Some b" and "b_ID b = i" and "windowed b lo hi"
  obtains b' where "LoadBudget (BumpBudgetUsage (\<lambda>_. t) i cost gs) i = Some b'" and "b_ID b' = i" and "same_window b b'"
    and "b_LastReset b' = max (b_LastReset b) (WindowStart b t)"
    and "b_CurrentUsage b' = float_add (if b_LastReset b < WindowStart b t then float_zero else b_CurrentUsage b) cost"
proof (cases "b_LastReset b < WindowStart b t")
  case False
  show ?thesis
    by (rule that [of "b\<lparr>b_CurrentUsage := float_add (b_CurrentUsage b) cost\<rparr>"])
       (use assms False reset_target [OF assms(3), of t] in
         \<open>simp_all add: BumpBudgetUsage_def maxRequestTimeResetAttempts_def bump_budget.simps same_window_def\<close>)
next
  case True
  let ?r = "RefreshOverrideCyclesRemaining (b\<lparr>b_CurrentUsage := float_zero, b_LastReset := WindowStart b t\<rparr>)"
  let ?gs = "fst (ResetExpiredBudgetsInMemory t [i] gs)"
  have r: "LoadBudget ?gs i = Some ?r" by (rule reset_expired_one [OF assms True])
  have s: "same_window b ?r" by (simp add: same_window_def)
  have "budgetResetTarget ?r t = None"
    using reset_target [of ?r lo hi t] windowed_cong [OF s] window_cong [OF s assms(3)] assms(3) by simp
  then have "BumpBudgetUsage (\<lambda>_. t) i cost gs = put_budget i (?r\<lparr>b_CurrentUsage := float_add (b_CurrentUsage ?r) cost\<rparr>) ?gs"
    using assms True reset_target [OF assms(3), of t] r
    by (simp add: BumpBudgetUsage_def maxRequestTimeResetAttempts_def numeral_3_eq_3 bump_budget.simps)
  then show ?thesis
    using True assms(2) s by (intro that [of "?r\<lparr>b_CurrentUsage := float_add (b_CurrentUsage ?r) cost\<rparr>"]) (simp_all add: same_window_def)
qed

definition charges :: "string \<Rightarrow> (int \<times> float64) list \<Rightarrow> gstore \<Rightarrow> gstore" where
  "charges i xs gs = fold (\<lambda>(t, c). BumpBudgetUsage (\<lambda>_. t) i c) xs gs"

lemma charges_snoc: "charges i (xs @ [(t, c)]) gs = BumpBudgetUsage (\<lambda>_. t) i c (charges i xs gs)"
  by (simp add: charges_def)

text \<open>What was spent since the window of a moment opened.\<close>

definition window_spend :: "table_budget \<Rightarrow> int \<Rightarrow> (int \<times> float64) list \<Rightarrow> float64" where
  "window_spend b t xs = foldl float_add float_zero (map snd (filter (\<lambda>(u, c). WindowStart b t \<le> u) xs))"

lemma charges_window:
  assumes "LoadBudget gs i = Some b" and "b_ID b = i" and "windowed b lo hi" and "b_CurrentUsage b = float_zero" and "b_LastReset b = WindowStart b lo"
    and "sorted (map fst xs)" and "\<forall>t\<in>fst ` set xs. lo \<le> t \<and> t \<le> hi"
  shows "\<exists>b'. LoadBudget (charges i xs gs) i = Some b' \<and> b_ID b' = i \<and> same_window b b' \<and>
    b_LastReset b' = WindowStart b (last (lo # map fst xs)) \<and> b_CurrentUsage b' = window_spend b (last (lo # map fst xs)) xs"
  using assms(6,7)
proof (induction xs rule: rev_induct)
  case Nil
  then show ?case using assms(1,2,4,5) by (simp add: charges_def window_spend_def same_window_def)
next
  case (snoc x xs)
  obtain t c where x: "x = (t, c)" by (cases x)
  define p where "p = last (lo # map fst xs)"
  obtain b' where b': "LoadBudget (charges i xs gs) i = Some b'" "b_ID b' = i" "same_window b b'" "b_LastReset b' = WindowStart b p" "b_CurrentUsage b' = window_spend b p xs"
    using snoc by (auto simp: sorted_append p_def)
  have le: "p \<le> t" "lo \<le> t" "t \<le> hi" "lo \<le> p" and all: "\<forall>u\<in>fst ` set xs. u \<le> p"
    using snoc(2,3) x by (cases xs rule: rev_cases; auto simp: p_def sorted_append)+
  have w: "WindowStart b' u = WindowStart b u" for u by (rule window_cong [OF b'(3) assms(3)])
  have wd: "windowed b' lo hi" using windowed_cong [OF b'(3)] assms(3) by simp
  obtain b'' where b'': "LoadBudget (charges i (xs @ [x]) gs) i = Some b''" "b_ID b'' = i" "same_window b' b''"
    "b_LastReset b'' = max (WindowStart b p) (WindowStart b t)"
    "b_CurrentUsage b'' = float_add (if WindowStart b p < WindowStart b t then float_zero else window_spend b p xs) c"
    using bump_at [OF b'(1,2) wd, of t c] unfolding x charges_snoc w b'(4,5) by blast
  have m: "WindowStart b p \<le> WindowStart b t" by (rule window_mono [OF assms(3) le(4,1,3)])
  have "b_CurrentUsage b'' = window_spend b t (xs @ [x])"
  proof (cases "WindowStart b p < WindowStart b t")
    case True
    then have "p < WindowStart b t" by (rule window_later [OF assms(3) le(4,1,3)])
    then have "filter (\<lambda>(u, c). WindowStart b t \<le> u) xs = []" using all by (fastforce simp: filter_empty_conv)
    then show ?thesis using b''(5) True window_le [OF assms(3) le(2,3)] by (simp add: window_spend_def x)
  next
    case False
    then have "WindowStart b p = WindowStart b t" using m by simp
    then show ?thesis using b''(5) window_le [OF assms(3) le(2,3)] by (simp add: window_spend_def x)
  qed
  then show ?case using b''(1-4) m same_window_trans [OF b'(3)] by (auto simp: x max_def)
qed

text \<open>C14: Whatever charges a budget receives over time, its usage afterwards is what was charged in the current window, added
  up in order, and nothing of an earlier window, for rolling and for calendar windows; its last reset is the start of
  that window.\<close>

theorem usage_is_window_spend:
  assumes "LoadBudget gs i = Some b" and "b_ID b = i" and "windowed b lo hi" and "b_CurrentUsage b = float_zero" and "b_LastReset b = WindowStart b lo"
    and "sorted (map fst (xs @ [(t, c)]))" and "\<forall>u\<in>fst ` set (xs @ [(t, c)]). lo \<le> u \<and> u \<le> hi"
  shows "map_option (\<lambda>b'. (b_LastReset b', b_CurrentUsage b')) (LoadBudget (charges i (xs @ [(t, c)]) gs) i) =
    Some (WindowStart b t, window_spend b t (xs @ [(t, c)]))"
  using charges_window [OF assms] by auto

definition daily_budget :: table_budget where
  "daily_budget =
     \<lparr>b_ID = ''b'', b_MaxLimit = (10, 0), b_ResetDuration = ''1d'', b_LastReset = 1704067200000000000, b_CurrentUsage = float_zero,
      b_OverrideAmount = float_zero, b_OverrideMode = [], b_OverrideCyclesRemaining = 0, b_OverrideCyclesTotal = 0, b_OverrideAnchorReset = None,
      b_ResetConfig = None, b_TeamID = None, b_VirtualKeyID = None, b_ProviderConfigID = None, b_ModelConfigID = None, b_CustomerID = None,
      b_IsCalendarAligned = True, b_CreatedAt = 1704060000000000000\<rparr>"

definition one_budget :: "table_budget \<Rightarrow> gstore" where
  "one_budget b = \<lparr>gs_budgets = [(b_ID b, b)], gs_rateLimits = [], gs_LastDBUsagesBudgets = [], gs_LastDBUsagesTokens = [],
     gs_LastDBUsagesRequests = [], gs_budgetResetGens = []\<rparr>"

theorem usage_is_window_spend_witness:
  "map_option (\<lambda>b'. (b_LastReset b', b_CurrentUsage b'))
     (LoadBudget (charges ''b'' ([(1704070000000000000, (3, 0)), (1704153600000000000, (1, 0))] @ [(1704160000000000000, (4, 0))]) (one_budget daily_budget)) ''b'') =
   Some (1704153600000000000, (5, 0))"
proof -
  have "windowed daily_budget 1704067200000000000 1704160000000000000" by code_simp
  moreover have "WindowStart daily_budget 1704067200000000000 = 1704067200000000000" "WindowStart daily_budget 1704160000000000000 = 1704153600000000000" by code_simp+
  moreover have "window_spend daily_budget 1704160000000000000 ([(1704070000000000000, (3, 0)), (1704153600000000000, (1, 0))] @ [(1704160000000000000, (4, 0))]) = (5, 0)"
    by code_simp
  ultimately show ?thesis
    using usage_is_window_spend [of "one_budget daily_budget" "''b''" daily_budget 1704067200000000000 1704160000000000000
        "[(1704070000000000000, (3, 0)), (1704153600000000000, (1, 0))]" 1704160000000000000 "(4, 0)"]
    by (simp add: one_budget_def LoadBudget_def) (simp add: daily_budget_def)
qed

subsection \<open>Overrides\<close>

lemma in_range: "0 \<le> x \<Longrightarrow> x \<le> 2 ^ 62 \<Longrightarrow> int64_range x"
  by (simp add: int64_range_def)

lemma wrap_in_range: "0 \<le> x \<Longrightarrow> x \<le> 2 ^ 62 \<Longrightarrow> 0 \<le> y \<Longrightarrow> y < 2 ^ 20 \<Longrightarrow> wrap64 (x + y) = x + y"
  by (rule wrap64_id_bounds) simp_all

lemma windows_since:
  assumes "windowed b lo hi" and "lo \<le> t0" and "t0 \<le> t" and "t \<le> hi" and "zero_time \<le> WindowStart b t0" and "WindowStart b t - WindowStart b t0 \<le> 2 ^ 62"
    and "rolling b \<longrightarrow> boundaryJitterTolerance < the (ParseDuration (b_ResetDuration b))"
    and "same_window b b'" and "b_LastReset b' = WindowStart b t" and "b_OverrideAnchorReset b' = Some (WindowStart b t0)"
  obtains start idx where "grid start idx" and "\<forall>t. lo \<le> t \<longrightarrow> t \<le> hi \<longrightarrow> WindowStart b t = start (idx t)"
    and "WindowsSinceAnchor b' = idx t - idx t0"
proof (cases "rolling b")
  case True
  then obtain d where d: "ParseDuration (b_ResetDuration b) = Some d" "0 < d" "zero_time < b_CreatedAt b" "b_CreatedAt b \<le> lo" "hi - b_CreatedAt b < 2 ^ 63"
    using assms(1) by (auto simp: windowed_def split: option.splits)
  define C where "C = b_CreatedAt b"
  let ?i = "\<lambda>t. (t - C) div d"
  have w: "WindowStart b u = C + ?i u * d" if "lo \<le> u" "u \<le> hi" for u
    using that d True assms(1) rolling_grid [of d C u] by (auto simp: WindowStart_def windowed_def rolling_def C_def)
  have le: "?i t0 \<le> ?i t" using assms(3) d(2) by (simp add: zdiv_mono1)
  have diff: "WindowStart b t - WindowStart b t0 = (?i t - ?i t0) * d" using w assms(2-4) by (simp add: left_diff_distrib)
  have tol: "0 \<le> boundaryJitterTolerance" "boundaryJitterTolerance < d" "boundaryJitterTolerance < 2 ^ 20" using assms(7) True d(1) by (simp_all add: boundaryJitterTolerance_def)
  have "WindowsSinceAnchor b' = ?i t - ?i t0"
  proof (cases "?i t = ?i t0")
    case True
    then have "WindowStart b t = WindowStart b t0" using diff by simp
    then show ?thesis using True assms(9,10) tol by (simp add: WindowsSinceAnchor_def)
  next
    case False
    then have "d \<le> (?i t - ?i t0) * d" using le d(2) mult_right_mono [of 1 "?i t - ?i t0" d] by simp
    then have late: "WindowStart b t0 + boundaryJitterTolerance < WindowStart b t" using diff tol by linarith
    have range: "0 \<le> (?i t - ?i t0) * d" "(?i t - ?i t0) * d \<le> 2 ^ 62"
      using diff assms(6) \<open>d \<le> (?i t - ?i t0) * d\<close> d(2) by linarith+
    have "time_sub (WindowStart b t) (WindowStart b t0) = (?i t - ?i t0) * d"
      using time_sub_exact [of "WindowStart b t" "WindowStart b t0"] in_range [OF range] unfolding diff by simp
    moreover have "wrap64 ((?i t - ?i t0) * d + boundaryJitterTolerance) = (?i t - ?i t0) * d + boundaryJitterTolerance"
      by (rule wrap_in_range [OF range tol(1,3)])
    moreover have "go_div ((?i t - ?i t0) * d + boundaryJitterTolerance) d = ?i t - ?i t0"
      using tol d(2) \<open>d \<le> (?i t - ?i t0) * d\<close> by (simp add: go_div_nonneg)
    ultimately show ?thesis
      using late True d(1,2) assms(1,8-10) by (auto simp: WindowsSinceAnchor_def same_window_def windowed_def rolling_def)
  qed
  then show ?thesis using that [OF grid_div [OF d(2), of C]] w by blast
next
  case False
  then have c: "b_IsCalendarAligned b" "IsCalendarAlignableDuration (b_ResetDuration b)" by (simp_all add: rolling_def)
  obtain start idx where g: "grid start idx" "\<forall>k. start k + day_ns \<le> start (k + 1)"
    "\<forall>t\<ge>zero_time. GetCalendarPeriodStart (b_ResetDuration b) t (QuarterStartMonth b) = start (idx t)"
    "\<forall>a\<ge>zero_time. \<forall>b'>a. b' - a \<le> 2 ^ 62 \<longrightarrow> CountCalendarPeriods (b_ResetDuration b) a b' (QuarterStartMonth b) = idx b' - idx a"
    using period_grid [OF c(2), of "QuarterStartMonth b"] by metis
  then have w: "WindowStart b u = start (idx u)" if "lo \<le> u" for u using that c assms(1) by (simp add: WindowStart_def windowed_def)
  have tol: "0 \<le> boundaryJitterTolerance" "boundaryJitterTolerance < day_ns" by (simp_all add: boundaryJitterTolerance_def day_ns_def hour_ns_def second_ns_def)
  have i: "idx (start k + boundaryJitterTolerance) = k" for k
    by (rule grid.idx_unique [OF g(1)]) (use tol spec [OF g(2), of k] in linarith)+
  have le: "idx t0 \<le> idx t" by (rule grid.idx_mono [OF g(1) assms(3)])
  have w0: "WindowStart b t0 = start (idx t0)" "WindowStart b t = start (idx t)" using w assms(2,3) by simp_all
  have "WindowsSinceAnchor b' = idx t - idx t0"
  proof (cases "idx t = idx t0")
    case True
    then show ?thesis using w0 assms(9,10) tol by (simp add: WindowsSinceAnchor_def)
  next
    case False
    then have "idx t0 + 1 \<le> idx t" using le by simp
    then have "start (idx t0 + 1) \<le> start (idx t)" by (simp add: grid.start_le [OF g(1)])
    then have late: "start (idx t0) + boundaryJitterTolerance < start (idx t)" using tol spec [OF g(2), of "idx t0"] by linarith
    have a: "zero_time \<le> start (idx t0) + boundaryJitterTolerance" using assms(5) tol(1) unfolding w0 by linarith
    have b: "start (idx t0) + boundaryJitterTolerance < start (idx t) + boundaryJitterTolerance" using late tol(1) by linarith
    have e: "start (idx t) + boundaryJitterTolerance - (start (idx t0) + boundaryJitterTolerance) \<le> 2 ^ 62" using assms(6) unfolding w0 by linarith
    have "CountCalendarPeriods (b_ResetDuration b) (start (idx t0) + boundaryJitterTolerance) (start (idx t) + boundaryJitterTolerance) (QuarterStartMonth b) = idx t - idx t0"
      using g(4) a b e i by metis
    then show ?thesis using late c w0 assms(1,8-10) by (simp add: WindowsSinceAnchor_def same_window_def windowed_def QuarterStartMonth_def)
  qed
  then show ?thesis using that [OF g(1)] w by blast
qed

text \<open>C15: An override granted for a number of windows raises the limit in exactly that many: from the window of the grant on,
  the limit includes the override as long as fewer windows have opened since, and afterwards it does not, whether a
  budget was reset at each boundary or only now.\<close>

theorem override_lives_granted_windows:
  assumes "windowed b lo hi" and "lo \<le> t0" and "t0 \<le> t" and "t \<le> hi" and "zero_time \<le> WindowStart b t0" and "WindowStart b t - WindowStart b t0 \<le> 2 ^ 62"
    and "rolling b \<longrightarrow> boundaryJitterTolerance < the (ParseDuration (b_ResetDuration b))"
    and "SetOverrideAt b amount BudgetOverrideModeCycles n (WindowStart b t0) = Inr b'" and "n < 2 ^ 62"
  shows "EffectiveMaxLimit (RefreshOverrideCyclesRemaining (b'\<lparr>b_LastReset := WindowStart b t\<rparr>)) =
    (if int (card {x. t0 < x \<and> x \<le> t \<and> WindowStart b x = x}) < n then float_add (b_MaxLimit b) amount else b_MaxLimit b)"
proof -
  let ?b = "b'\<lparr>b_LastReset := WindowStart b t\<rparr>"
  have ok: "float_pos amount" "0 < n" and b': "b' = b\<lparr>b_OverrideAmount := amount, b_OverrideMode := BudgetOverrideModeCycles,
      b_OverrideCyclesRemaining := n, b_OverrideCyclesTotal := n, b_OverrideAnchorReset := Some (WindowStart b t0)\<rparr>"
    using assms(8) by (auto simp: SetOverrideAt_def validateOverride_def Let_def BudgetOverrideModeCycles_def split: if_splits option.splits)
  have s: "same_window b ?b" "b_LastReset ?b = WindowStart b t" "b_OverrideAnchorReset ?b = Some (WindowStart b t0)" by (simp_all add: b' same_window_def)
  obtain start idx where g: "grid start idx" "\<forall>t. lo \<le> t \<longrightarrow> t \<le> hi \<longrightarrow> WindowStart b t = start (idx t)" and k: "WindowsSinceAnchor ?b = idx t - idx t0"
    using windows_since [OF assms(1-7) s] by metis
  have "{x. t0 < x \<and> x \<le> t \<and> WindowStart b x = x} = {x. t0 < x \<and> x \<le> t \<and> start (idx x) = x}" using g(2) assms(2-4) by auto
  then have card: "int (card {x. t0 < x \<and> x \<le> t \<and> WindowStart b x = x}) = idx t - idx t0" using grid.boundary_count [OF g(1) assms(3)] by simp
  have "idx t0 \<le> idx t" by (rule grid.idx_mono [OF g(1) assms(3)])
  moreover have "idx t - idx t0 \<le> 2 ^ 62" using grid.start_gap [OF g(1) \<open>idx t0 \<le> idx t\<close>] g(2) assms(2-4,6) by simp
  ultimately have "wrap64 (n - (idx t - idx t0)) = n - (idx t - idx t0)" using ok(2) assms(9) by (intro wrap64_id_bounds) simp_all
  then show ?thesis unfolding card using ok k
    by (simp add: RefreshOverrideCyclesRemaining_def EffectiveMaxLimit_def HasActiveOverride_def ClearOverride_def b' float_pos_def
        BudgetOverrideModeCycles_def BudgetOverrideModeForever_def)
qed

theorem override_lives_granted_windows_witness:
  "\<exists>b'. SetOverrideAt daily_budget (5, 0) BudgetOverrideModeCycles 2 (WindowStart daily_budget 1704070000000000000) = Inr b' \<and>
    EffectiveMaxLimit (RefreshOverrideCyclesRemaining (b'\<lparr>b_LastReset := WindowStart daily_budget 1704160000000000000\<rparr>)) =
    (if int (card {x. 1704070000000000000 < x \<and> x \<le> 1704160000000000000 \<and> WindowStart daily_budget x = x}) < 2 then float_add (10, 0) (5, 0) else (10, 0))"
proof -
  have "\<exists>b'. SetOverrideAt daily_budget (5, 0) BudgetOverrideModeCycles 2 (WindowStart daily_budget 1704070000000000000) = Inr b'"
    by (simp add: SetOverrideAt_def validateOverride_def Let_def float_pos_def BudgetOverrideModeCycles_def)
  then obtain b' where b': "SetOverrideAt daily_budget (5, 0) BudgetOverrideModeCycles 2 (WindowStart daily_budget 1704070000000000000) = Inr b'" by blast
  have w: "windowed daily_budget 1704067200000000000 1704160000000000000" "\<not> rolling daily_budget"
    "zero_time \<le> WindowStart daily_budget 1704070000000000000"
    "WindowStart daily_budget 1704160000000000000 - WindowStart daily_budget 1704070000000000000 \<le> 2 ^ 62" by code_simp+
  have m: "b_MaxLimit daily_budget = (10, 0)" by (simp add: daily_budget_def)
  show ?thesis
    using override_lives_granted_windows [OF w(1) _ _ _ w(3,4) _ b'] w(2) b' unfolding m by fastforce
qed

subsection \<open>Concurrent charges\<close>

text \<open>Several requests charge one budget at the same time. Each of them loads the row; if a reset is due it resets the row, unless
  somebody else has, and starts again; otherwise it swaps the row for one with its cost added if the row is still the one
  it loaded, and starts again if it is not. After several resets it resets the row in the swap itself; here it may
  do so at once. Every stored row is a new object, so a version number says whether
  it is the same. The log is not in the code: it records what was done to the row.\<close>

datatype charger = Begin | Loaded nat table_budget | Charged

datatype row_event = RowReset int | RowCharge nat

record race =
  rc_version :: nat
  rc_row :: table_budget
  rc_charger :: "nat \<Rightarrow> charger"
  rc_log :: "row_event list"

definition reset_row :: "int \<Rightarrow> table_budget \<Rightarrow> table_budget" where
  "reset_row t b = RefreshOverrideCyclesRemaining (b\<lparr>b_CurrentUsage := float_zero, b_LastReset := t\<rparr>)"

definition charge_row :: "float64 \<Rightarrow> table_budget \<Rightarrow> table_budget" where
  "charge_row c b = b\<lparr>b_CurrentUsage := float_add (b_CurrentUsage b) c\<rparr>"

inductive charge_step :: "(nat \<Rightarrow> float64) \<Rightarrow> race \<Rightarrow> race \<Rightarrow> bool" for cost where
  load: "rc_charger r k = Begin \<Longrightarrow> charge_step cost r (r\<lparr>rc_charger := (rc_charger r)(k := Loaded (rc_version r) (rc_row r))\<rparr>)"
| reset_due: "rc_charger r k = Loaded v b \<Longrightarrow> budgetResetTarget b now = Some t \<Longrightarrow> b_LastReset (rc_row r) < t \<Longrightarrow>
    charge_step cost r (r\<lparr>rc_version := Suc (rc_version r), rc_row := reset_row t (rc_row r), rc_charger := (rc_charger r)(k := Begin),
      rc_log := rc_log r @ [RowReset t]\<rparr>)"
| reset_done: "rc_charger r k = Loaded v b \<Longrightarrow> budgetResetTarget b now = Some t \<Longrightarrow> t \<le> b_LastReset (rc_row r) \<Longrightarrow>
    charge_step cost r (r\<lparr>rc_charger := (rc_charger r)(k := Begin)\<rparr>)"
| swap: "rc_charger r k = Loaded v b \<Longrightarrow> budgetResetTarget b now = None \<Longrightarrow> v = rc_version r \<Longrightarrow>
    charge_step cost r (r\<lparr>rc_version := Suc (rc_version r), rc_row := charge_row (cost k) b, rc_charger := (rc_charger r)(k := Charged),
      rc_log := rc_log r @ [RowCharge k]\<rparr>)"
| swap_inline: "rc_charger r k = Loaded v b \<Longrightarrow> budgetResetTarget b now = Some t \<Longrightarrow> v = rc_version r \<Longrightarrow>
    charge_step cost r (r\<lparr>rc_version := Suc (rc_version r), rc_row := charge_row (cost k) (reset_row t b), rc_charger := (rc_charger r)(k := Charged),
      rc_log := rc_log r @ [RowReset t, RowCharge k]\<rparr>)"
| lost: "rc_charger r k = Loaded v b \<Longrightarrow> v \<noteq> rc_version r \<Longrightarrow>
    charge_step cost r (r\<lparr>rc_charger := (rc_charger r)(k := Begin)\<rparr>)"

definition race_start :: "table_budget \<Rightarrow> race" where
  "race_start b = \<lparr>rc_version = 0, rc_row = b, rc_charger = (\<lambda>_. Begin), rc_log = []\<rparr>"

fun apply_event :: "(nat \<Rightarrow> float64) \<Rightarrow> row_event \<Rightarrow> table_budget \<Rightarrow> table_budget" where
  "apply_event cost (RowReset t) b = reset_row t b"
| "apply_event cost (RowCharge k) b = charge_row (cost k) b"

definition charged_in :: "row_event list \<Rightarrow> nat list" where
  "charged_in l = List.map_filter (\<lambda>e. case e of RowCharge k \<Rightarrow> Some k | RowReset t \<Rightarrow> None) l"

definition race_ok :: "(nat \<Rightarrow> float64) \<Rightarrow> table_budget \<Rightarrow> race \<Rightarrow> bool" where
  "race_ok cost b0 r \<longleftrightarrow> rc_row r = fold (apply_event cost) (rc_log r) b0 \<and>
     distinct (charged_in (rc_log r)) \<and> (\<forall>k. k \<in> set (charged_in (rc_log r)) \<longleftrightarrow> rc_charger r k = Charged) \<and>
     (\<forall>k v b. rc_charger r k = Loaded v b \<longrightarrow> v \<le> rc_version r \<and> (v = rc_version r \<longrightarrow> b = rc_row r))"

lemma charged_in_snoc [simp]:
  "charged_in (l @ [RowCharge k]) = charged_in l @ [k]" "charged_in (l @ [RowReset t]) = charged_in l" "charged_in [] = []"
  "charged_in (l @ [RowReset t, RowCharge k]) = charged_in l @ [k]"
  by (simp_all add: charged_in_def map_filter_def)

lemma race_ok_step:
  assumes "charge_step cost r r'" and "race_ok cost b0 r"
  shows "race_ok cost b0 r'"
proof -
  have old: "w \<le> rc_version r" if "rc_charger r j = Loaded w x" for j w x using assms(2) that by (simp add: race_ok_def)
  have stale: "rc_charger r j \<noteq> Loaded (Suc (rc_version r)) x" for j x using old [of j "Suc (rc_version r)" x] by auto
  show ?thesis using assms(1)
  proof cases
    case (swap k v b)
    then have "b = rc_row r" "k \<notin> set (charged_in (rc_log r))" using assms(2) by (auto simp: race_ok_def)
    then show ?thesis using assms(2) swap(1) by (auto simp: race_ok_def stale le_SucI)
  next
    case (swap_inline k v b now t)
    then have "b = rc_row r" "k \<notin> set (charged_in (rc_log r))" using assms(2) by (auto simp: race_ok_def)
    then show ?thesis using assms(2) swap_inline(1) by (auto simp: race_ok_def stale le_SucI)
  next
    case (reset_due k v b now t)
    then show ?thesis using assms(2) by (auto simp: race_ok_def stale le_SucI)
  next
    case (load k)
    then show ?thesis using assms(2) by (auto simp: race_ok_def)
  next
    case (reset_done k v b now t)
    then show ?thesis using assms(2) by (auto simp: race_ok_def)
  next
    case (lost k v b)
    then show ?thesis using assms(2) by (auto simp: race_ok_def)
  qed
qed

lemma race_ok_start: "race_ok cost b (race_start b)"
  by (simp add: race_start_def race_ok_def)

lemma race_reachable: "(charge_step cost)\<^sup>*\<^sup>* (race_start b) r \<Longrightarrow> race_ok cost b r"
  by (induction rule: rtranclp_induct) (auto intro: race_ok_step race_ok_start)



subsection \<open>Resets and checks that disagree\<close>

definition monthly_limit :: table_rate_limit where
  "monthly_limit =
     \<lparr>rl_ID = ''r'', rl_TokenMaxLimit = Some 1000, rl_TokenResetDuration = Some ''1M'', rl_TokenCurrentUsage = 5000,
      rl_TokenLastReset = 1704067200000000000, rl_RequestMaxLimit = None, rl_RequestResetDuration = None, rl_RequestCurrentUsage = 0,
      rl_RequestLastReset = 1704067200000000000, rl_IsCalendarAligned = True, rl_CreatedAt = 1704067200000000000\<rparr>"


definition file_budget :: table_budget where
  "file_budget = daily_budget\<lparr>b_IsCalendarAligned := False, b_CreatedAt := zero_time, b_LastReset := zero_time\<rparr>"

text \<open>A budget with a rolling window that was read from a configuration file without times is not enforced at first: a charge above
  its limit is followed by a check that lets the next request through, since the last reset, which starts in the
  year 1, moves at most 292 years at a time and stays overdue.\<close>

lemma unanchored_budget_unenforced:
  "budget_BeforeSave file_budget = None \<and>
   (case LoadBudget (BumpBudgetUsage (\<lambda>_. 1704160000000000000) ''b'' (100, 0) (one_budget file_budget)) ''b'' of
      None \<Rightarrow> False
    | Some b \<Rightarrow> b_CurrentUsage b = (100, 0) \<and> b_MaxLimit b = (10, 0) \<and> CheckBudget [] 1704160000000000000 [(''vk'', [b])] = (DecisionAllow, None))"
  by code_simp

end
