(* ===== verification/Hierarchy.thy ===== *)
theory Hierarchy
  imports Budgets
begin

text \<open>
  The governance hierarchy (\<open>plugins/governance/store.go\<close>): virtual keys, teams, customers, providers and model
  configurations, the budgets and rate limits that each of them owns, which of these apply to a request, and how the
  in-memory store is edited.

  The owners hold copies of their rows, of which only the identifiers are used: usage lives in the rows of
  \<open>gstore\<close>. A \<open>sync.Map\<close> holds values of one type and no nil, so that the type assertions of the code succeed.
  The map from entities to rows that a check walks is a list in the order of insertion; Go walks it in any order, which
  decides only the entity an error names. The model catalog is an argument: \<open>None\<close> where the code has none, or the function
  \<open>GetBaseModelName\<close>. The callers of the store hand over keys loaded with their provider configurations, so that the
  list is never nil. An update of usage is applied at one instant.
\<close>

section \<open>Owners\<close>

record table_customer =
  cu_ID :: string
  cu_Name :: string
  cu_RateLimitID :: "string option"
  cu_Budgets :: "table_budget list"
  cu_RateLimit :: "table_rate_limit option"
  cu_CalendarAligned :: bool

record table_team =
  tm_ID :: string
  tm_Name :: string
  tm_CustomerID :: "string option"
  tm_RateLimitID :: "string option"
  tm_Customer :: "table_customer option"
  tm_Budgets :: "table_budget list"
  tm_RateLimit :: "table_rate_limit option"
  tm_CalendarAligned :: bool

record vk_provider_config =
  pc_ID :: int
  pc_Provider :: string
  pc_Weight :: "float64 option"
  pc_AllowedModels :: whitelist
  pc_BlacklistedModels :: blacklist
  pc_AllowAllKeys :: bool
  pc_RateLimitID :: "string option"
  pc_RateLimit :: "table_rate_limit option"
  pc_Budgets :: "table_budget list"
  pc_Keys :: "string list"

record vk_mcp_config =
  vm_ClientID :: string
  vm_ClientName :: string
  vm_ToolsToExecute :: whitelist

record table_virtual_key =
  vk_ID :: string
  vk_Name :: string
  vk_Value :: string
  vk_IsActive :: "bool option"
  vk_ExpiresAt :: "int option"
  vk_ProviderConfigs :: "vk_provider_config list"
  vk_MCPConfigs :: "vk_mcp_config list"
  vk_UserID :: "string option"
  vk_TeamID :: "string option"
  vk_CustomerID :: "string option"
  vk_RateLimitID :: "string option"
  vk_CalendarAligned :: bool
  vk_Team :: "table_team option"
  vk_Customer :: "table_customer option"
  vk_RateLimit :: "table_rate_limit option"
  vk_Budgets :: "table_budget list"

record table_model_config =
  mc_ID :: string
  mc_ModelName :: string
  mc_Provider :: "string option"
  mc_Scope :: string
  mc_ScopeID :: "string option"
  mc_CalendarAligned :: bool
  mc_BudgetID :: "string option"
  mc_RateLimitID :: "string option"
  mc_Budgets :: "table_budget list"
  mc_RateLimit :: "table_rate_limit option"

record table_provider =
  tp_Name :: string
  tp_BudgetID :: "string option"
  tp_RateLimitID :: "string option"
  tp_Budget :: "table_budget option"
  tp_RateLimit :: "table_rate_limit option"

record team_model_policy =
  tmp_TeamID :: string
  tmp_Provider :: string
  tmp_AllowedModels :: "string list"
  tmp_BlacklistedModels :: "string list"

definition IsActiveValue :: "table_virtual_key \<Rightarrow> bool" where
  "IsActiveValue vk = (case vk_IsActive vk of None \<Rightarrow> True | Some a \<Rightarrow> a)"

definition IsExpiredAt :: "table_virtual_key \<Rightarrow> int \<Rightarrow> bool" where
  "IsExpiredAt vk now = (case vk_ExpiresAt vk of None \<Rightarrow> False | Some t \<Rightarrow> t \<le> now)"

datatype owner_error = BothUserAndTeam | BothUserAndCustomer | BothTeamAndCustomer

definition vk_BeforeSave :: "table_virtual_key \<Rightarrow> owner_error option" where
  "vk_BeforeSave vk =
     (if vk_UserID vk \<noteq> None \<and> vk_TeamID vk \<noteq> None then Some BothUserAndTeam
      else if vk_UserID vk \<noteq> None \<and> vk_CustomerID vk \<noteq> None then Some BothUserAndCustomer
      else if vk_TeamID vk \<noteq> None \<and> vk_CustomerID vk \<noteq> None then Some BothTeamAndCustomer
      else None)"

datatype policy_error = PolicyTeamEmpty | PolicyProviderEmpty | PolicyAllowed list_error | PolicyBlacklisted list_error

definition policy_BeforeSave :: "team_model_policy \<Rightarrow> policy_error + team_model_policy" where
  "policy_BeforeSave p =
     (let p = (if tmp_Provider p \<noteq> [] then p\<lparr>tmp_Provider := to_lower (trim_space (tmp_Provider p))\<rparr> else p)
      in if tmp_TeamID p = [] then Inl PolicyTeamEmpty
         else if tmp_Provider p = [] then Inl PolicyProviderEmpty
         else case wl_Validate (tmp_AllowedModels p) of
           Some e \<Rightarrow> Inl (PolicyAllowed e)
         | None \<Rightarrow> (case bl_Validate (tmp_BlacklistedModels p) of Some e \<Rightarrow> Inl (PolicyBlacklisted e) | None \<Rightarrow> Inr p))"

definition policy_IsUnrestricted :: "team_model_policy \<Rightarrow> bool" where
  "policy_IsUnrestricted p \<longleftrightarrow> tmp_AllowedModels p = [] \<and> tmp_BlacklistedModels p = []"

section \<open>The store\<close>

record gov =
  gv_rows :: gstore
  gv_virtualKeys :: "(string, table_virtual_key) gomap"
  gv_virtualKeysByID :: "(string, table_virtual_key) gomap"
  gv_teams :: "(string, table_team) gomap"
  gv_customers :: "(string, table_customer) gomap"
  gv_providers :: "(string, table_provider) gomap"
  gv_modelConfigs :: "(string, table_model_config) gomap"
  gv_teamModelPolicies :: "(string, team_model_policy) gomap"

type_synonym catalog = "(string \<Rightarrow> string) option"

definition on_rows :: "(gstore \<Rightarrow> gstore) \<Rightarrow> gov \<Rightarrow> gov" where
  "on_rows f gs = gs\<lparr>gv_rows := f (gv_rows gs)\<rparr>"

definition GetVirtualKey :: "gov \<Rightarrow> string \<Rightarrow> table_virtual_key option" where
  "GetVirtualKey gs value = gm_get (gv_virtualKeys gs) value"

definition GetVirtualKeyByID :: "gov \<Rightarrow> string \<Rightarrow> table_virtual_key option" where
  "GetVirtualKeyByID gs i = gm_get (gv_virtualKeysByID gs) i"

definition storeVirtualKey :: "string \<Rightarrow> table_virtual_key \<Rightarrow> gov \<Rightarrow> gov" where
  "storeVirtualKey value vk gs =
     (if value = [] then gs
      else gs\<lparr>gv_virtualKeys := gm_set value vk (gv_virtualKeys gs),
              gv_virtualKeysByID := (if vk_ID vk \<noteq> [] then gm_set (vk_ID vk) vk (gv_virtualKeysByID gs) else gv_virtualKeysByID gs)\<rparr>)"

definition deleteVirtualKeyByValue :: "string \<Rightarrow> gov \<Rightarrow> gov" where
  "deleteVirtualKeyByValue value gs =
     gs\<lparr>gv_virtualKeysByID :=
          (case GetVirtualKey gs value of
             Some vk \<Rightarrow> if vk_ID vk \<noteq> [] then gm_del (vk_ID vk) (gv_virtualKeysByID gs) else gv_virtualKeysByID gs
           | None \<Rightarrow> gv_virtualKeysByID gs),
        gv_virtualKeys := gm_del value (gv_virtualKeys gs)\<rparr>"

subsection \<open>Model configurations that apply to a request\<close>

definition ModelConfigScopeGlobal :: string where
  "ModelConfigScopeGlobal = ''global''"

definition ModelConfigScopeVirtualKey :: string where
  "ModelConfigScopeVirtualKey = ''virtual_key''"

definition ModelConfigScopeUser :: string where
  "ModelConfigScopeUser = ''user''"

definition modelConfigWildcard :: string where
  "modelConfigWildcard = ''*''"

definition modelConfigStoreKey :: "string \<Rightarrow> string \<Rightarrow> string \<Rightarrow> string option \<Rightarrow> string" where
  "modelConfigStoreKey scope scopeID modelKey prov =
     (let base = (case prov of None \<Rightarrow> modelKey | Some p \<Rightarrow> modelKey @ '':'' @ p)
      in if scope = [] \<or> scope = ModelConfigScopeGlobal then base else scope @ '':'' @ scopeID @ '':'' @ base)"

definition nonGlobalModelConfigScopeChain :: "table_virtual_key \<Rightarrow> (string \<times> string) list" where
  "nonGlobalModelConfigScopeChain vk = [(ModelConfigScopeVirtualKey, vk_ID vk)]"

definition loadKey :: "gov \<Rightarrow> string \<Rightarrow> string \<Rightarrow> string \<Rightarrow> string option \<Rightarrow> table_model_config option" where
  "loadKey gs scope scopeID modelKey prov = gm_get (gv_modelConfigs gs) (modelConfigStoreKey scope scopeID modelKey prov)"

definition findScopedModelOnlyConfig :: "catalog \<Rightarrow> gov \<Rightarrow> string \<Rightarrow> string \<Rightarrow> string \<Rightarrow> table_model_config option" where
  "findScopedModelOnlyConfig catalog gs scope scopeID model =
     (case catalog of
        None \<Rightarrow> loadKey gs scope scopeID model None
      | Some base \<Rightarrow>
          if base model \<noteq> model then
            (case loadKey gs scope scopeID (base model) None of Some mc \<Rightarrow> Some mc | None \<Rightarrow> loadKey gs scope scopeID model None)
          else loadKey gs scope scopeID model None)"

definition providerStr :: "string \<Rightarrow> string option" where
  "providerStr p = (if p = [] then None else Some p)"

definition add_config :: "table_model_config option \<Rightarrow> table_model_config list \<Rightarrow> table_model_config list" where
  "add_config mc out =
     (case mc of None \<Rightarrow> out | Some m \<Rightarrow> if mc_ID m \<in> set (map mc_ID out) then out else out @ [m])"

definition collectModelConfigsFor ::
  "catalog \<Rightarrow> gov \<Rightarrow> string \<Rightarrow> string \<Rightarrow> string \<Rightarrow> string option \<Rightarrow> table_model_config list" where
  "collectModelConfigsFor catalog gs scope scopeID model prov =
     (let out = (if prov \<noteq> None then add_config (loadKey gs scope scopeID model prov) [] else []);
          out = add_config (findScopedModelOnlyConfig catalog gs scope scopeID model) out;
          out = (if prov \<noteq> None then add_config (loadKey gs scope scopeID modelConfigWildcard prov) out else out)
      in add_config (loadKey gs scope scopeID modelConfigWildcard None) out)"

definition modelConfigEntityKey :: "table_model_config \<Rightarrow> string" where
  "modelConfigEntityKey mc =
     ''Model:'' @ (if mc_ModelName mc = modelConfigWildcard then ''AllModels'' else mc_ModelName mc) @
     (case mc_Provider mc of None \<Rightarrow> [] | Some p \<Rightarrow> '':Provider:'' @ p) @
     (if mc_Scope mc \<noteq> [] \<and> mc_Scope mc \<noteq> ModelConfigScopeGlobal then
        '':'' @ mc_Scope mc @ '':'' @ (case mc_ScopeID mc of None \<Rightarrow> [] | Some i \<Rightarrow> i)
      else [])"

text \<open>The live rows behind the rows an owner embeds.\<close>

definition hot_budgets :: "gov \<Rightarrow> table_budget list \<Rightarrow> table_budget list" where
  "hot_budgets gs bs = List.map_filter (\<lambda>b. LoadBudget (gv_rows gs) (b_ID b)) bs"

definition hot_limit :: "gov \<Rightarrow> string option \<Rightarrow> table_rate_limit option" where
  "hot_limit gs i = Option.bind i (LoadRateLimit (gv_rows gs))"

definition loadModelConfigBudgets :: "gov \<Rightarrow> table_model_config \<Rightarrow> table_budget list" where
  "loadModelConfigBudgets gs mc = hot_budgets gs (mc_Budgets mc)"

definition add_info :: "table_budget list \<Rightarrow> table_budget list \<Rightarrow> table_budget list" where
  "add_info news out = foldl (\<lambda>out b. if b_ID b \<in> set (map b_ID out) then out else out @ [b]) out news"

definition CollectBudgetsForModelConfigs :: "gov \<Rightarrow> table_model_config list \<Rightarrow> table_budget list" where
  "CollectBudgetsForModelConfigs gs mcs = add_info (concat (map (loadModelConfigBudgets gs) mcs)) []"

subsection \<open>The hierarchy above a virtual key\<close>

definition append_row :: "string \<Rightarrow> 'a \<Rightarrow> (string, 'a list) gomap \<Rightarrow> (string, 'a list) gomap" where
  "append_row category x m = gm_set category (gm_get_or [] m category @ [x]) m"

definition append_limit ::
  "gov \<Rightarrow> string \<Rightarrow> string option \<Rightarrow> (string, table_rate_limit list) gomap \<Rightarrow> (string, table_rate_limit list) gomap" where
  "append_limit gs category i m = (case hot_limit gs i of None \<Rightarrow> m | Some rl \<Rightarrow> append_row category rl m)"

definition vk_team :: "gov \<Rightarrow> table_virtual_key \<Rightarrow> table_team option" where
  "vk_team gs vk = Option.bind (vk_TeamID vk) (gm_get (gv_teams gs))"

text \<open>The customer behind the team, and the customer of the key itself unless it is the same.\<close>

definition team_customer_id :: "gov \<Rightarrow> table_virtual_key \<Rightarrow> string" where
  "team_customer_id gs vk = (case Option.bind (vk_team gs vk) tm_CustomerID of None \<Rightarrow> [] | Some c \<Rightarrow> c)"

definition team_customer :: "gov \<Rightarrow> table_virtual_key \<Rightarrow> table_customer option" where
  "team_customer gs vk = Option.bind (Option.bind (vk_team gs vk) tm_CustomerID) (gm_get (gv_customers gs))"

definition own_customer :: "gov \<Rightarrow> table_virtual_key \<Rightarrow> table_customer option" where
  "own_customer gs vk =
     (case vk_CustomerID vk of
        None \<Rightarrow> None
      | Some c \<Rightarrow>
          if team_customer_id gs vk = [] \<or> c \<noteq> team_customer_id gs vk then gm_get (gv_customers gs) c else None)"

definition collectRateLimitsFromHierarchy ::
  "gov \<Rightarrow> table_virtual_key \<Rightarrow> string \<Rightarrow> (string, table_rate_limit list) gomap" where
  "collectRateLimitsFromHierarchy gs vk requested =
     (let m = foldl (\<lambda>m pc. if pc_Provider pc = requested then append_limit gs (pc_Provider pc) (pc_RateLimitID pc) m else m)
                [] (vk_ProviderConfigs vk);
          m = append_limit gs ''VK'' (vk_RateLimitID vk) m;
          m = append_limit gs ''Team'' (Option.bind (vk_team gs vk) tm_RateLimitID) m;
          m = append_limit gs ''Customer'' (Option.bind (team_customer gs vk) cu_RateLimitID) m
      in append_limit gs ''Customer'' (Option.bind (own_customer gs vk) cu_RateLimitID) m)"

type_synonym budget_groups = "(string, table_budget list) gomap \<times> string list"

definition append_budget :: "string \<Rightarrow> table_budget \<Rightarrow> budget_groups \<Rightarrow> budget_groups" where
  "append_budget category b acc = (append_row category b (fst acc), b_ID b # snd acc)"

definition collect_new :: "gov \<Rightarrow> string \<Rightarrow> table_budget list \<Rightarrow> budget_groups \<Rightarrow> budget_groups" where
  "collect_new gs category bs acc =
     foldl (\<lambda>acc b.
         if b_ID b \<in> set (snd acc) then acc
         else case LoadBudget (gv_rows gs) (b_ID b) of None \<Rightarrow> acc | Some hot \<Rightarrow> append_budget category hot acc)
       acc bs"

definition collect_all :: "gov \<Rightarrow> string \<Rightarrow> table_budget list \<Rightarrow> budget_groups \<Rightarrow> budget_groups" where
  "collect_all gs category bs acc = foldl (\<lambda>acc hot. append_budget category hot acc) acc (hot_budgets gs bs)"

definition owned_rows :: "('a \<Rightarrow> table_budget list) \<Rightarrow> 'a option \<Rightarrow> table_budget list" where
  "owned_rows f x = (case x of None \<Rightarrow> [] | Some y \<Rightarrow> f y)"

definition collectBudgetsFromHierarchy ::
  "gov \<Rightarrow> table_virtual_key \<Rightarrow> string \<Rightarrow> (string, table_budget list) gomap" where
  "collectBudgetsFromHierarchy gs vk requested =
     (let acc = foldl (\<lambda>acc pc. if pc_Provider pc \<noteq> requested then acc else collect_new gs (pc_Provider pc) (pc_Budgets pc) acc)
                  ([], []) (vk_ProviderConfigs vk);
          acc = collect_new gs ''VK'' (vk_Budgets vk) acc;
          acc = collect_new gs ''Team'' (owned_rows tm_Budgets (vk_team gs vk)) acc;
          acc = collect_all gs ''Customer'' (owned_rows cu_Budgets (team_customer gs vk)) acc
      in fst (collect_all gs ''Customer'' (owned_rows cu_Budgets (own_customer gs vk)) acc))"

definition CollectBudgetsForVK :: "gov \<Rightarrow> table_virtual_key \<Rightarrow> string \<Rightarrow> table_budget list" where
  "CollectBudgetsForVK gs vk requested = concat (map snd (collectBudgetsFromHierarchy gs vk requested))"

definition collectBudgetIDsFromMemory :: "gov \<Rightarrow> table_virtual_key \<Rightarrow> string \<Rightarrow> string list" where
  "collectBudgetIDsFromMemory gs vk prov = map b_ID (concat (map snd (collectBudgetsFromHierarchy gs vk prov)))"

definition collectRateLimitIDsFromMemory :: "gov \<Rightarrow> table_virtual_key \<Rightarrow> string \<Rightarrow> string list" where
  "collectRateLimitIDsFromMemory gs vk prov = map rl_ID (concat (map snd (collectRateLimitsFromHierarchy gs vk prov)))"

definition CollectTeamBudgets :: "gov \<Rightarrow> string \<Rightarrow> table_budget list" where
  "CollectTeamBudgets gs teamID =
     (if teamID = [] then [] else hot_budgets gs (owned_rows tm_Budgets (gm_get (gv_teams gs) teamID)))"

definition CollectTeamRateLimits :: "gov \<Rightarrow> string \<Rightarrow> table_rate_limit list" where
  "CollectTeamRateLimits gs teamID =
     (if teamID = [] then []
      else case hot_limit gs (Option.bind (gm_get (gv_teams gs) teamID) tm_RateLimitID) of None \<Rightarrow> [] | Some rl \<Rightarrow> [rl])"

definition CollectCustomerBudgets :: "gov \<Rightarrow> string \<Rightarrow> table_budget list" where
  "CollectCustomerBudgets gs customerID =
     (if customerID = [] then [] else hot_budgets gs (owned_rows cu_Budgets (gm_get (gv_customers gs) customerID)))"

definition CollectCustomerRateLimits :: "gov \<Rightarrow> string \<Rightarrow> table_rate_limit list" where
  "CollectCustomerRateLimits gs customerID =
     (if customerID = [] then []
      else case hot_limit gs (Option.bind (gm_get (gv_customers gs) customerID) cu_RateLimitID) of None \<Rightarrow> [] | Some rl \<Rightarrow> [rl])"

definition GetTeamCustomerID :: "gov \<Rightarrow> string \<Rightarrow> string" where
  "GetTeamCustomerID gs teamID =
     (if teamID = [] then []
      else case Option.bind (gm_get (gv_teams gs) teamID) tm_CustomerID of None \<Rightarrow> [] | Some c \<Rightarrow> c)"

definition GetTeamName :: "gov \<Rightarrow> string \<Rightarrow> string" where
  "GetTeamName gs teamID =
     (if teamID = [] then [] else case gm_get (gv_teams gs) teamID of None \<Rightarrow> [] | Some t \<Rightarrow> tm_Name t)"

definition GetCustomerName :: "gov \<Rightarrow> string \<Rightarrow> string" where
  "GetCustomerName gs customerID =
     (if customerID = [] then [] else case gm_get (gv_customers gs) customerID of None \<Rightarrow> [] | Some c \<Rightarrow> cu_Name c)"

subsection \<open>Checks\<close>

definition CheckVirtualKeyBudget ::
  "(string, float64) gomap \<Rightarrow> int \<Rightarrow> gov \<Rightarrow> table_virtual_key \<Rightarrow> string \<Rightarrow> verdict" where
  "CheckVirtualKeyBudget baselines now gs vk prov = CheckBudget baselines now (collectBudgetsFromHierarchy gs vk prov)"

definition CheckVirtualKeyRateLimit ::
  "(string, int) gomap \<Rightarrow> (string, int) gomap \<Rightarrow> int \<Rightarrow> gov \<Rightarrow> table_virtual_key \<Rightarrow> string \<Rightarrow> verdict" where
  "CheckVirtualKeyRateLimit tb rb now gs vk prov = CheckRateLimit tb rb now (collectRateLimitsFromHierarchy gs vk prov)"

definition CheckProviderBudget :: "(string, float64) gomap \<Rightarrow> int \<Rightarrow> gov \<Rightarrow> string \<Rightarrow> verdict" where
  "CheckProviderBudget baselines now gs prov =
     (case Option.bind (Option.bind (gm_get (gv_providers gs) prov) tp_BudgetID) (LoadBudget (gv_rows gs)) of
        None \<Rightarrow> (DecisionAllow, None)
      | Some b \<Rightarrow> CheckBudget baselines now [(prov, [b])])"

definition CheckProviderRateLimit :: "(string, int) gomap \<Rightarrow> (string, int) gomap \<Rightarrow> int \<Rightarrow> gov \<Rightarrow> string \<Rightarrow> verdict" where
  "CheckProviderRateLimit tb rb now gs prov =
     (case hot_limit gs (Option.bind (gm_get (gv_providers gs) prov) tp_RateLimitID) of
        None \<Rightarrow> (DecisionAllow, None)
      | Some rl \<Rightarrow> CheckRateLimit tb rb now [(prov, [rl])])"

text \<open>The maps that the checks of model configurations fill; a later configuration with the same description replaces
  an earlier one.\<close>

definition config_budgets :: "gov \<Rightarrow> table_model_config list \<Rightarrow> (string, table_budget list) gomap" where
  "config_budgets gs mcs =
     foldl (\<lambda>m mc. if loadModelConfigBudgets gs mc \<noteq> [] then gm_set (modelConfigEntityKey mc) (loadModelConfigBudgets gs mc) m else m) [] mcs"

definition config_limits :: "gov \<Rightarrow> table_model_config list \<Rightarrow> (string, table_rate_limit list) gomap" where
  "config_limits gs mcs =
     foldl (\<lambda>m mc. case hot_limit gs (mc_RateLimitID mc) of None \<Rightarrow> m | Some rl \<Rightarrow> gm_set (modelConfigEntityKey mc) [rl] m) [] mcs"

definition CheckModelBudget :: "catalog \<Rightarrow> (string, float64) gomap \<Rightarrow> int \<Rightarrow> gov \<Rightarrow> string \<Rightarrow> string \<Rightarrow> verdict" where
  "CheckModelBudget catalog baselines now gs model prov =
     CheckBudget baselines now
       (config_budgets gs (collectModelConfigsFor catalog gs ModelConfigScopeGlobal [] model (providerStr prov)))"

definition CheckModelRateLimit ::
  "catalog \<Rightarrow> (string, int) gomap \<Rightarrow> (string, int) gomap \<Rightarrow> int \<Rightarrow> gov \<Rightarrow> string \<Rightarrow> string \<Rightarrow> verdict" where
  "CheckModelRateLimit catalog tb rb now gs model prov =
     CheckRateLimit tb rb now
       (config_limits gs (collectModelConfigsFor catalog gs ModelConfigScopeGlobal [] model (providerStr prov)))"

definition CheckScopedModelBudget ::
  "catalog \<Rightarrow> (string, float64) gomap \<Rightarrow> int \<Rightarrow> gov \<Rightarrow> string \<Rightarrow> string \<Rightarrow> string \<Rightarrow> string \<Rightarrow> verdict" where
  "CheckScopedModelBudget catalog baselines now gs scope scopeID model prov =
     (if scope = [] \<or> scopeID = [] then (DecisionAllow, None)
      else CheckBudget baselines now (config_budgets gs (collectModelConfigsFor catalog gs scope scopeID model (providerStr prov))))"

definition CheckScopedModelRateLimit ::
  "catalog \<Rightarrow> (string, int) gomap \<Rightarrow> (string, int) gomap \<Rightarrow> int \<Rightarrow> gov \<Rightarrow> string \<Rightarrow> string \<Rightarrow> string \<Rightarrow> string \<Rightarrow> verdict" where
  "CheckScopedModelRateLimit catalog tb rb now gs scope scopeID model prov =
     (if scope = [] \<or> scopeID = [] then (DecisionAllow, None)
      else CheckRateLimit tb rb now (config_limits gs (collectModelConfigsFor catalog gs scope scopeID model (providerStr prov))))"

definition CheckTeamBudget :: "(string, float64) gomap \<Rightarrow> int \<Rightarrow> gov \<Rightarrow> string \<Rightarrow> verdict" where
  "CheckTeamBudget baselines now gs teamID =
     (let list = CollectTeamBudgets gs teamID
      in if list = [] then (DecisionAllow, None) else CheckBudget baselines now [(''Team:'' @ teamID, list)])"

definition CheckTeamRateLimit :: "(string, int) gomap \<Rightarrow> (string, int) gomap \<Rightarrow> int \<Rightarrow> gov \<Rightarrow> string \<Rightarrow> verdict" where
  "CheckTeamRateLimit tb rb now gs teamID =
     (case hot_limit gs (Option.bind (gm_get (gv_teams gs) teamID) tm_RateLimitID) of
        None \<Rightarrow> (DecisionAllow, None)
      | Some rl \<Rightarrow> CheckRateLimit tb rb now [(''Team:'' @ teamID, [rl])])"

definition CheckCustomerBudget :: "(string, float64) gomap \<Rightarrow> int \<Rightarrow> gov \<Rightarrow> string \<Rightarrow> verdict" where
  "CheckCustomerBudget baselines now gs customerID =
     (let list = CollectCustomerBudgets gs customerID
      in if list = [] then (DecisionAllow, None) else CheckBudget baselines now [(''Customer:'' @ customerID, list)])"

definition CheckCustomerRateLimit :: "(string, int) gomap \<Rightarrow> (string, int) gomap \<Rightarrow> int \<Rightarrow> gov \<Rightarrow> string \<Rightarrow> verdict" where
  "CheckCustomerRateLimit tb rb now gs customerID =
     (if customerID = [] then (DecisionAllow, None)
      else case hot_limit gs (Option.bind (gm_get (gv_customers gs) customerID) cu_RateLimitID) of
        None \<Rightarrow> (DecisionAllow, None)
      | Some rl \<Rightarrow> CheckRateLimit tb rb now [(''Customer:'' @ customerID, [rl])])"

text \<open>Users have no governance of their own in this build.\<close>

definition CheckUserBudget :: "gov \<Rightarrow> string \<Rightarrow> verdict" where
  "CheckUserBudget gs userID = (DecisionAllow, None)"

definition CheckUserRateLimit :: "gov \<Rightarrow> string \<Rightarrow> verdict" where
  "CheckUserRateLimit gs userID = (DecisionAllow, None)"

subsection \<open>Updates of usage\<close>

definition bump_budgets :: "int \<Rightarrow> float64 \<Rightarrow> string list \<Rightarrow> gstore \<Rightarrow> gstore" where
  "bump_budgets now cost ids rows = fold (\<lambda>i. BumpBudgetUsage (\<lambda>_. now) i cost) ids rows"

definition bump_limits :: "int \<Rightarrow> int \<Rightarrow> bool \<Rightarrow> bool \<Rightarrow> string list \<Rightarrow> gstore \<Rightarrow> gstore" where
  "bump_limits now tokens t r ids rows = fold (\<lambda>i. BumpRateLimitUsage (\<lambda>_. now) i tokens t r) ids rows"

definition UpdateVirtualKeyBudgetUsageInMemory :: "int \<Rightarrow> table_virtual_key \<Rightarrow> string \<Rightarrow> float64 \<Rightarrow> gov \<Rightarrow> gov" where
  "UpdateVirtualKeyBudgetUsageInMemory now vk prov cost gs =
     on_rows (bump_budgets now cost (collectBudgetIDsFromMemory gs vk prov)) gs"

definition UpdateVirtualKeyRateLimitUsageInMemory ::
  "int \<Rightarrow> table_virtual_key \<Rightarrow> string \<Rightarrow> int \<Rightarrow> bool \<Rightarrow> bool \<Rightarrow> gov \<Rightarrow> gov" where
  "UpdateVirtualKeyRateLimitUsageInMemory now vk prov tokens t r gs =
     on_rows (bump_limits now tokens t r (collectRateLimitIDsFromMemory gs vk prov)) gs"

definition provider_row :: "gov \<Rightarrow> string \<Rightarrow> (table_provider \<Rightarrow> string option) \<Rightarrow> string list" where
  "provider_row gs prov f =
     (if prov = [] then []
      else case Option.bind (gm_get (gv_providers gs) prov) f of None \<Rightarrow> [] | Some i \<Rightarrow> [i])"

definition config_budget_ids :: "table_model_config list \<Rightarrow> string list" where
  "config_budget_ids mcs = concat (map (\<lambda>mc. map b_ID (mc_Budgets mc)) mcs)"

definition config_limit_ids :: "table_model_config list \<Rightarrow> string list" where
  "config_limit_ids mcs = List.map_filter mc_RateLimitID mcs"

definition UpdateProviderAndModelBudgetUsageInMemory :: "catalog \<Rightarrow> int \<Rightarrow> string \<Rightarrow> string \<Rightarrow> float64 \<Rightarrow> gov \<Rightarrow> gov" where
  "UpdateProviderAndModelBudgetUsageInMemory catalog now model prov cost gs =
     on_rows (bump_budgets now cost
       (provider_row gs prov tp_BudgetID @
        config_budget_ids (collectModelConfigsFor catalog gs ModelConfigScopeGlobal [] model (providerStr prov)))) gs"

definition UpdateProviderAndModelRateLimitUsageInMemory ::
  "catalog \<Rightarrow> int \<Rightarrow> string \<Rightarrow> string \<Rightarrow> int \<Rightarrow> bool \<Rightarrow> bool \<Rightarrow> gov \<Rightarrow> gov" where
  "UpdateProviderAndModelRateLimitUsageInMemory catalog now model prov tokens t r gs =
     on_rows (bump_limits now tokens t r
       (provider_row gs prov tp_RateLimitID @
        config_limit_ids (collectModelConfigsFor catalog gs ModelConfigScopeGlobal [] model (providerStr prov)))) gs"

definition UpdateScopedModelBudgetUsageInMemory ::
  "catalog \<Rightarrow> int \<Rightarrow> string \<Rightarrow> string \<Rightarrow> string \<Rightarrow> string \<Rightarrow> float64 \<Rightarrow> gov \<Rightarrow> gov" where
  "UpdateScopedModelBudgetUsageInMemory catalog now scope scopeID model prov cost gs =
     (if scope = [] \<or> scopeID = [] then gs
      else on_rows (bump_budgets now cost
             (config_budget_ids (collectModelConfigsFor catalog gs scope scopeID model (providerStr prov)))) gs)"

definition UpdateScopedModelRateLimitUsageInMemory ::
  "catalog \<Rightarrow> int \<Rightarrow> string \<Rightarrow> string \<Rightarrow> string \<Rightarrow> string \<Rightarrow> int \<Rightarrow> bool \<Rightarrow> bool \<Rightarrow> gov \<Rightarrow> gov" where
  "UpdateScopedModelRateLimitUsageInMemory catalog now scope scopeID model prov tokens t r gs =
     (if scope = [] \<or> scopeID = [] then gs
      else on_rows (bump_limits now tokens t r
             (config_limit_ids (collectModelConfigsFor catalog gs scope scopeID model (providerStr prov)))) gs)"

definition append_ids :: "string list \<Rightarrow> string list \<Rightarrow> string list" where
  "append_ids news out = foldl append_new out news"

definition CollectApplicableGovernanceIDs ::
  "catalog \<Rightarrow> gov \<Rightarrow> string \<Rightarrow> string \<Rightarrow> string \<Rightarrow> string \<Rightarrow> string list \<times> string list" where
  "CollectApplicableGovernanceIDs catalog gs virtualKey userID prov model =
     (let configs = (\<lambda>scope scopeID. if model = [] then [] else collectModelConfigsFor catalog gs scope scopeID model (providerStr prov));
          add = (\<lambda>mcs (bs, ls). (append_ids (config_budget_ids mcs) bs, append_ids (config_limit_ids mcs) ls));
          out = (append_ids (provider_row gs prov tp_BudgetID) [], append_ids (provider_row gs prov tp_RateLimitID) []);
          out = add (configs ModelConfigScopeGlobal []) out;
          out = (if userID \<noteq> [] then add (configs ModelConfigScopeUser userID) out else out)
      in if virtualKey = [] then out
         else case GetVirtualKey gs virtualKey of
           None \<Rightarrow> out
         | Some vk \<Rightarrow>
             (let out = foldl (\<lambda>out (scope, scopeID). add (configs scope scopeID) out) out (nonGlobalModelConfigScopeChain vk)
              in (append_ids (collectBudgetIDsFromMemory gs vk prov) (fst out),
                  append_ids (collectRateLimitIDsFromMemory gs vk prov) (snd out))))"

subsection \<open>Team policies\<close>

definition teamModelPolicyKey :: "string \<Rightarrow> string \<Rightarrow> string" where
  "teamModelPolicyKey teamID prov = teamID @ [CHR 0x00] @ prov"

definition GetTeamModelPolicy :: "gov \<Rightarrow> string \<Rightarrow> string \<Rightarrow> team_model_policy option" where
  "GetTeamModelPolicy gs teamID prov =
     (if teamID = [] \<or> prov = [] then None else gm_get (gv_teamModelPolicies gs) (teamModelPolicyKey teamID prov))"

definition UpsertTeamModelPolicy :: "team_model_policy \<Rightarrow> gov \<Rightarrow> gov" where
  "UpsertTeamModelPolicy p gs =
     (if tmp_TeamID p = [] \<or> tmp_Provider p = [] then gs
      else gs\<lparr>gv_teamModelPolicies := gm_set (teamModelPolicyKey (tmp_TeamID p) (tmp_Provider p)) p (gv_teamModelPolicies gs)\<rparr>)"

definition DeleteTeamModelPolicy :: "string \<Rightarrow> string \<Rightarrow> gov \<Rightarrow> gov" where
  "DeleteTeamModelPolicy teamID prov gs =
     (if teamID = [] \<or> prov = [] then gs
      else gs\<lparr>gv_teamModelPolicies := gm_del (teamModelPolicyKey teamID prov) (gv_teamModelPolicies gs)\<rparr>)"

definition DeleteTeamModelPoliciesForTeam :: "string \<Rightarrow> gov \<Rightarrow> gov" where
  "DeleteTeamModelPoliciesForTeam teamID gs =
     (if teamID = [] then gs
      else gs\<lparr>gv_teamModelPolicies :=
             gm_filter (\<lambda>k _. \<not> (length teamID < length k \<and> take (length teamID) k = teamID \<and> k ! length teamID = CHR 0x00))
               (gv_teamModelPolicies gs)\<rparr>)"

section \<open>Edits\<close>

text \<open>A row that replaces a live one keeps its counters and the start of its window.\<close>

definition keep_usage :: "gstore \<Rightarrow> table_budget \<Rightarrow> table_budget" where
  "keep_usage rows b =
     (case LoadBudget rows (b_ID b) of
        None \<Rightarrow> b
      | Some old \<Rightarrow> b\<lparr>b_CurrentUsage := b_CurrentUsage old, b_LastReset := b_LastReset old\<rparr>)"

definition keep_counters :: "gstore \<Rightarrow> table_rate_limit \<Rightarrow> table_rate_limit" where
  "keep_counters rows rl =
     (case LoadRateLimit rows (rl_ID rl) of
        None \<Rightarrow> rl
      | Some old \<Rightarrow> rl\<lparr>rl_TokenCurrentUsage := rl_TokenCurrentUsage old, rl_RequestCurrentUsage := rl_RequestCurrentUsage old\<rparr>)"

definition keep_windows :: "gstore \<Rightarrow> table_rate_limit \<Rightarrow> table_rate_limit" where
  "keep_windows rows rl =
     (case LoadRateLimit rows (rl_ID rl) of
        None \<Rightarrow> rl
      | Some old \<Rightarrow>
          (keep_counters rows rl)\<lparr>rl_TokenLastReset := rl_TokenLastReset old, rl_RequestLastReset := rl_RequestLastReset old\<rparr>)"

definition align_budget :: "bool \<Rightarrow> table_budget \<Rightarrow> table_budget" where
  "align_budget aligned b = b\<lparr>b_IsCalendarAligned := aligned\<rparr>"

definition align_limit :: "bool \<Rightarrow> table_rate_limit \<Rightarrow> table_rate_limit" where
  "align_limit aligned rl = rl\<lparr>rl_IsCalendarAligned := aligned\<rparr>"

text \<open>The loops that publish the budgets of an owner, which also write to the owner's copy.\<close>

fun publish_budgets :: "(gstore \<Rightarrow> table_budget \<Rightarrow> table_budget) \<Rightarrow> table_budget list \<Rightarrow> gstore \<Rightarrow> table_budget list \<times> gstore" where
  "publish_budgets f [] rows = ([], rows)"
| "publish_budgets f (b # bs) rows =
     (let b' = RefreshOverrideCyclesRemaining (f rows b); (bs', rows') = publish_budgets f bs (storeBudget (b_ID b) (f rows b) rows)
      in (b' # bs', rows'))"

definition publish_limit ::
  "(gstore \<Rightarrow> table_rate_limit \<Rightarrow> table_rate_limit) \<Rightarrow> table_rate_limit option \<Rightarrow> gstore \<Rightarrow> table_rate_limit option \<times> gstore" where
  "publish_limit f rl rows =
     (case rl of None \<Rightarrow> (None, rows) | Some r \<Rightarrow> (Some (f rows r), put_rate_limit (rl_ID r) (f rows r) rows))"

definition fresh_budget :: "bool \<Rightarrow> gstore \<Rightarrow> table_budget \<Rightarrow> table_budget" where
  "fresh_budget aligned rows b = align_budget aligned b"

definition kept_budget :: "bool \<Rightarrow> gstore \<Rightarrow> table_budget \<Rightarrow> table_budget" where
  "kept_budget aligned rows b = align_budget aligned (keep_usage rows b)"

definition fresh_limit :: "bool \<Rightarrow> gstore \<Rightarrow> table_rate_limit \<Rightarrow> table_rate_limit" where
  "fresh_limit aligned rows rl = align_limit aligned rl"

definition kept_limit :: "bool \<Rightarrow> gstore \<Rightarrow> table_rate_limit \<Rightarrow> table_rate_limit" where
  "kept_limit aligned rows rl = align_limit aligned (keep_windows rows rl)"

definition delete_budgets :: "string list \<Rightarrow> gstore \<Rightarrow> gstore" where
  "delete_budgets ids rows = fold DeleteBudget ids rows"

definition delete_limits :: "string list \<Rightarrow> gstore \<Rightarrow> gstore" where
  "delete_limits ids rows = fold DeleteRateLimit ids rows"

definition removed :: "string list \<Rightarrow> table_budget list \<Rightarrow> string list" where
  "removed new olds = filter (\<lambda>i. i \<notin> set new) (map b_ID olds)"

text \<open>The rate limit of an owner after an edit: the old row goes when it was replaced or taken away.\<close>

definition edit_limit ::
  "(gstore \<Rightarrow> table_rate_limit \<Rightarrow> table_rate_limit) \<Rightarrow> table_rate_limit option \<Rightarrow> table_rate_limit option \<Rightarrow> gstore \<Rightarrow>
   table_rate_limit option \<times> gstore" where
  "edit_limit f old new rows =
     (case publish_limit f new rows of
        (new', rows) \<Rightarrow>
          (new', case old of
             None \<Rightarrow> rows
           | Some o' \<Rightarrow> if map_option rl_ID new = Some (rl_ID o') then rows else DeleteRateLimit (rl_ID o') rows))"

subsection \<open>Virtual keys\<close>

fun publish_configs :: "bool \<Rightarrow> vk_provider_config list \<Rightarrow> gstore \<Rightarrow> vk_provider_config list \<times> gstore" where
  "publish_configs aligned [] rows = ([], rows)"
| "publish_configs aligned (pc # pcs) rows =
     (let (bs, rows) = publish_budgets (fresh_budget aligned) (pc_Budgets pc) rows;
          (rl, rows) = publish_limit (fresh_limit aligned) (pc_RateLimit pc) rows;
          (pcs', rows) = publish_configs aligned pcs rows
      in (pc\<lparr>pc_Budgets := bs, pc_RateLimit := rl\<rparr> # pcs', rows))"

definition CreateVirtualKeyInMemory :: "table_virtual_key \<Rightarrow> gov \<Rightarrow> gov" where
  "CreateVirtualKeyInMemory vk gs =
     (let aligned = vk_CalendarAligned vk;
          (bs, rows) = publish_budgets (fresh_budget aligned) (vk_Budgets vk) (gv_rows gs);
          (rl, rows) = publish_limit (fresh_limit aligned) (vk_RateLimit vk) rows;
          (pcs, rows) = publish_configs aligned (vk_ProviderConfigs vk) rows
      in storeVirtualKey (vk_Value vk) (vk\<lparr>vk_Budgets := bs, vk_RateLimit := rl, vk_ProviderConfigs := pcs\<rparr>) (gs\<lparr>gv_rows := rows\<rparr>))"

definition new_budget_ids :: "table_virtual_key \<Rightarrow> string list" where
  "new_budget_ids vk = map b_ID (vk_Budgets vk) @ concat (map (\<lambda>pc. map b_ID (pc_Budgets pc)) (vk_ProviderConfigs vk))"

definition new_limit_ids :: "table_virtual_key \<Rightarrow> string list" where
  "new_limit_ids vk =
     (case vk_RateLimit vk of None \<Rightarrow> [] | Some rl \<Rightarrow> [rl_ID rl]) @
     List.map_filter (\<lambda>pc. map_option rl_ID (pc_RateLimit pc)) (vk_ProviderConfigs vk)"

text \<open>The old configuration with the identifier of a new one, and the loop over the new ones.\<close>

definition old_config :: "vk_provider_config list \<Rightarrow> int \<Rightarrow> vk_provider_config option" where
  "old_config olds i = List.find (\<lambda>pc. pc_ID pc = i) (rev olds)"

fun edit_configs ::
  "bool \<Rightarrow> string list \<Rightarrow> vk_provider_config list \<Rightarrow> vk_provider_config list \<Rightarrow> gstore \<Rightarrow> vk_provider_config list \<times> gstore" where
  "edit_configs aligned new olds [] rows = ([], rows)"
| "edit_configs aligned new olds (pc # pcs) rows =
     (let old = old_config olds (pc_ID pc);
          (rl, rows) =
            (case pc_RateLimit pc of
               Some _ \<Rightarrow> publish_limit (kept_limit aligned) (pc_RateLimit pc) rows
             | None \<Rightarrow> (None, case Option.bind old pc_RateLimit of None \<Rightarrow> rows | Some o' \<Rightarrow> DeleteRateLimit (rl_ID o') rows));
          (bs, rows) = publish_budgets (kept_budget aligned) (pc_Budgets pc) rows;
          rows = (case old of None \<Rightarrow> rows | Some o' \<Rightarrow> delete_budgets (removed new (pc_Budgets o')) rows);
          (pcs', rows) = edit_configs aligned new olds pcs rows
      in (pc\<lparr>pc_Budgets := bs, pc_RateLimit := rl\<rparr> # pcs', rows))"

definition orphans :: "string list \<Rightarrow> string list \<Rightarrow> vk_provider_config list \<Rightarrow> gstore \<Rightarrow> gstore" where
  "orphans new newLimits olds rows =
     fold (\<lambda>pc rows.
         delete_budgets (removed new (pc_Budgets pc))
           (case pc_RateLimit pc of
              None \<Rightarrow> rows
            | Some rl \<Rightarrow> if rl_ID rl \<in> set newLimits then rows else DeleteRateLimit (rl_ID rl) rows))
       olds rows"

text \<open>The entry an edit replaces: the one stored under the value, if it is this key, or else the first with its identifier.\<close>

definition existing_entry :: "table_virtual_key \<Rightarrow> gov \<Rightarrow> (string \<times> table_virtual_key) option" where
  "existing_entry vk gs =
     (case GetVirtualKey gs (vk_Value vk) of
        Some old \<Rightarrow>
          if vk_ID old = vk_ID vk then Some (vk_Value vk, old)
          else List.find (\<lambda>(k, v). vk_ID v = vk_ID vk) (gv_virtualKeys gs)
      | None \<Rightarrow> List.find (\<lambda>(k, v). vk_ID v = vk_ID vk) (gv_virtualKeys gs))"

definition UpdateVirtualKeyInMemory :: "table_virtual_key \<Rightarrow> gov \<Rightarrow> gov" where
  "UpdateVirtualKeyInMemory vk gs =
     (case existing_entry vk gs of
        None \<Rightarrow> CreateVirtualKeyInMemory vk gs
      | Some (existingKey, old) \<Rightarrow>
          (let aligned = vk_CalendarAligned vk; new = new_budget_ids vk;
               (bs, rows) = publish_budgets (kept_budget aligned) (vk_Budgets vk) (gv_rows gs);
               rows = delete_budgets (removed new (vk_Budgets old)) rows;
               (rl, rows) = edit_limit (kept_limit aligned) (vk_RateLimit old) (vk_RateLimit vk) rows;
               (pcs, rows) = edit_configs aligned new (vk_ProviderConfigs old) (vk_ProviderConfigs vk) rows;
               rows = orphans new (new_limit_ids vk) (vk_ProviderConfigs old) rows;
               gs = gs\<lparr>gv_rows := rows\<rparr>;
               gs = (if existingKey \<noteq> [] \<and> existingKey \<noteq> vk_Value vk then deleteVirtualKeyByValue existingKey gs else gs)
           in storeVirtualKey (vk_Value vk) (vk\<lparr>vk_Budgets := bs, vk_RateLimit := rl, vk_ProviderConfigs := pcs\<rparr>) gs))"

definition drop_config :: "string \<Rightarrow> table_model_config \<Rightarrow> gov \<Rightarrow> gov" where
  "drop_config k mc gs =
     gs\<lparr>gv_rows := delete_limits (case mc_RateLimitID mc of None \<Rightarrow> [] | Some i \<Rightarrow> [i])
          (delete_budgets (map b_ID (mc_Budgets mc) @ (case mc_BudgetID mc of None \<Rightarrow> [] | Some i \<Rightarrow> [i])) (gv_rows gs)),
        gv_modelConfigs := gm_del k (gv_modelConfigs gs)\<rparr>"

definition DeleteModelConfigsForScopeInMemory :: "string \<Rightarrow> string \<Rightarrow> gov \<Rightarrow> gov" where
  "DeleteModelConfigsForScopeInMemory scope scopeID gs =
     fold (\<lambda>(k, mc) gs. if mc_Scope mc = scope \<and> mc_ScopeID mc = Some scopeID then drop_config k mc gs else gs) (gv_modelConfigs gs) gs"

definition drop_key :: "string \<Rightarrow> table_virtual_key \<Rightarrow> gov \<Rightarrow> gov" where
  "drop_key k vk gs =
     deleteVirtualKeyByValue k (on_rows (\<lambda>rows.
         fold (\<lambda>pc rows. delete_limits (case pc_RateLimitID pc of None \<Rightarrow> [] | Some i \<Rightarrow> [i]) (delete_budgets (map b_ID (pc_Budgets pc)) rows))
           (vk_ProviderConfigs vk)
           (delete_limits (case vk_RateLimitID vk of None \<Rightarrow> [] | Some i \<Rightarrow> [i]) (delete_budgets (map b_ID (vk_Budgets vk)) rows))) gs)"

definition DeleteVirtualKeyInMemory :: "string \<Rightarrow> gov \<Rightarrow> gov" where
  "DeleteVirtualKeyInMemory vkID gs =
     (if vkID = [] then gs
      else DeleteModelConfigsForScopeInMemory ModelConfigScopeVirtualKey vkID
             (case List.find (\<lambda>(k, v). vk_ID v = vkID) (gv_virtualKeys gs) of None \<Rightarrow> gs | Some (k, v) \<Rightarrow> drop_key k v gs))"

subsection \<open>Teams, customers, model configurations and providers\<close>

definition CreateTeamInMemory :: "table_team \<Rightarrow> gov \<Rightarrow> gov" where
  "CreateTeamInMemory team gs =
     (let aligned = tm_CalendarAligned team;
          (_, rows) = publish_budgets (fresh_budget aligned) (tm_Budgets team) (gv_rows gs);
          (rl, rows) = publish_limit (fresh_limit aligned) (tm_RateLimit team) rows
      in gs\<lparr>gv_rows := rows,
            gv_teams := gm_set (tm_ID team) (team\<lparr>tm_Budgets := map (align_budget aligned) (tm_Budgets team), tm_RateLimit := rl\<rparr>) (gv_teams gs)\<rparr>)"

definition UpdateTeamInMemory :: "table_team \<Rightarrow> gov \<Rightarrow> gov" where
  "UpdateTeamInMemory team gs =
     (case gm_get (gv_teams gs) (tm_ID team) of
        None \<Rightarrow> CreateTeamInMemory team gs
      | Some old \<Rightarrow>
          (let aligned = tm_CalendarAligned team;
               (bs, rows) = publish_budgets (kept_budget aligned) (tm_Budgets team) (gv_rows gs);
               rows = delete_budgets (remdups (removed (map b_ID (tm_Budgets team)) (tm_Budgets old))) rows;
               (rl, rows) = edit_limit (kept_limit aligned) (tm_RateLimit old) (tm_RateLimit team) rows
           in gs\<lparr>gv_rows := rows, gv_teams := gm_set (tm_ID team) (team\<lparr>tm_Budgets := bs, tm_RateLimit := rl\<rparr>) (gv_teams gs)\<rparr>))"

definition on_keys :: "(table_virtual_key \<Rightarrow> table_virtual_key option) \<Rightarrow> gov \<Rightarrow> gov" where
  "on_keys f gs = fold (\<lambda>(k, vk) gs. case f vk of None \<Rightarrow> gs | Some vk' \<Rightarrow> storeVirtualKey k vk' gs) (gv_virtualKeys gs) gs"

definition DeleteTeamInMemory :: "string \<Rightarrow> gov \<Rightarrow> gov" where
  "DeleteTeamInMemory teamID gs =
     (if teamID = [] then gs
      else let gs = (case gm_get (gv_teams gs) teamID of
                       None \<Rightarrow> gs
                     | Some team \<Rightarrow>
                         on_rows (\<lambda>rows. delete_limits (case tm_RateLimitID team of None \<Rightarrow> [] | Some i \<Rightarrow> [i])
                             (delete_budgets (map b_ID (tm_Budgets team)) rows)) gs);
               gs = on_keys (\<lambda>vk. if vk_TeamID vk = Some teamID then Some (vk\<lparr>vk_TeamID := None, vk_Team := None\<rparr>) else None) gs
           in DeleteTeamModelPoliciesForTeam teamID (gs\<lparr>gv_teams := gm_del teamID (gv_teams gs)\<rparr>))"

definition CreateCustomerInMemory :: "table_customer \<Rightarrow> gov \<Rightarrow> gov" where
  "CreateCustomerInMemory customer gs =
     (let aligned = cu_CalendarAligned customer;
          (bs, rows) = publish_budgets (fresh_budget aligned) (cu_Budgets customer) (gv_rows gs);
          (rl, rows) = publish_limit (fresh_limit aligned) (cu_RateLimit customer) rows
      in gs\<lparr>gv_rows := rows, gv_customers := gm_set (cu_ID customer) (customer\<lparr>cu_Budgets := bs, cu_RateLimit := rl\<rparr>) (gv_customers gs)\<rparr>)"

definition UpdateCustomerInMemory :: "table_customer \<Rightarrow> gov \<Rightarrow> gov" where
  "UpdateCustomerInMemory customer gs =
     (case gm_get (gv_customers gs) (cu_ID customer) of
        None \<Rightarrow> CreateCustomerInMemory customer gs
      | Some old \<Rightarrow>
          (let aligned = cu_CalendarAligned customer;
               (bs, rows) = publish_budgets (kept_budget aligned) (cu_Budgets customer) (gv_rows gs);
               rows = delete_budgets (removed (map b_ID (cu_Budgets customer)) (cu_Budgets old)) rows;
               (rl, rows) = edit_limit (kept_limit aligned) (cu_RateLimit old) (cu_RateLimit customer) rows
           in gs\<lparr>gv_rows := rows, gv_customers := gm_set (cu_ID customer) (customer\<lparr>cu_Budgets := bs, cu_RateLimit := rl\<rparr>) (gv_customers gs)\<rparr>))"

definition DeleteCustomerInMemory :: "string \<Rightarrow> gov \<Rightarrow> gov" where
  "DeleteCustomerInMemory customerID gs =
     (if customerID = [] then gs
      else let gs = (case gm_get (gv_customers gs) customerID of
                       None \<Rightarrow> gs
                     | Some customer \<Rightarrow>
                         on_rows (\<lambda>rows. delete_limits (case cu_RateLimitID customer of None \<Rightarrow> [] | Some i \<Rightarrow> [i])
                             (delete_budgets (map b_ID (cu_Budgets customer)) rows)) gs);
               gs = on_keys (\<lambda>vk. if vk_CustomerID vk = Some customerID then Some (vk\<lparr>vk_CustomerID := None, vk_Customer := None\<rparr>) else None) gs
           in gs\<lparr>gv_teams := map (\<lambda>(k, t). (k, if tm_CustomerID t = Some customerID then t\<lparr>tm_CustomerID := None, tm_Customer := None\<rparr> else t)) (gv_teams gs),
                 gv_customers := gm_del customerID (gv_customers gs)\<rparr>)"

definition UpdateModelConfigInMemory :: "catalog \<Rightarrow> table_model_config \<Rightarrow> gov \<Rightarrow> table_model_config \<times> gov" where
  "UpdateModelConfigInMemory catalog mc gs =
     (let aligned = mc_CalendarAligned mc;
          (bs, rows) = publish_budgets (kept_budget aligned) (mc_Budgets mc) (gv_rows gs);
          (rl, rows) = publish_limit (\<lambda>rows rl. keep_counters rows (align_limit aligned rl)) (mc_RateLimit mc) rows;
          scopeID = (case mc_ScopeID mc of None \<Rightarrow> [] | Some i \<Rightarrow> i);
          mc' = mc\<lparr>mc_Budgets := bs, mc_RateLimit := rl\<rparr>;
          modelKey = (case (mc_Provider mc, catalog) of
                        (None, Some base) \<Rightarrow> if mc_ModelName mc \<noteq> modelConfigWildcard then base (mc_ModelName mc) else mc_ModelName mc
                      | _ \<Rightarrow> mc_ModelName mc)
      in (mc', gs\<lparr>gv_rows := rows,
                  gv_modelConfigs := gm_set (modelConfigStoreKey (mc_Scope mc) scopeID modelKey (mc_Provider mc)) mc' (gv_modelConfigs gs)\<rparr>))"

definition DeleteModelConfigInMemory :: "string \<Rightarrow> gov \<Rightarrow> gov" where
  "DeleteModelConfigInMemory mcID gs =
     (if mcID = [] then gs
      else case List.find (\<lambda>(k, mc). mc_ID mc = mcID) (gv_modelConfigs gs) of
        None \<Rightarrow> gs
      | Some (k, mc) \<Rightarrow>
          gs\<lparr>gv_rows := delete_limits (case mc_RateLimitID mc of None \<Rightarrow> [] | Some i \<Rightarrow> [i]) (delete_budgets (map b_ID (mc_Budgets mc)) (gv_rows gs)),
             gv_modelConfigs := gm_del k (gv_modelConfigs gs)\<rparr>)"

definition ScopedModelConfigIDs :: "gov \<Rightarrow> string \<Rightarrow> string \<Rightarrow> string list" where
  "ScopedModelConfigIDs gs scope scopeID =
     map (\<lambda>(k, mc). mc_ID mc)
       (filter (\<lambda>(k, mc). mc_Scope mc = scope \<and> (case mc_ScopeID mc of None \<Rightarrow> [] | Some i \<Rightarrow> i) = scopeID) (gv_modelConfigs gs))"

definition UpdateProviderInMemory :: "table_provider \<Rightarrow> gov \<Rightarrow> table_provider \<times> gov" where
  "UpdateProviderInMemory p gs =
     (let keep = (\<lambda>rows b. case LoadBudget rows (b_ID b) of None \<Rightarrow> b | Some old \<Rightarrow> b\<lparr>b_CurrentUsage := b_CurrentUsage old\<rparr>);
          (bs, rows) = publish_budgets keep (case tp_Budget p of None \<Rightarrow> [] | Some b \<Rightarrow> [b]) (gv_rows gs);
          (rl, rows) = publish_limit keep_counters (tp_RateLimit p) rows;
          p' = p\<lparr>tp_Budget := (case bs of [] \<Rightarrow> None | b # _ \<Rightarrow> Some b), tp_RateLimit := rl\<rparr>
      in (p', gs\<lparr>gv_rows := rows, gv_providers := gm_set (tp_Name p) p' (gv_providers gs)\<rparr>))"

definition DeleteProviderInMemory :: "string \<Rightarrow> gov \<Rightarrow> gov" where
  "DeleteProviderInMemory name gs =
     (if name = [] then gs
      else let gs = (case gm_get (gv_providers gs) name of
                       None \<Rightarrow> gs
                     | Some p \<Rightarrow>
                         on_rows (\<lambda>rows. delete_limits (case tp_RateLimitID p of None \<Rightarrow> [] | Some i \<Rightarrow> [i])
                             (delete_budgets (case tp_BudgetID p of None \<Rightarrow> [] | Some i \<Rightarrow> [i]) rows)) gs)
           in gs\<lparr>gv_providers := gm_del name (gv_providers gs)\<rparr>)"

section \<open>What a check looks at\<close>

lemma check_budgets_None: "check_budgets baselines now entity bs = None \<longleftrightarrow> (\<forall>b\<in>set bs. \<not> budget_exceeded baselines now b)"
  by (induction bs) auto

lemma check_budgets_Some: "check_budgets baselines now entity bs = Some v \<Longrightarrow> fst v = DecisionBudgetExceeded \<and> snd v \<noteq> None"
  by (induction bs) (auto split: if_splits)

definition rows_of :: "(string, 'a list) gomap \<Rightarrow> 'a set" where
  "rows_of m = set (concat (map snd m))"

lemma rows_of_simps [simp]: "rows_of [] = {}" "rows_of ((e, xs) # m) = set xs \<union> rows_of m"
  by (simp_all add: rows_of_def)

lemma CheckBudget_cases:
  "CheckBudget baselines now m = (DecisionAllow, None) \<and> (\<forall>b\<in>rows_of m. \<not> budget_exceeded baselines now b) \<or>
   fst (CheckBudget baselines now m) = DecisionBudgetExceeded \<and> snd (CheckBudget baselines now m) \<noteq> None \<and>
   (\<exists>b\<in>rows_of m. budget_exceeded baselines now b)"
proof (induction m)
  case (Cons x m)
  then show ?case
    using check_budgets_None [of baselines now "fst x" "snd x"] check_budgets_Some [of baselines now "fst x" "snd x"]
    by (cases x; cases "check_budgets baselines now (fst x) (snd x)") auto
qed simp

definition limit_exceeded :: "(string, int) gomap \<Rightarrow> (string, int) gomap \<Rightarrow> int \<Rightarrow> table_rate_limit \<Rightarrow> bool" where
  "limit_exceeded tb rb now rl \<longleftrightarrow> tokens_exceeded tb now rl \<or> requests_exceeded rb now rl"

definition isRateLimitViolation :: "decision \<Rightarrow> bool" where
  "isRateLimitViolation d \<longleftrightarrow> d = DecisionRateLimited \<or> d = DecisionTokenLimited \<or> d = DecisionRequestLimited"

definition isBudgetViolation :: "decision \<Rightarrow> bool" where
  "isBudgetViolation d \<longleftrightarrow> d = DecisionBudgetExceeded"

lemma check_rate_limits_None: "check_rate_limits tb rb now entity rls = None \<longleftrightarrow> (\<forall>rl\<in>set rls. \<not> limit_exceeded tb rb now rl)"
  by (induction rls) (auto simp: limit_exceeded_def Let_def)

lemma check_rate_limits_Some:
  "check_rate_limits tb rb now entity rls = Some v \<Longrightarrow> isRateLimitViolation (fst v) \<and> snd v \<noteq> None"
  by (induction rls) (auto simp: Let_def isRateLimitViolation_def split: if_splits)

lemma CheckRateLimit_cases:
  "CheckRateLimit tb rb now m = (DecisionAllow, None) \<and> (\<forall>rl\<in>rows_of m. \<not> limit_exceeded tb rb now rl) \<or>
   isRateLimitViolation (fst (CheckRateLimit tb rb now m)) \<and> snd (CheckRateLimit tb rb now m) \<noteq> None \<and>
   (\<exists>rl\<in>rows_of m. limit_exceeded tb rb now rl)"
proof (induction m)
  case (Cons x m)
  then show ?case
    using check_rate_limits_None [of tb rb now "fst x" "snd x"] check_rate_limits_Some [of tb rb now "fst x" "snd x"]
    by (cases x; cases "check_rate_limits tb rb now (fst x) (snd x)") auto
qed simp

lemma rows_of_append_row [simp]: "rows_of (append_row c x m) = insert x (rows_of m)"
proof (induction m)
  case Nil
  then show ?case by (simp add: append_row_def gm_get_or_def)
next
  case (Cons y m)
  show ?case
  proof (cases "fst y = c")
    case True
    then show ?thesis by (cases y) (simp add: append_row_def gm_get_or_def Un_assoc)
  next
    case False
    then have "append_row c x (y # m) = y # append_row c x m" by (cases y) (simp add: append_row_def gm_get_or_def)
    then show ?thesis using Cons by (cases y) simp
  qed
qed

lemma rows_of_append_limit [simp]: "rows_of (append_limit gs c i m) = rows_of m \<union> set_option (hot_limit gs i)"
  by (auto simp: append_limit_def split: option.splits)

lemma rows_of_set_new: "k \<notin> fst ` set m \<Longrightarrow> rows_of (gm_set k xs m) = rows_of m \<union> set xs"
  by (induction m) auto

lemma rows_of_foldl_limits:
  "rows_of (foldl (\<lambda>m pc. if pc_Provider pc = p then append_limit gs (pc_Provider pc) (pc_RateLimitID pc) m else m) m pcs) =
   rows_of m \<union> (\<Union>pc\<in>{pc \<in> set pcs. pc_Provider pc = p}. set_option (hot_limit gs (pc_RateLimitID pc)))"
proof (induction pcs arbitrary: m)
  case (Cons pc pcs)
  have "{q \<in> set (pc # pcs). pc_Provider q = p} = (if pc_Provider pc = p then {pc} else {}) \<union> {q \<in> set pcs. pc_Provider q = p}"
    by auto
  then show ?case by (simp only: Cons foldl.simps) (simp add: Un_assoc)
qed simp

text \<open>The rate limits and budgets that apply above a key.\<close>

definition hierarchy_limit_refs :: "gov \<Rightarrow> table_virtual_key \<Rightarrow> string \<Rightarrow> string set" where
  "hierarchy_limit_refs gs vk p =
     (\<Union>pc\<in>{pc \<in> set (vk_ProviderConfigs vk). pc_Provider pc = p}. set_option (pc_RateLimitID pc)) \<union> set_option (vk_RateLimitID vk) \<union>
     set_option (Option.bind (vk_team gs vk) tm_RateLimitID) \<union> set_option (Option.bind (team_customer gs vk) cu_RateLimitID) \<union>
     set_option (Option.bind (own_customer gs vk) cu_RateLimitID)"

definition hierarchy_budget_refs :: "gov \<Rightarrow> table_virtual_key \<Rightarrow> string \<Rightarrow> string set" where
  "hierarchy_budget_refs gs vk p =
     b_ID ` ((\<Union>pc\<in>{pc \<in> set (vk_ProviderConfigs vk). pc_Provider pc = p}. set (pc_Budgets pc)) \<union> set (vk_Budgets vk) \<union>
       set (owned_rows tm_Budgets (vk_team gs vk)) \<union> set (owned_rows cu_Budgets (team_customer gs vk)) \<union> set (owned_rows cu_Budgets (own_customer gs vk)))"

definition live_limits :: "gov \<Rightarrow> string set \<Rightarrow> table_rate_limit set" where
  "live_limits gs ids = {rl. \<exists>i\<in>ids. LoadRateLimit (gv_rows gs) i = Some rl}"

definition live_budgets :: "gov \<Rightarrow> string set \<Rightarrow> table_budget set" where
  "live_budgets gs ids = {b. \<exists>i\<in>ids. LoadBudget (gv_rows gs) i = Some b}"

lemma hot_limit_set: "set_option (hot_limit gs i) = live_limits gs (set_option i)"
  by (cases i) (auto simp: hot_limit_def live_limits_def)

lemma set_hot_budgets: "set (hot_budgets gs bs) = live_budgets gs (b_ID ` set bs)"
  by (force simp: hot_budgets_def live_budgets_def List.map_filter_def image_iff)

lemma live_Un:
  "live_limits gs (a \<union> b) = live_limits gs a \<union> live_limits gs b" "live_budgets gs (a \<union> b) = live_budgets gs a \<union> live_budgets gs b"
  by (auto simp: live_limits_def live_budgets_def)

lemma live_UN: "live_limits gs (\<Union>x\<in>A. f x) = (\<Union>x\<in>A. live_limits gs (f x))"
  by (auto simp: live_limits_def)

lemma hierarchy_limits: "rows_of (collectRateLimitsFromHierarchy gs vk p) = live_limits gs (hierarchy_limit_refs gs vk p)"
  by (simp add: collectRateLimitsFromHierarchy_def hierarchy_limit_refs_def rows_of_foldl_limits hot_limit_set live_Un live_UN Let_def)

text \<open>Every row is stored under its own identifier.\<close>

definition rows_ok :: "gstore \<Rightarrow> bool" where
  "rows_ok rows \<longleftrightarrow> (\<forall>i b. LoadBudget rows i = Some b \<longrightarrow> b_ID b = i) \<and> (\<forall>i rl. LoadRateLimit rows i = Some rl \<longrightarrow> rl_ID rl = i)"

definition groups_hold :: "gov \<Rightarrow> string set \<Rightarrow> budget_groups \<Rightarrow> bool" where
  "groups_hold gs ids acc \<longleftrightarrow> rows_of (fst acc) = live_budgets gs ids \<and> set (snd acc) = b_ID ` live_budgets gs ids"

lemma groups_append:
  assumes "groups_hold gs ids acc" and "LoadBudget (gv_rows gs) i = Some hot"
  shows "groups_hold gs (insert i ids) (append_budget c hot acc)"
proof -
  have "live_budgets gs (insert i ids) = insert hot (live_budgets gs ids)" using assms(2) by (auto simp: live_budgets_def)
  then show ?thesis using assms(1) by (simp add: groups_hold_def append_budget_def)
qed

lemma groups_skip:
  assumes "groups_hold gs ids acc" and "rows_ok (gv_rows gs)" and "i \<in> set (snd acc) \<or> LoadBudget (gv_rows gs) i = None"
  shows "groups_hold gs (insert i ids) acc"
proof -
  have "live_budgets gs (insert i ids) = live_budgets gs ids"
  proof (cases "LoadBudget (gv_rows gs) i")
    case None
    then show ?thesis by (auto simp: live_budgets_def)
  next
    case (Some b)
    then obtain b' where "b' \<in> live_budgets gs ids" "b_ID b' = i" using assms(1,3) by (auto simp: groups_hold_def)
    then have "b \<in> live_budgets gs ids" using assms(2) Some by (auto simp: live_budgets_def rows_ok_def)
    then show ?thesis using Some by (auto simp: live_budgets_def)
  qed
  then show ?thesis using assms(1) by (simp add: groups_hold_def)
qed

lemma groups_new: "groups_hold gs ids acc \<Longrightarrow> rows_ok (gv_rows gs) \<Longrightarrow> groups_hold gs (ids \<union> b_ID ` set bs) (collect_new gs c bs acc)"
proof (induction bs arbitrary: ids acc)
  case (Cons b bs)
  let ?acc = "if b_ID b \<in> set (snd acc) then acc
     else case LoadBudget (gv_rows gs) (b_ID b) of None \<Rightarrow> acc | Some hot \<Rightarrow> append_budget c hot acc"
  have "groups_hold gs (insert (b_ID b) ids) ?acc"
    using groups_append [OF Cons.prems(1)] groups_skip [OF Cons.prems] by (auto split: option.splits)
  then show ?case using Cons.IH [of "insert (b_ID b) ids" ?acc] Cons.prems(2) by (simp add: collect_new_def)
qed (simp add: collect_new_def)

lemma groups_all: "groups_hold gs ids acc \<Longrightarrow> groups_hold gs (ids \<union> b_ID ` set bs) (collect_all gs c bs acc)"
proof (induction bs arbitrary: ids acc)
  case (Cons b bs)
  show ?case
  proof (cases "LoadBudget (gv_rows gs) (b_ID b)")
    case None
    then have "live_budgets gs (insert (b_ID b) ids) = live_budgets gs ids" by (auto simp: live_budgets_def)
    then have "groups_hold gs (insert (b_ID b) ids) acc" using Cons.prems by (simp add: groups_hold_def)
    then show ?thesis using Cons.IH [of "insert (b_ID b) ids" acc] None by (simp add: collect_all_def hot_budgets_def List.map_filter_simps)
  next
    case (Some hot)
    then show ?thesis
      using Cons.IH [OF groups_append [OF Cons.prems Some]] by (simp add: collect_all_def hot_budgets_def List.map_filter_simps)
  qed
qed (simp add: collect_all_def hot_budgets_def List.map_filter_simps)

lemma groups_configs:
  assumes "rows_ok (gv_rows gs)" and "groups_hold gs ids acc"
  shows "groups_hold gs (ids \<union> b_ID ` (\<Union>pc\<in>{pc \<in> set pcs. pc_Provider pc = p}. set (pc_Budgets pc)))
    (foldl (\<lambda>acc pc. if pc_Provider pc \<noteq> p then acc else collect_new gs (pc_Provider pc) (pc_Budgets pc) acc) acc pcs)"
  using assms(2)
proof (induction pcs arbitrary: ids acc)
  case (Cons pc pcs)
  let ?ids = "if pc_Provider pc = p then ids \<union> b_ID ` set (pc_Budgets pc) else ids"
  let ?acc = "if pc_Provider pc \<noteq> p then acc else collect_new gs (pc_Provider pc) (pc_Budgets pc) acc"
  have "groups_hold gs ?ids ?acc" using Cons.prems groups_new [OF _ assms(1)] by simp
  moreover have "ids \<union> b_ID ` (\<Union>q\<in>{q \<in> set (pc # pcs). pc_Provider q = p}. set (pc_Budgets q)) =
    ?ids \<union> b_ID ` (\<Union>q\<in>{q \<in> set pcs. pc_Provider q = p}. set (pc_Budgets q))"
    by auto
  ultimately show ?case using Cons.IH [of ?ids ?acc] by (simp only: foldl.simps)
qed simp

lemma hierarchy_budgets:
  assumes "rows_ok (gv_rows gs)"
  shows "rows_of (collectBudgetsFromHierarchy gs vk p) = live_budgets gs (hierarchy_budget_refs gs vk p)"
proof -
  have "groups_hold gs {} ([], [])" by (simp add: groups_hold_def live_budgets_def)
  note configs = groups_configs [where pcs = "vk_ProviderConfigs vk" and p = p, OF assms this]
  note key = groups_new [where c = "''VK''" and bs = "vk_Budgets vk", OF configs assms]
  note team = groups_new [where c = "''Team''" and bs = "owned_rows tm_Budgets (vk_team gs vk)", OF key assms]
  note customer = groups_all [where c = "''Customer''" and bs = "owned_rows cu_Budgets (team_customer gs vk)", OF team]
  show ?thesis using groups_all [where c = "''Customer''" and bs = "owned_rows cu_Budgets (own_customer gs vk)", OF customer]
    by (simp add: collectBudgetsFromHierarchy_def hierarchy_budget_refs_def groups_hold_def image_Un Un_assoc Let_def)
qed

lemma config_budget_rows:
  assumes "distinct (map modelConfigEntityKey mcs)"
  shows "rows_of (config_budgets gs mcs) = live_budgets gs (set (config_budget_ids mcs)) \<and>
    fst ` set (config_budgets gs mcs) \<subseteq> modelConfigEntityKey ` set mcs"
  using assms
proof (induction mcs rule: rev_induct)
  case (snoc mc mcs)
  then have "modelConfigEntityKey mc \<notin> fst ` set (config_budgets gs mcs)" by auto
  with snoc show ?case
    by (auto simp: config_budgets_def config_budget_ids_def rows_of_set_new live_Un loadModelConfigBudgets_def set_hot_budgets [symmetric]
        dom_update [unfolded dom_map_of_conv_image_fst])
qed (simp add: config_budgets_def config_budget_ids_def live_budgets_def)

lemma config_limit_rows:
  assumes "distinct (map modelConfigEntityKey mcs)"
  shows "rows_of (config_limits gs mcs) = live_limits gs (set (config_limit_ids mcs)) \<and>
    fst ` set (config_limits gs mcs) \<subseteq> modelConfigEntityKey ` set mcs"
  using assms
proof (induction mcs rule: rev_induct)
  case (snoc mc mcs)
  have ids: "set (config_limit_ids (mcs @ [mc])) = set (config_limit_ids mcs) \<union> set_option (mc_RateLimitID mc)"
    by (auto simp: config_limit_ids_def List.map_filter_def)
  have "modelConfigEntityKey mc \<notin> fst ` set (config_limits gs mcs)" using snoc by auto
  with snoc show ?case
    unfolding ids live_Un hot_limit_set [symmetric]
    by (auto simp: config_limits_def rows_of_set_new dom_update [unfolded dom_map_of_conv_image_fst] split: option.splits)
qed (simp add: config_limits_def config_limit_ids_def List.map_filter_simps live_limits_def)

section \<open>Charging a list of rows\<close>

text \<open>What a sequence of charges does, for budgets and rate limits alike: a charge touches the row it names, its effect
  depends on that row only, and it keeps the store well formed.\<close>

locale charging =
  fixes ok :: "'s \<Rightarrow> bool"
    and load :: "'s \<Rightarrow> string \<Rightarrow> 'r option"
    and charge :: "string \<Rightarrow> 's \<Rightarrow> 's"
    and ident :: "'r \<Rightarrow> string"
  assumes keeps: "ok s \<Longrightarrow> ok (charge i s)"
    and other: "ok s \<Longrightarrow> j \<noteq> i \<Longrightarrow> load (charge i s) j = load s j"
    and depends: "ok s \<Longrightarrow> ok s' \<Longrightarrow> load s i = load s' i \<Longrightarrow> load (charge i s) i = load (charge i s') i"
    and present: "ok s \<Longrightarrow> map_option ident (load (charge i s) j) = map_option ident (load s j)"
begin

lemma all_keep: "ok s \<Longrightarrow> ok (fold charge ids s)"
  by (induction ids arbitrary: s) (auto simp: keeps)

lemma all_present: "ok s \<Longrightarrow> map_option ident (load (fold charge ids s) j) = map_option ident (load s j)"
  by (induction ids arbitrary: s) (auto simp: keeps present)

lemma untouched: "ok s \<Longrightarrow> i \<notin> set ids \<Longrightarrow> load (fold charge ids s) i = load s i"
  by (induction ids arbitrary: s) (auto simp: keeps other)

lemma charged_once: "ok s \<Longrightarrow> distinct ids \<Longrightarrow> i \<in> set ids \<Longrightarrow> load (fold charge ids s) i = load (charge i s) i"
proof (induction ids arbitrary: s)
  case (Cons j ids)
  show ?case
  proof (cases "i = j")
    case True
    then show ?thesis using Cons.prems untouched [of "charge j s" i ids] by (simp add: keeps)
  next
    case False
    then have "load (fold charge ids (charge j s)) i = load (charge i (charge j s)) i" using Cons by (simp add: keeps)
    also have "\<dots> = load (charge i s) i" by (rule depends) (use Cons.prems False in \<open>simp_all add: keeps other\<close>)
    finally show ?thesis by simp
  qed
qed simp

lemma all_depend: "ok s \<Longrightarrow> ok s' \<Longrightarrow> (\<And>j. load s j = load s' j) \<Longrightarrow> load (fold charge ids s) i = load (fold charge ids s') i"
proof (induction ids arbitrary: s s')
  case (Cons j ids)
  have "load (charge j s) k = load (charge j s') k" for k
    by (cases "k = j") (use Cons.prems depends [of s s' j] other [of s k j] other [of s' k j] in simp_all)
  with Cons show ?case by (simp add: keeps)
qed simp

lemma charged_iff: "ok s \<Longrightarrow> distinct ids \<Longrightarrow> load (fold charge ids s) i = (if i \<in> set ids then load (charge i s) i else load s i)"
  using charged_once untouched by simp

end

lemma load_limit_put [simp]: "LoadRateLimit (put_rate_limit i rl gs) j = (if j = i then Some rl else LoadRateLimit gs j)"
  by (simp add: LoadRateLimit_def put_rate_limit_def)

lemma load_across [simp]:
  "LoadRateLimit (put_budget i b gs) j = LoadRateLimit gs j" "LoadRateLimit (markBudgetResetLocked i gs) j = LoadRateLimit gs j"
  "LoadRateLimit (SetBudgetDBBaseline i u gs) j = LoadRateLimit gs j" "LoadRateLimit (clear_baselines i t r gs) j = LoadRateLimit gs j"
  "LoadBudget (put_rate_limit i rl gs) j = LoadBudget gs j" "LoadBudget (clear_baselines i t r gs) j = LoadBudget gs j"
  by (simp_all add: LoadRateLimit_def LoadBudget_def put_budget_def put_rate_limit_def markBudgetResetLocked_def SetBudgetDBBaseline_def clear_baselines_def)

text \<open>A reset of one row.\<close>

definition rolled_row :: "int \<Rightarrow> table_budget \<Rightarrow> table_budget" where
  "rolled_row now b =
     (case budgetResetTarget b now of
        None \<Rightarrow> b
      | Some target \<Rightarrow>
          if target \<le> b_LastReset b then b
          else RefreshOverrideCyclesRemaining (b\<lparr>b_CurrentUsage := float_zero, b_LastReset := target\<rparr>))"

lemma rolled_row_id [simp]: "b_ID (rolled_row now b) = b_ID b"
  by (simp add: rolled_row_def split: option.splits)

lemma reset_one_budget:
  assumes "rows_ok rows" and "LoadBudget rows i = Some b"
  shows "LoadBudget (fst (ResetExpiredBudgetsInMemory now [i] rows)) j = (if j = i then Some (rolled_row now b) else LoadBudget rows j)"
    and "LoadRateLimit (fst (ResetExpiredBudgetsInMemory now [i] rows)) j = LoadRateLimit rows j"
  using assms
  by (auto simp: ResetExpiredBudgetsInMemory_def budget_snapshots_def List.map_filter_simps reset_one_def resetExpiredBudgetFromSnapshot_def
      ResetBudgetAt_def rolled_row_def rows_ok_def Let_def split: option.splits prod.splits)

text \<open>A charge as a function of the row.\<close>

fun charged_row :: "nat \<Rightarrow> int \<Rightarrow> float64 \<Rightarrow> table_budget \<Rightarrow> table_budget" where
  "charged_row n now cost b =
     (case budgetResetTarget b now of
        None \<Rightarrow> b\<lparr>b_CurrentUsage := float_add (b_CurrentUsage b) cost\<rparr>
      | Some target \<Rightarrow>
          (case n of
             Suc m \<Rightarrow> charged_row m now cost (rolled_row now b)
           | 0 \<Rightarrow>
               (let new = RefreshOverrideCyclesRemaining (b\<lparr>b_CurrentUsage := float_zero, b_LastReset := target\<rparr>)
                in new\<lparr>b_CurrentUsage := float_add (b_CurrentUsage new) cost\<rparr>)))"

declare charged_row.simps [simp del]

lemma charged_row_id [simp]: "b_ID (charged_row n now cost b) = b_ID b"
  by (induction n arbitrary: b) (simp_all add: charged_row.simps Let_def split: option.splits)

lemma bump_row:
  assumes "rows_ok rows"
  shows "LoadBudget (bump_budget n (\<lambda>_. now) i cost rows) j =
      (if j = i then map_option (charged_row n now cost) (LoadBudget rows i) else LoadBudget rows j) \<and>
    LoadRateLimit (bump_budget n (\<lambda>_. now) i cost rows) j = LoadRateLimit rows j"
  using assms
proof (induction n arbitrary: rows)
  case 0
  then show ?case
    by (cases "LoadBudget rows i") (auto simp: bump_budget.simps [of 0] charged_row.simps [of 0] Let_def split: option.splits)
next
  case (Suc n)
  show ?case
  proof (cases "LoadBudget rows i")
    case None
    then show ?thesis by (simp add: bump_budget.simps [of "Suc n"])
  next
    case (Some b)
    let ?rows = "fst (ResetExpiredBudgetsInMemory now [i] rows)"
    note r = reset_one_budget [OF Suc.prems Some, of now]
    have "rows_ok ?rows" using Suc.prems Some by (auto simp: rows_ok_def r)
    note ih = Suc.IH [OF this]
    show ?thesis
      using ih r Some by (cases "budgetResetTarget b now") (simp_all add: bump_budget.simps [of "Suc n"] charged_row.simps [of "Suc n"])
  qed
qed

definition rolled_limit :: "int \<Rightarrow> table_rate_limit \<Rightarrow> table_rate_limit" where
  "rolled_limit now rl =
     (case rateLimitResetTargets rl now of
        (token, request) \<Rightarrow>
          (let t = later (rl_TokenLastReset rl) token; r = later (rl_RequestLastReset rl) request;
               new = (if t then rl\<lparr>rl_TokenCurrentUsage := 0, rl_TokenLastReset := the token\<rparr> else rl)
           in if r then new\<lparr>rl_RequestCurrentUsage := 0, rl_RequestLastReset := the request\<rparr> else new))"

lemma rolled_limit_id [simp]: "rl_ID (rolled_limit now rl) = rl_ID rl"
  by (simp add: rolled_limit_def Let_def split: prod.splits)

lemma reset_one_rate_limit:
  assumes "rows_ok rows" and "LoadRateLimit rows i = Some rl"
  shows "LoadRateLimit (fst (ResetExpiredRateLimitsInMemory now [i] rows)) j = (if j = i then Some (rolled_limit now rl) else LoadRateLimit rows j)"
    and "LoadBudget (fst (ResetExpiredRateLimitsInMemory now [i] rows)) j = LoadBudget rows j"
proof -
  have id: "rl_ID rl = i" using assms by (simp add: rows_ok_def)
  obtain token request where tr: "rateLimitResetTargets rl now = (token, request)" by (cases "rateLimitResetTargets rl now")
  note defs = ResetExpiredRateLimitsInMemory_def rate_limit_snapshots_def List.map_filter_simps reset_one_limit_def
    resetExpiredRateLimitFromSnapshot_def ResetRateLimitAt_def rolled_limit_def Let_def later_def
  show "LoadRateLimit (fst (ResetExpiredRateLimitsInMemory now [i] rows)) j = (if j = i then Some (rolled_limit now rl) else LoadRateLimit rows j)"
    using assms(2) id tr by (cases token; cases request) (simp_all add: defs)
  show "LoadBudget (fst (ResetExpiredRateLimitsInMemory now [i] rows)) j = LoadBudget rows j"
    using assms(2) id tr by (cases token; cases request) (simp_all add: defs)
qed

fun charged_limit :: "nat \<Rightarrow> int \<Rightarrow> int \<Rightarrow> bool \<Rightarrow> bool \<Rightarrow> table_rate_limit \<Rightarrow> table_rate_limit" where
  "charged_limit n now tokens t r rl =
     (case rateLimitResetTargets rl now of
        (token, request) \<Rightarrow>
          if token = None \<and> request = None then add_usage tokens t r rl
          else case n of
            Suc m \<Rightarrow> charged_limit m now tokens t r (rolled_limit now rl)
          | 0 \<Rightarrow> add_usage tokens t r (reset_clone token request rl))"

declare charged_limit.simps [simp del]

lemma charged_limit_id [simp]: "rl_ID (charged_limit n now tokens t r rl) = rl_ID rl"
  by (induction n arbitrary: rl) (simp_all add: charged_limit.simps add_usage_def reset_clone_def split: prod.splits)

lemma bump_limit_row:
  assumes "rows_ok rows"
  shows "LoadRateLimit (bump_rate_limit n (\<lambda>_. now) i tokens t r rows) j =
      (if j = i then map_option (charged_limit n now tokens t r) (LoadRateLimit rows i) else LoadRateLimit rows j) \<and>
    LoadBudget (bump_rate_limit n (\<lambda>_. now) i tokens t r rows) j = LoadBudget rows j"
  using assms
proof (induction n arbitrary: rows)
  case 0
  then show ?case
    by (cases "LoadRateLimit rows i") (auto simp: bump_rate_limit.simps [of 0] charged_limit.simps [of 0] split: prod.splits)
next
  case (Suc n)
  show ?case
  proof (cases "LoadRateLimit rows i")
    case None
    then show ?thesis by (simp add: bump_rate_limit.simps [of "Suc n"])
  next
    case (Some rl)
    let ?rows = "fst (ResetExpiredRateLimitsInMemory now [i] rows)"
    note r = reset_one_rate_limit [OF Suc.prems Some, of now]
    have "rows_ok ?rows" using Suc.prems Some by (auto simp: rows_ok_def r)
    note ih = Suc.IH [OF this]
    show ?thesis
      using Some ih by (auto simp: bump_rate_limit.simps [of "Suc n"] charged_limit.simps [of "Suc n"] r split: prod.splits)
  qed
qed

lemma bump_budget_loads:
  assumes "rows_ok rows"
  shows "LoadBudget (BumpBudgetUsage (\<lambda>_. now) i cost rows) j =
      (if j = i then map_option (charged_row maxRequestTimeResetAttempts now cost) (LoadBudget rows i) else LoadBudget rows j)"
    and "LoadRateLimit (BumpBudgetUsage (\<lambda>_. now) i cost rows) j = LoadRateLimit rows j"
  using bump_row [OF assms] by (simp_all add: BumpBudgetUsage_def)

lemma bump_limit_loads:
  assumes "rows_ok rows"
  shows "LoadRateLimit (BumpRateLimitUsage (\<lambda>_. now) i tokens t r rows) j =
      (if j = i then map_option (charged_limit maxRequestTimeResetAttempts now tokens t r) (LoadRateLimit rows i) else LoadRateLimit rows j)"
    and "LoadBudget (BumpRateLimitUsage (\<lambda>_. now) i tokens t r rows) j = LoadBudget rows j"
  using bump_limit_row [OF assms] by (simp_all add: BumpRateLimitUsage_def)

lemma rows_ok_bump:
  assumes "rows_ok rows"
  shows "rows_ok (BumpBudgetUsage (\<lambda>_. now) i cost rows)" and "rows_ok (BumpRateLimitUsage (\<lambda>_. now) i tokens t r rows)"
  using assms by (auto simp: rows_ok_def bump_budget_loads [OF assms] bump_limit_loads [OF assms])

interpretation budget_charges: charging rows_ok LoadBudget "\<lambda>i. BumpBudgetUsage (\<lambda>_. now) i cost" b_ID for now cost
  by unfold_locales (simp_all add: rows_ok_bump bump_budget_loads option.map_comp comp_def)

interpretation limit_charges: charging rows_ok LoadRateLimit "\<lambda>i. BumpRateLimitUsage (\<lambda>_. now) i tokens t r" rl_ID for now tokens t r
  by unfold_locales (simp_all add: rows_ok_bump bump_limit_loads option.map_comp comp_def)

text \<open>Charges of the other kind change nothing.\<close>

lemma bump_across:
  assumes "rows_ok rows"
  shows "LoadRateLimit (bump_budgets now cost ids rows) i = LoadRateLimit rows i" and "LoadBudget (bump_limits now tokens t r ids rows) i = LoadBudget rows i"
proof -
  show "LoadRateLimit (bump_budgets now cost ids rows) i = LoadRateLimit rows i"
    using assms by (induction ids arbitrary: rows) (simp_all add: bump_budgets_def bump_budget_loads rows_ok_bump)
  show "LoadBudget (bump_limits now tokens t r ids rows) i = LoadBudget rows i"
    using assms by (induction ids arbitrary: rows) (simp_all add: bump_limits_def bump_limit_loads rows_ok_bump)
qed

lemma bumps_ok: "rows_ok rows \<Longrightarrow> rows_ok (bump_budgets now cost ids rows)" "rows_ok rows \<Longrightarrow> rows_ok (bump_limits now tokens t r ids rows)"
  by (simp_all add: bump_budgets_def bump_limits_def budget_charges.all_keep limit_charges.all_keep)

subsection \<open>Charges do not change what applies\<close>

definition same_owners :: "gov \<Rightarrow> gov \<Rightarrow> bool" where
  "same_owners gs gs' \<longleftrightarrow> gs' = gs\<lparr>gv_rows := gv_rows gs'\<rparr> \<and>
     (\<forall>i. map_option b_ID (LoadBudget (gv_rows gs') i) = map_option b_ID (LoadBudget (gv_rows gs) i)) \<and>
     (\<forall>i. map_option rl_ID (LoadRateLimit (gv_rows gs') i) = map_option rl_ID (LoadRateLimit (gv_rows gs) i))"

lemma same_ownersD:
  assumes "same_owners gs gs'"
  shows "gv_virtualKeys gs' = gv_virtualKeys gs" "gv_teams gs' = gv_teams gs" "gv_customers gs' = gv_customers gs"
    "gv_providers gs' = gv_providers gs" "gv_modelConfigs gs' = gv_modelConfigs gs"
  using assms unfolding same_owners_def by (metis gov.select_convs gov.surjective gov.update_convs(1))+

lemma same_owners_trans: "same_owners a b \<Longrightarrow> same_owners b c \<Longrightarrow> same_owners a c"
  by (cases a; cases b; cases c) (simp add: same_owners_def)

lemma same_owners_bump:
  assumes "rows_ok (gv_rows gs)"
  shows "same_owners gs (on_rows (bump_budgets now cost ids) gs)" and "same_owners gs (on_rows (bump_limits now tokens t r ids) gs)"
  using assms
  by (simp_all add: same_owners_def on_rows_def bump_across) (simp_all add: bump_budgets_def bump_limits_def budget_charges.all_present limit_charges.all_present)

lemma foldl_related: "R a b \<Longrightarrow> (\<And>x a b. R a b \<Longrightarrow> R (f a x) (g b x)) \<Longrightarrow> R (foldl f a xs) (foldl g b xs)"
  by (induction xs arbitrary: a b) auto

definition shape :: "('a \<Rightarrow> 'b) \<Rightarrow> (string, 'a list) gomap \<Rightarrow> (string, 'b list) gomap" where
  "shape f m = map (\<lambda>(k, xs). (k, map f xs)) m"

lemma shape_append_row: "shape f (append_row c x m) = append_row c (f x) (shape f m)"
  by (induction m) (auto simp: shape_def append_row_def gm_get_or_def split: if_splits)

lemma shape_ids: "map f (concat (map snd m)) = concat (map snd (shape f m))"
  by (induction m) (auto simp: shape_def)

lemma shape_append_limit:
  "shape rl_ID (append_limit gs c i m) = (case map_option rl_ID (hot_limit gs i) of None \<Rightarrow> shape rl_ID m | Some j \<Rightarrow> append_row c j (shape rl_ID m))"
  by (auto simp: append_limit_def shape_append_row split: option.splits)

lemma hot_limit_id: "same_owners gs gs' \<Longrightarrow> map_option rl_ID (hot_limit gs' i) = map_option rl_ID (hot_limit gs i)"
  by (cases i) (simp_all add: hot_limit_def same_owners_def)

lemma vk_owners_cong:
  assumes "same_owners gs gs'"
  shows "vk_team gs' vk = vk_team gs vk" "team_customer gs' vk = team_customer gs vk" "own_customer gs' vk = own_customer gs vk"
  using same_ownersD [OF assms] by (auto simp: vk_team_def team_customer_def own_customer_def team_customer_id_def split: option.split)

lemma append_limit_cong:
  assumes "same_owners gs gs'" and "shape rl_ID m' = shape rl_ID m"
  shows "shape rl_ID (append_limit gs' c i m') = shape rl_ID (append_limit gs c i m)"
  unfolding shape_append_limit hot_limit_id [OF assms(1)] assms(2) ..

lemma limit_ids_cong:
  assumes "same_owners gs gs'"
  shows "collectRateLimitIDsFromMemory gs' vk p = collectRateLimitIDsFromMemory gs vk p"
proof -
  have configs: "shape rl_ID (foldl (\<lambda>m pc. if pc_Provider pc = p then append_limit gs' (pc_Provider pc) (pc_RateLimitID pc) m else m) [] pcs) =
    shape rl_ID (foldl (\<lambda>m pc. if pc_Provider pc = p then append_limit gs (pc_Provider pc) (pc_RateLimitID pc) m else m) [] pcs)" for pcs
    by (rule foldl_related [where R = "\<lambda>m' m. shape rl_ID m' = shape rl_ID m"]) (auto simp: append_limit_cong [OF assms])
  have "shape rl_ID (collectRateLimitsFromHierarchy gs' vk p) = shape rl_ID (collectRateLimitsFromHierarchy gs vk p)"
    unfolding collectRateLimitsFromHierarchy_def vk_owners_cong [OF assms] Let_def by (intro append_limit_cong [OF assms] configs)
  then show ?thesis by (simp add: collectRateLimitIDsFromMemory_def shape_ids)
qed

definition group_ids :: "budget_groups \<Rightarrow> (string, string list) gomap \<times> string list" where
  "group_ids acc = (shape b_ID (fst acc), snd acc)"

lemma group_ids_append: "group_ids (append_budget c b acc) = (append_row c (b_ID b) (fst (group_ids acc)), b_ID b # snd (group_ids acc))"
  by (simp add: group_ids_def append_budget_def shape_append_row)

lemma append_hot_cong:
  assumes "same_owners gs gs'" and "group_ids acc' = group_ids acc"
  shows "group_ids (case LoadBudget (gv_rows gs') i of None \<Rightarrow> acc' | Some hot \<Rightarrow> append_budget c hot acc') =
    group_ids (case LoadBudget (gv_rows gs) i of None \<Rightarrow> acc | Some hot \<Rightarrow> append_budget c hot acc)"
proof -
  have "map_option b_ID (LoadBudget (gv_rows gs') i) = map_option b_ID (LoadBudget (gv_rows gs) i)" using assms(1) by (simp add: same_owners_def)
  then show ?thesis using assms(2) by (cases "LoadBudget (gv_rows gs) i"; cases "LoadBudget (gv_rows gs') i") (simp_all add: group_ids_append)
qed

lemma collect_new_cong:
  assumes "same_owners gs gs'" and "group_ids acc' = group_ids acc"
  shows "group_ids (collect_new gs' c bs acc') = group_ids (collect_new gs c bs acc)"
  unfolding collect_new_def
proof (rule foldl_related [where R = "\<lambda>x y. group_ids x = group_ids y", OF assms(2)])
  fix b :: table_budget and x y :: budget_groups
  assume "group_ids x = group_ids y"
  then show "group_ids (if b_ID b \<in> set (snd x) then x else case LoadBudget (gv_rows gs') (b_ID b) of None \<Rightarrow> x | Some hot \<Rightarrow> append_budget c hot x) =
    group_ids (if b_ID b \<in> set (snd y) then y else case LoadBudget (gv_rows gs) (b_ID b) of None \<Rightarrow> y | Some hot \<Rightarrow> append_budget c hot y)"
    using append_hot_cong [OF assms(1), of x y c "b_ID b"] by (simp add: group_ids_def)
qed

lemma collect_all_eq:
  "collect_all gs c bs acc = foldl (\<lambda>acc b. case LoadBudget (gv_rows gs) (b_ID b) of None \<Rightarrow> acc | Some hot \<Rightarrow> append_budget c hot acc) acc bs"
  by (induction bs arbitrary: acc) (simp_all add: collect_all_def hot_budgets_def List.map_filter_simps split: option.splits)

lemma collect_all_cong:
  assumes "same_owners gs gs'" and "group_ids acc' = group_ids acc"
  shows "group_ids (collect_all gs' c bs acc') = group_ids (collect_all gs c bs acc)"
  unfolding collect_all_eq
  by (rule foldl_related [where R = "\<lambda>x y. group_ids x = group_ids y", OF assms(2)]) (rule append_hot_cong [OF assms(1)])

lemma budget_ids_cong:
  assumes "same_owners gs gs'"
  shows "collectBudgetIDsFromMemory gs' vk p = collectBudgetIDsFromMemory gs vk p"
proof -
  have configs: "group_ids (foldl (\<lambda>acc pc. if pc_Provider pc \<noteq> p then acc else collect_new gs' (pc_Provider pc) (pc_Budgets pc) acc) ([], []) pcs) =
    group_ids (foldl (\<lambda>acc pc. if pc_Provider pc \<noteq> p then acc else collect_new gs (pc_Provider pc) (pc_Budgets pc) acc) ([], []) pcs)" for pcs
    by (rule foldl_related [where R = "\<lambda>x y. group_ids x = group_ids y"]) (auto simp: collect_new_cong [OF assms])
  note new = collect_new_cong [OF assms] and all = collect_all_cong [OF assms]
  have "shape b_ID (collectBudgetsFromHierarchy gs' vk p) = shape b_ID (collectBudgetsFromHierarchy gs vk p)"
    using all [OF all [OF new [OF new [OF configs]]]]
    unfolding collectBudgetsFromHierarchy_def vk_owners_cong [OF assms] Let_def group_ids_def prod.inject by blast
  then show ?thesis by (simp add: collectBudgetIDsFromMemory_def shape_ids)
qed

lemma configs_cong: "same_owners gs gs' \<Longrightarrow> collectModelConfigsFor catalog gs' = collectModelConfigsFor catalog gs"
  by (intro ext) (simp add: collectModelConfigsFor_def findScopedModelOnlyConfig_def loadKey_def same_ownersD cong: option.case_cong if_cong)

lemma provider_row_cong: "same_owners gs gs' \<Longrightarrow> provider_row gs' = provider_row gs"
  by (intro ext) (simp add: provider_row_def same_ownersD)

section \<open>Edits keep the store well formed\<close>

subsection \<open>Rows\<close>

lemma rows_ok_put:
  "rows_ok rows \<Longrightarrow> b_ID b = i \<Longrightarrow> rows_ok (put_budget i b rows)"
  "rows_ok rows \<Longrightarrow> rl_ID rl = j \<Longrightarrow> rows_ok (put_rate_limit j rl rows)"
  by (simp_all add: rows_ok_def)

lemma load_delete:
  "LoadBudget (DeleteBudget i rows) j = (if j = i then None else LoadBudget rows j)" "LoadRateLimit (DeleteBudget i rows) j = LoadRateLimit rows j"
  "LoadRateLimit (DeleteRateLimit i rows) j = (if j = i then None else LoadRateLimit rows j)" "LoadBudget (DeleteRateLimit i rows) j = LoadBudget rows j"
  by (simp_all add: DeleteBudget_def DeleteRateLimit_def LoadBudget_def LoadRateLimit_def markBudgetResetLocked_def)

lemma rows_ok_delete: "rows_ok rows \<Longrightarrow> rows_ok (DeleteBudget i rows)" "rows_ok rows \<Longrightarrow> rows_ok (DeleteRateLimit i rows)"
  by (simp_all add: rows_ok_def load_delete)

lemma rows_ok_deletes: "rows_ok rows \<Longrightarrow> rows_ok (delete_budgets ids rows)" "rows_ok rows \<Longrightarrow> rows_ok (delete_limits ids rows)"
proof -
  show "rows_ok rows \<Longrightarrow> rows_ok (delete_budgets ids rows)"
    by (induction ids arbitrary: rows) (simp_all add: delete_budgets_def rows_ok_delete)
  show "rows_ok rows \<Longrightarrow> rows_ok (delete_limits ids rows)"
    by (induction ids arbitrary: rows) (simp_all add: delete_limits_def rows_ok_delete)
qed

lemma kept_ids [simp]:
  "b_ID (kept_budget a rows b) = b_ID b" "b_ID (fresh_budget a rows b) = b_ID b" "rl_ID (kept_limit a rows rl) = rl_ID rl"
  "rl_ID (fresh_limit a rows rl) = rl_ID rl" "rl_ID (keep_counters rows rl) = rl_ID rl" "rl_ID (align_limit a rl) = rl_ID rl"
  by (simp_all add: kept_budget_def fresh_budget_def kept_limit_def fresh_limit_def align_budget_def align_limit_def keep_usage_def
      keep_windows_def keep_counters_def split: option.splits)

lemma rows_ok_publish: "(\<And>rows b. b_ID (f rows b) = b_ID b) \<Longrightarrow> rows_ok rows \<Longrightarrow> rows_ok (snd (publish_budgets f bs rows))"
  by (induction bs arbitrary: rows) (simp_all add: storeBudget_def rows_ok_put Let_def split_beta)

lemma rows_ok_publish_limit: "(\<And>rows rl. rl_ID (f rows rl) = rl_ID rl) \<Longrightarrow> rows_ok rows \<Longrightarrow> rows_ok (snd (publish_limit f rl rows))"
  by (simp add: publish_limit_def rows_ok_put split: option.splits)

lemma rows_ok_edit_limit: "(\<And>rows rl. rl_ID (f rows rl) = rl_ID rl) \<Longrightarrow> rows_ok rows \<Longrightarrow> rows_ok (snd (edit_limit f old new rows))"
  using rows_ok_publish_limit [of f rows new] by (simp add: edit_limit_def rows_ok_delete split_beta split: option.split)

lemma rows_ok_owners:
  assumes "rows_ok rows"
  shows "rows_ok (snd (publish_budgets (kept_budget a) bs rows))" "rows_ok (snd (publish_budgets (fresh_budget a) bs rows))"
    "rows_ok (snd (publish_limit (kept_limit a) rl rows))" "rows_ok (snd (publish_limit (fresh_limit a) rl rows))"
    "rows_ok (snd (edit_limit (kept_limit a) old rl rows))"
  using assms by (simp_all add: rows_ok_publish rows_ok_publish_limit rows_ok_edit_limit)

lemmas rows_ok_owner = rows_ok_deletes rows_ok_delete rows_ok_owners

lemma rows_ok_configs: "rows_ok rows \<Longrightarrow> rows_ok (snd (publish_configs a pcs rows))"
proof (induction pcs arbitrary: rows)
  case (Cons pc pcs)
  then show ?case by (simp add: Let_def rows_ok_owner split_beta)
qed simp

lemma rows_ok_edit_configs: "rows_ok rows \<Longrightarrow> rows_ok (snd (edit_configs a new olds pcs rows))"
proof (induction pcs arbitrary: rows)
  case (Cons pc pcs)
  then show ?case by (simp add: Let_def rows_ok_owner split_beta split: option.split)
qed simp

lemma rows_ok_orphans: "rows_ok rows \<Longrightarrow> rows_ok (orphans new newLimits olds rows)"
  by (induction olds arbitrary: rows) (simp_all add: orphans_def rows_ok_owner split: option.splits)

subsection \<open>Virtual keys and their index\<close>

text \<open>A key is stored under its secret, each identifier has one secret, and the index by identifier agrees.\<close>

definition keys_wf :: "gov \<Rightarrow> bool" where
  "keys_wf gs \<longleftrightarrow> gm_wf (gv_virtualKeys gs) \<and>
     (\<forall>k v. GetVirtualKey gs k = Some v \<longrightarrow> k \<noteq> [] \<and> vk_Value v = k \<and> vk_ID v \<noteq> []) \<and>
     (\<forall>k k' v v'. GetVirtualKey gs k = Some v \<longrightarrow> GetVirtualKey gs k' = Some v' \<longrightarrow> vk_ID v = vk_ID v' \<longrightarrow> k = k') \<and>
     (\<forall>i v. GetVirtualKeyByID gs i = Some v \<longleftrightarrow> (\<exists>k. GetVirtualKey gs k = Some v \<and> vk_ID v = i))"

lemma keys_wfD:
  assumes "keys_wf gs"
  shows "gm_wf (gv_virtualKeys gs)" "GetVirtualKey gs k = Some v \<Longrightarrow> k \<noteq> [] \<and> vk_Value v = k \<and> vk_ID v \<noteq> []"
    "GetVirtualKey gs k = Some v \<Longrightarrow> GetVirtualKey gs k' = Some v' \<Longrightarrow> vk_ID v = vk_ID v' \<Longrightarrow> k = k'"
    "GetVirtualKeyByID gs i = Some v \<longleftrightarrow> (\<exists>k. GetVirtualKey gs k = Some v \<and> vk_ID v = i)"
  using assms unfolding keys_wf_def by blast+

lemma keys_wf_cong: "gv_virtualKeys gs' = gv_virtualKeys gs \<Longrightarrow> gv_virtualKeysByID gs' = gv_virtualKeysByID gs \<Longrightarrow> keys_wf gs' = keys_wf gs"
  by (simp add: keys_wf_def GetVirtualKey_def GetVirtualKeyByID_def)

lemma keys_wf_fields [simp]:
  "keys_wf (gs\<lparr>gv_rows := rows\<rparr>) = keys_wf gs" "keys_wf (gs\<lparr>gv_teams := ts\<rparr>) = keys_wf gs" "keys_wf (gs\<lparr>gv_customers := cs\<rparr>) = keys_wf gs"
  "keys_wf (gs\<lparr>gv_providers := ps\<rparr>) = keys_wf gs" "keys_wf (gs\<lparr>gv_modelConfigs := mcs\<rparr>) = keys_wf gs"
  "keys_wf (gs\<lparr>gv_teamModelPolicies := tps\<rparr>) = keys_wf gs"
  by (rule keys_wf_cong; simp)+

lemma get_store:
  "GetVirtualKey (storeVirtualKey value vk gs) k = (if value \<noteq> [] \<and> k = value then Some vk else GetVirtualKey gs k)"
  "GetVirtualKeyByID (storeVirtualKey value vk gs) i =
     (if value \<noteq> [] \<and> vk_ID vk \<noteq> [] \<and> i = vk_ID vk then Some vk else GetVirtualKeyByID gs i)"
  by (simp_all add: storeVirtualKey_def GetVirtualKey_def GetVirtualKeyByID_def)

lemma get_delete:
  "GetVirtualKey (deleteVirtualKeyByValue value gs) k = (if k = value then None else GetVirtualKey gs k)"
  "GetVirtualKeyByID (deleteVirtualKeyByValue value gs) i =
     (case GetVirtualKey gs value of
        Some v \<Rightarrow> if vk_ID v \<noteq> [] \<and> i = vk_ID v then None else GetVirtualKeyByID gs i
      | None \<Rightarrow> GetVirtualKeyByID gs i)"
  by (simp_all add: deleteVirtualKeyByValue_def GetVirtualKey_def GetVirtualKeyByID_def split: option.splits)

lemma key_rows_frame [simp]:
  "gv_rows (storeVirtualKey value vk gs) = gv_rows gs" "gv_rows (deleteVirtualKeyByValue value gs) = gv_rows gs"
  by (simp_all add: storeVirtualKey_def deleteVirtualKeyByValue_def)

lemma keys_wfI:
  assumes "gm_wf (gv_virtualKeys gs)" and "\<And>k v. GetVirtualKey gs k = Some v \<Longrightarrow> k \<noteq> [] \<and> vk_Value v = k \<and> vk_ID v \<noteq> []"
    and "\<And>k k' v v'. GetVirtualKey gs k = Some v \<Longrightarrow> GetVirtualKey gs k' = Some v' \<Longrightarrow> vk_ID v = vk_ID v' \<Longrightarrow> k = k'"
    and "\<And>i v. GetVirtualKeyByID gs i = Some v \<longleftrightarrow> (\<exists>k. GetVirtualKey gs k = Some v \<and> vk_ID v = i)"
  shows "keys_wf gs"
  using assms unfolding keys_wf_def by blast

lemma keys_wf_store:
  assumes wf: "keys_wf gs" and id: "vk_ID vk \<noteq> []" and secret: "vk_Value vk = value"
    and mine: "\<And>v. GetVirtualKey gs value = Some v \<Longrightarrow> vk_ID v = vk_ID vk"
    and sole: "\<And>k v. GetVirtualKey gs k = Some v \<Longrightarrow> vk_ID v = vk_ID vk \<Longrightarrow> k = value"
  shows "keys_wf (storeVirtualKey value vk gs)"
proof (cases "value = []")
  case True
  then show ?thesis using wf by (simp add: storeVirtualKey_def)
next
  case False
  define gs' where "gs' = storeVirtualKey value vk gs"
  have get: "GetVirtualKey gs' k = (if k = value then Some vk else GetVirtualKey gs k)"
    and byid: "GetVirtualKeyByID gs' i = (if i = vk_ID vk then Some vk else GetVirtualKeyByID gs i)" for k i
    using False id by (simp_all add: gs'_def get_store)
  have "keys_wf gs'"
  proof (rule keys_wfI)
    show "gm_wf (gv_virtualKeys gs')" using keys_wfD(1) [OF wf] by (simp add: gs'_def storeVirtualKey_def)
  next
    fix k v assume "GetVirtualKey gs' k = Some v"
    then show "k \<noteq> [] \<and> vk_Value v = k \<and> vk_ID v \<noteq> []"
      using False id secret keys_wfD(2) [OF wf, of k v] by (cases "k = value") (simp_all add: get)
  next
    fix k k' v v' assume "GetVirtualKey gs' k = Some v" "GetVirtualKey gs' k' = Some v'" and eq: "vk_ID v = vk_ID v'"
    then consider "k = value" "k' = value" | "k = value" "v = vk" "GetVirtualKey gs k' = Some v'" | "k' = value" "v' = vk" "GetVirtualKey gs k = Some v"
      | "GetVirtualKey gs k = Some v" "GetVirtualKey gs k' = Some v'"
      by (cases "k = value"; cases "k' = value") (simp_all add: get)
    then show "k = k'"
    proof cases
      case 2
      then show ?thesis using sole [of k' v'] eq by simp
    next
      case 3
      then show ?thesis using sole [of k v] eq by simp
    qed (use eq keys_wfD(3) [OF wf] in blast)+
  next
    fix i v
    show "GetVirtualKeyByID gs' i = Some v \<longleftrightarrow> (\<exists>k. GetVirtualKey gs' k = Some v \<and> vk_ID v = i)"
    proof (cases "i = vk_ID vk")
      case True
      have "v = vk" if "GetVirtualKey gs' k = Some v" "vk_ID v = vk_ID vk" for k
        using that sole [of k v] by (cases "k = value") (simp_all add: get)
      moreover have "GetVirtualKey gs' value = Some vk" by (simp add: get)
      moreover have "GetVirtualKeyByID gs' i = Some vk" using True by (simp add: byid)
      ultimately show ?thesis using True by auto
    next
      case False
      then have "(\<exists>k. GetVirtualKey gs' k = Some v \<and> vk_ID v = i) \<longleftrightarrow> (\<exists>k. GetVirtualKey gs k = Some v \<and> vk_ID v = i)"
        using mine [of v] by (metis get option.inject)
      then show ?thesis using False keys_wfD(4) [OF wf, of i v] by (simp add: byid)
    qed
  qed
  then show ?thesis by (simp add: gs'_def)
qed

lemma keys_wf_delete:
  assumes wf: "keys_wf gs"
  shows "keys_wf (deleteVirtualKeyByValue value gs)"
proof (cases "GetVirtualKey gs value")
  case None
  then have "deleteVirtualKeyByValue value gs = gs" by (simp add: deleteVirtualKeyByValue_def GetVirtualKey_def gm_del_absent)
  then show ?thesis using wf by simp
next
  case (Some old)
  let ?gs = "deleteVirtualKeyByValue value gs"
  have get: "GetVirtualKey ?gs k = (if k = value then None else GetVirtualKey gs k)"
    and byid: "GetVirtualKeyByID ?gs i = (if i = vk_ID old then None else GetVirtualKeyByID gs i)" for k i
    using Some keys_wfD(2) [OF wf Some] by (simp_all add: get_delete)
  show ?thesis
  proof (rule keys_wfI)
    show "gm_wf (gv_virtualKeys ?gs)" using keys_wfD(1) [OF wf] by (simp add: deleteVirtualKeyByValue_def)
  next
    fix k v assume "GetVirtualKey ?gs k = Some v"
    then show "k \<noteq> [] \<and> vk_Value v = k \<and> vk_ID v \<noteq> []" using keys_wfD(2) [OF wf, of k v] by (simp add: get split: if_splits)
  next
    fix k k' v v' assume "GetVirtualKey ?gs k = Some v" "GetVirtualKey ?gs k' = Some v'" "vk_ID v = vk_ID v'"
    then show "k = k'" using keys_wfD(3) [OF wf, of k v k' v'] by (simp add: get split: if_splits)
  next
    fix i v
    have "k = value" if "GetVirtualKey gs k = Some v" "vk_ID v = vk_ID old" for k by (rule keys_wfD(3) [OF wf that(1) Some that(2)])
    then have "(\<exists>k. GetVirtualKey ?gs k = Some v \<and> vk_ID v = i) \<longleftrightarrow> i \<noteq> vk_ID old \<and> (\<exists>k. GetVirtualKey gs k = Some v \<and> vk_ID v = i)"
      using Some by (metis get option.distinct(1) option.inject)
    then show "GetVirtualKeyByID ?gs i = Some v \<longleftrightarrow> (\<exists>k. GetVirtualKey ?gs k = Some v \<and> vk_ID v = i)"
      using keys_wfD(4) [OF wf, of i v] by (simp add: byid)
  qed
qed

lemma find_entry:
  assumes "keys_wf gs"
  shows "List.find (\<lambda>(k, v). vk_ID v = i) (gv_virtualKeys gs) = Some (k, v) \<Longrightarrow> GetVirtualKey gs k = Some v \<and> vk_ID v = i"
    and "List.find (\<lambda>(k, v). vk_ID v = i) (gv_virtualKeys gs) = None \<Longrightarrow> GetVirtualKey gs k = Some v \<Longrightarrow> vk_ID v \<noteq> i"
proof -
  have mem: "GetVirtualKey gs k = Some v \<longleftrightarrow> (k, v) \<in> set (gv_virtualKeys gs)" for k v
    using gm_get_in_set [OF keys_wfD(1) [OF assms]] by (simp add: GetVirtualKey_def)
  show "List.find (\<lambda>(k, v). vk_ID v = i) (gv_virtualKeys gs) = Some (k, v) \<Longrightarrow> GetVirtualKey gs k = Some v \<and> vk_ID v = i"
    unfolding mem using nth_mem by (fastforce simp: find_Some_iff)
  show "List.find (\<lambda>(k, v). vk_ID v = i) (gv_virtualKeys gs) = None \<Longrightarrow> GetVirtualKey gs k = Some v \<Longrightarrow> vk_ID v \<noteq> i"
    unfolding mem by (auto simp: find_None_iff)
qed

lemma existing_entry_cases:
  assumes "keys_wf gs"
  shows "existing_entry vk gs = Some (k, old) \<Longrightarrow> GetVirtualKey gs k = Some old \<and> vk_ID old = vk_ID vk"
    and "existing_entry vk gs = None \<Longrightarrow> GetVirtualKey gs k = Some old \<Longrightarrow> vk_ID old \<noteq> vk_ID vk"
proof -
  have e: "existing_entry vk gs = (case GetVirtualKey gs (vk_Value vk) of
      Some v \<Rightarrow> if vk_ID v = vk_ID vk then Some (vk_Value vk, v) else List.find (\<lambda>(k, v). vk_ID v = vk_ID vk) (gv_virtualKeys gs)
    | None \<Rightarrow> List.find (\<lambda>(k, v). vk_ID v = vk_ID vk) (gv_virtualKeys gs))"
    by (simp add: existing_entry_def)
  show "existing_entry vk gs = Some (k, old) \<Longrightarrow> GetVirtualKey gs k = Some old \<and> vk_ID old = vk_ID vk"
    using find_entry(1) [OF assms, of "vk_ID vk" k old] unfolding e by (simp split: option.splits if_splits)
  show "existing_entry vk gs = None \<Longrightarrow> GetVirtualKey gs k = Some old \<Longrightarrow> vk_ID old \<noteq> vk_ID vk"
    using find_entry(2) [OF assms, of "vk_ID vk" k old] unfolding e by (simp split: option.splits if_splits)
qed

text \<open>What an edit stores is the key it was given, but for the copies of the rows.\<close>

definition copy_of :: "table_virtual_key \<Rightarrow> table_virtual_key \<Rightarrow> bool" where
  "copy_of vk vk' \<longleftrightarrow>
     vk'\<lparr>vk_Budgets := vk_Budgets vk, vk_RateLimit := vk_RateLimit vk, vk_ProviderConfigs := vk_ProviderConfigs vk\<rparr> = vk"

lemma copy_ofI: "copy_of vk (vk\<lparr>vk_Budgets := bs, vk_RateLimit := rl, vk_ProviderConfigs := pcs\<rparr>)"
  by (simp add: copy_of_def)

lemma copy_of_fields: "copy_of vk vk' \<Longrightarrow> vk_ID vk' = vk_ID vk \<and> vk_Value vk' = vk_Value vk"
  by (cases vk; cases vk') (simp add: copy_of_def)

definition release_old :: "table_virtual_key \<Rightarrow> gov \<Rightarrow> gov \<Rightarrow> gov" where
  "release_old vk gs gs' =
     (case existing_entry vk gs of
        Some (k, old) \<Rightarrow> if k \<noteq> [] \<and> k \<noteq> vk_Value vk then deleteVirtualKeyByValue k gs' else gs'
      | None \<Rightarrow> gs')"

lemma update_eq:
  obtains rows vk' where "UpdateVirtualKeyInMemory vk gs = storeVirtualKey (vk_Value vk) vk' (release_old vk gs (gs\<lparr>gv_rows := rows\<rparr>))"
    and "copy_of vk vk'" and "rows_ok (gv_rows gs) \<Longrightarrow> rows_ok rows"
proof (cases "existing_entry vk gs")
  case None
  define b where "b = publish_budgets (fresh_budget (vk_CalendarAligned vk)) (vk_Budgets vk) (gv_rows gs)"
  define l where "l = publish_limit (fresh_limit (vk_CalendarAligned vk)) (vk_RateLimit vk) (snd b)"
  define p where "p = publish_configs (vk_CalendarAligned vk) (vk_ProviderConfigs vk) (snd l)"
  have "UpdateVirtualKeyInMemory vk gs =
    storeVirtualKey (vk_Value vk) (vk\<lparr>vk_Budgets := fst b, vk_RateLimit := fst l, vk_ProviderConfigs := fst p\<rparr>) (release_old vk gs (gs\<lparr>gv_rows := snd p\<rparr>))"
    using None by (simp add: UpdateVirtualKeyInMemory_def CreateVirtualKeyInMemory_def release_old_def split_beta p_def l_def b_def Let_def)
  then show ?thesis by (rule that [OF _ copy_ofI]) (simp add: p_def l_def b_def rows_ok_configs rows_ok_owner)
next
  case (Some e)
  obtain k old where e: "e = (k, old)" by (cases e)
  define new where "new = new_budget_ids vk"
  define b where "b = publish_budgets (kept_budget (vk_CalendarAligned vk)) (vk_Budgets vk) (gv_rows gs)"
  define l where "l = edit_limit (kept_limit (vk_CalendarAligned vk)) (vk_RateLimit old) (vk_RateLimit vk) (delete_budgets (removed new (vk_Budgets old)) (snd b))"
  define p where "p = edit_configs (vk_CalendarAligned vk) new (vk_ProviderConfigs old) (vk_ProviderConfigs vk) (snd l)"
  define rows where "rows = orphans new (new_limit_ids vk) (vk_ProviderConfigs old) (snd p)"
  have "UpdateVirtualKeyInMemory vk gs =
    storeVirtualKey (vk_Value vk) (vk\<lparr>vk_Budgets := fst b, vk_RateLimit := fst l, vk_ProviderConfigs := fst p\<rparr>) (release_old vk gs (gs\<lparr>gv_rows := rows\<rparr>))"
    using Some by (simp add: e UpdateVirtualKeyInMemory_def release_old_def split_beta rows_def p_def l_def b_def new_def Let_def)
  then show ?thesis by (rule that [OF _ copy_ofI]) (simp add: rows_def p_def l_def b_def rows_ok_orphans rows_ok_edit_configs rows_ok_owner)
qed

lemma release_get:
  assumes "keys_wf gs"
  shows "GetVirtualKey (release_old vk gs (gs\<lparr>gv_rows := rows\<rparr>)) k =
    (case GetVirtualKey gs k of
       Some v \<Rightarrow> if vk_ID v = vk_ID vk \<and> k \<noteq> vk_Value vk then None else Some v
     | None \<Rightarrow> None)"
proof -
  have frame: "GetVirtualKey (gs\<lparr>gv_rows := rows\<rparr>) j = GetVirtualKey gs j" for j by (simp add: GetVirtualKey_def)
  show ?thesis
  proof (cases "existing_entry vk gs")
    case None
    then show ?thesis using existing_entry_cases(2) [OF assms None, of k] by (simp add: release_old_def frame split: option.split)
  next
    case (Some e)
    obtain k0 old where e: "e = (k0, old)" by (cases e)
    note old = existing_entry_cases(1) [OF assms Some [unfolded e]]
    have sole: "j = k0" if "GetVirtualKey gs j = Some v" "vk_ID v = vk_ID vk" for j v
      by (rule keys_wfD(3) [OF assms that(1) conjunct1 [OF old]]) (simp add: old that(2))
    have "k0 \<noteq> []" using keys_wfD(2) [OF assms conjunct1 [OF old]] by simp
    then have r: "GetVirtualKey (release_old vk gs (gs\<lparr>gv_rows := rows\<rparr>)) k = (if k = k0 \<and> k0 \<noteq> vk_Value vk then None else GetVirtualKey gs k)"
      using Some e by (simp add: release_old_def frame get_delete)
    show ?thesis
    proof (cases "GetVirtualKey gs k")
      case (Some v)
      then have "vk_ID v = vk_ID vk \<longleftrightarrow> k = k0" using old sole [of k v] by auto
      then show ?thesis using Some unfolding r by auto
    qed (simp add: r)
  qed
qed

lemma keys_wf_release:
  assumes "keys_wf gs"
  shows "keys_wf (release_old vk gs (gs\<lparr>gv_rows := rows\<rparr>))"
proof -
  have "keys_wf (gs\<lparr>gv_rows := rows\<rparr>)" using assms keys_wf_cong [of "gs\<lparr>gv_rows := rows\<rparr>" gs] by simp
  then show ?thesis by (simp add: release_old_def keys_wf_delete split: option.split)
qed

lemma keys_wf_update:
  assumes "keys_wf gs" and "vk_ID vk \<noteq> []" and "\<And>v. GetVirtualKey gs (vk_Value vk) = Some v \<Longrightarrow> vk_ID v = vk_ID vk"
  shows "keys_wf (UpdateVirtualKeyInMemory vk gs)"
proof -
  obtain rows vk' where u: "UpdateVirtualKeyInMemory vk gs = storeVirtualKey (vk_Value vk) vk' (release_old vk gs (gs\<lparr>gv_rows := rows\<rparr>))" "copy_of vk vk'"
    using update_eq by metis
  note c = copy_of_fields [OF u(2)]
  have get: "GetVirtualKey gs k = Some v \<and> (vk_ID v = vk_ID vk \<longrightarrow> k = vk_Value vk)"
    if "GetVirtualKey (release_old vk gs (gs\<lparr>gv_rows := rows\<rparr>)) k = Some v" for k v
    using that unfolding release_get [OF assms(1)] by (cases "GetVirtualKey gs k") (simp_all split: if_splits)
  show ?thesis unfolding u(1)
  proof (rule keys_wf_store [OF keys_wf_release [OF assms(1)]])
    show "vk_ID vk' \<noteq> []" "vk_Value vk' = vk_Value vk" using c assms(2) by simp_all
    show "vk_ID v = vk_ID vk'" if "GetVirtualKey (release_old vk gs (gs\<lparr>gv_rows := rows\<rparr>)) (vk_Value vk) = Some v" for v
      using get [OF that] assms(3) [of v] c by simp
    show "k = vk_Value vk" if "GetVirtualKey (release_old vk gs (gs\<lparr>gv_rows := rows\<rparr>)) k = Some v" "vk_ID v = vk_ID vk'" for k v
      using get [OF that(1)] that(2) c by simp
  qed
qed

lemma release_rows [simp]: "gv_rows (release_old vk gs gs') = gv_rows gs'"
  by (simp add: release_old_def split: option.split)

lemma rows_ok_update: "rows_ok (gv_rows gs) \<Longrightarrow> rows_ok (gv_rows (UpdateVirtualKeyInMemory vk gs))"
  by (rule update_eq [of vk gs]) simp

definition gov_wf :: "gov \<Rightarrow> bool" where
  "gov_wf gs \<longleftrightarrow> keys_wf gs \<and> rows_ok (gv_rows gs)"

lemma gov_wf_frame:
  assumes "gov_wf gs" and "gv_virtualKeys gs' = gv_virtualKeys gs" and "gv_virtualKeysByID gs' = gv_virtualKeysByID gs" and "rows_ok (gv_rows gs')"
  shows "gov_wf gs'"
  using assms keys_wf_cong [of gs' gs] by (simp add: gov_wf_def)

lemma gov_wf_fold:
  assumes "\<And>x gs. x \<in> set xs \<Longrightarrow> gov_wf gs \<Longrightarrow> gov_wf (f x gs)" and "gov_wf gs"
  shows "gov_wf (fold f xs gs)"
  using assms by (induction xs arbitrary: gs) auto

lemma gov_wf_drop_config: "gov_wf gs \<Longrightarrow> gov_wf (drop_config k mc gs)"
  by (rule gov_wf_frame [of gs]) (simp_all add: drop_config_def gov_wf_def rows_ok_owner)

lemma gov_wf_drop_configs: "gov_wf gs \<Longrightarrow> gov_wf (DeleteModelConfigsForScopeInMemory scope scopeID gs)"
  unfolding DeleteModelConfigsForScopeInMemory_def by (rule gov_wf_fold) (auto simp: gov_wf_drop_config)

lemma gov_wf_drop_key:
  assumes "gov_wf gs"
  shows "gov_wf (drop_key k vk gs)"
proof -
  have r: "rows_ok (fold (\<lambda>pc rows. delete_limits (case pc_RateLimitID pc of None \<Rightarrow> [] | Some i \<Rightarrow> [i]) (delete_budgets (map b_ID (pc_Budgets pc)) rows)) pcs rows)"
    if "rows_ok rows" for pcs rows
    using that by (induction pcs arbitrary: rows) (simp_all add: rows_ok_owner)
  have "gov_wf (on_rows (\<lambda>rows.
         fold (\<lambda>pc rows. delete_limits (case pc_RateLimitID pc of None \<Rightarrow> [] | Some i \<Rightarrow> [i]) (delete_budgets (map b_ID (pc_Budgets pc)) rows))
           (vk_ProviderConfigs vk)
           (delete_limits (case vk_RateLimitID vk of None \<Rightarrow> [] | Some i \<Rightarrow> [i]) (delete_budgets (map b_ID (vk_Budgets vk)) rows))) gs)"
    using assms by (intro gov_wf_frame [OF assms]) (simp_all add: on_rows_def gov_wf_def r rows_ok_owner del: fold.simps)
  then show ?thesis by (simp add: drop_key_def gov_wf_def keys_wf_delete)
qed

lemma on_keys_wf:
  assumes wf: "keys_wf gs" and f: "\<And>v v'. f v = Some v' \<Longrightarrow> vk_ID v' = vk_ID v \<and> vk_Value v' = vk_Value v"
  shows "keys_wf (on_keys f gs) \<and> gv_rows (on_keys f gs) = gv_rows gs"
proof -
  let ?step = "\<lambda>(k, vk) gs. case f vk of None \<Rightarrow> gs | Some vk' \<Rightarrow> storeVirtualKey k vk' gs"
  have "keys_wf (fold ?step xs gs') \<and> gv_rows (fold ?step xs gs') = gv_rows gs'"
    if "set xs \<subseteq> set (gv_virtualKeys gs)" "keys_wf gs'" "\<And>k. map_option vk_ID (GetVirtualKey gs' k) = map_option vk_ID (GetVirtualKey gs k)" for xs gs'
    using that
  proof (induction xs arbitrary: gs')
    case (Cons x xs)
    obtain k v where x: "x = (k, v)" by (cases x)
    have v: "GetVirtualKey gs k = Some v" using Cons.prems(1) gm_get_in_set [OF keys_wfD(1) [OF wf]] by (simp add: x GetVirtualKey_def)
    show ?case
    proof (cases "f v")
      case None
      then show ?thesis using Cons by (simp add: x)
    next
      case (Some v')
      note v' = f [OF Some]
      obtain w where w: "GetVirtualKey gs' k = Some w" "vk_ID w = vk_ID v" using Cons.prems(3) [of k] v by (cases "GetVirtualKey gs' k") auto
      have "keys_wf (storeVirtualKey k v' gs')"
      proof (rule keys_wf_store [OF Cons.prems(2)])
        show "vk_ID v' \<noteq> []" "vk_Value v' = k" using v' keys_wfD(2) [OF wf v] by simp_all
        show "vk_ID u = vk_ID v'" if "GetVirtualKey gs' k = Some u" for u using that w v' by simp
        show "j = k" if "GetVirtualKey gs' j = Some u" "vk_ID u = vk_ID v'" for j u
          using keys_wfD(3) [OF Cons.prems(2) that(1) w(1)] that(2) w(2) v' by simp
      qed
      moreover have "map_option vk_ID (GetVirtualKey (storeVirtualKey k v' gs') j) = map_option vk_ID (GetVirtualKey gs j)" for j
        using Cons.prems(3) [of j] v v' by (simp add: get_store)
      ultimately show ?thesis using Cons.IH [of "storeVirtualKey k v' gs'"] Cons.prems(1) Some by (simp add: x)
    qed
  qed simp
  then show ?thesis using wf by (simp add: on_keys_def)
qed

lemma gov_wf_on_keys: "gov_wf gs \<Longrightarrow> (\<And>v v'. f v = Some v' \<Longrightarrow> vk_ID v' = vk_ID v \<and> vk_Value v' = vk_Value v) \<Longrightarrow> gov_wf (on_keys f gs)"
  using on_keys_wf [of gs f] by (simp add: gov_wf_def)

subsection \<open>Sequences of edits\<close>

datatype gov_edit =
    EditKey table_virtual_key | DropKey string | EditTeam table_team | DropTeam string | EditCustomer table_customer | DropCustomer string
  | EditConfig table_model_config | DropConfig string | EditProvider table_provider | DropProvider string
  | EditPolicy team_model_policy | DropPolicy string string

fun apply_edit :: "catalog \<Rightarrow> gov_edit \<Rightarrow> gov \<Rightarrow> gov" where
  "apply_edit catalog (EditKey vk) gs = UpdateVirtualKeyInMemory vk gs"
| "apply_edit catalog (DropKey i) gs = DeleteVirtualKeyInMemory i gs"
| "apply_edit catalog (EditTeam t) gs = UpdateTeamInMemory t gs"
| "apply_edit catalog (DropTeam i) gs = DeleteTeamInMemory i gs"
| "apply_edit catalog (EditCustomer c) gs = UpdateCustomerInMemory c gs"
| "apply_edit catalog (DropCustomer i) gs = DeleteCustomerInMemory i gs"
| "apply_edit catalog (EditConfig mc) gs = snd (UpdateModelConfigInMemory catalog mc gs)"
| "apply_edit catalog (DropConfig i) gs = DeleteModelConfigInMemory i gs"
| "apply_edit catalog (EditProvider p) gs = snd (UpdateProviderInMemory p gs)"
| "apply_edit catalog (DropProvider n) gs = DeleteProviderInMemory n gs"
| "apply_edit catalog (EditPolicy p) gs = UpsertTeamModelPolicy p gs"
| "apply_edit catalog (DropPolicy t p) gs = DeleteTeamModelPolicy t p gs"

text \<open>The database keeps secrets unique: an edited key has an identifier, and no other key has its secret.\<close>

fun edit_ok :: "gov_edit \<Rightarrow> gov \<Rightarrow> bool" where
  "edit_ok (EditKey vk) gs \<longleftrightarrow> vk_ID vk \<noteq> [] \<and> (case GetVirtualKey gs (vk_Value vk) of None \<Rightarrow> True | Some v \<Rightarrow> vk_ID v = vk_ID vk)"
| "edit_ok _ gs \<longleftrightarrow> True"

fun edits_ok :: "catalog \<Rightarrow> gov_edit list \<Rightarrow> gov \<Rightarrow> bool" where
  "edits_ok catalog [] gs \<longleftrightarrow> True"
| "edits_ok catalog (e # es) gs \<longleftrightarrow> edit_ok e gs \<and> edits_ok catalog es (apply_edit catalog e gs)"

definition apply_edits :: "catalog \<Rightarrow> gov_edit list \<Rightarrow> gov \<Rightarrow> gov" where
  "apply_edits catalog es gs = fold (apply_edit catalog) es gs"

definition empty_gstore :: gstore where
  "empty_gstore = \<lparr>gs_budgets = [], gs_rateLimits = [], gs_LastDBUsagesBudgets = [], gs_LastDBUsagesTokens = [],
     gs_LastDBUsagesRequests = [], gs_budgetResetGens = []\<rparr>"

definition empty_gov :: gov where
  "empty_gov = \<lparr>gv_rows = empty_gstore, gv_virtualKeys = [], gv_virtualKeysByID = [], gv_teams = [], gv_customers = [],
     gv_providers = [], gv_modelConfigs = [], gv_teamModelPolicies = []\<rparr>"

lemma gov_wf_empty: "gov_wf empty_gov"
  by (simp add: gov_wf_def keys_wf_def rows_ok_def empty_gov_def empty_gstore_def GetVirtualKey_def GetVirtualKeyByID_def LoadBudget_def LoadRateLimit_def)

lemma gov_wf_team: "gov_wf gs \<Longrightarrow> gov_wf (UpdateTeamInMemory t gs)"
  by (simp add: UpdateTeamInMemory_def CreateTeamInMemory_def Let_def split_beta gov_wf_def rows_ok_owner split: option.split)

lemma gov_wf_customer: "gov_wf gs \<Longrightarrow> gov_wf (UpdateCustomerInMemory c gs)"
  by (simp add: UpdateCustomerInMemory_def CreateCustomerInMemory_def Let_def split_beta gov_wf_def rows_ok_owner split: option.split)

lemma gov_wf_config: "gov_wf gs \<Longrightarrow> gov_wf (snd (UpdateModelConfigInMemory catalog mc gs))"
  by (simp add: UpdateModelConfigInMemory_def Let_def split_beta gov_wf_def rows_ok_owner rows_ok_publish_limit)

lemma gov_wf_provider: "gov_wf gs \<Longrightarrow> gov_wf (snd (UpdateProviderInMemory p gs))"
  by (simp add: UpdateProviderInMemory_def Let_def split_beta gov_wf_def rows_ok_publish rows_ok_publish_limit split: option.split)

lemma gov_wf_drop_team:
  assumes "gov_wf gs"
  shows "gov_wf (DeleteTeamInMemory i gs)"
proof -
  have "gov_wf (case gm_get (gv_teams gs) i of None \<Rightarrow> gs
     | Some team \<Rightarrow> on_rows (\<lambda>rows. delete_limits (case tm_RateLimitID team of None \<Rightarrow> [] | Some i \<Rightarrow> [i]) (delete_budgets (map b_ID (tm_Budgets team)) rows)) gs)"
    using assms by (simp add: on_rows_def gov_wf_def rows_ok_owner split: option.split)
  then have "gov_wf (on_keys (\<lambda>vk. if vk_TeamID vk = Some i then Some (vk\<lparr>vk_TeamID := None, vk_Team := None\<rparr>) else None)
     (case gm_get (gv_teams gs) i of None \<Rightarrow> gs
      | Some x \<Rightarrow> on_rows (\<lambda>rows. delete_limits (case tm_RateLimitID x of None \<Rightarrow> [] | Some i \<Rightarrow> [i]) (delete_budgets (map b_ID (tm_Budgets x)) rows)) gs))"
    by (rule gov_wf_on_keys) (auto split: if_splits)
  then show ?thesis using assms by (simp add: DeleteTeamInMemory_def DeleteTeamModelPoliciesForTeam_def Let_def gov_wf_def)
qed

lemma gov_wf_drop_customer:
  assumes "gov_wf gs"
  shows "gov_wf (DeleteCustomerInMemory i gs)"
proof -
  have "gov_wf (case gm_get (gv_customers gs) i of None \<Rightarrow> gs
     | Some c \<Rightarrow> on_rows (\<lambda>rows. delete_limits (case cu_RateLimitID c of None \<Rightarrow> [] | Some i \<Rightarrow> [i]) (delete_budgets (map b_ID (cu_Budgets c)) rows)) gs)"
    using assms by (simp add: on_rows_def gov_wf_def rows_ok_owner split: option.split)
  then have "gov_wf (on_keys (\<lambda>vk. if vk_CustomerID vk = Some i then Some (vk\<lparr>vk_CustomerID := None, vk_Customer := None\<rparr>) else None)
     (case gm_get (gv_customers gs) i of None \<Rightarrow> gs
      | Some x \<Rightarrow> on_rows (\<lambda>rows. delete_limits (case cu_RateLimitID x of None \<Rightarrow> [] | Some i \<Rightarrow> [i]) (delete_budgets (map b_ID (cu_Budgets x)) rows)) gs))"
    by (rule gov_wf_on_keys) (auto split: if_splits)
  then show ?thesis using assms by (simp add: DeleteCustomerInMemory_def Let_def gov_wf_def)
qed

lemma gov_wf_edit:
  assumes "gov_wf gs" and "edit_ok e gs"
  shows "gov_wf (apply_edit catalog e gs)"
proof (cases e)
  case (EditKey vk)
  then show ?thesis
    using assms keys_wf_update [of gs vk] rows_ok_update [of gs vk] by (auto simp: gov_wf_def split: option.splits)
next
  case (DropKey i)
  then show ?thesis
    using assms by (auto simp: DeleteVirtualKeyInMemory_def gov_wf_drop_configs gov_wf_drop_key split: option.split)
next
  case (DropConfig i)
  then show ?thesis
    using assms by (auto simp: DeleteModelConfigInMemory_def gov_wf_def rows_ok_owner split: option.split)
next
  case (DropProvider n)
  then show ?thesis
    using assms by (auto simp: DeleteProviderInMemory_def Let_def on_rows_def gov_wf_def rows_ok_owner split: option.split)
next
  case (EditPolicy p)
  then show ?thesis using assms by (auto simp: UpsertTeamModelPolicy_def gov_wf_def)
next
  case (DropPolicy t p)
  then show ?thesis using assms by (auto simp: DeleteTeamModelPolicy_def gov_wf_def)
qed (use assms in \<open>simp_all add: gov_wf_team gov_wf_customer gov_wf_config gov_wf_provider gov_wf_drop_team gov_wf_drop_customer\<close>)

lemma gov_wf_edits: "gov_wf gs \<Longrightarrow> edits_ok catalog es gs \<Longrightarrow> gov_wf (apply_edits catalog es gs)"
  by (induction es arbitrary: gs) (simp_all add: apply_edits_def gov_wf_edit)

section \<open>Properties\<close>

text \<open>C20: whatever sequence of edits is applied to an empty store (virtual keys, teams, customers, model configurations,
  providers and policies, created, changed and deleted), as long as the database keeps secrets unique: every virtual
  key is stored under its own, non-empty secret, no identifier is reachable by two secrets, the index by identifier
  holds exactly the keys that can be reached by secret, and every budget and rate limit is stored under its own
  identifier.\<close>

theorem governance_store_well_formed:
  assumes "edits_ok catalog es empty_gov"
  shows "let gs = apply_edits catalog es empty_gov in
    (\<forall>k v. GetVirtualKey gs k = Some v \<longrightarrow> k \<noteq> [] \<and> vk_Value v = k \<and> vk_ID v \<noteq> []) \<and>
    (\<forall>k k' v v'. GetVirtualKey gs k = Some v \<longrightarrow> GetVirtualKey gs k' = Some v' \<longrightarrow> vk_ID v = vk_ID v' \<longrightarrow> k = k') \<and>
    (\<forall>i v. GetVirtualKeyByID gs i = Some v \<longleftrightarrow> (\<exists>k. GetVirtualKey gs k = Some v \<and> vk_ID v = i)) \<and>
    (\<forall>i b. LoadBudget (gv_rows gs) i = Some b \<longrightarrow> b_ID b = i) \<and>
    (\<forall>i rl. LoadRateLimit (gv_rows gs) i = Some rl \<longrightarrow> rl_ID rl = i)"
  using gov_wf_edits [OF gov_wf_empty assms] unfolding gov_wf_def keys_wf_def rows_ok_def Let_def by blast

definition ci_key :: table_virtual_key where
  "ci_key = \<lparr>vk_ID = ''vk1'', vk_Name = ''ci'', vk_Value = ''s1'', vk_IsActive = None, vk_ExpiresAt = None, vk_ProviderConfigs = [],
     vk_MCPConfigs = [], vk_UserID = None, vk_TeamID = Some ''t1'', vk_CustomerID = None, vk_RateLimitID = None, vk_CalendarAligned = False,
     vk_Team = None, vk_Customer = None, vk_RateLimit = None, vk_Budgets = []\<rparr>"

definition sample_edits :: "gov_edit list" where
  "sample_edits = [EditKey ci_key, EditKey (ci_key\<lparr>vk_ID := ''vk2'', vk_Value := ''s2''\<rparr>), DropTeam ''t1'', EditKey (ci_key\<lparr>vk_Value := ''s3''\<rparr>)]"

lemma sample_edits_ok: "edits_ok None sample_edits empty_gov"
  by code_simp

theorem governance_store_well_formed_witness:
  "GetVirtualKeyByID (apply_edits None sample_edits empty_gov) ''vk2'' \<noteq> None \<and>
   (\<exists>k v. GetVirtualKey (apply_edits None sample_edits empty_gov) k = Some v \<and> vk_ID v = ''vk2'')"
proof -
  have "GetVirtualKeyByID (apply_edits None sample_edits empty_gov) ''vk2'' \<noteq> None" by code_simp
  then show ?thesis using governance_store_well_formed [OF sample_edits_ok] unfolding Let_def by blast
qed

text \<open>C9: changing the secret of a virtual key revokes the old one at once. In a store that any edits have built, after an
  update of a key the new secret answers with the updated key (unless it could not be resolved and is empty), no other
  secret answers for its identifier any more, and all other secrets answer as before.\<close>

theorem rotated_secret_rejected:
  assumes "edits_ok catalog es empty_gov"
  shows "\<exists>vk'. copy_of vk vk' \<and>
    (\<forall>k. GetVirtualKey (UpdateVirtualKeyInMemory vk (apply_edits catalog es empty_gov)) k =
      (if k = vk_Value vk \<and> k \<noteq> [] then Some vk'
       else case GetVirtualKey (apply_edits catalog es empty_gov) k of
         Some v \<Rightarrow> if vk_ID v = vk_ID vk then None else Some v
       | None \<Rightarrow> None))"
proof -
  let ?gs = "apply_edits catalog es empty_gov"
  have wf: "keys_wf ?gs" using gov_wf_edits [OF gov_wf_empty assms] by (simp add: gov_wf_def)
  obtain rows vk' where u: "UpdateVirtualKeyInMemory vk ?gs = storeVirtualKey (vk_Value vk) vk' (release_old vk ?gs (?gs\<lparr>gv_rows := rows\<rparr>))" "copy_of vk vk'"
    using update_eq by metis
  have "GetVirtualKey (UpdateVirtualKeyInMemory vk ?gs) k = (if k = vk_Value vk \<and> k \<noteq> [] then Some vk'
       else case GetVirtualKey ?gs k of Some v \<Rightarrow> if vk_ID v = vk_ID vk then None else Some v | None \<Rightarrow> None)" for k
    using keys_wfD(2) [OF wf, of k] unfolding u(1) get_store release_get [OF wf] by (auto split: option.split)
  then show ?thesis using u(2) by blast
qed

theorem rotated_secret_rejected_witness:
  "GetVirtualKey (UpdateVirtualKeyInMemory (ci_key\<lparr>vk_Value := ''s4''\<rparr>) (apply_edits None sample_edits empty_gov)) ''s3'' = None"
proof -
  have "map_option vk_ID (GetVirtualKey (apply_edits None sample_edits empty_gov) ''s3'') = Some ''vk1''" by code_simp
  then show ?thesis
    using rotated_secret_rejected [OF sample_edits_ok, of "ci_key\<lparr>vk_Value := ''s4''\<rparr>"] by (auto simp: ci_key_def)
qed

end
