(* ===== verification/Governance.thy ===== *)
theory Governance
  imports Hierarchy Requests
begin

text \<open>
  The decision and the accounting of the governance plugin: the resolver that decides whether a request may pass
  (\<open>plugins/governance/resolver.go\<close>, \<open>teammodelpolicy.go\<close>), the hooks that run it and hand over what a request has used
  (\<open>main.go\<close>), and the tracker that charges it (\<open>tracker.go\<close>).

  The data behind the model catalog, the clients that serve every virtual key and the prices are arguments. A refusal keeps
  the error of the check it rests on beside the text that introduces it. Alerts, which only read the budgets a result
  carries, and log output are left out.
\<close>

definition quoted :: "string \<Rightarrow> string" where
  "quoted s = [CHR 0x27] @ s @ [CHR 0x27]"

fun comma_list :: "string list \<Rightarrow> string" where
  "comma_list [] = []"
| "comma_list [x] = x"
| "comma_list (x # xs) = x @ '', '' @ comma_list xs"

section \<open>Models and providers of a key\<close>

record model_catalog =
  ca_BaseModelName :: "string \<Rightarrow> string"
  ca_ProvidersForModel :: "string \<Rightarrow> string list"
  ca_ModelsForProvider :: "string \<Rightarrow> string list"
  ca_KnownProvider :: "string \<Rightarrow> bool"

text \<open>\<open>unlisted\<close> says of a provider that it is a configured custom provider whose list of models is disabled.\<close>

definition IsModelAllowedForProvider :: "model_catalog \<Rightarrow> bool \<Rightarrow> string \<Rightarrow> string \<Rightarrow> whitelist \<Rightarrow> bool" where
  "IsModelAllowedForProvider mc unlisted prov model allowed =
     (if wl_IsUnrestricted allowed then unlisted \<or> prov \<in> set (ca_ProvidersForModel mc model)
      else if wl_IsEmpty allowed then False
      else list_ex (\<lambda>a. a = model \<or>
             str_contains a ''/'' \<and> a \<in> set (ca_ModelsForProvider mc prov) \<and> snd (ParseModelString (ca_KnownProvider mc) a []) = model) allowed)"

definition TeamPolicyAllowsModel :: "team_model_policy option \<Rightarrow> string \<Rightarrow> bool" where
  "TeamPolicyAllowsModel policy model =
     (case policy of
        None \<Rightarrow> True
      | Some p \<Rightarrow>
          if policy_IsUnrestricted p then True
          else if bl_IsBlocked (tmp_BlacklistedModels p) model then False
          else wl_IsAllowed (tmp_AllowedModels p) model)"

definition TeamPolicyDeniesAllModels :: "team_model_policy option \<Rightarrow> bool" where
  "TeamPolicyDeniesAllModels policy =
     (case policy of None \<Rightarrow> False | Some p \<Rightarrow> if policy_IsUnrestricted p then False else tmp_AllowedModels p = [])"

definition FilterModelsByTeamPolicy :: "string list \<Rightarrow> team_model_policy option \<Rightarrow> string list" where
  "FilterModelsByTeamPolicy models policy =
     (case policy of
        None \<Rightarrow> models
      | Some p \<Rightarrow> if policy_IsUnrestricted p then models else filter (TeamPolicyAllowsModel policy) models)"

record gov_env =
  ge_modelCatalog :: "model_catalog option"
  ge_unlisted :: "(string \<Rightarrow> bool) option"
  ge_allowAllClients :: "(string, string) gomap"
  ge_isVkMandatory :: "bool option"
  ge_requiredHeaders :: "string list"

definition ge_catalog :: "gov_env \<Rightarrow> catalog" where
  "ge_catalog env = map_option ca_BaseModelName (ge_modelCatalog env)"

definition config_allows :: "gov_env \<Rightarrow> string \<Rightarrow> string \<Rightarrow> vk_provider_config \<Rightarrow> bool" where
  "config_allows env prov model pc =
     (case (ge_modelCatalog env, ge_unlisted env) of
        (Some mc, Some unlisted) \<Rightarrow> IsModelAllowedForProvider mc (unlisted prov) prov model (pc_AllowedModels pc)
      | _ \<Rightarrow> wl_IsAllowed (pc_AllowedModels pc) model)"

definition vk_policy :: "gov \<Rightarrow> table_virtual_key \<Rightarrow> string \<Rightarrow> team_model_policy option" where
  "vk_policy gs vk prov =
     (case vk_Team vk of None \<Rightarrow> None | Some t \<Rightarrow> if tm_ID t = [] then None else GetTeamModelPolicy gs (tm_ID t) prov)"

fun any_config_allows :: "gov_env \<Rightarrow> team_model_policy option \<Rightarrow> string \<Rightarrow> string \<Rightarrow> vk_provider_config list \<Rightarrow> bool" where
  "any_config_allows env policy prov model [] = False"
| "any_config_allows env policy prov model (pc # pcs) =
     (if pc_Provider pc \<noteq> prov then any_config_allows env policy prov model pcs
      else if \<not> config_allows env prov model pc then any_config_allows env policy prov model pcs
      else if TeamPolicyAllowsModel policy model then True
      else any_config_allows env policy prov model pcs)"

definition isModelAllowed :: "gov_env \<Rightarrow> gov \<Rightarrow> table_virtual_key \<Rightarrow> string \<Rightarrow> string \<Rightarrow> bool" where
  "isModelAllowed env gs vk prov model =
     (if vk_ProviderConfigs vk = [] then False
      else let policy = vk_policy gs vk prov
           in if (case policy of None \<Rightarrow> False | Some p \<Rightarrow> bl_IsBlocked (tmp_BlacklistedModels p) model) then False
              else if list_ex (\<lambda>pc. pc_Provider pc = prov \<and> bl_IsBlocked (pc_BlacklistedModels pc) model) (vk_ProviderConfigs vk) then False
              else any_config_allows env policy prov model (vk_ProviderConfigs vk))"

definition isProviderAllowed :: "table_virtual_key \<Rightarrow> string \<Rightarrow> bool" where
  "isProviderAllowed vk prov =
     (if vk_ProviderConfigs vk = [] then False else list_ex (\<lambda>pc. pc_Provider pc = prov) (vk_ProviderConfigs vk))"

definition IsModelRequiredForRequest :: "string \<Rightarrow> bool" where
  "IsModelRequiredForRequest t \<longleftrightarrow> t \<notin> set
     [''list_models'', ''mcp_tool_execution'', ''batch_create'', ''batch_list'', ''batch_retrieve'', ''batch_cancel'', ''batch_results'',
      ''file_upload'', ''file_list'', ''file_retrieve'', ''file_delete'', ''file_content'', ''container_create'', ''container_list'',
      ''container_retrieve'', ''container_delete'', ''container_file_create'', ''container_file_list'', ''container_file_retrieve'',
      ''container_file_content'', ''container_file_delete'', ''cached_content_list'', ''cached_content_retrieve'', ''cached_content_update'',
      ''cached_content_delete'', ''responses_retrieve'', ''responses_retrieve_stream'', ''responses_delete'', ''responses_cancel'',
      ''responses_input_items'', ''video_retrieve'', ''video_download'', ''video_list'', ''video_delete'', ''video_remix'', ''passthrough'',
      ''passthrough_stream'']"

text \<open>A tool is named by its client and a dash; the first client of the key with a matching name decides.\<close>

fun explicit_tool :: "string \<Rightarrow> vk_mcp_config list \<Rightarrow> bool option" where
  "explicit_tool tool [] = None"
| "explicit_tool tool (c # cs) =
     (let p = vm_ClientName c @ ''-''
      in if tool \<noteq> p @ ''*'' \<and> \<not> str_prefix p tool then explicit_tool tool cs
         else if tool = p @ ''*'' then Some (\<not> wl_IsEmpty (vm_ToolsToExecute c))
         else if wl_IsUnrestricted (vm_ToolsToExecute c) then Some True
         else Some (wl_Contains (vm_ToolsToExecute c) (drop (length p) tool)))"

definition isMCPToolAllowedByVKWith :: "(string, string) gomap \<Rightarrow> table_virtual_key \<Rightarrow> string \<Rightarrow> bool" where
  "isMCPToolAllowedByVKWith allowAll vk tool =
     (case explicit_tool tool (vk_MCPConfigs vk) of
        Some b \<Rightarrow> b
      | None \<Rightarrow> list_ex (\<lambda>(_, name). str_prefix (name @ ''-'') tool \<or> tool = name @ ''-*'') allowAll)"

section \<open>The resolver\<close>

record eval_request =
  eq_VirtualKey :: string
  eq_Provider :: string
  eq_Model :: string
  eq_UserID :: string

record eval_result =
  er_Decision :: decision
  er_Reason :: string
  er_Error :: "check_error option"
  er_VirtualKey :: "table_virtual_key option"
  er_RateLimitInfo :: "table_rate_limit option"
  er_BudgetInfo :: "table_budget list"

definition allowed :: "string \<Rightarrow> eval_result" where
  "allowed reason = \<lparr>er_Decision = DecisionAllow, er_Reason = reason, er_Error = None, er_VirtualKey = None, er_RateLimitInfo = None, er_BudgetInfo = []\<rparr>"

definition refused :: "string \<Rightarrow> verdict \<Rightarrow> eval_result" where
  "refused reason v = (allowed reason)\<lparr>er_Decision := fst v, er_Error := snd v\<rparr>"

definition limit_hit :: "verdict \<Rightarrow> bool" where
  "limit_hit v \<longleftrightarrow> snd v \<noteq> None \<or> isRateLimitViolation (fst v)"

definition budget_hit :: "verdict \<Rightarrow> bool" where
  "budget_hit v \<longleftrightarrow> snd v \<noteq> None \<or> isBudgetViolation (fst v)"

definition populateBudgetInfo :: "table_budget list \<Rightarrow> eval_result \<Rightarrow> eval_result" where
  "populateBudgetInfo source r = r\<lparr>er_BudgetInfo := add_info source (er_BudgetInfo r)\<rparr>"

definition attachGlobalBudgetInfo :: "gov_env \<Rightarrow> gov \<Rightarrow> string \<Rightarrow> string \<Rightarrow> eval_result \<Rightarrow> eval_result" where
  "attachGlobalBudgetInfo env gs prov model r =
     populateBudgetInfo (CollectBudgetsForModelConfigs gs (collectModelConfigsFor (ge_catalog env) gs ModelConfigScopeGlobal [] model (providerStr prov))) r"

definition attachScopedModelBudgetInfo :: "gov_env \<Rightarrow> gov \<Rightarrow> string \<Rightarrow> string \<Rightarrow> eval_request \<Rightarrow> eval_result \<Rightarrow> eval_result" where
  "attachScopedModelBudgetInfo env gs scope scopeID req r =
     (if eq_Model req = [] then r
      else populateBudgetInfo (CollectBudgetsForModelConfigs gs
             (collectModelConfigsFor (ge_catalog env) gs scope scopeID (eq_Model req) (providerStr (eq_Provider req)))) r)"

definition EvaluateModelAndProviderRequest :: "gov_env \<Rightarrow> int \<Rightarrow> gov \<Rightarrow> string \<Rightarrow> string \<Rightarrow> eval_result" where
  "EvaluateModelAndProviderRequest env now gs prov model =
     (let pl = CheckProviderRateLimit [] [] now gs prov; pb = CheckProviderBudget [] now gs prov;
          ml = CheckModelRateLimit (ge_catalog env) [] [] now gs model prov; mb = CheckModelBudget (ge_catalog env) [] now gs model prov
      in attachGlobalBudgetInfo env gs prov model
           (if prov \<noteq> [] \<and> limit_hit pl then refused ''Provider-level rate limit check failed: '' pl
            else if prov \<noteq> [] \<and> budget_hit pb then refused ''Provider-level budget exceeded: '' pb
            else if model \<noteq> [] \<and> limit_hit ml then refused ''Model-level rate limit check failed: '' ml
            else if model \<noteq> [] \<and> budget_hit mb then refused ''Model-level budget exceeded: '' mb
            else allowed ''Request allowed by governance policy (provider-level and model-level checks passed)''))"

definition EvaluateCustomerRequest :: "int \<Rightarrow> gov \<Rightarrow> string \<Rightarrow> eval_result" where
  "EvaluateCustomerRequest now gs customerID =
     (if customerID = [] then allowed ''No customer ID provided, skipping customer-level checks''
      else let l = CheckCustomerRateLimit [] [] now gs customerID; b = CheckCustomerBudget [] now gs customerID
           in populateBudgetInfo (CollectCustomerBudgets gs customerID)
                (if limit_hit l then refused ''Customer-level rate limit exceeded: '' l
                 else if budget_hit b then refused ''Customer-level budget exceeded: '' b
                 else allowed ''Customer-level checks passed''))"

definition EvaluateTeamRequest :: "int \<Rightarrow> gov \<Rightarrow> string \<Rightarrow> eval_result" where
  "EvaluateTeamRequest now gs teamID =
     (if teamID = [] then allowed ''No team ID provided, skipping team-level checks''
      else let l = CheckTeamRateLimit [] [] now gs teamID; b = CheckTeamBudget [] now gs teamID
           in populateBudgetInfo (CollectTeamBudgets gs teamID)
                (if limit_hit l then refused ''Team-level rate limit exceeded: '' l
                 else if budget_hit b then refused ''Team-level budget exceeded: '' b
                 else allowed ''Team-level checks passed''))"

definition EvaluateUserRequest :: "gov_env \<Rightarrow> int \<Rightarrow> gov \<Rightarrow> eval_request \<Rightarrow> eval_result" where
  "EvaluateUserRequest env now gs req =
     (let userID = eq_UserID req
      in if userID = [] then allowed ''No user ID provided, skipping user-level checks''
         else let l = CheckUserRateLimit gs userID; b = CheckUserBudget gs userID;
                  ml = CheckScopedModelRateLimit (ge_catalog env) [] [] now gs ModelConfigScopeUser userID (eq_Model req) (eq_Provider req);
                  mb = CheckScopedModelBudget (ge_catalog env) [] now gs ModelConfigScopeUser userID (eq_Model req) (eq_Provider req)
              in attachScopedModelBudgetInfo env gs ModelConfigScopeUser userID req
                   (if limit_hit l then refused ''User-level rate limit exceeded: '' l
                    else if budget_hit b then refused ''User-level budget exceeded: '' b
                    else if eq_Model req \<noteq> [] \<and> limit_hit ml then refused ''User-level model rate limit exceeded: '' ml
                    else if eq_Model req \<noteq> [] \<and> budget_hit mb then refused ''User-level model budget exceeded: '' mb
                    else allowed ''User-level checks passed''))"

definition rate_limit_info :: "gov \<Rightarrow> table_virtual_key \<Rightarrow> string \<Rightarrow> table_rate_limit option" where
  "rate_limit_info gs vk prov =
     (case List.find (\<lambda>pc. pc_Provider pc = prov \<and> pc_RateLimitID pc \<noteq> None) (vk_ProviderConfigs vk) of
        Some pc \<Rightarrow> (case hot_limit gs (pc_RateLimitID pc) of Some rl \<Rightarrow> Some rl | None \<Rightarrow> hot_limit gs (vk_RateLimitID vk))
      | None \<Rightarrow> hot_limit gs (vk_RateLimitID vk))"

definition checkRateLimitHierarchy :: "int \<Rightarrow> gov \<Rightarrow> table_virtual_key \<Rightarrow> eval_request \<Rightarrow> eval_result option" where
  "checkRateLimitHierarchy now gs vk req =
     (let v = CheckVirtualKeyRateLimit [] [] now gs vk (eq_Provider req)
      in if limit_hit v then
           Some ((refused ''Rate limit check failed: '' v)\<lparr>er_VirtualKey := Some vk, er_RateLimitInfo := rate_limit_info gs vk (eq_Provider req)\<rparr>)
         else None)"

definition checkBudgetHierarchy :: "int \<Rightarrow> gov \<Rightarrow> table_virtual_key \<Rightarrow> eval_request \<Rightarrow> eval_result option" where
  "checkBudgetHierarchy now gs vk req =
     (let v = CheckVirtualKeyBudget [] now gs vk (eq_Provider req)
      in if budget_hit v then
           Some (populateBudgetInfo (CollectBudgetsForVK gs vk (eq_Provider req)) ((refused ''Budget exceeded: '' v)\<lparr>er_VirtualKey := Some vk\<rparr>))
         else None)"

definition isProviderBudgetViolated :: "int \<Rightarrow> gov \<Rightarrow> table_virtual_key \<Rightarrow> vk_provider_config \<Rightarrow> bool" where
  "isProviderBudgetViolated now gs vk pc =
     (if snd (CheckProviderBudget [] now gs (pc_Provider pc)) \<noteq> None then True
      else if pc_Budgets pc = [] then False
      else snd (CheckVirtualKeyBudget [] now gs vk (pc_Provider pc)) \<noteq> None)"

definition isProviderRateLimitViolated :: "int \<Rightarrow> gov \<Rightarrow> table_virtual_key \<Rightarrow> vk_provider_config \<Rightarrow> bool" where
  "isProviderRateLimitViolated now gs vk pc =
     (if limit_hit (CheckProviderRateLimit [] [] now gs (pc_Provider pc)) then True
      else if pc_RateLimitID pc = None then False
      else limit_hit (CheckVirtualKeyRateLimit [] [] now gs vk (pc_Provider pc)))"

subsection \<open>The request context\<close>

text \<open>The keys of the context that the plugin reads and writes, beside those of the core.\<close>

record gctx = bctx +
  gx_VirtualKey :: "string option"
  gx_VirtualKeyID :: "string option"
  gx_VirtualKeyName :: "string option"
  gx_TeamID :: "string option"
  gx_TeamName :: "string option"
  gx_CustomerID :: "string option"
  gx_CustomerName :: "string option"
  gx_Rejected :: "bool option"
  gx_MCPAddedTools :: "string list option"
  gx_SkipBudgetAndRateLimits :: "bool option"
  gx_SkipVirtualKeyUsageTracking :: "bool option"
  gx_BudgetIDs :: "string list option"
  gx_RateLimitIDs :: "string list option"
  gx_RequestHeaders :: "(string, string) gomap option"
  gx_RoutingAllowedProviders :: "string list option"

definition ctx_bool :: "bool option \<Rightarrow> bool" where
  "ctx_bool v = (case v of None \<Rightarrow> False | Some b \<Rightarrow> b)"

definition ctx_string :: "string option \<Rightarrow> string" where
  "ctx_string v = (case v of None \<Rightarrow> [] | Some s \<Rightarrow> s)"

definition stamp_identity :: "table_virtual_key \<Rightarrow> gctx \<Rightarrow> gctx" where
  "stamp_identity vk ctx =
     (let ctx = ctx\<lparr>gx_VirtualKeyID := Some (vk_ID vk), gx_VirtualKeyName := Some (vk_Name vk)\<rparr>;
          ctx = (case vk_Team vk of
                   None \<Rightarrow> ctx
                 | Some t \<Rightarrow>
                     (let ctx = ctx\<lparr>gx_TeamID := Some (tm_ID t), gx_TeamName := Some (tm_Name t)\<rparr>
                      in case tm_Customer t of
                           None \<Rightarrow> ctx
                         | Some c \<Rightarrow> ctx\<lparr>gx_CustomerID := Some (cu_ID c), gx_CustomerName := Some (cu_Name c)\<rparr>))
      in case vk_Customer vk of
           None \<Rightarrow> ctx
         | Some c \<Rightarrow> ctx\<lparr>gx_CustomerID := Some (cu_ID c), gx_CustomerName := Some (cu_Name c)\<rparr>)"

definition restrict_keys :: "table_virtual_key \<Rightarrow> string \<Rightarrow> gctx \<Rightarrow> gctx" where
  "restrict_keys vk prov ctx =
     (case List.find (\<lambda>pc. pc_Provider pc = prov) (vk_ProviderConfigs vk) of
        None \<Rightarrow> ctx
      | Some pc \<Rightarrow> if pc_AllowAllKeys pc then ctx else ctx\<lparr>cx_GovernanceIncludeOnlyKeys := Some (pc_Keys pc)\<rparr>)"

subsection \<open>Evaluation of a virtual key\<close>

definition vk_limits :: "gov_env \<Rightarrow> int \<Rightarrow> gov \<Rightarrow> table_virtual_key \<Rightarrow> eval_request \<Rightarrow> eval_result option" where
  "vk_limits env now gs vk req =
     (case checkRateLimitHierarchy now gs vk req of
        Some r \<Rightarrow> Some (populateBudgetInfo (CollectBudgetsForVK gs vk (eq_Provider req)) r)
      | None \<Rightarrow>
          (case checkBudgetHierarchy now gs vk req of
             Some r \<Rightarrow> Some r
           | None \<Rightarrow>
               (let l = CheckScopedModelRateLimit (ge_catalog env) [] [] now gs ModelConfigScopeVirtualKey (vk_ID vk) (eq_Model req) (eq_Provider req);
                    b = CheckScopedModelBudget (ge_catalog env) [] now gs ModelConfigScopeVirtualKey (vk_ID vk) (eq_Model req) (eq_Provider req);
                    attach = attachScopedModelBudgetInfo env gs ModelConfigScopeVirtualKey (vk_ID vk) req
                in if eq_Model req \<noteq> [] \<and> limit_hit l then
                     Some (attach ((refused ''Model-level rate limit check failed (virtual key scope): '' l)\<lparr>er_VirtualKey := Some vk\<rparr>))
                   else if eq_Model req \<noteq> [] \<and> budget_hit b then
                     Some (attach ((refused ''Model-level budget exceeded (virtual key scope): '' b)\<lparr>er_VirtualKey := Some vk\<rparr>))
                   else None)))"

definition EvaluateVirtualKeyRequest ::
  "gov_env \<Rightarrow> int \<Rightarrow> gov \<Rightarrow> gctx \<Rightarrow> string \<Rightarrow> string \<Rightarrow> string \<Rightarrow> string \<Rightarrow> bool \<Rightarrow> gctx \<times> eval_result" where
  "EvaluateVirtualKeyRequest env now gs ctx virtualKey prov model requestType skip =
     (case GetVirtualKey gs virtualKey of
        None \<Rightarrow> (ctx, refused ''Virtual key not found'' (DecisionVirtualKeyNotFound, None))
      | Some vk \<Rightarrow>
          (let ctx = stamp_identity vk ctx;
               req = \<lparr>eq_VirtualKey = virtualKey, eq_Provider = prov, eq_Model = model, eq_UserID = []\<rparr>;
               passthrough = (requestType = ''passthrough'' \<or> requestType = ''passthrough_stream'')
           in if \<not> IsActiveValue vk then (ctx, refused ''Virtual key is inactive'' (DecisionVirtualKeyBlocked, None))
              else if IsExpiredAt vk now then (ctx, refused ''Virtual key has expired'' (DecisionVirtualKeyBlocked, None))
              else if requestType \<noteq> ''mcp_tool_execution'' \<and> requestType \<noteq> ''list_models'' \<and> \<not> isProviderAllowed vk prov then
                (ctx, (refused (''Provider '' @ quoted prov @ '' is not allowed for this virtual key'') (DecisionProviderBlocked, None))\<lparr>er_VirtualKey := Some vk\<rparr>)
              else if (IsModelRequiredForRequest requestType \<or> passthrough \<and> model \<noteq> []) \<and> \<not> isModelAllowed env gs vk prov model then
                (ctx, (refused (''Model '' @ quoted model @ '' is not allowed for this virtual key'') (DecisionModelBlocked, None))\<lparr>er_VirtualKey := Some vk\<rparr>)
              else case (if skip then None else vk_limits env now gs vk req) of
                Some r \<Rightarrow> (ctx, r)
              | None \<Rightarrow>
                  (restrict_keys vk prov ctx,
                   populateBudgetInfo (CollectBudgetsForVK gs vk prov) ((allowed ''Request allowed by governance policy'')\<lparr>er_VirtualKey := Some vk\<rparr>))))"

section \<open>The decision about a request\<close>

record rejection =
  rj_Type :: string
  rj_StatusCode :: "int option"
  rj_Message :: string
  rj_Cause :: "check_error option"

definition plain_rejection :: "string \<Rightarrow> int \<Rightarrow> string \<Rightarrow> rejection" where
  "plain_rejection t code message = \<lparr>rj_Type = t, rj_StatusCode = Some code, rj_Message = message, rj_Cause = None\<rparr>"

definition decision_string :: "decision \<Rightarrow> string" where
  "decision_string d =
     (case d of
        DecisionAllow \<Rightarrow> ''allow'' | DecisionVirtualKeyNotFound \<Rightarrow> ''virtual_key_not_found'' | DecisionVirtualKeyBlocked \<Rightarrow> ''virtual_key_blocked''
      | DecisionRateLimited \<Rightarrow> ''rate_limited'' | DecisionBudgetExceeded \<Rightarrow> ''budget_exceeded'' | DecisionTokenLimited \<Rightarrow> ''token_limited''
      | DecisionRequestLimited \<Rightarrow> ''request_limited'' | DecisionModelBlocked \<Rightarrow> ''model_blocked'' | DecisionProviderBlocked \<Rightarrow> ''provider_blocked''
      | DecisionMCPToolBlocked \<Rightarrow> ''mcp_tool_blocked'')"

definition decision_status :: "decision \<Rightarrow> int" where
  "decision_status d =
     (if isRateLimitViolation d then 429 else if isBudgetViolation d then 402 else 403)"

definition rejection_of :: "eval_result \<Rightarrow> rejection option" where
  "rejection_of r =
     (if er_Decision r = DecisionAllow then None
      else Some \<lparr>rj_Type = decision_string (er_Decision r), rj_StatusCode = Some (decision_status (er_Decision r)), rj_Message = er_Reason r,
              rj_Cause = er_Error r\<rparr>)"

definition mergeBudgetInfo :: "eval_result \<Rightarrow> eval_result \<Rightarrow> eval_result" where
  "mergeBudgetInfo prior next = (if er_BudgetInfo prior = [] then next else next\<lparr>er_BudgetInfo := add_info (er_BudgetInfo prior) (er_BudgetInfo next)\<rparr>)"

definition customer_of_key :: "table_virtual_key \<Rightarrow> string" where
  "customer_of_key vk =
     (case vk_CustomerID vk of
        Some c \<Rightarrow> c
      | None \<Rightarrow>
          (case vk_Customer vk of
             Some c \<Rightarrow> cu_ID c
           | None \<Rightarrow>
               (case vk_Team vk of
                  None \<Rightarrow> []
                | Some t \<Rightarrow> (case tm_CustomerID t of Some c \<Rightarrow> c | None \<Rightarrow> (case tm_Customer t of Some c \<Rightarrow> cu_ID c | None \<Rightarrow> [])))))"

definition team_of_key :: "table_virtual_key \<Rightarrow> string" where
  "team_of_key vk = (case vk_TeamID vk of Some t \<Rightarrow> t | None \<Rightarrow> (case vk_Team vk of Some t \<Rightarrow> tm_ID t | None \<Rightarrow> []))"

definition hasDirectKeyAuth :: "gctx \<Rightarrow> bool" where
  "hasDirectKeyAuth ctx \<longleftrightarrow> cx_DirectKey ctx \<noteq> None"

text \<open>Each step after the first replaces the result of the one before.\<close>

definition next_step :: "bool \<Rightarrow> (unit \<Rightarrow> eval_result) \<Rightarrow> eval_result \<Rightarrow> eval_result" where
  "next_step go f r = (if go \<and> er_Decision r = DecisionAllow then mergeBudgetInfo r (f ()) else r)"

definition check_added_tools :: "gov_env \<Rightarrow> gctx \<Rightarrow> eval_result \<Rightarrow> eval_result" where
  "check_added_tools env ctx r =
     (case (er_Decision r = DecisionAllow, er_VirtualKey r, gx_MCPAddedTools ctx) of
        (True, Some vk, Some tools) \<Rightarrow>
          (let disallowed = filter (\<lambda>t. \<not> isMCPToolAllowedByVKWith (ge_allowAllClients env) vk t) tools
           in if disallowed \<noteq> [] then
                (refused (''MCP tools not allowed for virtual key '' @ quoted (vk_Name vk) @ '': '' @ comma_list disallowed)
                   (DecisionMCPToolBlocked, None))\<lparr>er_VirtualKey := Some vk\<rparr>
              else r)
      | _ \<Rightarrow> r)"

definition EvaluateGovernanceRequest ::
  "gov_env \<Rightarrow> int \<Rightarrow> gov \<Rightarrow> gctx \<Rightarrow> eval_request \<Rightarrow> string \<Rightarrow> gctx \<times> eval_result option \<times> rejection option" where
  "EvaluateGovernanceRequest env now gs ctx req requestType =
     (if eq_VirtualKey req \<noteq> [] \<and> GetVirtualKey gs (eq_VirtualKey req) = None then
        (ctx, None, Some (plain_rejection ''virtual_key_not_found'' 401 ''virtual key not found. The provided virtual key does not exist or has been revoked.''))
      else if eq_VirtualKey req = [] \<and> \<not> hasDirectKeyAuth ctx \<and> eq_UserID req = [] \<and> ge_isVkMandatory env = Some True then
        (ctx, None, Some (plain_rejection ''virtual_key_required'' 401 ''virtual key is required. Provide a virtual key via the x-bf-vk header.''))
      else
        (let skip = ctx_bool (gx_SkipBudgetAndRateLimits ctx);
             r = allowed ''Provider-level and model-level checks skipped for read-only request'';
             r = next_step (\<not> skip) (\<lambda>_. EvaluateModelAndProviderRequest env now gs (eq_Provider req) (eq_Model req)) r;
             vk = (if eq_VirtualKey req = [] then None else GetVirtualKey gs (eq_VirtualKey req));
             (ctx, r) =
               (if er_Decision r = DecisionAllow \<and> eq_VirtualKey req \<noteq> [] then
                  (case EvaluateVirtualKeyRequest env now gs ctx (eq_VirtualKey req) (eq_Provider req) (eq_Model req) requestType (eq_UserID req \<noteq> [] \<or> skip) of
                     (ctx, r') \<Rightarrow> (ctx, mergeBudgetInfo r r'))
                else (ctx, r));
             customer = (case vk of None \<Rightarrow> [] | Some v \<Rightarrow> customer_of_key v);
             team = (case vk of None \<Rightarrow> [] | Some v \<Rightarrow> team_of_key v);
             r = next_step (\<not> skip \<and> customer \<noteq> []) (\<lambda>_. EvaluateCustomerRequest now gs customer) r;
             r = next_step (\<not> skip \<and> team \<noteq> []) (\<lambda>_. EvaluateTeamRequest now gs team) r;
             r = next_step (\<not> skip) (\<lambda>_. EvaluateUserRequest env now gs req) r;
             r = check_added_tools env ctx r;
             ctx = (if er_Decision r = DecisionAllow then ctx\<lparr>gx_Rejected := None\<rparr>
                    else if gx_Rejected ctx = None then ctx\<lparr>gx_Rejected := Some True\<rparr> else ctx)
         in (ctx, Some r, rejection_of r)))"

definition validateRequiredHeaders :: "gov_env \<Rightarrow> gctx \<Rightarrow> rejection option" where
  "validateRequiredHeaders env ctx =
     (let headers = (case gx_RequestHeaders ctx of None \<Rightarrow> [] | Some h \<Rightarrow> h);
          missing = filter (\<lambda>h. gm_get headers (to_lower h) = None) (ge_requiredHeaders env)
      in if missing \<noteq> [] then
           Some (plain_rejection ''missing_required_headers'' 400 (''missing required headers: '' @ comma_list missing))
         else None)"

definition gov_PreLLMHook :: "gov_env \<Rightarrow> int \<Rightarrow> gov \<Rightarrow> gctx \<Rightarrow> brequest \<Rightarrow> gctx \<times> rejection option" where
  "gov_PreLLMHook env now gs ctx breq =
     (case validateRequiredHeaders env ctx of
        Some e \<Rightarrow> (ctx, Some e)
      | None \<Rightarrow>
          (case GetRequestFields breq of
             (prov, model, _) \<Rightarrow>
               (case EvaluateGovernanceRequest env now gs ctx
                   \<lparr>eq_VirtualKey = ctx_string (gx_VirtualKey ctx), eq_Provider = prov, eq_Model = model, eq_UserID = []\<rparr> (br_RequestType breq) of
                  (ctx, _, e) \<Rightarrow> (ctx, e))))"

text \<open>A tool call is checked like a request without provider and model, and then against the tools of the key.\<close>

definition reject_tool :: "gctx \<Rightarrow> decision \<Rightarrow> string \<Rightarrow> gctx \<times> rejection option" where
  "reject_tool ctx d message =
     (ctx\<lparr>gx_Rejected := Some True\<rparr>, Some (plain_rejection (decision_string d) 403 message))"

definition gov_PreMCPHook :: "gov_env \<Rightarrow> int \<Rightarrow> gov \<Rightarrow> gctx \<Rightarrow> bool \<Rightarrow> bool \<Rightarrow> string \<Rightarrow> gctx \<times> rejection option" where
  "gov_PreMCPHook env now gs ctx executes codemode tool =
     (if \<not> executes \<or> codemode then (ctx, None)
      else case validateRequiredHeaders env ctx of
        Some e \<Rightarrow> (ctx, Some e)
      | None \<Rightarrow>
          (let key = ctx_string (gx_VirtualKey ctx)
           in case EvaluateGovernanceRequest env now gs ctx \<lparr>eq_VirtualKey = key, eq_Provider = [], eq_Model = [], eq_UserID = []\<rparr> ''mcp_tool_execution'' of
                (ctx, _, Some e) \<Rightarrow> (ctx, Some e)
              | (ctx, _, None) \<Rightarrow>
                  if key = [] then (ctx, None)
                  else case GetVirtualKey gs key of
                    None \<Rightarrow> reject_tool ctx DecisionVirtualKeyNotFound ''Virtual key not found''
                  | Some vk \<Rightarrow>
                      if \<not> IsActiveValue vk then reject_tool ctx DecisionVirtualKeyBlocked ''Virtual key is inactive''
                      else if IsExpiredAt vk now then reject_tool ctx DecisionVirtualKeyBlocked ''Virtual key has expired''
                      else if \<not> isMCPToolAllowedByVKWith (ge_allowAllClients env) vk tool then
                        reject_tool ctx DecisionMCPToolBlocked (''MCP tool '' @ quoted tool @ '' is not allowed for virtual key '' @ quoted (vk_Name vk))
                      else (ctx, None)))"

section \<open>The tracker\<close>

record usage_update =
  uu_VirtualKey :: string
  uu_Provider :: string
  uu_Model :: string
  uu_Success :: bool
  uu_TokensUsed :: int
  uu_Cost :: float64
  uu_RequestID :: string
  uu_UserID :: string
  uu_IsStreaming :: bool
  uu_IsFinalChunk :: bool
  uu_HasUsageData :: bool
  uu_AttemptNumber :: int
  uu_BilledReason :: string

record tracker =
  tk_gov :: gov
  tk_billed :: "(string, int) gomap"

definition billedEntryTTL :: int where
  "billedEntryTTL = 5 * 60 * second_ns"

definition billing_key :: "usage_update \<Rightarrow> string" where
  "billing_key u = uu_RequestID u @ '':'' @ itoa (uu_AttemptNumber u)"

definition tryClaimBilling :: "int \<Rightarrow> usage_update \<Rightarrow> tracker \<Rightarrow> tracker \<times> bool" where
  "tryClaimBilling now u tk =
     (if uu_RequestID u = [] then (tk, True)
      else case gm_get (tk_billed tk) (billing_key u) of
        Some _ \<Rightarrow> (tk, False)
      | None \<Rightarrow> (tk\<lparr>tk_billed := gm_set (billing_key u) now (tk_billed tk)\<rparr>, True))"

definition sweepBilled :: "int \<Rightarrow> tracker \<Rightarrow> tracker" where
  "sweepBilled now tk = tk\<lparr>tk_billed := gm_filter (\<lambda>_ t. \<not> t < now - billedEntryTTL) (tk_billed tk)\<rparr>"

definition on_gov :: "(gov \<Rightarrow> gov) \<Rightarrow> tracker \<Rightarrow> tracker" where
  "on_gov f tk = tk\<lparr>tk_gov := f (tk_gov tk)\<rparr>"

definition charge_scoped :: "gov_env \<Rightarrow> int \<Rightarrow> string \<Rightarrow> string \<Rightarrow> usage_update \<Rightarrow> bool \<Rightarrow> bool \<Rightarrow> bool \<Rightarrow> gov \<Rightarrow> gov" where
  "charge_scoped env now scope scopeID u t r b gs =
     (if uu_Model u = [] then gs
      else let gs = UpdateScopedModelRateLimitUsageInMemory (ge_catalog env) now scope scopeID (uu_Model u) (uu_Provider u) (uu_TokensUsed u) t r gs
           in if b then UpdateScopedModelBudgetUsageInMemory (ge_catalog env) now scope scopeID (uu_Model u) (uu_Provider u) (uu_Cost u) gs else gs)"

definition charge_key :: "gov_env \<Rightarrow> int \<Rightarrow> table_virtual_key \<Rightarrow> usage_update \<Rightarrow> bool \<Rightarrow> bool \<Rightarrow> bool \<Rightarrow> gov \<Rightarrow> gov" where
  "charge_key env now vk u t r b gs =
     (let gs = charge_scoped env now ModelConfigScopeVirtualKey (vk_ID vk) u t r b gs;
          gs = (if vk_RateLimit vk \<noteq> None \<or> vk_ProviderConfigs vk \<noteq> [] \<or> vk_TeamID vk \<noteq> None \<or> vk_CustomerID vk \<noteq> None then
                  UpdateVirtualKeyRateLimitUsageInMemory now vk (uu_Provider u) (uu_TokensUsed u) t r gs
                else gs)
      in if b then UpdateVirtualKeyBudgetUsageInMemory now vk (uu_Provider u) (uu_Cost u) gs else gs)"

definition charge_usage :: "gov_env \<Rightarrow> int \<Rightarrow> usage_update \<Rightarrow> gov \<Rightarrow> gov" where
  "charge_usage env now u gs =
     (let t = (\<not> uu_IsStreaming u \<or> uu_HasUsageData u);
          r = (uu_Success u \<and> (\<not> uu_IsStreaming u \<or> uu_IsFinalChunk u));
          b = ((\<not> uu_IsStreaming u \<or> uu_HasUsageData u) \<and> float_pos (uu_Cost u));
          gs = (if uu_Model u \<noteq> [] then
                  UpdateProviderAndModelRateLimitUsageInMemory (ge_catalog env) now (uu_Model u) (uu_Provider u) (uu_TokensUsed u) t r gs
                else gs);
          gs = (if uu_Model u \<noteq> [] \<and> b then UpdateProviderAndModelBudgetUsageInMemory (ge_catalog env) now (uu_Model u) (uu_Provider u) (uu_Cost u) gs else gs);
          gs = (if uu_UserID u \<noteq> [] then charge_scoped env now ModelConfigScopeUser (uu_UserID u) u t r b gs else gs)
      in if uu_VirtualKey u = [] then gs
         else case GetVirtualKey gs (uu_VirtualKey u) of
           None \<Rightarrow> gs
         | Some vk \<Rightarrow> charge_key env now vk u t r b gs)"

definition UpdateUsage :: "gov_env \<Rightarrow> int \<Rightarrow> usage_update \<Rightarrow> tracker \<Rightarrow> tracker" where
  "UpdateUsage env now u tk =
     (let hasUsage = (0 < uu_TokensUsed u \<or> float_pos (uu_Cost u)); terminal = (\<not> uu_IsStreaming u \<or> uu_IsFinalChunk u)
      in if \<not> uu_Success u \<and> \<not> hasUsage then tk
         else if terminal then
           (case tryClaimBilling now u tk of (tk, claimed) \<Rightarrow> if claimed then on_gov (charge_usage env now u) tk else tk)
         else on_gov (charge_usage env now u) tk)"

subsection \<open>What the hooks hand over\<close>

text \<open>The total of tokens in each kind of response that reports one, and the tokens a failed request had consumed.\<close>

record llm_usage =
  lu_TextCompletion :: "int option"
  lu_Chat :: "int option"
  lu_Responses :: "int option"
  lu_ResponsesStream :: "int option"
  lu_Embedding :: "int option"
  lu_Speech :: "int option"
  lu_SpeechStream :: "int option"
  lu_Transcription :: "int option"
  lu_TranscriptionStream :: "int option"
  lu_Passthrough :: "int option"

record llm_outcome =
  lo_RequestType :: string
  lo_Provider :: string
  lo_Model :: string
  lo_Result :: "llm_usage option"
  lo_BilledUsage :: "int option"
  lo_IsFinalChunk :: bool

fun first_some :: "'a option list \<Rightarrow> 'a option" where
  "first_some [] = None"
| "first_some (Some x # xs) = Some x"
| "first_some (None # xs) = first_some xs"

definition response_tokens :: "llm_usage \<Rightarrow> int" where
  "response_tokens u =
     (case first_some [lu_TextCompletion u, lu_Chat u, lu_Responses u, lu_ResponsesStream u, lu_Embedding u, lu_Speech u, lu_SpeechStream u,
         lu_Transcription u, lu_TranscriptionStream u, lu_Passthrough u] of
        None \<Rightarrow> 0
      | Some n \<Rightarrow> n)"

record prices =
  px_CalculateCost :: "llm_outcome \<Rightarrow> float64"
  px_CalculateCostForUsage :: "llm_outcome \<Rightarrow> float64"
  px_ToolCost :: "string \<Rightarrow> string \<Rightarrow> float64 option"

definition postHookWorker :: "gov_env \<Rightarrow> prices \<Rightarrow> llm_outcome \<Rightarrow> string \<Rightarrow> string \<Rightarrow> int \<Rightarrow> usage_update option" where
  "postHookWorker env px oc virtualKey requestID attempt =
     (let streaming = IsStreamRequestType (lo_RequestType oc)
      in if streaming \<and> \<not> lo_IsFinalChunk oc then None
         else let priced = (ge_modelCatalog env \<noteq> None);
                  (tokens, cost, reason) =
                    (case (lo_Result oc, lo_BilledUsage oc) of
                       (Some u, _) \<Rightarrow> (response_tokens u, if priced then px_CalculateCost px oc else float_zero, ''success'')
                     | (None, Some n) \<Rightarrow> (n, if priced then px_CalculateCostForUsage px oc else float_zero, ''partial_usage_on_error'')
                     | (None, None) \<Rightarrow> (0, float_zero, ''success''))
              in Some \<lparr>uu_VirtualKey = virtualKey, uu_Provider = lo_Provider oc, uu_Model = lo_Model oc, uu_Success = (lo_Result oc \<noteq> None),
                   uu_TokensUsed = tokens, uu_Cost = cost, uu_RequestID = requestID, uu_UserID = [], uu_IsStreaming = streaming,
                   uu_IsFinalChunk = lo_IsFinalChunk oc, uu_HasUsageData = (0 < tokens \<or> float_pos cost), uu_AttemptNumber = attempt, uu_BilledReason = reason\<rparr>)"

definition gov_PostLLMHook :: "gov_env \<Rightarrow> prices \<Rightarrow> gov \<Rightarrow> gctx \<Rightarrow> llm_outcome \<Rightarrow> gctx \<times> usage_update option" where
  "gov_PostLLMHook env px gs ctx oc =
     (if gx_Rejected ctx \<noteq> None then (ctx, None)
      else let key = (if ctx_bool (gx_SkipVirtualKeyUsageTracking ctx) then [] else ctx_string (gx_VirtualKey ctx))
           in if lo_Model oc = [] then (ctx, None)
              else let (bs, ls) = CollectApplicableGovernanceIDs (ge_catalog env) gs key [] (lo_Provider oc) (lo_Model oc);
                       ctx = (if bs \<noteq> [] then ctx\<lparr>gx_BudgetIDs := Some bs\<rparr> else ctx);
                       ctx = (if ls \<noteq> [] then ctx\<lparr>gx_RateLimitIDs := Some ls\<rparr> else ctx)
                   in (ctx, postHookWorker env px oc key (ctx_string (cx_RequestID ctx))
                         (case cx_NumberOfRetries ctx of None \<Rightarrow> 0 | Some n \<Rightarrow> n)))"

record mcp_outcome =
  mo_Executes :: bool
  mo_Success :: bool
  mo_Codemode :: bool
  mo_ClientName :: string
  mo_ToolName :: string

definition gov_PostMCPHook :: "prices option \<Rightarrow> gctx \<Rightarrow> mcp_outcome \<Rightarrow> usage_update option" where
  "gov_PostMCPHook px ctx oc =
     (let key = (if ctx_bool (gx_SkipVirtualKeyUsageTracking ctx) then [] else ctx_string (gx_VirtualKey ctx))
      in if gx_Rejected ctx \<noteq> None \<or> \<not> mo_Executes oc \<or> key = [] \<or> mo_Success oc \<and> mo_Codemode oc then None
         else let cost = (case px of
                            Some p \<Rightarrow>
                              if mo_Success oc \<and> mo_ClientName oc \<noteq> [] \<and> mo_ToolName oc \<noteq> [] then
                                (case px_ToolCost p (mo_ClientName oc) (mo_ToolName oc) of Some c \<Rightarrow> c | None \<Rightarrow> float_zero)
                              else float_zero
                          | None \<Rightarrow> float_zero)
              in Some \<lparr>uu_VirtualKey = key, uu_Provider = [], uu_Model = [], uu_Success = mo_Success oc, uu_TokensUsed = 0, uu_Cost = cost,
                   uu_RequestID = ctx_string (cx_RequestID ctx), uu_UserID = [], uu_IsStreaming = False, uu_IsFinalChunk = True,
                   uu_HasUsageData = float_pos cost, uu_AttemptNumber = 0, uu_BilledReason = []\<rparr>)"

section \<open>When a request passes\<close>

definition budgets_clear :: "int \<Rightarrow> gov \<Rightarrow> string set \<Rightarrow> bool" where
  "budgets_clear now gs ids \<longleftrightarrow> (\<forall>b\<in>live_budgets gs ids. \<not> budget_exceeded [] now b)"

definition limits_clear :: "int \<Rightarrow> gov \<Rightarrow> string set \<Rightarrow> bool" where
  "limits_clear now gs ids \<longleftrightarrow> (\<forall>rl\<in>live_limits gs ids. \<not> limit_exceeded [] [] now rl)"

lemma clear_Un:
  "budgets_clear now gs (a \<union> b) \<longleftrightarrow> budgets_clear now gs a \<and> budgets_clear now gs b"
  "limits_clear now gs (a \<union> b) \<longleftrightarrow> limits_clear now gs a \<and> limits_clear now gs b"
  by (auto simp: budgets_clear_def limits_clear_def live_Un)

lemma clear_mono:
  "budgets_clear now gs b \<Longrightarrow> a \<subseteq> b \<Longrightarrow> budgets_clear now gs a" "limits_clear now gs b \<Longrightarrow> a \<subseteq> b \<Longrightarrow> limits_clear now gs a"
  by (auto simp: budgets_clear_def limits_clear_def live_budgets_def live_limits_def)

lemma hit_simps [simp]: "\<not> limit_hit (DecisionAllow, None)" "\<not> budget_hit (DecisionAllow, None)"
  by (simp_all add: limit_hit_def budget_hit_def isRateLimitViolation_def isBudgetViolation_def)

lemma budget_hit_iff: "budget_hit (CheckBudget [] now m) \<longleftrightarrow> (\<exists>b\<in>rows_of m. budget_exceeded [] now b)"
  using CheckBudget_cases [of "[]" now m] by (auto simp: budget_hit_def isBudgetViolation_def)

lemma limit_hit_iff: "limit_hit (CheckRateLimit [] [] now m) \<longleftrightarrow> (\<exists>rl\<in>rows_of m. limit_exceeded [] [] now rl)"
  using CheckRateLimit_cases [of "[]" "[]" now m] by (auto simp: limit_hit_def isRateLimitViolation_def)

text \<open>A hit of a check is a refusal.\<close>

lemma hit_refuses: "budget_hit v \<Longrightarrow> fst v = DecisionAllow \<Longrightarrow> snd v \<noteq> None" "limit_hit v \<Longrightarrow> fst v = DecisionAllow \<Longrightarrow> snd v \<noteq> None"
  by (auto simp: budget_hit_def limit_hit_def isBudgetViolation_def isRateLimitViolation_def)

lemma CheckBudget_refuses: "budget_hit (CheckBudget [] now m) \<Longrightarrow> fst (CheckBudget [] now m) \<noteq> DecisionAllow"
  using CheckBudget_cases [of "[]" now m] by (auto simp: budget_hit_def isBudgetViolation_def)

lemma CheckRateLimit_refuses: "limit_hit (CheckRateLimit [] [] now m) \<Longrightarrow> fst (CheckRateLimit [] [] now m) \<noteq> DecisionAllow"
  using CheckRateLimit_cases [of "[]" "[]" now m] by (auto simp: limit_hit_def isRateLimitViolation_def)

lemma provider_hits:
  assumes "prov \<noteq> []"
  shows "budget_hit (CheckProviderBudget [] now gs prov) \<longleftrightarrow> \<not> budgets_clear now gs (set (provider_row gs prov tp_BudgetID))"
    and "limit_hit (CheckProviderRateLimit [] [] now gs prov) \<longleftrightarrow> \<not> limits_clear now gs (set (provider_row gs prov tp_RateLimitID))"
    and "budget_hit (CheckProviderBudget [] now gs prov) \<Longrightarrow> fst (CheckProviderBudget [] now gs prov) \<noteq> DecisionAllow"
    and "limit_hit (CheckProviderRateLimit [] [] now gs prov) \<Longrightarrow> fst (CheckProviderRateLimit [] [] now gs prov) \<noteq> DecisionAllow"
  using assms
  by (auto simp: CheckProviderBudget_def CheckProviderRateLimit_def provider_row_def budgets_clear_def limits_clear_def live_budgets_def live_limits_def
      hot_limit_def budget_hit_iff limit_hit_iff CheckBudget_refuses CheckRateLimit_refuses simp del: CheckBudget.simps CheckRateLimit.simps
      split: option.splits Option.bind_splits)

text \<open>The model configurations of a scope, with descriptions that do not clash.\<close>

definition configs_ok :: "gov_env \<Rightarrow> gov \<Rightarrow> string \<Rightarrow> string \<Rightarrow> string \<Rightarrow> string \<Rightarrow> bool" where
  "configs_ok env gs scope scopeID model prov \<longleftrightarrow>
     distinct (map modelConfigEntityKey (collectModelConfigsFor (ge_catalog env) gs scope scopeID model (providerStr prov)))"

abbreviation scope_configs :: "gov_env \<Rightarrow> gov \<Rightarrow> string \<Rightarrow> string \<Rightarrow> string \<Rightarrow> string \<Rightarrow> table_model_config list" where
  "scope_configs env gs scope scopeID model prov \<equiv> collectModelConfigsFor (ge_catalog env) gs scope scopeID model (providerStr prov)"

lemma config_hits:
  assumes "distinct (map modelConfigEntityKey mcs)"
  shows "budget_hit (CheckBudget [] now (config_budgets gs mcs)) \<longleftrightarrow> \<not> budgets_clear now gs (set (config_budget_ids mcs))"
    and "limit_hit (CheckRateLimit [] [] now (config_limits gs mcs)) \<longleftrightarrow> \<not> limits_clear now gs (set (config_limit_ids mcs))"
  using config_budget_rows [OF assms, of gs] config_limit_rows [OF assms, of gs]
  by (auto simp: budget_hit_iff limit_hit_iff budgets_clear_def limits_clear_def)

lemma key_hits:
  assumes "rows_ok (gv_rows gs)"
  shows "budget_hit (CheckVirtualKeyBudget [] now gs vk prov) \<longleftrightarrow> \<not> budgets_clear now gs (hierarchy_budget_refs gs vk prov)"
    and "limit_hit (CheckVirtualKeyRateLimit [] [] now gs vk prov) \<longleftrightarrow> \<not> limits_clear now gs (hierarchy_limit_refs gs vk prov)"
  by (auto simp: CheckVirtualKeyBudget_def CheckVirtualKeyRateLimit_def budget_hit_iff limit_hit_iff hierarchy_budgets [OF assms]
      hierarchy_limits budgets_clear_def limits_clear_def)

lemma team_hits:
  assumes "teamID \<noteq> []"
  shows "budget_hit (CheckTeamBudget [] now gs teamID) \<longleftrightarrow> \<not> budgets_clear now gs (b_ID ` set (owned_rows tm_Budgets (gm_get (gv_teams gs) teamID)))"
    and "limit_hit (CheckTeamRateLimit [] [] now gs teamID) \<longleftrightarrow> \<not> limits_clear now gs (set_option (Option.bind (gm_get (gv_teams gs) teamID) tm_RateLimitID))"
proof -
  have l: "CollectTeamBudgets gs teamID = hot_budgets gs (owned_rows tm_Budgets (gm_get (gv_teams gs) teamID))" using assms by (simp add: CollectTeamBudgets_def)
  show "budget_hit (CheckTeamBudget [] now gs teamID) \<longleftrightarrow> \<not> budgets_clear now gs (b_ID ` set (owned_rows tm_Budgets (gm_get (gv_teams gs) teamID)))"
    unfolding CheckTeamBudget_def l Let_def budgets_clear_def set_hot_budgets [symmetric] by (auto simp: budget_hit_iff simp del: CheckBudget.simps)
  show "limit_hit (CheckTeamRateLimit [] [] now gs teamID) \<longleftrightarrow> \<not> limits_clear now gs (set_option (Option.bind (gm_get (gv_teams gs) teamID) tm_RateLimitID))"
    unfolding CheckTeamRateLimit_def limits_clear_def hot_limit_set [symmetric] by (auto simp: limit_hit_iff simp del: CheckRateLimit.simps split: option.split)
qed

lemma customer_hits:
  assumes "c \<noteq> []"
  shows "budget_hit (CheckCustomerBudget [] now gs c) \<longleftrightarrow> \<not> budgets_clear now gs (b_ID ` set (owned_rows cu_Budgets (gm_get (gv_customers gs) c)))"
    and "limit_hit (CheckCustomerRateLimit [] [] now gs c) \<longleftrightarrow> \<not> limits_clear now gs (set_option (Option.bind (gm_get (gv_customers gs) c) cu_RateLimitID))"
proof -
  have l: "CollectCustomerBudgets gs c = hot_budgets gs (owned_rows cu_Budgets (gm_get (gv_customers gs) c))" using assms by (simp add: CollectCustomerBudgets_def)
  show "budget_hit (CheckCustomerBudget [] now gs c) \<longleftrightarrow> \<not> budgets_clear now gs (b_ID ` set (owned_rows cu_Budgets (gm_get (gv_customers gs) c)))"
    unfolding CheckCustomerBudget_def l Let_def budgets_clear_def set_hot_budgets [symmetric] by (auto simp: budget_hit_iff simp del: CheckBudget.simps)
  show "limit_hit (CheckCustomerRateLimit [] [] now gs c) \<longleftrightarrow> \<not> limits_clear now gs (set_option (Option.bind (gm_get (gv_customers gs) c) cu_RateLimitID))"
    unfolding CheckCustomerRateLimit_def limits_clear_def hot_limit_set [symmetric] using assms
    by (auto simp: limit_hit_iff simp del: CheckRateLimit.simps split: option.split)
qed


lemma team_check: "CheckTeamBudget [] now gs x = (DecisionAllow, None) \<or> (\<exists>m. CheckTeamBudget [] now gs x = CheckBudget [] now m)"
    "CheckTeamRateLimit [] [] now gs x = (DecisionAllow, None) \<or> (\<exists>m. CheckTeamRateLimit [] [] now gs x = CheckRateLimit [] [] now m)"
  by (auto simp: CheckTeamBudget_def CheckTeamRateLimit_def Let_def simp del: CheckBudget.simps CheckRateLimit.simps split: option.split)

lemma customer_check: "CheckCustomerBudget [] now gs x = (DecisionAllow, None) \<or> (\<exists>m. CheckCustomerBudget [] now gs x = CheckBudget [] now m)"
    "CheckCustomerRateLimit [] [] now gs x = (DecisionAllow, None) \<or> (\<exists>m. CheckCustomerRateLimit [] [] now gs x = CheckRateLimit [] [] now m)"
  by (auto simp: CheckCustomerBudget_def CheckCustomerRateLimit_def Let_def simp del: CheckBudget.simps CheckRateLimit.simps split: option.split)

lemma owner_refuses:
  "budget_hit (CheckTeamBudget [] now gs x) \<Longrightarrow> fst (CheckTeamBudget [] now gs x) \<noteq> DecisionAllow"
  "limit_hit (CheckTeamRateLimit [] [] now gs x) \<Longrightarrow> fst (CheckTeamRateLimit [] [] now gs x) \<noteq> DecisionAllow"
  "budget_hit (CheckCustomerBudget [] now gs x) \<Longrightarrow> fst (CheckCustomerBudget [] now gs x) \<noteq> DecisionAllow"
  "limit_hit (CheckCustomerRateLimit [] [] now gs x) \<Longrightarrow> fst (CheckCustomerRateLimit [] [] now gs x) \<noteq> DecisionAllow"
  using team_check [of now gs x] customer_check [of now gs x] CheckBudget_refuses CheckRateLimit_refuses hit_simps by metis+

subsection \<open>The steps of the decision\<close>

abbreviation passes :: "eval_result \<Rightarrow> bool" where
  "passes r \<equiv> er_Decision r = DecisionAllow"

lemma decision_of_info [simp]:
  "er_Decision (populateBudgetInfo bs r) = er_Decision r" "er_Decision (attachGlobalBudgetInfo env gs prov model r) = er_Decision r"
  "er_Decision (attachScopedModelBudgetInfo env gs scope scopeID req r) = er_Decision r" "er_Decision (mergeBudgetInfo p r) = er_Decision r"
  "er_Decision (allowed reason) = DecisionAllow" "er_Decision (refused reason v) = fst v"
  by (simp_all add: populateBudgetInfo_def attachGlobalBudgetInfo_def attachScopedModelBudgetInfo_def mergeBudgetInfo_def allowed_def refused_def)

lemma key_of_info [simp]:
  "er_VirtualKey (populateBudgetInfo bs r) = er_VirtualKey r" "er_VirtualKey (attachGlobalBudgetInfo env gs prov model r) = er_VirtualKey r"
  "er_VirtualKey (attachScopedModelBudgetInfo env gs scope scopeID req r) = er_VirtualKey r" "er_VirtualKey (mergeBudgetInfo p r) = er_VirtualKey r"
  "er_VirtualKey (allowed reason) = None" "er_VirtualKey (refused reason v) = None"
  by (simp_all add: populateBudgetInfo_def attachGlobalBudgetInfo_def attachScopedModelBudgetInfo_def mergeBudgetInfo_def allowed_def refused_def)

definition model_configs :: "gov_env \<Rightarrow> gov \<Rightarrow> string \<Rightarrow> string \<Rightarrow> string \<Rightarrow> string \<Rightarrow> table_model_config list" where
  "model_configs env gs scope scopeID model prov = (if model = [] then [] else scope_configs env gs scope scopeID model prov)"

lemma clear_empty [simp]: "budgets_clear now gs {}" "limits_clear now gs {}"
  by (simp_all add: budgets_clear_def limits_clear_def live_budgets_def live_limits_def)

lemma no_configs [simp]: "config_budget_ids [] = []" "config_limit_ids [] = []"
  by (simp_all add: config_budget_ids_def config_limit_ids_def List.map_filter_def)

lemma no_provider_row [simp]: "provider_row gs [] f = []"
  by (simp add: provider_row_def)

lemma model_provider_passes:
  assumes "configs_ok env gs ModelConfigScopeGlobal [] model prov"
  shows "passes (EvaluateModelAndProviderRequest env now gs prov model) \<longleftrightarrow>
    budgets_clear now gs (set (provider_row gs prov tp_BudgetID) \<union> set (config_budget_ids (model_configs env gs ModelConfigScopeGlobal [] model prov))) \<and>
    limits_clear now gs (set (provider_row gs prov tp_RateLimitID) \<union> set (config_limit_ids (model_configs env gs ModelConfigScopeGlobal [] model prov)))"
proof -
  note hits = config_hits [OF assms [unfolded configs_ok_def], of now gs]
  show ?thesis
    using provider_hits [of prov now gs] hits
    by (cases "prov = []"; cases "model = []")
      (auto simp: EvaluateModelAndProviderRequest_def CheckModelBudget_def CheckModelRateLimit_def model_configs_def clear_Un Let_def
        CheckBudget_refuses CheckRateLimit_refuses simp del: CheckBudget.simps CheckRateLimit.simps)
qed

lemma team_passes:
  "passes (EvaluateTeamRequest now gs t) \<longleftrightarrow> t = [] \<or>
    budgets_clear now gs (b_ID ` set (owned_rows tm_Budgets (gm_get (gv_teams gs) t))) \<and>
    limits_clear now gs (set_option (Option.bind (gm_get (gv_teams gs) t) tm_RateLimitID))"
  using team_hits [of t now gs] owner_refuses(1,2) [of now gs t] by (auto simp: EvaluateTeamRequest_def Let_def)

lemma customer_passes:
  "passes (EvaluateCustomerRequest now gs c) \<longleftrightarrow> c = [] \<or>
    budgets_clear now gs (b_ID ` set (owned_rows cu_Budgets (gm_get (gv_customers gs) c))) \<and>
    limits_clear now gs (set_option (Option.bind (gm_get (gv_customers gs) c) cu_RateLimitID))"
  using customer_hits [of c now gs] owner_refuses(3,4) [of now gs c] by (auto simp: EvaluateCustomerRequest_def Let_def)

lemma user_passes: "eq_UserID req = [] \<Longrightarrow> passes (EvaluateUserRequest env now gs req)"
  by (simp add: EvaluateUserRequest_def)

lemma key_refuses:
  "budget_hit (CheckVirtualKeyBudget [] now gs vk p) \<Longrightarrow> fst (CheckVirtualKeyBudget [] now gs vk p) \<noteq> DecisionAllow"
  "limit_hit (CheckVirtualKeyRateLimit [] [] now gs vk p) \<Longrightarrow> fst (CheckVirtualKeyRateLimit [] [] now gs vk p) \<noteq> DecisionAllow"
  by (simp_all add: CheckVirtualKeyBudget_def CheckVirtualKeyRateLimit_def CheckBudget_refuses CheckRateLimit_refuses del: CheckBudget.simps CheckRateLimit.simps)


lemma scope_of_keys: "ModelConfigScopeVirtualKey \<noteq> []"
  by (simp add: ModelConfigScopeVirtualKey_def)

lemma vk_limits_pass:
  assumes "rows_ok (gv_rows gs)" and "configs_ok env gs ModelConfigScopeVirtualKey (vk_ID vk) (eq_Model req) (eq_Provider req)" and "vk_ID vk \<noteq> []"
  shows "(case vk_limits env now gs vk req of None \<Rightarrow> True | Some r \<Rightarrow> passes r) \<longleftrightarrow>
    budgets_clear now gs (hierarchy_budget_refs gs vk (eq_Provider req) \<union>
      set (config_budget_ids (model_configs env gs ModelConfigScopeVirtualKey (vk_ID vk) (eq_Model req) (eq_Provider req)))) \<and>
    limits_clear now gs (hierarchy_limit_refs gs vk (eq_Provider req) \<union>
      set (config_limit_ids (model_configs env gs ModelConfigScopeVirtualKey (vk_ID vk) (eq_Model req) (eq_Provider req))))"
proof -
  note hits = config_hits [OF assms(2) [unfolded configs_ok_def], of now gs]
  show ?thesis
    using assms(3) hits key_hits [OF assms(1), of now vk "eq_Provider req"] key_refuses [of now gs vk "eq_Provider req"]
    by (auto simp: vk_limits_def checkRateLimitHierarchy_def checkBudgetHierarchy_def CheckScopedModelRateLimit_def CheckScopedModelBudget_def
        scope_of_keys model_configs_def clear_Un Let_def CheckBudget_refuses CheckRateLimit_refuses
        simp del: CheckBudget.simps CheckRateLimit.simps)
qed

text \<open>What a key asks of a request besides its limits.\<close>

definition key_admits :: "gov_env \<Rightarrow> int \<Rightarrow> gov \<Rightarrow> table_virtual_key \<Rightarrow> string \<Rightarrow> string \<Rightarrow> string \<Rightarrow> bool" where
  "key_admits env now gs vk prov model requestType \<longleftrightarrow>
     IsActiveValue vk \<and> \<not> IsExpiredAt vk now \<and>
     (requestType = ''mcp_tool_execution'' \<or> requestType = ''list_models'' \<or> isProviderAllowed vk prov) \<and>
     (IsModelRequiredForRequest requestType \<or> (requestType = ''passthrough'' \<or> requestType = ''passthrough_stream'') \<and> model \<noteq> [] \<longrightarrow>
        isModelAllowed env gs vk prov model)"

lemma key_request_passes:
  assumes "GetVirtualKey gs k = Some vk"
  shows "passes (snd (EvaluateVirtualKeyRequest env now gs ctx k prov model requestType skip)) \<longleftrightarrow>
    key_admits env now gs vk prov model requestType \<and>
    (skip \<or> (case vk_limits env now gs vk \<lparr>eq_VirtualKey = k, eq_Provider = prov, eq_Model = model, eq_UserID = []\<rparr> of None \<Rightarrow> True | Some r \<Rightarrow> passes r))"
  using assms by (simp add: EvaluateVirtualKeyRequest_def key_admits_def Let_def split: option.split) blast

text \<open>The owners that a key names are those of the store.\<close>

definition linked :: "gov \<Rightarrow> table_virtual_key \<Rightarrow> bool" where
  "linked gs vk \<longleftrightarrow> (vk_TeamID vk = None \<longrightarrow> team_of_key vk = []) \<and> (vk_CustomerID vk = None \<longrightarrow> customer_of_key vk = team_customer_id gs vk)"

lemma owners_below:
  assumes "linked gs vk"
  shows "team_of_key vk \<noteq> [] \<Longrightarrow> b_ID ` set (owned_rows tm_Budgets (gm_get (gv_teams gs) (team_of_key vk))) \<subseteq> hierarchy_budget_refs gs vk p"
    and "team_of_key vk \<noteq> [] \<Longrightarrow> set_option (Option.bind (gm_get (gv_teams gs) (team_of_key vk)) tm_RateLimitID) \<subseteq> hierarchy_limit_refs gs vk p"
    and "customer_of_key vk \<noteq> [] \<Longrightarrow> b_ID ` set (owned_rows cu_Budgets (gm_get (gv_customers gs) (customer_of_key vk))) \<subseteq> hierarchy_budget_refs gs vk p"
    and "customer_of_key vk \<noteq> [] \<Longrightarrow> set_option (Option.bind (gm_get (gv_customers gs) (customer_of_key vk)) cu_RateLimitID) \<subseteq> hierarchy_limit_refs gs vk p"
proof -
  have team: "gm_get (gv_teams gs) (team_of_key vk) = vk_team gs vk" if "team_of_key vk \<noteq> []"
    using assms that by (auto simp: linked_def vk_team_def team_of_key_def split: option.splits)
  have customer: "gm_get (gv_customers gs) (customer_of_key vk) = team_customer gs vk \<or> gm_get (gv_customers gs) (customer_of_key vk) = own_customer gs vk"
    if "customer_of_key vk \<noteq> []"
  proof (cases "vk_CustomerID vk")
    case None
    then show ?thesis using assms that
      by (cases "vk_team gs vk") (auto simp: linked_def team_customer_def team_customer_id_def split: option.splits)
  next
    case (Some c)
    then have "customer_of_key vk = c" by (simp add: customer_of_key_def)
    with Some show ?thesis by (cases "vk_team gs vk") (auto simp: own_customer_def team_customer_def team_customer_id_def split: option.splits)
  qed
  show "team_of_key vk \<noteq> [] \<Longrightarrow> b_ID ` set (owned_rows tm_Budgets (gm_get (gv_teams gs) (team_of_key vk))) \<subseteq> hierarchy_budget_refs gs vk p"
    and "team_of_key vk \<noteq> [] \<Longrightarrow> set_option (Option.bind (gm_get (gv_teams gs) (team_of_key vk)) tm_RateLimitID) \<subseteq> hierarchy_limit_refs gs vk p"
    by (auto simp: team hierarchy_budget_refs_def hierarchy_limit_refs_def)
  show "customer_of_key vk \<noteq> [] \<Longrightarrow> b_ID ` set (owned_rows cu_Budgets (gm_get (gv_customers gs) (customer_of_key vk))) \<subseteq> hierarchy_budget_refs gs vk p"
    and "customer_of_key vk \<noteq> [] \<Longrightarrow> set_option (Option.bind (gm_get (gv_customers gs) (customer_of_key vk)) cu_RateLimitID) \<subseteq> hierarchy_limit_refs gs vk p"
    using customer by (auto simp: hierarchy_budget_refs_def hierarchy_limit_refs_def)
qed

text \<open>The budgets and limits that a request touches.\<close>

lemma set_append_ids: "set (append_ids xs out) = set out \<union> set xs"
  by (induction xs arbitrary: out) (auto simp: append_ids_def)

definition applicable_budgets :: "gov_env \<Rightarrow> gov \<Rightarrow> string \<Rightarrow> string \<Rightarrow> string \<Rightarrow> string set" where
  "applicable_budgets env gs key prov model = set (fst (CollectApplicableGovernanceIDs (ge_catalog env) gs key [] prov model))"

definition applicable_limits :: "gov_env \<Rightarrow> gov \<Rightarrow> string \<Rightarrow> string \<Rightarrow> string \<Rightarrow> string set" where
  "applicable_limits env gs key prov model = set (snd (CollectApplicableGovernanceIDs (ge_catalog env) gs key [] prov model))"

lemma live_ids:
  assumes "rows_ok (gv_rows gs)"
  shows "budgets_clear now gs (b_ID ` live_budgets gs ids) = budgets_clear now gs ids" "limits_clear now gs (rl_ID ` live_limits gs ids) = limits_clear now gs ids"
proof -
  have b: "live_budgets gs (b_ID ` live_budgets gs ids) = live_budgets gs ids" and l: "live_limits gs (rl_ID ` live_limits gs ids) = live_limits gs ids"
    using assms unfolding live_budgets_def live_limits_def rows_ok_def by (force simp: image_iff)+
  show "budgets_clear now gs (b_ID ` live_budgets gs ids) = budgets_clear now gs ids" "limits_clear now gs (rl_ID ` live_limits gs ids) = limits_clear now gs ids"
    by (simp_all add: budgets_clear_def limits_clear_def b l)
qed

lemma rows_of_ids: "set (map f (concat (map snd m))) = f ` rows_of m"
  by (auto simp: rows_of_def)

lemma applicable_clear:
  assumes "rows_ok (gv_rows gs)" and "k \<noteq> []" and "GetVirtualKey gs k = Some vk"
  shows "budgets_clear now gs (applicable_budgets env gs k prov model) \<longleftrightarrow>
      budgets_clear now gs (set (provider_row gs prov tp_BudgetID) \<union> set (config_budget_ids (model_configs env gs ModelConfigScopeGlobal [] model prov))) \<and>
      budgets_clear now gs (hierarchy_budget_refs gs vk prov \<union> set (config_budget_ids (model_configs env gs ModelConfigScopeVirtualKey (vk_ID vk) model prov)))"
    and "limits_clear now gs (applicable_limits env gs k prov model) \<longleftrightarrow>
      limits_clear now gs (set (provider_row gs prov tp_RateLimitID) \<union> set (config_limit_ids (model_configs env gs ModelConfigScopeGlobal [] model prov))) \<and>
      limits_clear now gs (hierarchy_limit_refs gs vk prov \<union> set (config_limit_ids (model_configs env gs ModelConfigScopeVirtualKey (vk_ID vk) model prov)))"
  using live_ids [OF assms(1), of now "hierarchy_budget_refs gs vk prov"] live_ids [OF assms(1), of now "hierarchy_limit_refs gs vk prov"] assms(2,3)
  by (auto simp: applicable_budgets_def applicable_limits_def CollectApplicableGovernanceIDs_def nonGlobalModelConfigScopeChain_def set_append_ids
      model_configs_def collectBudgetIDsFromMemory_def collectRateLimitIDsFromMemory_def rows_of_ids hierarchy_budgets [OF assms(1)] hierarchy_limits
      clear_Un Let_def simp del: set_map set_concat)


subsection \<open>The decision as a whole\<close>

lemma next_step_passes: "passes (next_step go f r) \<longleftrightarrow> passes r \<and> (go \<longrightarrow> passes (f ()))"
  by (auto simp: next_step_def)

lemma next_step_key: "er_VirtualKey (next_step True f r) = (if passes r then er_VirtualKey (f ()) else er_VirtualKey r)"
  by (simp add: next_step_def)

lemma user_step_key: "er_VirtualKey (EvaluateUserRequest env now gs req) = None"
  by (simp add: EvaluateUserRequest_def Let_def)

lemma user_step_no_tools: "check_added_tools env ctx (next_step True (\<lambda>_. EvaluateUserRequest env now gs req) r) = next_step True (\<lambda>_. EvaluateUserRequest env now gs req) r"
  by (simp add: check_added_tools_def next_step_def user_step_key split: bool.split)

lemma rejection_of_None: "rejection_of r = None \<longleftrightarrow> passes r"
  by (simp add: rejection_of_def)

lemma keyed_decision:
  assumes "eq_VirtualKey req = k" and "k \<noteq> []" and "GetVirtualKey gs k = Some vk" and "\<not> ctx_bool (gx_SkipBudgetAndRateLimits ctx)" and "eq_UserID req = []"
  shows "snd (snd (EvaluateGovernanceRequest env now gs ctx req requestType)) = None \<longleftrightarrow>
    passes (EvaluateModelAndProviderRequest env now gs (eq_Provider req) (eq_Model req)) \<and>
    passes (snd (EvaluateVirtualKeyRequest env now gs ctx k (eq_Provider req) (eq_Model req) requestType False)) \<and>
    (customer_of_key vk \<noteq> [] \<longrightarrow> passes (EvaluateCustomerRequest now gs (customer_of_key vk))) \<and>
    (team_of_key vk \<noteq> [] \<longrightarrow> passes (EvaluateTeamRequest now gs (team_of_key vk)))"
  using assms
  by (auto simp: EvaluateGovernanceRequest_def Let_def user_step_no_tools next_step_passes user_passes rejection_of_None split: prod.splits)

lemma owners_pass:
  assumes "linked gs vk" and "budgets_clear now gs (hierarchy_budget_refs gs vk p)" and "limits_clear now gs (hierarchy_limit_refs gs vk p)"
  shows "customer_of_key vk \<noteq> [] \<longrightarrow> passes (EvaluateCustomerRequest now gs (customer_of_key vk))"
    and "team_of_key vk \<noteq> [] \<longrightarrow> passes (EvaluateTeamRequest now gs (team_of_key vk))"
  using clear_mono(1) [OF assms(2) owners_below(1) [OF assms(1)]] clear_mono(2) [OF assms(3) owners_below(2) [OF assms(1)]]
    clear_mono(1) [OF assms(2) owners_below(3) [OF assms(1)]] clear_mono(2) [OF assms(3) owners_below(4) [OF assms(1)]]
  unfolding team_passes customer_passes by simp_all



subsection \<open>A sample store\<close>

definition key_budget :: table_budget where
  "key_budget = daily_budget\<lparr>b_ID := ''kb'', b_VirtualKeyID := Some ''vk1''\<rparr>"

definition openai_config :: vk_provider_config where
  "openai_config = \<lparr>pc_ID = 1, pc_Provider = ''openai'', pc_Weight = Some (1, 0), pc_AllowedModels = [''*''], pc_BlacklistedModels = [''gpt-3''],
     pc_AllowAllKeys = True, pc_RateLimitID = None, pc_RateLimit = None, pc_Budgets = [], pc_Keys = []\<rparr>"

definition sample_customer :: table_customer where
  "sample_customer = \<lparr>cu_ID = ''c1'', cu_Name = ''acme'', cu_RateLimitID = None, cu_Budgets = [daily_budget\<lparr>b_ID := ''cb'', b_CustomerID := Some ''c1''\<rparr>],
     cu_RateLimit = None, cu_CalendarAligned = True\<rparr>"

definition sample_team :: table_team where
  "sample_team = \<lparr>tm_ID = ''t1'', tm_Name = ''core'', tm_CustomerID = Some ''c1'', tm_RateLimitID = None, tm_Customer = Some sample_customer, tm_Budgets = [],
     tm_RateLimit = None, tm_CalendarAligned = False\<rparr>"

definition team_key :: table_virtual_key where
  "team_key = ci_key\<lparr>vk_ProviderConfigs := [openai_config], vk_Team := Some sample_team, vk_Budgets := [key_budget], vk_CalendarAligned := True\<rparr>"

definition team_edits :: "gov_edit list" where
  "team_edits = [EditCustomer sample_customer, EditTeam sample_team, EditKey team_key]"

definition team_store :: gov where
  "team_store = apply_edits None team_edits empty_gov"

definition plain_env :: gov_env where
  "plain_env = \<lparr>ge_modelCatalog = None, ge_unlisted = None, ge_allowAllClients = [], ge_isVkMandatory = Some True, ge_requiredHeaders = []\<rparr>"

definition empty_gctx :: gctx where
  "empty_gctx = bctx.extend empty_ctx
     \<lparr>gx_VirtualKey = None, gx_VirtualKeyID = None, gx_VirtualKeyName = None, gx_TeamID = None, gx_TeamName = None, gx_CustomerID = None,
      gx_CustomerName = None, gx_Rejected = None, gx_MCPAddedTools = None, gx_SkipBudgetAndRateLimits = None, gx_SkipVirtualKeyUsageTracking = None,
      gx_BudgetIDs = None, gx_RateLimitIDs = None, gx_RequestHeaders = None, gx_RoutingAllowedProviders = None\<rparr>"

definition sample_request :: eval_request where
  "sample_request = \<lparr>eq_VirtualKey = ''s1'', eq_Provider = ''openai'', eq_Model = ''gpt-5'', eq_UserID = []\<rparr>"

lemma team_store_wf: "gov_wf team_store"
proof -
  have "edits_ok None team_edits empty_gov" by code_simp
  then show ?thesis unfolding team_store_def by (rule gov_wf_edits [OF gov_wf_empty])
qed



section \<open>What a request is charged to\<close>

lemmas owners_cong = provider_row_cong configs_cong budget_ids_cong limit_ids_cong

text \<open>The store after a run of charges: who owns what is as before, and the rows are charged one after the other.\<close>

definition charged_by :: "int \<Rightarrow> float64 \<Rightarrow> int \<Rightarrow> bool \<Rightarrow> bool \<Rightarrow> string list \<Rightarrow> string list \<Rightarrow> gov \<Rightarrow> gov \<Rightarrow> bool" where
  "charged_by now cost tokens t r bs ls gs gs' \<longleftrightarrow> same_owners gs gs' \<and> rows_ok (gv_rows gs') \<and>
     (\<forall>i. LoadBudget (gv_rows gs') i = LoadBudget (bump_budgets now cost bs (gv_rows gs)) i) \<and>
     (\<forall>i. LoadRateLimit (gv_rows gs') i = LoadRateLimit (bump_limits now tokens t r ls (gv_rows gs)) i)"

lemma charged_none: "rows_ok (gv_rows gs) \<Longrightarrow> charged_by now cost tokens t r [] [] gs gs"
  by (simp add: charged_by_def same_owners_def bump_budgets_def bump_limits_def)

lemma charged_limits:
  assumes "rows_ok (gv_rows gs)" and "charged_by now cost tokens t r bs ls gs gs'"
  shows "charged_by now cost tokens t r bs (ls @ ids) gs (on_rows (bump_limits now tokens t r ids) gs')"
proof -
  have ok: "rows_ok (gv_rows gs')" "rows_ok (bump_limits now tokens t r ls (gv_rows gs))" and owners: "same_owners gs gs'"
    using assms bumps_ok by (auto simp: charged_by_def)
  have "LoadRateLimit (bump_limits now tokens t r ids (gv_rows gs')) i = LoadRateLimit (bump_limits now tokens t r (ls @ ids) (gv_rows gs)) i" for i
    using limit_charges.all_depend [OF ok, of now tokens t r ids i] assms(2) by (simp add: charged_by_def bump_limits_def)
  then show ?thesis
    using assms(2) bumps_ok(2) [OF ok(1)] bump_across(2) [OF ok(1)] same_owners_trans [OF owners same_owners_bump(2) [OF ok(1)]]
    by (simp add: charged_by_def on_rows_def)
qed

lemma charged_budgets:
  assumes "rows_ok (gv_rows gs)" and "charged_by now cost tokens t r bs ls gs gs'"
  shows "charged_by now cost tokens t r (bs @ ids) ls gs (on_rows (bump_budgets now cost ids) gs')"
proof -
  have ok: "rows_ok (gv_rows gs')" "rows_ok (bump_budgets now cost bs (gv_rows gs))" and owners: "same_owners gs gs'"
    using assms bumps_ok by (auto simp: charged_by_def)
  have "LoadBudget (bump_budgets now cost ids (gv_rows gs')) i = LoadBudget (bump_budgets now cost (bs @ ids) (gv_rows gs)) i" for i
    using budget_charges.all_depend [OF ok, of now cost ids i] assms(2) by (simp add: charged_by_def bump_budgets_def)
  then show ?thesis
    using assms(2) bumps_ok(1) [OF ok(1)] bump_across(1) [OF ok(1)] same_owners_trans [OF owners same_owners_bump(1) [OF ok(1)]]
    by (simp add: charged_by_def on_rows_def)
qed

text \<open>The rows in the order in which they are charged.\<close>

definition charge_list :: "(table_provider \<Rightarrow> string option) \<Rightarrow> (table_model_config list \<Rightarrow> string list) \<Rightarrow> (gov \<Rightarrow> table_virtual_key \<Rightarrow> string \<Rightarrow> string list) \<Rightarrow>
    gov_env \<Rightarrow> gov \<Rightarrow> table_virtual_key \<Rightarrow> string \<Rightarrow> string \<Rightarrow> string list" where
  "charge_list f g h env gs vk prov model =
     provider_row gs prov f @ g (scope_configs env gs ModelConfigScopeGlobal [] model prov) @
     g (scope_configs env gs ModelConfigScopeVirtualKey (vk_ID vk) model prov) @ h gs vk prov"

abbreviation budget_list :: "gov_env \<Rightarrow> gov \<Rightarrow> table_virtual_key \<Rightarrow> string \<Rightarrow> string \<Rightarrow> string list" where
  "budget_list \<equiv> charge_list tp_BudgetID config_budget_ids collectBudgetIDsFromMemory"

abbreviation limit_list :: "gov_env \<Rightarrow> gov \<Rightarrow> table_virtual_key \<Rightarrow> string \<Rightarrow> string \<Rightarrow> string list" where
  "limit_list \<equiv> charge_list tp_RateLimitID config_limit_ids collectRateLimitIDsFromMemory"

lemma applicable_list:
  assumes "k \<noteq> []" and "GetVirtualKey gs k = Some vk" and "model \<noteq> []"
  shows "applicable_budgets env gs k prov model = set (budget_list env gs vk prov model)" "applicable_limits env gs k prov model = set (limit_list env gs vk prov model)"
  using assms
  by (auto simp: applicable_budgets_def applicable_limits_def charge_list_def CollectApplicableGovernanceIDs_def nonGlobalModelConfigScopeChain_def
      set_append_ids Let_def)

text \<open>A key without rate limits of its own, providers, team and customer is not charged to rate limits; it has none.\<close>

lemma no_limits:
  assumes "vk_RateLimit vk = None \<longrightarrow> vk_RateLimitID vk = None"
    and "\<not> (vk_RateLimit vk \<noteq> None \<or> vk_ProviderConfigs vk \<noteq> [] \<or> vk_TeamID vk \<noteq> None \<or> vk_CustomerID vk \<noteq> None)"
  shows "collectRateLimitIDsFromMemory gs vk p = []"
  using assms by (simp add: collectRateLimitIDsFromMemory_def collectRateLimitsFromHierarchy_def append_limit_def hot_limit_def vk_team_def
      team_customer_def own_customer_def)


lemma charged_owners: "charged_by now cost tokens t r bs ls gs gs' \<Longrightarrow> same_owners gs gs'"
  by (simp add: charged_by_def)

lemma charge_steps:
  assumes "rows_ok (gv_rows gs)" and "charged_by now cost tokens t r bs ls gs gs'"
  shows "charged_by now cost tokens t r bs (ls @ provider_row gs prov tp_RateLimitID @ config_limit_ids (scope_configs env gs ModelConfigScopeGlobal [] model prov)) gs
      (UpdateProviderAndModelRateLimitUsageInMemory (ge_catalog env) now model prov tokens t r gs')"
    and "charged_by now cost tokens t r (bs @ provider_row gs prov tp_BudgetID @ config_budget_ids (scope_configs env gs ModelConfigScopeGlobal [] model prov)) ls gs
      (UpdateProviderAndModelBudgetUsageInMemory (ge_catalog env) now model prov cost gs')"
    and "scopeID \<noteq> [] \<Longrightarrow> charged_by now cost tokens t r bs (ls @ config_limit_ids (scope_configs env gs ModelConfigScopeVirtualKey scopeID model prov)) gs
      (UpdateScopedModelRateLimitUsageInMemory (ge_catalog env) now ModelConfigScopeVirtualKey scopeID model prov tokens t r gs')"
    and "scopeID \<noteq> [] \<Longrightarrow> charged_by now cost tokens t r (bs @ config_budget_ids (scope_configs env gs ModelConfigScopeVirtualKey scopeID model prov)) ls gs
      (UpdateScopedModelBudgetUsageInMemory (ge_catalog env) now ModelConfigScopeVirtualKey scopeID model prov cost gs')"
    and "charged_by now cost tokens t r bs (ls @ collectRateLimitIDsFromMemory gs vk prov) gs (UpdateVirtualKeyRateLimitUsageInMemory now vk prov tokens t r gs')"
    and "charged_by now cost tokens t r (bs @ collectBudgetIDsFromMemory gs vk prov) ls gs (UpdateVirtualKeyBudgetUsageInMemory now vk prov cost gs')"
  by (simp_all add: UpdateProviderAndModelRateLimitUsageInMemory_def UpdateProviderAndModelBudgetUsageInMemory_def scope_of_keys
      UpdateScopedModelRateLimitUsageInMemory_def UpdateScopedModelBudgetUsageInMemory_def UpdateVirtualKeyRateLimitUsageInMemory_def
      UpdateVirtualKeyBudgetUsageInMemory_def owners_cong [OF charged_owners [OF assms(2)]] charged_limits [OF assms] charged_budgets [OF assms])

lemma charge_scoped_step:
  assumes "rows_ok (gv_rows gs)" and "charged_by now (uu_Cost u) (uu_TokensUsed u) t r bs ls gs gs'" and "uu_Model u \<noteq> []" and "i \<noteq> []"
  shows "charged_by now (uu_Cost u) (uu_TokensUsed u) t r
      (bs @ (if b then config_budget_ids (scope_configs env gs ModelConfigScopeVirtualKey i (uu_Model u) (uu_Provider u)) else []))
      (ls @ config_limit_ids (scope_configs env gs ModelConfigScopeVirtualKey i (uu_Model u) (uu_Provider u))) gs
      (charge_scoped env now ModelConfigScopeVirtualKey i u t r b gs')"
proof -
  note step = charge_steps(3) [OF assms(1,2,4), of env "uu_Model u" "uu_Provider u"]
  show ?thesis using step charge_steps(4) [OF assms(1) step assms(4)] assms(3) by (simp add: charge_scoped_def Let_def)
qed

lemma charge_key_step:
  assumes ok: "rows_ok (gv_rows gs)" and start: "charged_by now (uu_Cost u) (uu_TokensUsed u) t r bs ls gs gs'" and "uu_Model u \<noteq> []" and "vk_ID vk \<noteq> []"
    and own: "vk_RateLimit vk = None \<longrightarrow> vk_RateLimitID vk = None"
  shows "charged_by now (uu_Cost u) (uu_TokensUsed u) t r
      (bs @ (if b then config_budget_ids (scope_configs env gs ModelConfigScopeVirtualKey (vk_ID vk) (uu_Model u) (uu_Provider u)) @
                    collectBudgetIDsFromMemory gs vk (uu_Provider u) else []))
      (ls @ config_limit_ids (scope_configs env gs ModelConfigScopeVirtualKey (vk_ID vk) (uu_Model u) (uu_Provider u)) @
         collectRateLimitIDsFromMemory gs vk (uu_Provider u)) gs
      (charge_key env now vk u t r b gs')"
proof -
  let ?guard = "vk_RateLimit vk \<noteq> None \<or> vk_ProviderConfigs vk \<noteq> [] \<or> vk_TeamID vk \<noteq> None \<or> vk_CustomerID vk \<noteq> None"
  note scoped = charge_scoped_step [OF ok start assms(3,4), of b env]
  define gs1 where "gs1 = charge_scoped env now ModelConfigScopeVirtualKey (vk_ID vk) u t r b gs'"
  define gs2 where "gs2 = (if ?guard then UpdateVirtualKeyRateLimitUsageInMemory now vk (uu_Provider u) (uu_TokensUsed u) t r gs1 else gs1)"
  have limits: "charged_by now (uu_Cost u) (uu_TokensUsed u) t r
      (bs @ (if b then config_budget_ids (scope_configs env gs ModelConfigScopeVirtualKey (vk_ID vk) (uu_Model u) (uu_Provider u)) else []))
      ((ls @ config_limit_ids (scope_configs env gs ModelConfigScopeVirtualKey (vk_ID vk) (uu_Model u) (uu_Provider u))) @
         collectRateLimitIDsFromMemory gs vk (uu_Provider u)) gs gs2"
    using charge_steps(5) [OF ok scoped, of vk "uu_Provider u"] scoped no_limits [OF own] unfolding gs2_def gs1_def by simp
  have "charge_key env now vk u t r b gs' = (if b then UpdateVirtualKeyBudgetUsageInMemory now vk (uu_Provider u) (uu_Cost u) gs2 else gs2)"
    unfolding charge_key_def Let_def gs2_def gs1_def ..
  then show ?thesis using limits charge_steps(6) [OF ok limits, of vk "uu_Provider u"] by (cases b) simp_all
qed

lemma charge_usage_rows:
  assumes wf: "gov_wf gs" and key: "uu_VirtualKey u \<noteq> []" "GetVirtualKey gs (uu_VirtualKey u) = Some vk" and "uu_UserID u = []" and model: "uu_Model u \<noteq> []"
    and own: "vk_RateLimit vk = None \<longrightarrow> vk_RateLimitID vk = None"
    and stream: "\<not> uu_IsStreaming u \<or> uu_IsFinalChunk u \<and> uu_HasUsageData u"
  shows "charged_by now (uu_Cost u) (uu_TokensUsed u) True (uu_Success u)
      (if float_pos (uu_Cost u) then budget_list env gs vk (uu_Provider u) (uu_Model u) else []) (limit_list env gs vk (uu_Provider u) (uu_Model u)) gs
      (charge_usage env now u gs)"
proof -
  have ok: "rows_ok (gv_rows gs)" and "keys_wf gs" using wf by (simp_all add: gov_wf_def)
  then have vkid: "vk_ID vk \<noteq> []" using keys_wfD(2) key(2) by blast
  let ?gs1 = "UpdateProviderAndModelRateLimitUsageInMemory (ge_catalog env) now (uu_Model u) (uu_Provider u) (uu_TokensUsed u) True (uu_Success u) gs"
  define gs2 where "gs2 = (if float_pos (uu_Cost u) then UpdateProviderAndModelBudgetUsageInMemory (ge_catalog env) now (uu_Model u) (uu_Provider u) (uu_Cost u) ?gs1 else ?gs1)"
  note limits = charge_steps(1) [OF ok charged_none [OF ok], of now "uu_Cost u" "uu_TokensUsed u" True "uu_Success u" "uu_Provider u" env "uu_Model u"]
  have global: "charged_by now (uu_Cost u) (uu_TokensUsed u) True (uu_Success u)
      (if float_pos (uu_Cost u) then provider_row gs (uu_Provider u) tp_BudgetID @ config_budget_ids (scope_configs env gs ModelConfigScopeGlobal [] (uu_Model u) (uu_Provider u)) else [])
      (provider_row gs (uu_Provider u) tp_RateLimitID @ config_limit_ids (scope_configs env gs ModelConfigScopeGlobal [] (uu_Model u) (uu_Provider u))) gs gs2"
    using limits charge_steps(2) [OF ok limits, of "uu_Provider u" env "uu_Model u"] by (simp add: gs2_def)
  have "gv_virtualKeys gs2 = gv_virtualKeys gs" using charged_owners [OF global] same_ownersD(1) by blast
  then have found: "GetVirtualKey gs2 (uu_VirtualKey u) = Some vk" using key(2) by (simp add: GetVirtualKey_def)
  have "charge_usage env now u gs = charge_key env now vk u True (uu_Success u) (float_pos (uu_Cost u)) gs2"
    using assms(4) key(1) model found stream unfolding charge_usage_def Let_def gs2_def by auto
  with charge_key_step [OF ok global model vkid own, of "float_pos (uu_Cost u)" env] show ?thesis
    by (simp add: charge_list_def split: if_splits)
qed


definition terminal :: "usage_update \<Rightarrow> bool" where
  "terminal u \<longleftrightarrow> \<not> uu_IsStreaming u \<or> uu_IsFinalChunk u"

definition chargeable :: "usage_update \<Rightarrow> bool" where
  "chargeable u \<longleftrightarrow> uu_Success u \<or> 0 < uu_TokensUsed u \<or> float_pos (uu_Cost u)"

definition unclaimed :: "usage_update \<Rightarrow> tracker \<Rightarrow> bool" where
  "unclaimed u tk \<longleftrightarrow> uu_RequestID u = [] \<or> gm_get (tk_billed tk) (billing_key u) = None"

lemma update_claimed:
  assumes "chargeable u" and "terminal u" and "unclaimed u tk"
  shows "tk_gov (UpdateUsage env now u tk) = charge_usage env now u (tk_gov tk)"
    and "tk_billed (UpdateUsage env now u tk) = (if uu_RequestID u = [] then tk_billed tk else gm_set (billing_key u) now (tk_billed tk))"
  using assms by (auto simp: UpdateUsage_def chargeable_def terminal_def unclaimed_def tryClaimBilling_def on_gov_def split: option.splits)


definition sample_update :: usage_update where
  "sample_update = \<lparr>uu_VirtualKey = ''s1'', uu_Provider = ''openai'', uu_Model = ''gpt-5'', uu_Success = True, uu_TokensUsed = 120, uu_Cost = (3, 0),
     uu_RequestID = ''r1'', uu_UserID = [], uu_IsStreaming = False, uu_IsFinalChunk = True, uu_HasUsageData = True, uu_AttemptNumber = 0,
     uu_BilledReason = ''success''\<rparr>"

definition sample_tracker :: tracker where
  "sample_tracker = \<lparr>tk_gov = team_store, tk_billed = []\<rparr>"


subsection \<open>Billing once per attempt\<close>

text \<open>Updates reach the tracker in any order, with sweeps of old claims in between.\<close>

datatype tracker_event = Reported int usage_update | Swept int

fun event_time :: "tracker_event \<Rightarrow> int" where
  "event_time (Reported now u) = now"
| "event_time (Swept now) = now"

fun track :: "gov_env \<Rightarrow> tracker_event \<Rightarrow> tracker \<Rightarrow> tracker" where
  "track env (Reported now u) tk = UpdateUsage env now u tk"
| "track env (Swept now) tk = sweepBilled now tk"

lemma claim_kept:
  assumes "gm_get (tk_billed tk) k = Some t" and "event_time e \<le> t + billedEntryTTL" and "gm_wf (tk_billed tk)"
  shows "gm_get (tk_billed (track env e tk)) k = Some t \<and> gm_wf (tk_billed (track env e tk))"
proof (cases e)
  case (Reported now u)
  then show ?thesis using assms by (auto simp: UpdateUsage_def tryClaimBilling_def on_gov_def split: option.splits)
next
  case (Swept now)
  then show ?thesis using assms by (auto simp: sweepBilled_def gm_get_filter)
qed

lemma claims_kept:
  assumes "gm_get (tk_billed tk) k = Some t" and "gm_wf (tk_billed tk)" and "\<forall>e\<in>set es. event_time e \<le> t + billedEntryTTL"
  shows "gm_get (tk_billed (fold (track env) es tk)) k = Some t"
  using assms by (induction es arbitrary: tk) (auto dest: claim_kept [where env = env])

lemma claimed_drops:
  assumes "gm_get (tk_billed tk) (billing_key u) = Some t" and "terminal u" and "uu_RequestID u \<noteq> []"
  shows "UpdateUsage env now u tk = tk"
  using assms by (auto simp: UpdateUsage_def tryClaimBilling_def terminal_def)


text \<open>C10: an attempt of a request is billed at most once. Once an update with a request identifier has been charged,
  every later update for the same request and attempt leaves budgets, rate limits and claims as they are, whatever updates
  and sweeps the tracker handles in between, as long as the claim is not older than its time to live.\<close>

theorem billed_at_most_once:
  assumes "gm_wf (tk_billed tk)" and "uu_RequestID u \<noteq> []" and "chargeable u" and "terminal u" and "unclaimed u tk"
    and "\<forall>e\<in>set es. event_time e \<le> t + billedEntryTTL"
    and "terminal u'" and "uu_RequestID u' = uu_RequestID u" and "uu_AttemptNumber u' = uu_AttemptNumber u"
  shows "UpdateUsage env t' u' (fold (track env) es (UpdateUsage env t u tk)) = fold (track env) es (UpdateUsage env t u tk)"
proof -
  note billed = update_claimed(2) [OF assms(3-5), of env t]
  have "gm_get (tk_billed (fold (track env) es (UpdateUsage env t u tk))) (billing_key u) = Some t"
    by (rule claims_kept) (use assms(1,2,6) in \<open>simp_all add: billed\<close>)
  moreover have "billing_key u = billing_key u'" using assms(8,9) by (simp add: billing_key_def)
  ultimately show ?thesis using claimed_drops assms(2,7,8) by metis
qed

theorem billed_at_most_once_witness:
  "UpdateUsage plain_env 1704070100000000000 (sample_update\<lparr>uu_Cost := (9, 0)\<rparr>)
     (fold (track plain_env) [Swept 1704070090000000000, Reported 1704070095000000000 (sample_update\<lparr>uu_AttemptNumber := 1\<rparr>)]
        (UpdateUsage plain_env 1704070000000000000 sample_update sample_tracker)) =
   fold (track plain_env) [Swept 1704070090000000000, Reported 1704070095000000000 (sample_update\<lparr>uu_AttemptNumber := 1\<rparr>)]
        (UpdateUsage plain_env 1704070000000000000 sample_update sample_tracker)"
  by (rule billed_at_most_once)
    (simp_all add: sample_tracker_def sample_update_def chargeable_def terminal_def unclaimed_def billedEntryTTL_def second_ns_def)



definition agent_ctx :: gctx where
  "agent_ctx = empty_gctx\<lparr>cx_RequestID := Some ''r1'', gx_VirtualKey := Some ''s1''\<rparr>"

definition sample_prices :: prices where
  "sample_prices = \<lparr>px_CalculateCost = (\<lambda>_. (3, 0)), px_CalculateCostForUsage = (\<lambda>_. (1, 0)), px_ToolCost = (\<lambda>_ _. Some (5, 0))\<rparr>"

definition chat_outcome :: llm_outcome where
  "chat_outcome = \<lparr>lo_RequestType = ''chat_completion'', lo_Provider = ''openai'', lo_Model = ''gpt-5'',
     lo_Result = Some \<lparr>lu_TextCompletion = None, lu_Chat = Some 120, lu_Responses = None, lu_ResponsesStream = None, lu_Embedding = None,
       lu_Speech = None, lu_SpeechStream = None, lu_Transcription = None, lu_TranscriptionStream = None, lu_Passthrough = None\<rparr>,
     lo_BilledUsage = None, lo_IsFinalChunk = True\<rparr>"

definition search_outcome :: mcp_outcome where
  "search_outcome = \<lparr>mo_Executes = True, mo_Success = True, mo_Codemode = False, mo_ClientName = ''web'', mo_ToolName = ''search''\<rparr>"


section \<open>Models and tools\<close>

lemma any_config_allows_iff:
  "any_config_allows env policy prov model pcs \<longleftrightarrow>
     (\<exists>pc\<in>set pcs. pc_Provider pc = prov \<and> config_allows env prov model pc) \<and> TeamPolicyAllowsModel policy model"
  by (induction pcs) auto

lemma blocked_by_team: "policy = Some p \<Longrightarrow> bl_IsBlocked (tmp_BlacklistedModels p) model \<Longrightarrow> \<not> TeamPolicyAllowsModel policy model"
  by (auto simp: TeamPolicyAllowsModel_def policy_IsUnrestricted_def bl_IsBlocked_def bl_IsBlockAll_def bl_Contains_def)

text \<open>C21: which models a virtual key may use. A key allows a model at a provider exactly when one of its configurations for that
  provider does, none of them blacklists it, and the policy that its team has for the provider (if there is one and it is not
  empty) allows it and does not blacklist it; the order of the configurations plays no part, and a blacklist always wins.\<close>

theorem model_allowed_iff:
  "isModelAllowed env gs vk prov model \<longleftrightarrow>
     (\<exists>pc\<in>set (vk_ProviderConfigs vk). pc_Provider pc = prov \<and> config_allows env prov model pc) \<and>
     (\<nexists>pc. pc \<in> set (vk_ProviderConfigs vk) \<and> pc_Provider pc = prov \<and> bl_IsBlocked (pc_BlacklistedModels pc) model) \<and>
     (case vk_policy gs vk prov of
        None \<Rightarrow> True
      | Some p \<Rightarrow> tmp_AllowedModels p = [] \<and> tmp_BlacklistedModels p = [] \<or>
          wl_IsAllowed (tmp_AllowedModels p) model \<and> \<not> bl_IsBlocked (tmp_BlacklistedModels p) model)"
  using blocked_by_team [of "vk_policy gs vk prov" _ model]
  by (auto simp: isModelAllowed_def Let_def any_config_allows_iff TeamPolicyAllowsModel_def policy_IsUnrestricted_def list_ex_iff split: option.splits)

lemma key_result_of_any_context:
  "snd (EvaluateVirtualKeyRequest env now gs ctx k p m rt s) = snd (EvaluateVirtualKeyRequest env now gs ctx' k p m rt s)"
proof (cases "GetVirtualKey gs k")
  case (Some vk)
  then show ?thesis unfolding EvaluateVirtualKeyRequest_def Let_def
    by (cases "if s then None else vk_limits env now gs vk \<lparr>eq_VirtualKey = k, eq_Provider = p, eq_Model = m, eq_UserID = []\<rparr>") auto
qed (simp add: EvaluateVirtualKeyRequest_def)

text \<open>C39: the check of the tools that were added to a request has no effect. Unless limits are skipped for the request,
  the result and the rejection are the same whatever tools the context holds, those that the key does not allow included: the
  steps for customer, team and user replace the result of the step for the key, and with it the key that the check looks at.\<close>

theorem injected_tools_unchecked:
  assumes "gx_SkipBudgetAndRateLimits ctx \<noteq> Some True"
  shows "snd (EvaluateGovernanceRequest env now gs (ctx\<lparr>gx_MCPAddedTools := Some tools\<rparr>) req requestType) =
     snd (EvaluateGovernanceRequest env now gs (ctx\<lparr>gx_MCPAddedTools := None\<rparr>) req requestType)"
proof -
  have skip: "\<not> ctx_bool (gx_SkipBudgetAndRateLimits ctx)" using assms by (auto simp: ctx_bool_def split: option.splits)
  note key = key_result_of_any_context [of env now gs "ctx\<lparr>gx_MCPAddedTools := Some tools\<rparr>" _ _ _ _ _ "ctx\<lparr>gx_MCPAddedTools := None\<rparr>"]
  show ?thesis using skip
    by (simp add: EvaluateGovernanceRequest_def user_step_no_tools hasDirectKeyAuth_def Let_def case_prod_unfold key)
qed

theorem injected_tools_unchecked_witness:
  "isMCPToolAllowedByVKWith [] team_key ''web-search'' = False \<and>
   snd (snd (EvaluateGovernanceRequest plain_env 1704070000000000000 team_store (empty_gctx\<lparr>gx_MCPAddedTools := Some [''web-search'']\<rparr>) sample_request ''chat_completion'')) = None"
proof -
  have "gx_SkipBudgetAndRateLimits empty_gctx \<noteq> Some True" by code_simp
  note same = injected_tools_unchecked [OF this, of plain_env 1704070000000000000 team_store "[''web-search'']" sample_request "''chat_completion''"]
  have "snd (snd (EvaluateGovernanceRequest plain_env 1704070000000000000 team_store (empty_gctx\<lparr>gx_MCPAddedTools := None\<rparr>) sample_request ''chat_completion'')) = None"
    by code_simp
  then show ?thesis unfolding same by code_simp
qed

end
