(* ===== verification/Routing.thy ===== *)
theory Routing
  imports Governance
begin

text \<open>
  What the governance plugin does with a request before it is dispatched (\<open>plugins/governance/main.go\<close>, \<open>routing.go\<close>,
  \<open>store.go\<close>): routing rules and their store, weighted choice of a provider for a virtual key, the list of providers
  and of tools that later layers may use, and the refinement of model names (\<open>framework/modelcatalog/models.go\<close>).

  Routing rules are expressions of the language CEL. The CEL library is an argument: how an expression is compiled, and what a
  program yields on the variables of a request, which depend on the provider and the model of the current step. So are the text
  passes that run before the compiler. The random numbers are arguments. \<open>sort.Slice\<close> is a stable sort here; Go
  may order rules of equal priority, and providers of equal weight, in another way. The log of routing decisions is left out.
\<close>

section \<open>Routing rules\<close>

record routing_target =
  tg_Provider :: "string option"
  tg_Model :: "string option"
  tg_KeyID :: "string option"
  tg_Weight :: float64

record routing_rule =
  rr_ID :: string
  rr_Name :: string
  rr_Enabled :: "bool option"
  rr_CelExpression :: string
  rr_Targets :: "routing_target list"
  rr_ParsedFallbacks :: "string list"
  rr_Scope :: string
  rr_ScopeID :: "string option"
  rr_ChainRule :: bool
  rr_Priority :: int
  rr_CreatedAt :: int

definition EnabledValue :: "routing_rule \<Rightarrow> bool" where
  "EnabledValue r = (case rr_Enabled r of None \<Rightarrow> True | Some b \<Rightarrow> b)"

datatype cel_result = CelBool bool | CelUnknown | CelNoSuchKey | CelFailed | CelNoBool

record 'p cel =
  ce_NormalizeMapKeys :: "string \<Rightarrow> string"
  ce_Validate :: "string \<Rightarrow> bool"
  ce_Compile :: "string \<Rightarrow> 'p option"
  ce_Eval :: "'p \<Rightarrow> string \<Rightarrow> string \<Rightarrow> cel_result"

text \<open>A failed evaluation is \<open>None\<close>.\<close>

fun evaluateCELExpression :: "cel_result \<Rightarrow> bool option" where
  "evaluateCELExpression (CelBool b) = Some b"
| "evaluateCELExpression CelUnknown = Some False"
| "evaluateCELExpression CelNoSuchKey = Some False"
| "evaluateCELExpression CelFailed = None"
| "evaluateCELExpression CelNoBool = None"

subsection \<open>The store of rules\<close>

record 'p rstore =
  rs_routingRules :: "(string, routing_rule list) gomap"
  rs_programs :: "(string, 'p) gomap"

definition scope_key :: "string \<Rightarrow> string \<Rightarrow> string" where
  "scope_key scope scopeID = (if scope = ''global'' then ''global:'' else scope @ '':'' @ scopeID)"

definition rule_key :: "routing_rule \<Rightarrow> string" where
  "rule_key r = scope_key (rr_Scope r) (case rr_ScopeID r of None \<Rightarrow> [] | Some i \<Rightarrow> i)"

definition HasRoutingRules :: "'p rstore \<Rightarrow> bool" where
  "HasRoutingRules rs \<longleftrightarrow> rs_routingRules rs \<noteq> []"

definition GetScopedRoutingRules :: "'p rstore \<Rightarrow> string \<Rightarrow> string \<Rightarrow> routing_rule list" where
  "GetScopedRoutingRules rs scope scopeID = filter EnabledValue (gm_get_or [] (rs_routingRules rs) (scope_key scope scopeID))"

definition program_source :: "routing_rule \<Rightarrow> string" where
  "program_source r = (if rr_CelExpression r = [] then ''true'' else rr_CelExpression r)"

definition compile_rule :: "'p cel \<Rightarrow> routing_rule \<Rightarrow> 'p option" where
  "compile_rule ce r =
     (let e = ce_NormalizeMapKeys ce (program_source r) in if ce_Validate ce e then ce_Compile ce e else None)"

definition GetRoutingProgram :: "'p cel \<Rightarrow> routing_rule \<Rightarrow> 'p rstore \<Rightarrow> 'p rstore \<times> 'p option" where
  "GetRoutingProgram ce r rs =
     (case gm_get (rs_programs rs) (rr_ID r) of
        Some p \<Rightarrow> (rs, Some p)
      | None \<Rightarrow>
          (case compile_rule ce r of
             None \<Rightarrow> (rs, None)
           | Some p \<Rightarrow> (rs\<lparr>rs_programs := gm_set (rr_ID r) p (rs_programs rs)\<rparr>, Some p)))"

definition without_rule :: "string \<Rightarrow> routing_rule list \<Rightarrow> routing_rule list" where
  "without_rule i rules = filter (\<lambda>r. rr_ID r \<noteq> i) rules"

definition move_out :: "string \<Rightarrow> (string, routing_rule list) gomap \<Rightarrow> (string, routing_rule list) gomap" where
  "move_out i m =
     List.map_filter (\<lambda>(k, rules).
       if length (without_rule i rules) \<noteq> length rules then (if without_rule i rules = [] then None else Some (k, without_rule i rules))
       else Some (k, rules)) m"

definition publish_rule :: "routing_rule \<Rightarrow> 'p rstore \<Rightarrow> 'p rstore" where
  "publish_rule r rs =
     (let m = move_out (rr_ID r) (rs_routingRules rs);
          rules = sort_key rr_Priority (gm_get_or [] m (rule_key r) @ [r])
      in rs\<lparr>rs_routingRules := gm_set (rule_key r) rules m, rs_programs := gm_del (rr_ID r) (rs_programs rs)\<rparr>)"

definition UpdateRoutingRuleInMemory :: "'p cel \<Rightarrow> routing_rule \<Rightarrow> 'p rstore \<Rightarrow> 'p rstore" where
  "UpdateRoutingRuleInMemory ce r rs = fst (GetRoutingProgram ce r (publish_rule r rs))"

definition DeleteRoutingRuleInMemory :: "string \<Rightarrow> 'p rstore \<Rightarrow> 'p rstore" where
  "DeleteRoutingRuleInMemory i rs =
     rs\<lparr>rs_routingRules :=
          List.map_filter (\<lambda>(k, rules). if without_rule i rules = [] then None else Some (k, without_rule i rules)) (rs_routingRules rs),
        rs_programs := gm_del i (rs_programs rs)\<rparr>"

subsection \<open>Evaluation\<close>

record routing_decision =
  rd_Provider :: string
  rd_Model :: string
  rd_KeyID :: string
  rd_Fallbacks :: "string list"
  rd_MatchedRuleID :: string
  rd_MatchedRuleName :: string

definition buildScopeChain :: "table_virtual_key option \<Rightarrow> string \<Rightarrow> (string \<times> string) list" where
  "buildScopeChain virtualKey userID =
     (case virtualKey of None \<Rightarrow> [] | Some vk \<Rightarrow> [(''virtual_key'', vk_ID vk)]) @
     (if userID \<noteq> [] then [(''user'', userID)] else []) @
     (case virtualKey of
        None \<Rightarrow> []
      | Some vk \<Rightarrow>
          (case vk_Team vk of
             Some t \<Rightarrow> (''team'', tm_ID t) # (case tm_Customer t of None \<Rightarrow> [] | Some c \<Rightarrow> [(''customer'', cu_ID c)])
           | None \<Rightarrow> (case vk_Customer vk of None \<Rightarrow> [] | Some c \<Rightarrow> [(''customer'', cu_ID c)]))) @
     [(''global'', [])]"

text \<open>A draw is a value of \<open>rand.Float64\<close> and the function \<open>rand.IntN\<close>.\<close>

type_synonym draw = "float64 \<times> (nat \<Rightarrow> nat)"

definition float_less :: "float64 \<Rightarrow> float64 \<Rightarrow> bool" where
  "float_less a b \<longleftrightarrow> \<not> float_le b a"

fun pick_target :: "float64 \<Rightarrow> float64 \<Rightarrow> routing_target list \<Rightarrow> routing_target option" where
  "pick_target r cumulative [] = None"
| "pick_target r cumulative (t # ts) =
     (let c = float_add cumulative (tg_Weight t) in if float_less r c then Some t else pick_target r c ts)"

definition selectWeightedTarget :: "draw \<Rightarrow> routing_target list \<Rightarrow> routing_target option" where
  "selectWeightedTarget d targets =
     (let valid = filter (\<lambda>t. float_le float_zero (tg_Weight t)) targets;
          total = foldl (\<lambda>s t. float_add s (tg_Weight t)) float_zero valid
      in if valid = [] then None
         else if fst total = 0 then Some (valid ! snd d (length valid))
         else if length valid = 1 then Some (hd valid)
         else (case pick_target (float_mul (fst d) total) float_zero valid of Some t \<Rightarrow> Some t | None \<Rightarrow> Some (last valid)))"

definition or_given :: "string \<Rightarrow> string option \<Rightarrow> string" where
  "or_given current given = (case given of None \<Rightarrow> current | Some s \<Rightarrow> if s = [] then current else s)"

definition decide :: "routing_rule \<Rightarrow> routing_target \<Rightarrow> string \<Rightarrow> string \<Rightarrow> routing_decision" where
  "decide r t prov model =
     \<lparr>rd_Provider = or_given prov (tg_Provider t), rd_Model = or_given model (tg_Model t),
      rd_KeyID = (case tg_KeyID t of None \<Rightarrow> [] | Some i \<Rightarrow> i), rd_Fallbacks = rr_ParsedFallbacks r,
      rd_MatchedRuleID = rr_ID r, rd_MatchedRuleName = rr_Name r\<rparr>"

text \<open>One step: the first rule of the scopes, in their order, that has not fired yet, compiles, matches and has a target.\<close>

fun scan_rules ::
  "'p cel \<Rightarrow> draw \<Rightarrow> string list \<Rightarrow> string \<Rightarrow> string \<Rightarrow> routing_rule list \<Rightarrow> 'p rstore \<Rightarrow> 'p rstore \<times> (routing_rule \<times> routing_decision) option" where
  "scan_rules ce d visited prov model [] rs = (rs, None)"
| "scan_rules ce d visited prov model (r # rules) rs =
     (if rr_ID r \<in> set visited then scan_rules ce d visited prov model rules rs
      else case GetRoutingProgram ce r rs of
        (rs, None) \<Rightarrow> scan_rules ce d visited prov model rules rs
      | (rs, Some p) \<Rightarrow>
          if evaluateCELExpression (ce_Eval ce p prov model) \<noteq> Some True then scan_rules ce d visited prov model rules rs
          else (case selectWeightedTarget d (rr_Targets r) of
                  None \<Rightarrow> scan_rules ce d visited prov model rules rs
                | Some t \<Rightarrow> (rs, Some (r, decide r t prov model))))"

text \<open>The chain of steps: a rule that chains hands its provider and model to the next step and does not fire again.\<close>

fun chain_steps ::
  "'p cel \<Rightarrow> (nat \<Rightarrow> draw) \<Rightarrow> nat \<Rightarrow> nat \<Rightarrow> string list \<Rightarrow> string \<Rightarrow> string \<Rightarrow> routing_rule list \<Rightarrow> 'p rstore \<Rightarrow>
   'p rstore \<times> (routing_rule \<times> routing_decision) list" where
  "chain_steps ce draws 0 k visited prov model rules rs = (rs, [])"
| "chain_steps ce draws (Suc left) k visited prov model rules rs =
     (case scan_rules ce (draws k) visited prov model rules rs of
        (rs, None) \<Rightarrow> (rs, [])
      | (rs, Some (r, d)) \<Rightarrow>
          if \<not> rr_ChainRule r then (rs, [(r, d)])
          else (case chain_steps ce draws left (Suc k) (rr_ID r # visited) (rd_Provider d) (rd_Model d) rules rs of
                  (rs, fired) \<Rightarrow> (rs, (r, d) # fired)))"

definition scoped_rules :: "'p rstore \<Rightarrow> table_virtual_key option \<Rightarrow> string \<Rightarrow> routing_rule list" where
  "scoped_rules rs vk userID = concat (map (\<lambda>(scope, scopeID). GetScopedRoutingRules rs scope scopeID) (buildScopeChain vk userID))"

definition EvaluateRoutingRules ::
  "'p cel \<Rightarrow> (nat \<Rightarrow> draw) \<Rightarrow> int \<Rightarrow> table_virtual_key option \<Rightarrow> string \<Rightarrow> string \<Rightarrow> string \<Rightarrow> 'p rstore \<Rightarrow>
   'p rstore \<times> (routing_rule \<times> routing_decision) list" where
  "EvaluateRoutingRules ce draws chainMaxDepth vk userID prov model rs =
     chain_steps ce draws (nat chainMaxDepth) 0 [] prov model (scoped_rules rs vk userID) rs"


section \<open>The hook before a request\<close>

record rctx = gctx +
  rx_RoutingRuleID :: "string option"
  rx_RoutingRuleName :: "string option"
  rx_MCPIncludeTools :: "string list option"
  rx_MCPIncludeClients :: "string list option"

definition RoutingEngineRoutingRule :: string where
  "RoutingEngineRoutingRule = ''routing-rule''"

definition RoutingEngineGovernance :: string where
  "RoutingEngineGovernance = ''governance''"

definition use_engine :: "string \<Rightarrow> rctx \<Rightarrow> rctx" where
  "use_engine e ctx = ctx\<lparr>cx_RoutingEnginesUsed := append_ctx_list (cx_RoutingEnginesUsed ctx) e\<rparr>"

definition stampGovernanceCtxFromVK :: "table_virtual_key option \<Rightarrow> rctx \<Rightarrow> rctx" where
  "stampGovernanceCtxFromVK virtualKey ctx =
     (case virtualKey of
        None \<Rightarrow> ctx
      | Some vk \<Rightarrow>
          (let ctx = (case vk_TeamID vk of None \<Rightarrow> ctx | Some i \<Rightarrow> ctx\<lparr>gx_TeamID := Some i\<rparr>)
           in case vk_Team vk of
                Some t \<Rightarrow>
                  (let ctx = ctx\<lparr>gx_TeamName := Some (tm_Name t)\<rparr>
                   in case tm_CustomerID t of
                        None \<Rightarrow> ctx
                      | Some c \<Rightarrow>
                          (let ctx = ctx\<lparr>gx_CustomerID := Some c\<rparr>
                           in case tm_Customer t of None \<Rightarrow> ctx | Some cu \<Rightarrow> ctx\<lparr>gx_CustomerName := Some (cu_Name cu)\<rparr>))
              | None \<Rightarrow>
                  (let ctx = (case vk_CustomerID vk of None \<Rightarrow> ctx | Some c \<Rightarrow> ctx\<lparr>gx_CustomerID := Some c\<rparr>)
                   in case vk_Customer vk of None \<Rightarrow> ctx | Some cu \<Rightarrow> ctx\<lparr>gx_CustomerName := Some (cu_Name cu)\<rparr>)))"

definition rule_fallbacks :: "(string \<Rightarrow> bool) \<Rightarrow> string \<Rightarrow> string list \<Rightarrow> fallback list" where
  "rule_fallbacks known model fbs =
     List.map_filter (\<lambda>fb.
       case ParseModelString known fb [] of
         (p, m) \<Rightarrow>
           let p = trim_space p; m = trim_space m
           in if p = [] then None
              else Some \<lparr>fb_Provider = p, fb_Model = (if m = [] \<and> model \<noteq> [] then model else m)\<rparr>) fbs"

definition applyRoutingRules ::
  "'p cel \<Rightarrow> (nat \<Rightarrow> draw) \<Rightarrow> int \<Rightarrow> (string \<Rightarrow> bool) \<Rightarrow> table_virtual_key option \<Rightarrow> rctx \<Rightarrow> brequest \<Rightarrow> 'p rstore \<Rightarrow> 'p rstore \<times> rctx \<times> brequest" where
  "applyRoutingRules ce draws depth known vk ctx req rs =
     (case GetRequestFields req of
        (prov, model, _) \<Rightarrow>
          if model = [] then (rs, ctx, req)
          else case EvaluateRoutingRules ce draws depth vk [] prov model rs of
            (rs, fired) \<Rightarrow>
              if fired = [] then (rs, ctx, req)
              else let d = snd (last fired);
                       ctx = ctx\<lparr>rx_RoutingRuleID := Some (rd_MatchedRuleID d), rx_RoutingRuleName := Some (rd_MatchedRuleName d)\<rparr>;
                       req = (if rd_Provider d \<noteq> [] then SetProvider req (rd_Provider d) else req);
                       req = (if rd_Model d \<noteq> [] then SetModel req (rd_Model d) else req);
                       ctx = use_engine RoutingEngineRoutingRule ctx;
                       req = (if rd_Fallbacks d \<noteq> [] then SetFallbacks req (rule_fallbacks known model (rd_Fallbacks d)) else req);
                       ctx = (if rd_KeyID d \<noteq> [] then ctx\<lparr>cx_RoutingPinnedAPIKeyID := Some (rd_KeyID d)\<rparr> else ctx)
                   in (rs, ctx, req))"

definition publishRoutingAllowlist :: "table_virtual_key option \<Rightarrow> string \<Rightarrow> rctx \<Rightarrow> rctx" where
  "publishRoutingAllowlist virtualKey model ctx =
     (case virtualKey of
        None \<Rightarrow> ctx
      | Some vk \<Rightarrow>
          ctx\<lparr>gx_RoutingAllowedProviders := Some (map pc_Provider (filter (\<lambda>pc.
            model = [] \<or> wl_IsAllowed (pc_AllowedModels pc) model \<and> \<not> bl_IsBlocked (pc_BlacklistedModels pc) model) (vk_ProviderConfigs vk)))\<rparr>)"

subsection \<open>Model names of a provider\<close>

definition nested_candidates :: "model_catalog \<Rightarrow> string \<Rightarrow> string \<Rightarrow> string list" where
  "nested_candidates mc prov model =
     foldl (\<lambda>out pool.
         case ParseModelString (ca_KnownProvider mc) pool [] of
           (p, m) \<Rightarrow> if p = [] \<or> model \<noteq> m then out else append_new out (p @ ''/'' @ m))
       [] (ca_ModelsForProvider mc prov)"

datatype refine_error = MultipleModels "string list"

definition refineNestedProviderModel :: "model_catalog \<Rightarrow> string \<Rightarrow> string \<Rightarrow> refine_error + string" where
  "refineNestedProviderModel mc prov model =
     (if ca_ModelsForProvider mc prov = [] then Inr model
      else case nested_candidates mc prov model of
        [] \<Rightarrow> Inr model
      | [c] \<Rightarrow> Inr c
      | cs \<Rightarrow> Inl (MultipleModels cs))"

lemma parsed_shorter: "(p, m) = ParseModelString known s [] \<Longrightarrow> p \<noteq> [] \<Longrightarrow> length m < length s"
  by (cases s) (auto simp: ParseModelString_def split: option.splits if_splits)

text \<open>A prefix that names the provider is taken off, and the rest is refined again.\<close>

function RefineModelForProvider :: "model_catalog \<Rightarrow> string \<Rightarrow> string \<Rightarrow> refine_error + string" where
  "RefineModelForProvider mc prov model =
     (case ParseModelString (ca_KnownProvider mc) model [] of
        (prefix, rest) \<Rightarrow>
          if prefix \<noteq> [] then (if prefix = prov then RefineModelForProvider mc prov rest else Inr model)
          else if prov \<in> set [''groq'', ''replicate'', ''perplexity'', ''openrouter''] then refineNestedProviderModel mc prov model
          else Inr model)"
  by pat_completeness auto
termination
  by (relation "measure (\<lambda>(mc, prov, model). length model)") (auto dest: parsed_shorter [OF sym] split: prod.splits)

declare RefineModelForProvider.simps [simp del]

subsection \<open>Choice of a provider\<close>

definition getWeight :: "float64 option \<Rightarrow> float64" where
  "getWeight w = (case w of None \<Rightarrow> (1, 0) | Some x \<Rightarrow> x)"

definition eligible_configs :: "gov_env \<Rightarrow> int \<Rightarrow> gov \<Rightarrow> table_virtual_key \<Rightarrow> string \<Rightarrow> vk_provider_config list" where
  "eligible_configs env now gs vk model =
     (let blacklisted = map pc_Provider (filter (\<lambda>pc. bl_IsBlocked (pc_BlacklistedModels pc) model) (vk_ProviderConfigs vk))
      in filter (\<lambda>pc.
           pc_Provider pc \<notin> set blacklisted \<and> config_allows env (pc_Provider pc) model pc \<and>
           \<not> isProviderBudgetViolated now gs vk pc \<and> \<not> isProviderRateLimitViolated now gs vk pc) (vk_ProviderConfigs vk))"

fun pick_config :: "float64 \<Rightarrow> float64 \<Rightarrow> vk_provider_config list \<Rightarrow> vk_provider_config option" where
  "pick_config r current [] = None"
| "pick_config r current (pc # pcs) =
     (let c = float_add current (getWeight (pc_Weight pc)) in if float_le r c then Some pc else pick_config r c pcs)"

definition select_provider :: "float64 \<Rightarrow> vk_provider_config list \<Rightarrow> string" where
  "select_provider u weighted =
     (let total = foldl (\<lambda>s pc. float_add s (getWeight (pc_Weight pc))) float_zero weighted;
          selected = (case pick_config (float_mul u total) float_zero weighted of None \<Rightarrow> [] | Some pc \<Rightarrow> pc_Provider pc)
      in if selected = [] then pc_Provider (hd weighted) else selected)"

definition refine_for :: "gov_env \<Rightarrow> string \<Rightarrow> string \<Rightarrow> refine_error + string" where
  "refine_for env prov model = (case ge_modelCatalog env of None \<Rightarrow> Inr model | Some mc \<Rightarrow> RefineModelForProvider mc prov model)"

text \<open>The comparator of the sort: heavier providers first.\<close>

definition heavier :: "vk_provider_config \<Rightarrow> vk_provider_config \<Rightarrow> bool" where
  "heavier a b \<longleftrightarrow> float_less (getWeight (pc_Weight b)) (getWeight (pc_Weight a))"

fun insert_config :: "vk_provider_config \<Rightarrow> vk_provider_config list \<Rightarrow> vk_provider_config list" where
  "insert_config x [] = [x]"
| "insert_config x (y # ys) = (if heavier y x \<or> \<not> heavier x y then y # insert_config x ys else x # y # ys)"

definition by_weight :: "vk_provider_config list \<Rightarrow> vk_provider_config list" where
  "by_weight pcs = foldl (\<lambda>sorted pc. insert_config pc sorted) [] pcs"

definition weighted_fallbacks :: "gov_env \<Rightarrow> string \<Rightarrow> string \<Rightarrow> vk_provider_config list \<Rightarrow> fallback list" where
  "weighted_fallbacks env selected model weighted =
     List.map_filter (\<lambda>pc.
       if pc_Provider pc = selected then None
       else case refine_for env (pc_Provider pc) model of
         Inl _ \<Rightarrow> None
       | Inr m \<Rightarrow> Some \<lparr>fb_Provider = pc_Provider pc, fb_Model = m\<rparr>) (by_weight weighted)"

definition loadBalanceProvider ::
  "gov_env \<Rightarrow> int \<Rightarrow> gov \<Rightarrow> float64 \<Rightarrow> table_virtual_key \<Rightarrow> rctx \<Rightarrow> brequest \<Rightarrow> rctx \<times> brequest \<times> refine_error option" where
  "loadBalanceProvider env now gs u vk ctx req =
     (case GetRequestFields req of
        (prov, model, existingFallbacks) \<Rightarrow>
          let allowed = eligible_configs env now gs vk model;
              weighted = filter (\<lambda>pc. pc_Weight pc \<noteq> None) allowed
          in if model = [] \<or> prov \<noteq> [] \<or> vk_ProviderConfigs vk = [] \<or> allowed = [] \<or> weighted = [] then (ctx, req, None)
             else let selected = select_provider u weighted
                  in case refine_for env selected model of
                       Inl e \<Rightarrow> (ctx, req, Some e)
                     | Inr refined \<Rightarrow>
                         (let req = SetModel (SetProvider req selected) refined;
                              ctx = use_engine RoutingEngineGovernance ctx;
                              req = (if existingFallbacks = [] \<and> 1 < length weighted then SetFallbacks req (weighted_fallbacks env selected model weighted)
                                     else req)
                          in (ctx, req, None)))"

definition filterModelsForVirtualKey :: "gov_env \<Rightarrow> (string \<Rightarrow> bool) \<Rightarrow> gov \<Rightarrow> string list \<Rightarrow> string \<Rightarrow> string list" where
  "filterModelsForVirtualKey env known gs models virtualKey =
     (case GetVirtualKey gs virtualKey of
        None \<Rightarrow> []
      | Some vk \<Rightarrow>
          if vk_ProviderConfigs vk = [] then []
          else filter (\<lambda>i.
            case ParseModelString known i [] of
              (prov, model) \<Rightarrow>
                \<not> list_ex (\<lambda>pc. pc_Provider pc = prov \<and> bl_IsBlocked (pc_BlacklistedModels pc) model) (vk_ProviderConfigs vk) \<and>
                list_ex (\<lambda>pc. pc_Provider pc = prov \<and> config_allows env prov model pc) (vk_ProviderConfigs vk)) models)"

subsection \<open>Tools of a key\<close>

definition client_tools :: "vk_mcp_config \<Rightarrow> string list" where
  "client_tools c =
     (if wl_IsEmpty (vm_ToolsToExecute c) then []
      else if wl_IsUnrestricted (vm_ToolsToExecute c) then [vm_ClientName c @ ''-*'']
      else map (\<lambda>t. vm_ClientName c @ ''-'' @ t) (filter (\<lambda>t. t \<noteq> []) (vm_ToolsToExecute c)))"

definition computeMCPIncludeToolsWith :: "(string, string) gomap \<Rightarrow> table_virtual_key \<Rightarrow> string list" where
  "computeMCPIncludeToolsWith allowAll vk =
     concat (map client_tools (vk_MCPConfigs vk)) @
     map (\<lambda>(_, name). name @ ''-*'') (filter (\<lambda>(i, _). i \<notin> set (map vm_ClientID (vk_MCPConfigs vk))) allowAll)"

definition cut_wildcard :: "string \<Rightarrow> string option" where
  "cut_wildcard s = (if 2 \<le> length s \<and> drop (length s - 2) s = ''-*'' then Some (take (length s - 2) s) else None)"

definition prune_step :: "(string, string) gomap \<Rightarrow> table_virtual_key \<Rightarrow> string list \<Rightarrow> string list \<Rightarrow> string \<Rightarrow> string list" where
  "prune_step allowAll vk tools out pattern =
     (if pattern = [] then out
      else case cut_wildcard pattern of
        Some client \<Rightarrow>
          if pattern \<in> set tools then append_new out pattern
          else foldl append_new out (filter (str_prefix (client @ ''-'')) tools)
      | None \<Rightarrow> if isMCPToolAllowedByVKWith allowAll vk pattern then append_new out pattern else out)"

definition pruned_tools :: "(string, string) gomap \<Rightarrow> table_virtual_key \<Rightarrow> string list \<Rightarrow> string list" where
  "pruned_tools allowAll vk requested = foldl (prune_step allowAll vk (computeMCPIncludeToolsWith allowAll vk)) [] requested"

definition pruneMCPIncludeToolsFromContext :: "gov_env \<Rightarrow> table_virtual_key \<Rightarrow> rctx \<Rightarrow> rctx \<times> bool" where
  "pruneMCPIncludeToolsFromContext env vk ctx =
     (case rx_MCPIncludeTools ctx of
        None \<Rightarrow> (ctx, False)
      | Some requested \<Rightarrow> (ctx\<lparr>rx_MCPIncludeTools := Some (pruned_tools (ge_allowAllClients env) vk requested)\<rparr>, True))"

subsection \<open>The whole hook\<close>

record 'p router =
  ro_cel :: "'p cel"
  ro_draws :: "nat \<Rightarrow> draw"
  ro_balance :: float64
  ro_chainMaxDepth :: int
  ro_known :: "string \<Rightarrow> bool"
  ro_disableAutoToolInject :: bool

definition live_key :: "gov \<Rightarrow> int \<Rightarrow> string \<Rightarrow> table_virtual_key option" where
  "live_key gs now k =
     (case GetVirtualKey gs k of None \<Rightarrow> None | Some vk \<Rightarrow> if \<not> IsActiveValue vk \<or> IsExpiredAt vk now then None else Some vk)"

definition include_tools :: "'p router \<Rightarrow> gov_env \<Rightarrow> table_virtual_key \<Rightarrow> rctx \<Rightarrow> rctx" where
  "include_tools ro env vk ctx =
     (case pruneMCPIncludeToolsFromContext env vk ctx of
        (ctx, provided) \<Rightarrow>
          if \<not> provided \<and> (\<not> ro_disableAutoToolInject ro \<or> rx_MCPIncludeClients ctx \<noteq> None) then
            ctx\<lparr>rx_MCPIncludeTools := Some (computeMCPIncludeToolsWith (ge_allowAllClients env) vk)\<rparr>
          else ctx)"

definition gov_PreRequestHook ::
  "'p router \<Rightarrow> gov_env \<Rightarrow> int \<Rightarrow> gov \<Rightarrow> 'p rstore \<Rightarrow> rctx \<Rightarrow> brequest \<Rightarrow> 'p rstore \<times> rctx \<times> brequest \<times> refine_error option" where
  "gov_PreRequestHook ro env now gs rs ctx req =
     (let key = ctx_string (gx_VirtualKey ctx); vk = (if key = [] then None else live_key gs now key)
      in if br_RequestType req = ''passthrough'' \<or> br_RequestType req = ''passthrough_stream'' \<or> key = [] \<and> \<not> HasRoutingRules rs \<or> key \<noteq> [] \<and> vk = None
         then (rs, ctx, req, None)
         else let ctx = stampGovernanceCtxFromVK vk ctx;
                  (rs, ctx, req) =
                    (if HasRoutingRules rs then applyRoutingRules (ro_cel ro) (ro_draws ro) (ro_chainMaxDepth ro) (ro_known ro) vk ctx req rs
                     else (rs, ctx, req));
                  ctx = publishRoutingAllowlist vk (fst (snd (GetRequestFields req))) ctx
              in case vk of
                   None \<Rightarrow> (rs, ctx, req, None)
                 | Some v \<Rightarrow>
                     (case loadBalanceProvider env now gs (ro_balance ro) v ctx req of
                        (ctx, req, Some e) \<Rightarrow> (rs, ctx, req, Some e)
                      | (ctx, req, None) \<Rightarrow> (rs, include_tools ro env v ctx, req, None)))"


section \<open>The store of rules is consistent\<close>

definition rules_at :: "'p rstore \<Rightarrow> string \<Rightarrow> routing_rule list" where
  "rules_at rs k = gm_get_or [] (rs_routingRules rs) k"

text \<open>Every rule is filed under its own scope, once in the whole store; each scope is sorted by priority; and a
  program that is kept for a rule is the one its expression compiles to.\<close>

definition rules_wf :: "'p cel \<Rightarrow> 'p rstore \<Rightarrow> bool" where
  "rules_wf ce rs \<longleftrightarrow> gm_wf (rs_routingRules rs) \<and>
     (\<forall>k. (\<forall>r\<in>set (rules_at rs k). rule_key r = k) \<and> distinct (map rr_ID (rules_at rs k)) \<and> sorted (map rr_Priority (rules_at rs k))) \<and>
     (\<forall>k k' r r'. r \<in> set (rules_at rs k) \<longrightarrow> r' \<in> set (rules_at rs k') \<longrightarrow> rr_ID r = rr_ID r' \<longrightarrow> k = k') \<and>
     (\<forall>k r p. r \<in> set (rules_at rs k) \<longrightarrow> gm_get (rs_programs rs) (rr_ID r) = Some p \<longrightarrow> compile_rule ce r = Some p)"

lemma map_filter_fst: "(\<And>k v x. f (k, v) = Some x \<Longrightarrow> fst x = k) \<Longrightarrow> fst ` set (List.map_filter f m) \<subseteq> fst ` set m"
proof (induction m)
  case (Cons a m)
  then show ?case by (cases a; cases "f a") (auto simp: List.map_filter_simps)
qed (simp add: List.map_filter_simps)

lemma map_filter_keys: "gm_wf m \<Longrightarrow> (\<And>k v x. f (k, v) = Some x \<Longrightarrow> fst x = k) \<Longrightarrow> gm_wf (List.map_filter f m)"
proof (induction m)
  case (Cons a m)
  have "fst ` set (List.map_filter f m) \<subseteq> fst ` set m" using Cons.prems(2) by (rule map_filter_fst)
  with Cons show ?case by (cases a; cases "f a") (auto simp: List.map_filter_simps)
qed (simp add: List.map_filter_simps)

lemma map_filter_get:
  assumes "gm_wf m" and "\<And>k v x. f (k, v) = Some x \<Longrightarrow> fst x = k"
  shows "gm_get (List.map_filter f m) k = Option.bind (gm_get m k) (\<lambda>v. map_option snd (f (k, v)))"
  using assms
proof (induction m)
  case (Cons a m)
  obtain k' v where a: "a = (k', v)" by (cases a)
  have "fst ` set (List.map_filter f m) \<subseteq> fst ` set m" using Cons.prems(2) by (rule map_filter_fst)
  with Cons.prems(1) have "k' \<notin> fst ` set (List.map_filter f m)" by (auto simp: a)
  then have "gm_get (List.map_filter f m) k' = None" by (simp add: map_of_eq_None_iff)
  then show ?case using Cons a by (cases "f (k', v)") (auto simp: List.map_filter_simps)
qed (simp add: List.map_filter_simps)

lemma without_rule_simps [simp]:
  "set (without_rule i rules) = {r \<in> set rules. rr_ID r \<noteq> i}" "distinct (map rr_ID rules) \<Longrightarrow> distinct (map rr_ID (without_rule i rules))"
  "sorted (map rr_Priority rules) \<Longrightarrow> sorted (map rr_Priority (without_rule i rules))" "without_rule i [] = []"
  by (auto simp: without_rule_def distinct_map_filter sorted_filter)

lemma without_same: "length (without_rule i rules) = length rules \<Longrightarrow> without_rule i rules = rules"
  unfolding without_rule_def by (metis filter_True length_filter_less less_irrefl)

lemma rules_at_move:
  assumes "gm_wf m"
  shows "gm_wf (move_out i m)" and "gm_get_or [] (move_out i m) k = without_rule i (gm_get_or [] m k)"
proof -
  show "gm_wf (move_out i m)" unfolding move_out_def using assms by (rule map_filter_keys) (auto split: if_splits)
  have "gm_get (move_out i m) k = Option.bind (gm_get m k) (\<lambda>v. map_option snd ((\<lambda>(k, rules).
       if length (without_rule i rules) \<noteq> length rules then (if without_rule i rules = [] then None else Some (k, without_rule i rules))
       else Some (k, rules)) (k, v)))"
    unfolding move_out_def by (rule map_filter_get [OF assms]) (auto split: if_splits)
  then show "gm_get_or [] (move_out i m) k = without_rule i (gm_get_or [] m k)"
    by (cases "gm_get m k") (auto simp: gm_get_or_def without_same)
qed

lemma rules_at_publish:
  assumes "gm_wf (rs_routingRules rs)"
  shows "rules_at (publish_rule r rs) k =
    (if k = rule_key r then sort_key rr_Priority (without_rule (rr_ID r) (rules_at rs k) @ [r]) else without_rule (rr_ID r) (rules_at rs k))"
  using rules_at_move(2) [OF assms] by (simp add: rules_at_def publish_rule_def Let_def gm_get_or_def split: option.split)

lemma rules_at_delete:
  assumes "gm_wf (rs_routingRules rs)"
  shows "rules_at (DeleteRoutingRuleInMemory i rs) k = without_rule i (rules_at rs k)" and "gm_wf (rs_routingRules (DeleteRoutingRuleInMemory i rs))"
proof -
  let ?f = "\<lambda>(k, rules). if without_rule i rules = [] then None else Some (k :: string, without_rule i rules)"
  have "gm_get (List.map_filter ?f (rs_routingRules rs)) k = Option.bind (gm_get (rs_routingRules rs) k) (\<lambda>v. map_option snd (?f (k, v)))"
    by (rule map_filter_get [OF assms]) (auto split: if_splits)
  then show "rules_at (DeleteRoutingRuleInMemory i rs) k = without_rule i (rules_at rs k)"
    by (cases "gm_get (rs_routingRules rs) k") (auto simp: rules_at_def DeleteRoutingRuleInMemory_def gm_get_or_def)
  show "gm_wf (rs_routingRules (DeleteRoutingRuleInMemory i rs))"
    unfolding DeleteRoutingRuleInMemory_def by simp (rule map_filter_keys [OF assms], auto split: if_splits)
qed


lemma rules_wfD:
  assumes "rules_wf ce rs"
  shows "gm_wf (rs_routingRules rs)" "r \<in> set (rules_at rs k) \<Longrightarrow> rule_key r = k" "distinct (map rr_ID (rules_at rs k))"
    "sorted (map rr_Priority (rules_at rs k))"
    "r \<in> set (rules_at rs k) \<Longrightarrow> r' \<in> set (rules_at rs k') \<Longrightarrow> rr_ID r = rr_ID r' \<Longrightarrow> k = k'"
    "r \<in> set (rules_at rs k) \<Longrightarrow> gm_get (rs_programs rs) (rr_ID r) = Some p \<Longrightarrow> compile_rule ce r = Some p"
  using assms unfolding rules_wf_def by blast+

lemma same_rule:
  assumes "rules_wf ce rs" and "r \<in> set (rules_at rs k)" and "r' \<in> set (rules_at rs k')" and "rr_ID r = rr_ID r'"
  shows "r = r'"
proof -
  have "k = k'" using rules_wfD(5) [OF assms] .
  with assms(2,3,4) rules_wfD(3) [OF assms(1), of k] show ?thesis by (auto simp: distinct_map inj_on_def)
qed

lemma program_frame:
  "rs_routingRules (fst (GetRoutingProgram ce r rs)) = rs_routingRules rs" "rules_at (fst (GetRoutingProgram ce r rs)) = rules_at rs"
  by (auto simp: GetRoutingProgram_def rules_at_def fun_eq_iff split: option.split)

lemma program_exact:
  assumes "rules_wf ce rs" and "r \<in> set (rules_at rs k)"
  shows "snd (GetRoutingProgram ce r rs) = compile_rule ce r" and "rules_wf ce (fst (GetRoutingProgram ce r rs))"
proof -
  show "snd (GetRoutingProgram ce r rs) = compile_rule ce r"
    using rules_wfD(6) [OF assms] by (auto simp: GetRoutingProgram_def split: option.split)
  have "compile_rule ce r' = Some p" if "r' \<in> set (rules_at rs k')" "gm_get (rs_programs (fst (GetRoutingProgram ce r rs))) (rr_ID r') = Some p" for r' k' p
    using that rules_wfD(6) [OF assms(1) that(1)] same_rule [OF assms(1) that(1) assms(2)]
    by (auto simp: GetRoutingProgram_def split: option.splits if_splits)
  then show "rules_wf ce (fst (GetRoutingProgram ce r rs))" using assms(1) unfolding rules_wf_def program_frame by blast
qed

lemma rules_wf_publish:
  assumes "rules_wf ce rs"
  shows "rules_wf ce (publish_rule r rs)"
proof -
  note wf = rules_wfD [OF assms] and at = rules_at_publish [OF rules_wfD(1) [OF assms]]
  have m: "gm_wf (rs_routingRules (publish_rule r rs))" using rules_at_move(1) [OF wf(1)] by (simp add: publish_rule_def Let_def)
  have mem: "r' \<in> set (rules_at (publish_rule r rs) k) \<longleftrightarrow> (k = rule_key r \<and> r' = r) \<or> (r' \<in> set (rules_at rs k) \<and> rr_ID r' \<noteq> rr_ID r)" for r' k
    unfolding at by auto
  have "distinct (map rr_ID (without_rule (rr_ID r) (rules_at rs k) @ [r]))" for k using wf(3) [of k] by auto
  then have "distinct (map rr_ID (rules_at (publish_rule r rs) k))" for k
    using wf(3) [of k] unfolding at by (simp add: distinct_map)
  moreover have "sorted (map rr_Priority (rules_at (publish_rule r rs) k))" for k
    using wf(4) [of k] by (simp add: at)
  moreover have "rule_key r' = k" if "r' \<in> set (rules_at (publish_rule r rs) k)" for r' k using that wf(2) [of r' k] unfolding mem by auto
  moreover have "k = k'" if "r1 \<in> set (rules_at (publish_rule r rs) k)" "r2 \<in> set (rules_at (publish_rule r rs) k')" "rr_ID r1 = rr_ID r2" for r1 r2 k k'
    using that wf(5) [of r1 k r2 k'] unfolding mem by auto
  moreover have "compile_rule ce r' = Some p" if "r' \<in> set (rules_at (publish_rule r rs) k)" "gm_get (rs_programs (publish_rule r rs)) (rr_ID r') = Some p" for r' k p
    using that wf(6) [of r' k p] unfolding mem by (auto simp: publish_rule_def Let_def split: if_splits)
  ultimately show ?thesis unfolding rules_wf_def by (intro conjI allI impI ballI m)
qed

lemma rules_wf_update: "rules_wf ce rs \<Longrightarrow> rules_wf ce (UpdateRoutingRuleInMemory ce r rs)"
  unfolding UpdateRoutingRuleInMemory_def
  by (rule program_exact(2) [where k = "rule_key r"]) (simp_all add: rules_wf_publish rules_at_publish rules_wfD(1))

lemma rules_wf_delete:
  assumes "rules_wf ce rs"
  shows "rules_wf ce (DeleteRoutingRuleInMemory i rs)"
proof -
  note wf = rules_wfD [OF assms] and at = rules_at_delete [OF rules_wfD(1) [OF assms]]
  have "compile_rule ce r = Some p" if "r \<in> set (rules_at rs k)" "rr_ID r \<noteq> i" "gm_get (rs_programs (DeleteRoutingRuleInMemory i rs)) (rr_ID r) = Some p" for r k p
    using that wf(6) [of r k p] by (simp add: DeleteRoutingRuleInMemory_def)
  then show ?thesis using wf(1-4) wf(5) at(2) unfolding rules_wf_def at(1) by simp blast
qed


section \<open>Which rules fire\<close>

text \<open>A rule applies if it has not fired, its expression compiles and holds, and it has a target to offer.\<close>

definition applies :: "'p cel \<Rightarrow> draw \<Rightarrow> string set \<Rightarrow> string \<Rightarrow> string \<Rightarrow> routing_rule \<Rightarrow> bool" where
  "applies ce d visited prov model r \<longleftrightarrow> rr_ID r \<notin> visited \<and>
     (case compile_rule ce r of None \<Rightarrow> False | Some p \<Rightarrow> evaluateCELExpression (ce_Eval ce p prov model) = Some True) \<and>
     selectWeightedTarget d (rr_Targets r) \<noteq> None"

definition fires :: "draw \<Rightarrow> string \<Rightarrow> string \<Rightarrow> routing_rule \<Rightarrow> routing_rule \<times> routing_decision" where
  "fires d prov model r = (r, decide r (the (selectWeightedTarget d (rr_Targets r))) prov model)"

lemma scan_exact:
  assumes "rules_wf ce rs" and "\<forall>r\<in>set rules. \<exists>k. r \<in> set (rules_at rs k)"
  shows "rules_wf ce (fst (scan_rules ce d visited prov model rules rs)) \<and> rules_at (fst (scan_rules ce d visited prov model rules rs)) = rules_at rs \<and>
    snd (scan_rules ce d visited prov model rules rs) = map_option (fires d prov model) (List.find (applies ce d (set visited) prov model) rules)"
  using assms
proof (induction rules arbitrary: rs)
  case (Cons r rules)
  then obtain k where k: "r \<in> set (rules_at rs k)" by auto
  obtain rs' p where g: "GetRoutingProgram ce r rs = (rs', p)" by (cases "GetRoutingProgram ce r rs")
  have p: "p = compile_rule ce r" and wf: "rules_wf ce rs'" and at: "rules_at rs' = rules_at rs"
    using program_exact [OF Cons.prems(1) k] program_frame(2) [of ce r rs] g by simp_all
  have here: "rules_wf ce (fst (scan_rules ce d visited prov model rules rs)) \<and> rules_at (fst (scan_rules ce d visited prov model rules rs)) = rules_at rs \<and>
    snd (scan_rules ce d visited prov model rules rs) = map_option (fires d prov model) (List.find (applies ce d (set visited) prov model) rules)"
    and there: "rules_wf ce (fst (scan_rules ce d visited prov model rules rs')) \<and> rules_at (fst (scan_rules ce d visited prov model rules rs')) = rules_at rs \<and>
    snd (scan_rules ce d visited prov model rules rs') = map_option (fires d prov model) (List.find (applies ce d (set visited) prov model) rules)"
    using Cons.IH [of rs] Cons.IH [of rs'] Cons.prems wf at by simp_all
  show ?case
    using here there wf at p
    by (cases p) (auto simp: g applies_def [of ce d "set visited" prov model r] fires_def [of d prov model r] split: option.splits)
qed simp

abbreviation fired_ids :: "(routing_rule \<times> routing_decision) list \<Rightarrow> string list" where
  "fired_ids fired \<equiv> map (\<lambda>x. rr_ID (fst x)) fired"

definition state_at :: "string \<Rightarrow> string \<Rightarrow> (routing_rule \<times> routing_decision) list \<Rightarrow> nat \<Rightarrow> string \<times> string" where
  "state_at prov model fired n =
     (if n = 0 then (prov, model) else (rd_Provider (snd (fired ! (n - 1))), rd_Model (snd (fired ! (n - 1)))))"

definition next_rule ::
  "'p cel \<Rightarrow> (nat \<Rightarrow> draw) \<Rightarrow> nat \<Rightarrow> string set \<Rightarrow> string \<Rightarrow> string \<Rightarrow> routing_rule list \<Rightarrow> (routing_rule \<times> routing_decision) list \<Rightarrow> nat \<Rightarrow>
   (routing_rule \<times> routing_decision) option" where
  "next_rule ce draws k visited prov model rules fired n =
     (case state_at prov model fired n of
        (p, m) \<Rightarrow> map_option (fires (draws (k + n)) p m) (List.find (applies ce (draws (k + n)) (visited \<union> set (fired_ids (take n fired))) p m) rules))"

lemma next_rule_Suc:
  "next_rule ce draws k visited prov model rules (x # fired) (Suc n) =
     next_rule ce draws (Suc k) (insert (rr_ID (fst x)) visited) (rd_Provider (snd x)) (rd_Model (snd x)) rules fired n"
  by (cases n) (simp_all add: next_rule_def state_at_def)

lemma find_applies: "List.find P xs = Some x \<Longrightarrow> x \<in> set xs \<and> P x"
  by (metis find_Some_iff nth_mem)

lemma chain_exact:
  assumes "rules_wf ce rs" and "\<forall>r\<in>set rules. \<exists>k. r \<in> set (rules_at rs k)"
  shows "let fired = snd (chain_steps ce draws left k visited prov model rules rs) in
    length fired \<le> left \<and> distinct (fired_ids fired) \<and> set (fired_ids fired) \<inter> set visited = {} \<and> fst ` set fired \<subseteq> set rules \<and>
    (\<forall>x\<in>set (butlast fired). rr_ChainRule (fst x)) \<and>
    (\<forall>n<length fired. next_rule ce draws k (set visited) prov model rules fired n = Some (fired ! n)) \<and>
    (length fired < left \<and> (fired = [] \<or> rr_ChainRule (fst (last fired))) \<longrightarrow>
       next_rule ce draws k (set visited) prov model rules fired (length fired) = None)"
  using assms unfolding Let_def
proof (induction left arbitrary: k visited prov model rs)
  case (Suc left)
  let ?found = "List.find (applies ce (draws k) (set visited) prov model) rules"
  obtain rs' res where scan: "scan_rules ce (draws k) visited prov model rules rs = (rs', res)"
    by (cases "scan_rules ce (draws k) visited prov model rules rs")
  have wf: "rules_wf ce rs'" "rules_at rs' = rules_at rs" and res: "res = map_option (fires (draws k) prov model) ?found"
    using scan_exact [OF Suc.prems, of "draws k" visited prov model] scan by simp_all
  show ?case
  proof (cases ?found)
    case None
    then show ?thesis by (simp add: scan res next_rule_def state_at_def)
  next
    case (Some r)
    define d where "d = snd (fires (draws k) prov model r)"
    have x: "res = Some (r, d)" "fires (draws k) prov model r = (r, d)" using Some res by (simp_all add: d_def fires_def)
    have r: "r \<in> set rules" "rr_ID r \<notin> set visited" using find_applies [OF Some] by (simp_all add: applies_def)
    have zero: "next_rule ce draws k (set visited) prov model rules (y # ys) 0 = Some (r, d)" for y ys
      using Some x(2) by (simp add: next_rule_def state_at_def)
    define fired where "fired = snd (chain_steps ce draws left (Suc k) (rr_ID r # visited) (rd_Provider d) (rd_Model d) rules rs')"
    note ih = Suc.IH [of rs' "Suc k" "rr_ID r # visited" "rd_Provider d" "rd_Model d", folded fired_def, OF wf(1)]
    show ?thesis
    proof (cases "rr_ChainRule r")
      case False
      then show ?thesis using zero r by (simp add: scan x)
    next
      case True
      then have all: "snd (chain_steps ce draws (Suc left) k visited prov model rules rs) = (r, d) # fired"
        by (simp add: scan x fired_def split: prod.split)
      have n: "next_rule ce draws k (set visited) prov model rules ((r, d) # fired) n = Some (((r, d) # fired) ! n)" if "n < Suc (length fired)" for n
        using that zero ih wf(2) Suc.prems(2) by (cases n) (auto simp: next_rule_Suc)
      show ?thesis unfolding all using n ih wf(2) Suc.prems(2) r True by (auto simp: next_rule_Suc)
    qed
  qed
qed simp


lemma scoped_in_store: "r \<in> set (scoped_rules rs vk userID) \<Longrightarrow> EnabledValue r \<and> (\<exists>k. r \<in> set (rules_at rs k))"
  by (auto simp: scoped_rules_def GetScopedRoutingRules_def rules_at_def)

lemma chain_keeps_wf:
  "rules_wf ce rs \<Longrightarrow> \<forall>r\<in>set rules. \<exists>k. r \<in> set (rules_at rs k) \<Longrightarrow> rules_wf ce (fst (chain_steps ce draws left k visited prov model rules rs))"
proof (induction left arbitrary: k visited prov model rs)
  case (Suc left)
  obtain rs' res where scan: "scan_rules ce (draws k) visited prov model rules rs = (rs', res)"
    by (cases "scan_rules ce (draws k) visited prov model rules rs")
  have wf: "rules_wf ce rs'" "rules_at rs' = rules_at rs" using scan_exact [OF Suc.prems, of "draws k" visited prov model] scan by simp_all
  note ih = Suc.IH [of rs', OF wf(1)]
  show ?case
  proof (cases res)
    case (Some x)
    then show ?thesis using wf ih Suc.prems(2) by (cases x) (simp add: scan case_prod_unfold)
  qed (use wf scan in simp)
qed simp

text \<open>The events of a store of rules: edits, and requests that evaluate the rules.\<close>

datatype rule_event = SetRule routing_rule | DropRule string | Route "nat \<Rightarrow> draw" int "table_virtual_key option" string string

fun rule_step :: "'p cel \<Rightarrow> rule_event \<Rightarrow> 'p rstore \<Rightarrow> 'p rstore" where
  "rule_step ce (SetRule r) rs = UpdateRoutingRuleInMemory ce r rs"
| "rule_step ce (DropRule i) rs = DeleteRoutingRuleInMemory i rs"
| "rule_step ce (Route draws depth vk prov model) rs = fst (EvaluateRoutingRules ce draws depth vk [] prov model rs)"

definition rules_after :: "'p cel \<Rightarrow> rule_event list \<Rightarrow> 'p rstore" where
  "rules_after ce es = fold (rule_step ce) es \<lparr>rs_routingRules = [], rs_programs = []\<rparr>"

lemma rules_wf_step: "rules_wf ce rs \<Longrightarrow> rules_wf ce (rule_step ce e rs)"
proof (cases e)
  case (Route draws depth vk prov model)
  assume "rules_wf ce rs"
  then show ?thesis unfolding Route rule_step.simps EvaluateRoutingRules_def by (rule chain_keeps_wf) (auto dest: scoped_in_store)
qed (auto simp: rules_wf_update rules_wf_delete)

lemma rules_wf_after: "rules_wf ce (rules_after ce es)"
proof -
  have "rules_wf ce rs \<Longrightarrow> rules_wf ce (fold (rule_step ce) es rs)" for rs by (induction es arbitrary: rs) (simp_all add: rules_wf_step)
  moreover have "rules_wf ce \<lparr>rs_routingRules = [], rs_programs = []\<rparr>" by (simp add: rules_wf_def rules_at_def gm_get_or_def)
  ultimately show ?thesis by (simp add: rules_after_def)
qed

text \<open>C11: the store of routing rules stays consistent. After any sequence of edits and evaluations every rule is filed under its own scope
  and nowhere else, also when an edit has moved it; the rules of a scope are in the order of their priorities; and the
  program with which a rule is evaluated is what its current expression compiles to, never that of an earlier version.\<close>

theorem routing_rules_consistent:
  "(\<forall>k. \<forall>r\<in>set (rules_at (rules_after ce es) k). rule_key r = k) \<and>
   (\<forall>k. sorted (map rr_Priority (rules_at (rules_after ce es) k)) \<and> distinct (map rr_ID (rules_at (rules_after ce es) k))) \<and>
   (\<forall>k k' r r'. r \<in> set (rules_at (rules_after ce es) k) \<longrightarrow> r' \<in> set (rules_at (rules_after ce es) k') \<longrightarrow> rr_ID r = rr_ID r' \<longrightarrow> r = r') \<and>
   (\<forall>k. \<forall>r\<in>set (rules_at (rules_after ce es) k). snd (GetRoutingProgram ce r (rules_after ce es)) = compile_rule ce r)"
  using rules_wfD(2,3,4) [OF rules_wf_after] same_rule [OF rules_wf_after] program_exact(1) [OF rules_wf_after] by metis

definition toy_cel :: "string cel" where
  "toy_cel = \<lparr>ce_NormalizeMapKeys = (\<lambda>s. s), ce_Validate = (\<lambda>s. True), ce_Compile = (\<lambda>s. if s = ''bad'' then None else Some s),
     ce_Eval = (\<lambda>p prov model. if p = ''true'' then CelBool True else CelBool (p = model))\<rparr>"

definition sample_rule :: routing_rule where
  "sample_rule = \<lparr>rr_ID = ''r1'', rr_Name = ''mini'', rr_Enabled = None, rr_CelExpression = ''gpt-5'',
     rr_Targets = [\<lparr>tg_Provider = Some ''azure'', tg_Model = Some ''gpt-5-mini'', tg_KeyID = None, tg_Weight = (1, 0)\<rparr>],
     rr_ParsedFallbacks = [], rr_Scope = ''global'', rr_ScopeID = None, rr_ChainRule = True, rr_Priority = 5, rr_CreatedAt = 0\<rparr>"

definition sample_events :: "rule_event list" where
  "sample_events = [SetRule (sample_rule\<lparr>rr_Scope := ''team'', rr_ScopeID := Some ''t1''\<rparr>), SetRule sample_rule,
     SetRule (sample_rule\<lparr>rr_ID := ''r2'', rr_CelExpression := ''gpt-5-mini'', rr_ChainRule := False, rr_Priority := 9\<rparr>)]"

theorem routing_rules_consistent_witness:
  "map rr_ID (rules_at (rules_after toy_cel sample_events) ''global:'') = [''r1'', ''r2''] \<and>
   list_all (\<lambda>r. rule_key r = ''global:'') (rules_at (rules_after toy_cel sample_events) ''global:'')"
proof -
  have "map rr_ID (rules_at (rules_after toy_cel sample_events) ''global:'') = [''r1'', ''r2'']" by code_simp
  then show ?thesis using routing_rules_consistent [of toy_cel sample_events] unfolding list_all_iff by blast
qed


text \<open>C8: which routing rules fire. The chain of a request ends after at most \<open>chainMaxDepth\<close> steps; no rule fires twice; only the last
  one need not chain. In every step the rule that fires is the first, in the order key, user, team, customer, global and
  within a scope by priority, among the enabled rules that have not fired yet, hold for the provider and the model of
  that step (as the rule before has set them), and have a target; and the chain does not end early while such a rule exists.\<close>

theorem routing_first_match:
  "let rs = rules_after ce es; rules = scoped_rules rs vk userID; fired = snd (EvaluateRoutingRules ce draws depth vk userID prov model rs) in
     length fired \<le> nat depth \<and> distinct (fired_ids fired) \<and> (\<forall>x\<in>set fired. EnabledValue (fst x)) \<and> (\<forall>x\<in>set (butlast fired). rr_ChainRule (fst x)) \<and>
     (\<forall>n<length fired. next_rule ce draws 0 {} prov model rules fired n = Some (fired ! n)) \<and>
     (length fired < nat depth \<and> (fired = [] \<or> rr_ChainRule (fst (last fired))) \<longrightarrow> next_rule ce draws 0 {} prov model rules fired (length fired) = None)"
proof -
  let ?rs = "rules_after ce es"
  let ?rules = "scoped_rules ?rs vk userID"
  have "\<forall>r\<in>set ?rules. \<exists>k. r \<in> set (rules_at ?rs k)" using scoped_in_store by blast
  note chain = chain_exact [OF rules_wf_after this, of draws "nat depth" 0 "[]" prov model, folded EvaluateRoutingRules_def, unfolded list.set]
  moreover have "EnabledValue r" if "r \<in> set ?rules" for r using scoped_in_store [OF that] by simp
  ultimately show ?thesis unfolding Let_def by auto
qed

theorem routing_first_match_witness:
  "let rs = rules_after toy_cel sample_events; fired = snd (EvaluateRoutingRules toy_cel (\<lambda>_. ((0, 0), \<lambda>_. 0)) 10 None [] ''openai'' ''gpt-5'' rs) in
     fired_ids fired = [''r1'', ''r2''] \<and> next_rule toy_cel (\<lambda>_. ((0, 0), \<lambda>_. 0)) 0 {} ''openai'' ''gpt-5'' (scoped_rules rs None []) fired 1 = Some (fired ! 1)"
proof -
  have ids: "fired_ids (snd (EvaluateRoutingRules toy_cel (\<lambda>_. ((0, 0), \<lambda>_. 0)) 10 None [] ''openai'' ''gpt-5'' (rules_after toy_cel sample_events))) = [''r1'', ''r2'']"
    by code_simp
  have "1 < length (snd (EvaluateRoutingRules toy_cel (\<lambda>_. ((0, 0), \<lambda>_. 0)) 10 None [] ''openai'' ''gpt-5'' (rules_after toy_cel sample_events)))"
    unfolding length_map [of "\<lambda>x. rr_ID (fst x)", symmetric] ids by simp
  then show ?thesis
    using routing_first_match [of toy_cel sample_events None "[]" "\<lambda>_. ((0, 0), \<lambda>_. 0)" 10 "''openai''" "''gpt-5''"] ids unfolding Let_def by blast
qed

text \<open>C40: an edit of a rule that meets a request can leave the old expression in force. An edit first replaces the rule and
  discards its program, then compiles it again; a request that loaded the rules before the edit and asks for the program in between
  compiles the old expression and keeps its program under the identifier of the rule. The edit then finds that program and does not
  compile its own: from then on every request evaluates the new rule with the old expression.\<close>

theorem stale_program_kept:
  assumes "rr_ID old = rr_ID new" and "compile_rule ce old = Some p"
  shows "let rs' = fst (GetRoutingProgram ce new (fst (GetRoutingProgram ce old (publish_rule new rs)))) in
    new \<in> set (rules_at rs' (rule_key new)) \<and> snd (GetRoutingProgram ce new rs') = Some p"
proof -
  have "gm_get (rs_programs (publish_rule new rs)) (rr_ID new) = None" by (simp add: publish_rule_def Let_def)
  moreover have "new \<in> set (rules_at (publish_rule new rs) (rule_key new))" by (simp add: publish_rule_def rules_at_def Let_def)
  ultimately show ?thesis using assms by (simp add: GetRoutingProgram_def program_frame Let_def rules_at_def)
qed

theorem stale_program_kept_witness:
  "let new = sample_rule\<lparr>rr_CelExpression := ''gpt-4''\<rparr>;
       rs' = fst (GetRoutingProgram toy_cel new (fst (GetRoutingProgram toy_cel sample_rule (publish_rule new (rules_after toy_cel sample_events)))))
   in snd (GetRoutingProgram toy_cel new rs') = Some ''gpt-5'' \<and> compile_rule toy_cel new = Some ''gpt-4''"
proof -
  have "compile_rule toy_cel sample_rule = Some ''gpt-5''" "compile_rule toy_cel (sample_rule\<lparr>rr_CelExpression := ''gpt-4''\<rparr>) = Some ''gpt-4''" by code_simp+
  then show ?thesis
    using stale_program_kept [of sample_rule "sample_rule\<lparr>rr_CelExpression := ''gpt-4''\<rparr>" toy_cel "''gpt-5''" "rules_after toy_cel sample_events"]
    unfolding Let_def by simp
qed


section \<open>Choice of a provider\<close>

lemma float_val_scaled: "e \<le> snd a \<Longrightarrow> float_val a = real_of_int (fst a * 2 ^ nat (snd a - e)) * 2 powr real_of_int e"
  by (simp add: float_val_def powr_realpow [symmetric] powr_add [symmetric])

lemma float_le_val: "float_le a b \<longleftrightarrow> float_val a \<le> float_val b"
  using float_val_scaled [of "min (snd a) (snd b)" a] float_val_scaled [of "min (snd a) (snd b)" b]
  by (simp add: float_le_def Let_def del: of_int_mult of_int_power)

lemma heavier_val: "heavier a b \<longleftrightarrow> float_val (getWeight (pc_Weight b)) < float_val (getWeight (pc_Weight a))"
  by (auto simp: heavier_def float_less_def float_le_val)

lemma set_insert_config [simp]: "set (insert_config x ys) = insert x (set ys)"
  by (induction ys) auto

lemma sorted_insert_config: "sorted_wrt (\<lambda>a b. \<not> heavier b a) ys \<Longrightarrow> sorted_wrt (\<lambda>a b. \<not> heavier b a) (insert_config x ys)"
  by (induction ys) (fastforce simp: heavier_val)+

lemma by_weight_props: "set (by_weight pcs) = set pcs" "sorted_wrt (\<lambda>a b. \<not> heavier b a) (by_weight pcs)"
proof -
  have "set (foldl (\<lambda>sorted pc. insert_config pc sorted) ys pcs) = set ys \<union> set pcs" for ys by (induction pcs arbitrary: ys) auto
  then show "set (by_weight pcs) = set pcs" by (simp add: by_weight_def)
  have "sorted_wrt (\<lambda>a b. \<not> heavier b a) ys \<Longrightarrow> sorted_wrt (\<lambda>a b. \<not> heavier b a) (foldl (\<lambda>sorted pc. insert_config pc sorted) ys pcs)" for ys
    by (induction pcs arbitrary: ys) (auto simp: sorted_insert_config)
  then show "sorted_wrt (\<lambda>a b. \<not> heavier b a) (by_weight pcs)" by (simp add: by_weight_def)
qed

lemma pick_config_in: "pick_config r c pcs = Some pc \<Longrightarrow> pc \<in> set pcs"
  by (induction pcs arbitrary: c) (auto simp: Let_def split: if_splits)

lemma selected_in: "weighted \<noteq> [] \<Longrightarrow> \<exists>pc\<in>set weighted. pc_Provider pc = select_provider u weighted"
  by (auto simp: select_provider_def Let_def split: option.splits dest: pick_config_in)

text \<open>Whether a configuration may serve a model, besides its weight.\<close>

definition may_serve :: "gov_env \<Rightarrow> int \<Rightarrow> gov \<Rightarrow> table_virtual_key \<Rightarrow> string \<Rightarrow> vk_provider_config \<Rightarrow> bool" where
  "may_serve env now gs vk model pc \<longleftrightarrow> pc \<in> set (vk_ProviderConfigs vk) \<and> config_allows env (pc_Provider pc) model pc \<and>
     (\<forall>pc'\<in>set (vk_ProviderConfigs vk). pc_Provider pc' = pc_Provider pc \<longrightarrow> \<not> bl_IsBlocked (pc_BlacklistedModels pc') model) \<and>
     \<not> isProviderBudgetViolated now gs vk pc \<and> \<not> isProviderRateLimitViolated now gs vk pc"

lemma set_eligible: "pc \<in> set (eligible_configs env now gs vk model) \<longleftrightarrow> may_serve env now gs vk model pc"
  by (auto simp: eligible_configs_def may_serve_def image_iff)

lemma may_serve_model: "may_serve env now gs vk model pc \<Longrightarrow> vk_policy gs vk (pc_Provider pc) = None \<Longrightarrow> isModelAllowed env gs vk (pc_Provider pc) model"
  by (auto simp: may_serve_def isModelAllowed_def any_config_allows_iff TeamPolicyAllowsModel_def list_ex_iff)

definition weighted_configs :: "gov_env \<Rightarrow> int \<Rightarrow> gov \<Rightarrow> table_virtual_key \<Rightarrow> string \<Rightarrow> vk_provider_config list" where
  "weighted_configs env now gs vk model = filter (\<lambda>pc. pc_Weight pc \<noteq> None) (eligible_configs env now gs vk model)"

text \<open>C12: the choice of a provider for a virtual key. A request that names its provider, or for which no configuration with a weight
  may serve the model, is left alone. Otherwise, whatever the random number, the request is sent to the provider of such a
  configuration: it allows the model, no configuration of that provider blacklists it, and its limits are not used up; without a team
  policy the resolver will not refuse it for its model. A request without fallbacks of its own gets the other such providers,
  the heaviest first, each with the model name refined for it.\<close>

theorem balanced_provider_eligible:
  assumes "GetRequestFields req = (prov, model, fbs)"
  shows "if prov \<noteq> [] \<or> model = [] \<or> weighted_configs env now gs vk model = [] then loadBalanceProvider env now gs u vk ctx req = (ctx, req, None)
    else \<exists>pc. may_serve env now gs vk model pc \<and> pc_Weight pc \<noteq> None \<and>
      (vk_policy gs vk (pc_Provider pc) = None \<longrightarrow> isModelAllowed env gs vk (pc_Provider pc) model) \<and>
      (case refine_for env (pc_Provider pc) model of
         Inl e \<Rightarrow> loadBalanceProvider env now gs u vk ctx req = (ctx, req, Some e)
       | Inr m \<Rightarrow> \<exists>order. set order = {pc'. may_serve env now gs vk model pc' \<and> pc_Weight pc' \<noteq> None} \<and> sorted_wrt (\<lambda>a b. \<not> heavier b a) order \<and>
            snd (loadBalanceProvider env now gs u vk ctx req) =
              (if fbs = [] \<and> 1 < length (weighted_configs env now gs vk model)
               then SetFallbacks (SetModel (SetProvider req (pc_Provider pc)) m)
                 (List.map_filter (\<lambda>pc'. if pc_Provider pc' = pc_Provider pc then None
                    else case refine_for env (pc_Provider pc') model of Inl _ \<Rightarrow> None | Inr m' \<Rightarrow> Some \<lparr>fb_Provider = pc_Provider pc', fb_Model = m'\<rparr>) order)
               else SetModel (SetProvider req (pc_Provider pc)) m, None))"
proof (cases "prov \<noteq> [] \<or> model = [] \<or> weighted_configs env now gs vk model = []")
  case True
  then show ?thesis using assms by (auto simp: loadBalanceProvider_def weighted_configs_def Let_def)
next
  case False
  let ?w = "weighted_configs env now gs vk model"
  obtain pc where pc: "pc \<in> set ?w" "pc_Provider pc = select_provider u ?w" using selected_in [of ?w u] False by auto
  have may: "may_serve env now gs vk model pc \<and> pc_Weight pc \<noteq> None" using pc(1) by (auto simp: weighted_configs_def set_eligible)
  have go: "eligible_configs env now gs vk model \<noteq> []" using False by (auto simp: weighted_configs_def)
  then have "vk_ProviderConfigs vk \<noteq> []" by (auto simp: eligible_configs_def)
  with False go assms have run: "loadBalanceProvider env now gs u vk ctx req =
    (case refine_for env (pc_Provider pc) model of
       Inl e \<Rightarrow> (ctx, req, Some e)
     | Inr m \<Rightarrow> (use_engine RoutingEngineGovernance ctx,
         if fbs = [] \<and> 1 < length ?w then SetFallbacks (SetModel (SetProvider req (pc_Provider pc)) m) (weighted_fallbacks env (pc_Provider pc) model ?w)
         else SetModel (SetProvider req (pc_Provider pc)) m, None))"
    unfolding loadBalanceProvider_def Let_def weighted_configs_def [symmetric] pc(2) by (simp split: sum.split)
  have order: "set (by_weight ?w) = {pc'. may_serve env now gs vk model pc' \<and> pc_Weight pc' \<noteq> None}"
    by (auto simp: by_weight_props(1) weighted_configs_def set_eligible)
  show ?thesis unfolding if_not_P [OF False] using may may_serve_model order by_weight_props(2) [of ?w]
    by (intro exI [of _ pc]) (auto simp: run weighted_fallbacks_def split: sum.split intro!: exI [of _ "by_weight ?w"])
qed


definition azure_config :: vk_provider_config where
  "azure_config = openai_config\<lparr>pc_ID := 2, pc_Provider := ''azure'', pc_Weight := Some (3, 0), pc_BlacklistedModels := []\<rparr>"

definition two_provider_key :: table_virtual_key where
  "two_provider_key = team_key\<lparr>vk_ProviderConfigs := [openai_config, azure_config]\<rparr>"

definition chat_request :: brequest where
  "chat_request = \<lparr>br_RequestType = ''chat_completion'', br_subs = [(''ChatRequest'', \<lparr>sq_Provider = [], sq_Model = Some ''gpt-5'', sq_Fallbacks = [],
     sq_Input = [], sq_RawRequestBody = [], sq_KeyID = None\<rparr>)]\<rparr>"

theorem balanced_provider_eligible_witness:
  "\<exists>pc. may_serve plain_env 1704070000000000000 team_store two_provider_key ''gpt-5'' pc \<and> pc_Weight pc \<noteq> None"
proof -
  have "GetRequestFields chat_request = ([], ''gpt-5'', [])" by code_simp
  note balanced = balanced_provider_eligible [OF this, of plain_env 1704070000000000000 team_store two_provider_key]
  have "weighted_configs plain_env 1704070000000000000 team_store two_provider_key ''gpt-5'' \<noteq> []" by code_simp
  then have serve: "\<not> ([] \<noteq> [] \<or> ''gpt-5'' = [] \<or> weighted_configs plain_env 1704070000000000000 team_store two_provider_key ''gpt-5'' = [])" by simp
  obtain ctx :: rctx where "ctx = ctx" by simp
  show ?thesis using balanced [of "(0, 0)" ctx] unfolding if_not_P [OF serve] by blast
qed

text \<open>The choice does not look at the policies of the team, which the resolver will apply to the provider it has chosen.\<close>

lemma balancing_ignores_team_policy:
  "eligible_configs env now (gs\<lparr>gv_teamModelPolicies := ps\<rparr>) vk model = eligible_configs env now gs vk model"
proof -
  have rows: "hot_limit (gs\<lparr>gv_teamModelPolicies := ps\<rparr>) = hot_limit gs" "vk_team (gs\<lparr>gv_teamModelPolicies := ps\<rparr>) = vk_team gs"
    by (simp_all add: hot_limit_def vk_team_def fun_eq_iff)
  then have owners: "team_customer (gs\<lparr>gv_teamModelPolicies := ps\<rparr>) = team_customer gs" "own_customer (gs\<lparr>gv_teamModelPolicies := ps\<rparr>) = own_customer gs"
    "append_limit (gs\<lparr>gv_teamModelPolicies := ps\<rparr>) = append_limit gs" "collect_new (gs\<lparr>gv_teamModelPolicies := ps\<rparr>) = collect_new gs"
    "collect_all (gs\<lparr>gv_teamModelPolicies := ps\<rparr>) = collect_all gs"
    by (simp_all add: team_customer_def own_customer_def team_customer_id_def append_limit_def collect_new_def collect_all_def hot_budgets_def fun_eq_iff
        cong: if_cong option.case_cong)
  have "CheckProviderBudget [] now (gs\<lparr>gv_teamModelPolicies := ps\<rparr>) = CheckProviderBudget [] now gs"
    "CheckProviderRateLimit [] [] now (gs\<lparr>gv_teamModelPolicies := ps\<rparr>) = CheckProviderRateLimit [] [] now gs"
    "CheckVirtualKeyBudget [] now (gs\<lparr>gv_teamModelPolicies := ps\<rparr>) = CheckVirtualKeyBudget [] now gs"
    "CheckVirtualKeyRateLimit [] [] now (gs\<lparr>gv_teamModelPolicies := ps\<rparr>) = CheckVirtualKeyRateLimit [] [] now gs"
    by (simp_all add: CheckProviderBudget_def CheckProviderRateLimit_def CheckVirtualKeyBudget_def CheckVirtualKeyRateLimit_def
        collectBudgetsFromHierarchy_def collectRateLimitsFromHierarchy_def rows owners Let_def fun_eq_iff cong: if_cong option.case_cong)
  then show ?thesis unfolding eligible_configs_def isProviderBudgetViolated_def isProviderRateLimitViolated_def by simp
qed

section \<open>Refined model names\<close>

lemma parse_own: "known p \<Longrightarrow> CHR ''/'' \<notin> set p \<Longrightarrow> ParseModelString known (p @ ''/'' @ m) [] = (p, m)"
proof -
  assume k: "known p" and n: "CHR ''/'' \<notin> set p"
  have "str_index (p @ CHR ''/'' # m) ''/'' = Some (length p)" using n by (induction p) (auto simp: str_prefix_def)
  then show ?thesis using k by (simp add: ParseModelString_def)
qed

lemma str_index_slash: "str_index s ''/'' = Some i \<Longrightarrow> CHR ''/'' \<notin> set (take i s)"
  by (induction s arbitrary: i) (auto simp: str_prefix_def take_Cons' split: if_splits nat.splits)

lemma parse_known: "ParseModelString known s [] = (p, m) \<Longrightarrow> p \<noteq> [] \<Longrightarrow> known p \<and> CHR ''/'' \<notin> set p"
  by (auto simp: ParseModelString_def str_index_slash split: option.splits if_splits)

definition candidate :: "model_catalog \<Rightarrow> string \<Rightarrow> string \<Rightarrow> bool" where
  "candidate mc model c \<longleftrightarrow> (\<exists>p. p \<noteq> [] \<and> c = p @ ''/'' @ model \<and> ca_KnownProvider mc p \<and> CHR ''/'' \<notin> set p)"

lemma candidate_form:
  assumes "c \<in> set (nested_candidates mc prov model)"
  shows "candidate mc model c"
proof -
  have "\<forall>c\<in>set (foldl (\<lambda>out pool. case ParseModelString (ca_KnownProvider mc) pool [] of
      (p, m) \<Rightarrow> if p = [] \<or> model \<noteq> m then out else append_new out (p @ ''/'' @ m)) out pools). c \<in> set out \<or> candidate mc model c" for out pools
  proof (induction pools arbitrary: out)
    case (Cons pool pools)
    obtain p m where parse: "ParseModelString (ca_KnownProvider mc) pool [] = (p, m)" by (cases "ParseModelString (ca_KnownProvider mc) pool []")
    have "candidate mc model (p @ ''/'' @ m)" if "p \<noteq> []" "model = m" using parse_known [OF parse that(1)] that by (auto simp: candidate_def)
    then show ?case using Cons.IH [of out] Cons.IH [of "append_new out (p @ ''/'' @ m)"] by (auto simp: parse)
  qed simp
  from this [of "[]"] show ?thesis using assms by (simp add: nested_candidates_def)
qed

lemma refine_idempotent: "RefineModelForProvider mc prov model = Inr m \<Longrightarrow> RefineModelForProvider mc prov m = Inr m"
proof (induction mc prov model arbitrary: m rule: RefineModelForProvider.induct)
  case (1 mc prov model)
  obtain prefix rest where parse: "ParseModelString (ca_KnownProvider mc) model [] = (prefix, rest)"
    by (cases "ParseModelString (ca_KnownProvider mc) model []")
  show ?case
  proof (cases "prefix = prov \<and> prefix \<noteq> []")
    case True
    then have "prefix = prov" "prov \<noteq> []" by auto
    then have "RefineModelForProvider mc prov rest = Inr m" using 1(2) parse by (simp add: RefineModelForProvider.simps [of mc prov model])
    then show ?thesis using 1(1) [OF parse [symmetric]] True by blast
  next
    case False
    show ?thesis
    proof (cases "m = model")
      case True
      then show ?thesis using 1(2) by simp
    next
      case changed: False
      then have nested: "prov \<in> set [''groq'', ''replicate'', ''perplexity'', ''openrouter'']" "refineNestedProviderModel mc prov model = Inr m" "prefix = []"
        using 1(2) False parse by (auto simp: RefineModelForProvider.simps [of mc prov model] split: if_splits)
      then have "m \<in> set (nested_candidates mc prov model)" using changed by (auto simp: refineNestedProviderModel_def split: if_splits list.splits)
      then obtain p where p: "p \<noteq> []" "m = p @ ''/'' @ model" "ca_KnownProvider mc p" "CHR ''/'' \<notin> set p"
        using candidate_form unfolding candidate_def by blast
      have "RefineModelForProvider mc prov model = Inr m" by (rule 1(2))
      then show ?thesis using parse_own [of "ca_KnownProvider mc" p model, OF p(3,4)] p(1,2) by (simp add: RefineModelForProvider.simps [of mc prov "p @ ''/'' @ model", simplified])
    qed
  qed
qed


section \<open>Tools of a key\<close>

text \<open>Names of clients hold no dash, a key has one configuration for each client, and a client has one name.\<close>

definition clients_ok :: "(string, string) gomap \<Rightarrow> table_virtual_key \<Rightarrow> bool" where
  "clients_ok allowAll vk \<longleftrightarrow>
     (\<forall>c\<in>set (vk_MCPConfigs vk). CHR ''-'' \<notin> set (vm_ClientName c)) \<and> distinct (map vm_ClientName (vk_MCPConfigs vk)) \<and>
     (\<forall>(i, name)\<in>set allowAll. CHR ''-'' \<notin> set name \<and> (\<forall>c\<in>set (vk_MCPConfigs vk). vm_ClientName c = name \<longrightarrow> vm_ClientID c = i))"

lemma dash_prefix: "CHR ''-'' \<notin> set a \<Longrightarrow> CHR ''-'' \<notin> set b \<Longrightarrow> str_prefix (a @ ''-'') (b @ ''-'' @ t) \<longleftrightarrow> a = b"
proof (induction a arbitrary: b)
  case Nil
  then show ?case by (cases b) (auto simp: str_prefix_def)
next
  case (Cons x a)
  then show ?case by (cases b) (auto simp: str_prefix_def)
qed

definition grants :: "vk_mcp_config \<Rightarrow> string \<Rightarrow> bool" where
  "grants c t = (if t = ''*'' then \<not> wl_IsEmpty (vm_ToolsToExecute c)
     else wl_IsUnrestricted (vm_ToolsToExecute c) \<or> wl_Contains (vm_ToolsToExecute c) t)"

lemma explicit_of_client:
  assumes "\<forall>c\<in>set cs. CHR ''-'' \<notin> set (vm_ClientName c)" and "CHR ''-'' \<notin> set name"
  shows "explicit_tool (name @ ''-'' @ t) cs = map_option (\<lambda>c. grants c t) (List.find (\<lambda>c. vm_ClientName c = name) cs)"
  using assms(1)
proof (induction cs)
  case (Cons c cs)
  have pre: "str_prefix (vm_ClientName c @ ''-'') (name @ ''-'' @ t) \<longleftrightarrow> vm_ClientName c = name" using dash_prefix [of "vm_ClientName c" name t] Cons.prems assms(2) by simp
  show ?case
  proof (cases "vm_ClientName c = name")
    case True
    then show ?thesis using pre by (auto simp: grants_def Let_def)
  next
    case False
    have "name @ ''-'' @ t \<noteq> vm_ClientName c @ ''-'' @ ''*''"
      using False dash_prefix [of "vm_ClientName c" "vm_ClientName c" "''*''"] dash_prefix [of "vm_ClientName c" name t] Cons.prems assms(2) by auto
    then show ?thesis using pre False Cons by (simp add: Let_def)
  qed
qed simp

lemma find_client:
  assumes "distinct (map vm_ClientName cs)" and "c \<in> set cs"
  shows "List.find (\<lambda>c'. vm_ClientName c' = vm_ClientName c) cs = Some c"
  using assms by (induction cs) auto

lemma client_tools_grant:
  assumes "t \<in> set (client_tools c)"
  shows "\<exists>u. t = vm_ClientName c @ ''-'' @ u \<and> grants c u"
proof (cases "wl_IsUnrestricted (vm_ToolsToExecute c)")
  case True
  then have "t = vm_ClientName c @ ''-'' @ ''*''" "\<not> wl_IsEmpty (vm_ToolsToExecute c)" using assms by (auto simp: client_tools_def split: if_splits)
  then show ?thesis by (intro exI [of _ "''*''"]) (simp add: grants_def)
next
  case False
  then obtain u where "t = vm_ClientName c @ ''-'' @ u" "u \<in> set (vm_ToolsToExecute c)" "\<not> wl_IsEmpty (vm_ToolsToExecute c)"
    using assms by (auto simp: client_tools_def split: if_splits)
  then show ?thesis by (intro exI [of _ u]) (auto simp: grants_def wl_Contains_def list_ex_iff equal_fold_def)
qed

lemma set_foldl_append_new: "set (foldl append_new out xs) = set out \<union> set xs"
  by (induction xs arbitrary: out) auto

lemma foldl_all:
  assumes "\<And>out x. \<forall>t\<in>set out. P t \<Longrightarrow> \<forall>t\<in>set (f out x). P t" and "\<forall>t\<in>set out. P t"
  shows "\<forall>t\<in>set (foldl f out xs). P t"
  using assms(2)
proof (induction xs arbitrary: out)
  case (Cons x xs)
  have "\<forall>t\<in>set (foldl f (f out x) xs). P t" by (rule Cons.IH, rule assms(1), rule Cons.prems)
  then show ?case by simp
qed simp

lemma pruned_step_ok:
  assumes "\<forall>t\<in>set tools. isMCPToolAllowedByVKWith allowAll vk t" and "\<forall>t\<in>set out. isMCPToolAllowedByVKWith allowAll vk t"
  shows "\<forall>t\<in>set (prune_step allowAll vk tools out pattern). isMCPToolAllowedByVKWith allowAll vk t"
  using assms by (cases "cut_wildcard pattern") (auto simp: prune_step_def set_foldl_append_new)

lemma clients_okD:
  assumes "clients_ok allowAll vk"
  shows "\<forall>c\<in>set (vk_MCPConfigs vk). CHR ''-'' \<notin> set (vm_ClientName c)" "distinct (map vm_ClientName (vk_MCPConfigs vk))"
    "(i, name) \<in> set allowAll \<Longrightarrow> CHR ''-'' \<notin> set name"
    "(i, name) \<in> set allowAll \<Longrightarrow> c \<in> set (vk_MCPConfigs vk) \<Longrightarrow> vm_ClientName c = name \<Longrightarrow> vm_ClientID c = i"
  using assms unfolding clients_ok_def by fast+

lemma own_tools_allowed:
  assumes "clients_ok allowAll vk" and "c \<in> set (vk_MCPConfigs vk)" and "t \<in> set (client_tools c)"
  shows "isMCPToolAllowedByVKWith allowAll vk t"
proof -
  note names = clients_okD(1,2) [OF assms(1)]
  obtain u where u: "t = vm_ClientName c @ ''-'' @ u" "grants c u" using client_tools_grant [OF assms(3)] by blast
  have "explicit_tool t (vk_MCPConfigs vk) = Some True"
    unfolding u(1) using explicit_of_client [OF names(1), of "vm_ClientName c" u] names(1) assms(2) find_client [OF names(2) assms(2)] u(2) by simp
  then show ?thesis by (simp add: isMCPToolAllowedByVKWith_def)
qed

lemma shared_tools_allowed:
  assumes "clients_ok allowAll vk" and "(i, name) \<in> set allowAll" and "i \<notin> set (map vm_ClientID (vk_MCPConfigs vk))"
  shows "isMCPToolAllowedByVKWith allowAll vk (name @ ''-*'')"
proof -
  have "List.find (\<lambda>c. vm_ClientName c = name) (vk_MCPConfigs vk) = None"
    unfolding find_None_iff using clients_okD(4) [OF assms(1,2)] assms(3) by (metis image_eqI set_map)
  then have "explicit_tool (name @ ''-'' @ ''*'') (vk_MCPConfigs vk) = None"
    using explicit_of_client [OF clients_okD(1) [OF assms(1)] clients_okD(3) [OF assms(1,2)], of "''*''"] by simp
  moreover have "list_ex (\<lambda>(_, n). str_prefix (n @ ''-'') (name @ ''-*'') \<or> name @ ''-*'' = n @ ''-*'') allowAll"
    unfolding list_ex_iff using assms(2) by (intro bexI [of _ "(i, name)"]) simp_all
  ultimately show ?thesis by (simp add: isMCPToolAllowedByVKWith_def)
qed


definition tool_key :: table_virtual_key where
  "tool_key = team_key\<lparr>vk_MCPConfigs := [\<lparr>vm_ClientID = ''1'', vm_ClientName = ''web'', vm_ToolsToExecute = [''search'']\<rparr>]\<rparr>"


end
