(* ===== verification/Spec2Isabelle.thy ===== *)
theory Spec2Isabelle
  imports Lrucache Fallback Worker Queues Routing
begin

text \<open>
  \<^bold>\<open>Verification of the routing core of the celer-route gateway\<close>

  celer-route is a gateway in front of AI model providers, written in Go. A client sends a request to one
  endpoint; the gateway chooses a provider and one of the API keys configured for it, calls the provider, retries,
  rotates keys, falls back to other providers, and runs plugins around it all. This development models the part that
  decides what happens to a request, from the entry points of \<open>src/core/bifrost.go\<close> down to the call of a provider
  adapter, the governance plugin (\<open>src/plugins/governance\<close>) that admits, redirects and charges requests, and the stores
  these parts rely on.

  \<^bold>\<open>The path of a request\<close>, from the outside in, with the theory that models each part:

  \<^item> \<open>Fallback\<close>: \<open>handleRequest\<close> and \<open>handleStreamRequest\<close> validate the request, make an attempt at its primary
    provider and, if the error permits, at its fallbacks in order. The record \<open>chain\<close> lets both share one loop
    (\<open>handle\<close>, \<open>run_chain\<close>, \<open>try_fallbacks\<close>); \<open>prepareFallbackRequest\<close> and \<open>clearCtxForFallback\<close> are translated
    literally. A nil dereference is the outcome \<open>Panicked\<close>.
  \<^item> \<open>PluginPipeline\<close>: the hooks plugins run before a request, before and after an attempt, with short-circuits
    and the reserved context keys.
  \<^item> \<open>Dispatch\<close>: one attempt, \<open>tryRequest\<close> or \<open>tryStreamRequest\<close>: pre-hooks, the queue, the wait for a worker and
    the post-hooks in reverse. Which case of a Go \<open>select\<close> wins is given by a record \<open>schedule\<close> that the
    theorems quantify over.
  \<^item> \<open>Queues\<close>: the queue between attempts and workers over the life of a provider, a step relation in which callers,
    workers and the goroutines that prepare, update, remove or shut down the provider interleave. It shows
    what the \<open>schedule\<close> of \<open>Dispatch\<close> leaves open: what can happen to a message between its sending and its answer.
  \<^item> \<open>Worker\<close>: what a worker does with one message of its queue (\<open>requestWorkerServe\<close>): context stamps, capture of raw
    payloads, choice of the key source, alias resolution, retries, labelling and delivery. Its definitions
    \<open>unary_worker\<close> and \<open>stream_worker\<close> are instances of the worker that \<open>Dispatch\<close> takes as an argument.
  \<^item> \<open>Retry\<close>: \<open>executeRequestWithRetries\<close> with the classification of errors, the attempt trail, dead and used keys, backoff
    and the fail-soft for rejected encrypted reasoning.
  \<^item> \<open>KeySelection\<close>: which keys may serve a request, session stickiness, weighted selection, the fixed and the rotating
    key provider, and the backoff arithmetic on \<open>float64\<close> (\<open>Floats\<close>).
  \<^item> \<open>Aliases\<close>: model aliases of a key and model families.
  \<^item> \<open>Cooldown\<close> and \<open>CooldownPolicy\<close>: the provider-cooldown plugin, which remembers keys that hit a rate limit and vetoes
    them for a while, and the policies that say which errors do so.
  \<^item> \<open>Budgets\<close> and \<open>Windows\<close>: the budgets and rate limits of the governance plugin, what a request is charged, when their
    counters are reset, how many windows an override lives, and the calendar arithmetic the windows rest on
    (Go's \<open>time\<close> package on proleptic Gregorian days, \<open>ParseDuration\<close>, \<open>GetCalendarPeriodStart\<close>).
  \<^item> \<open>Hierarchy\<close>: the in-memory store of the governance plugin (\<open>store.go\<close>): virtual keys, teams, customers, providers, model
    configurations and team policies, whose rows name the budgets and rate limits they own. The record \<open>gov\<close> holds
    one map per entity; every edit of the store (\<open>CreateVirtualKeyInMemory\<close>, \<open>UpdateTeamInMemory\<close> and so on), the
    collection of the rows above a key, and the checks and charges of each level are definitions over it.
  \<^item> \<open>Governance\<close>: the decision and the bill. \<open>EvaluateGovernanceRequest\<close> walks provider, model, user, virtual key, team and customer
    (\<open>resolver.go\<close>); the hooks of the plugin (\<open>gov_PreLLMHook\<close>, \<open>gov_PostLLMHook\<close>, \<open>gov_PreMCPHook\<close>,
    \<open>gov_PostMCPHook\<close>) refuse a request or hand its usage to the tracker (\<open>UpdateUsage\<close>), which claims the bill of an
    attempt once.
  \<^item> \<open>Routing\<close>: the hook that runs before the request (\<open>gov_PreRequestHook\<close>): routing rules with their scopes, chains, weights and
    cached programs, the weighted choice of a provider of the virtual key, the allow-list it publishes, and the tools
    a key grants.
  \<^item> \<open>Kvstore\<close>: the replicated key-value store with expiry that holds session keys. \<open>Lrucache\<close>: the LRU cache with
    single-flight fill of the framework.
  \<^item> \<open>Schemas\<close>, \<open>Requests\<close>, \<open>Prelude\<close>: the data model (keys, errors, requests, the request context), Go's integers,
    maps and strings, and the lemmas they share.

  \<^bold>\<open>Conventions.\<close> A Go struct is a record, a pointer an option, a map an association list with unique keys in the order of
  one iteration. Errors are values; a panic is a value of its own where a path can reach one. Machine integers are
  \<open>int\<close> with \<open>wrap64\<close> where overflow can matter and 64-bit words for the generation counters. The request
  context is the record \<open>bctx\<close> with a field for each key the modelled code uses. Code with side effects takes and
  returns a world of arbitrary type. Time is an argument. Plugins, provider adapters, the account, JSON
  libraries, hash functions and random sources are arguments of the definitions; theorems state what they need of them.
  Interfaces are locales interpreted on the model's own definitions: the session store (on \<open>Kvstore\<close>), the pool
  filter (on the cooldown plugin), the key selector (on weighted selection), the key provider (on the fixed
  and rotating ones, and again on the worker's), the hook counter (on both kinds of pre-hooks),
  a grid of periods (on days, weeks, months, quarters, years and rolling windows), and a charge applied to
  the rows of a list of names (on budgets and on rate limits).

  \<^bold>\<open>What is proved.\<close> The stores: every run of the key-value store is a run of a timed map, conditional writes win once, remote
  writes converge, a replica that replays the notifications agrees; the cache refines a bounded recency list, never
  serves a value loaded before an invalidation, and loads a key once at a time. Cooldowns: a mark suppresses exactly
  its key for exactly its time, the filter is exact, the counters add up, the retry hint is bounded. Keys: sessions stick
  to their key, also when two requests race; the weights give the shares; rotation is characterised; every upstream
  call uses an eligible key and none that was refused before. Retries: they end within their budget (by a measure, not by
  fuel) and leave an exact trail. Attempts: hooks are paired, reserved keys are protected, and what a response says
  about its origin is true. Fallbacks: which providers are tried in which order and what the caller gets; a request is
  served if a fallback can serve it. Queues: by rule induction over all interleavings, a queued request is settled
  exactly once or still in exactly one place, and a waiting caller is forgotten only in the three situations
  the theorem names. Budgets: a counter is the spending since the start of its current window, an override lives
  exactly the windows it was granted, concurrent charges are not lost, and the count of periods between two instants
  counts the boundaries between them. Governance: every edit keeps the store well formed, a rotated secret no longer
  authenticates, a request is admitted exactly if every level on its path admits it, which models a key may use, every
  applicable row is charged and the same attempt is billed at most once. Routing: the rule lists stay sorted, unique and
  filed under their own scope, the engine ends and its first match decides, load balancing picks an eligible provider with
  room in its limits, and the published tools are within the grant of the key. Several theorems exhibit defects of the code, which the manifest lists.

  \<^bold>\<open>Bounds and fuel.\<close> No definition uses fuel. The retry loop terminates by the lexicographic order of the pending strip and the
  remaining attempts, a chain of routing rules by the number of steps left below its configured depth. The text operations treat strings as bytes and fold case in ASCII.

  \<^bold>\<open>Not modelled\<close>: the provider adapters (wire formats and HTTP), the HTTP transport with its handlers, the databases, logging, telemetry
  and tracing, and the clients and the agent loop of MCP, which either perform input and output or are separate
  subsystems. Within governance: loading from and dumping to the database, alerts, the analysis of prompt complexity and
  the HTTP hooks; the CEL library that compiles and evaluates the condition of a rule, the pricing of a response and the
  model catalogue's data are arguments. Object pools, timing spans and debug output of the modelled parts do not
  influence results.
\<close>

end
